(* ===== verification/Prelude.thy ===== *)
theory Prelude
  imports Main "HOL-Library.Word" "HOL-Library.Monad_Syntax"
begin

unbundle bit_operations_syntax

text \<open>
  Shared vocabulary of the windows-libc development.

  \<^item> \<open>errno\<close> lists the error numbers of include/errno.h that the modelled functions store, and
    \<open>'a res\<close> is the result of a C function that reports failure: \<open>Inr v\<close> is a normal return,
    \<open>Inl (Some e)\<close> a failure return that stored \<open>e\<close> in errno, \<open>Inl None\<close> a failure return
    that left errno alone.
  \<^item> \<open>'a ub\<close> is the result of code that reads or writes C arrays: \<open>None\<close> stands for an access
    outside the array (undefined behaviour), so a theorem that a call is \<open>Some\<close> is a memory
    safety statement. \<open>load\<close>, \<open>store\<close> and \<open>for_from\<close> are array reads, array writes and
    counted loops in that style.
  \<^item> Bit lemmas for the flag words and bit sets, and the intrinsics \<open>_BitScanForward\<close> and
    \<open>__popcnt64\<close>.
\<close>

section \<open>Errors and results\<close>

datatype errno =
    EPERM | ENOENT | ESRCH | EINTR | EIO | E2BIG | EBADF | ECHILD | EAGAIN | ENOMEM | EACCES
  | EFAULT | EBUSY | EEXIST | ENOTDIR | EISDIR | EINVAL | EMFILE | ENOSPC | ESPIPE | EROFS
  | EPIPE | ERANGE | EDEADLK | ENAMETOOLONG | ENOLCK | ENOSYS | ENOTEMPTY | ENOTSUP
  | EOVERFLOW | ETIMEDOUT | ELOOP | ENOEXEC

type_synonym 'a res = "errno option + 'a"
type_synonym 'a ub = "'a option"

abbreviation fail_with :: "errno \<Rightarrow> 'a res" where
  "fail_with e \<equiv> Inl (Some e)"

abbreviation fail_silent :: "'a res" where
  "fail_silent \<equiv> Inl None"

named_theorems c_array \<open>rules for C array accesses and counted loops\<close>
named_theorems bit_rules \<open>rules that read single bits of flag words\<close>

section \<open>C arrays and counted loops\<close>

definition load :: "'a list \<Rightarrow> nat \<Rightarrow> 'a ub" where
  "load xs i = (if i < length xs then Some (xs ! i) else None)"

definition store :: "nat \<Rightarrow> 'a \<Rightarrow> 'a list \<Rightarrow> 'a list ub" where
  "store i v xs = (if i < length xs then Some (xs[i := v]) else None)"

fun for_from :: "nat \<Rightarrow> nat \<Rightarrow> (nat \<Rightarrow> 's \<Rightarrow> 's ub) \<Rightarrow> 's \<Rightarrow> 's ub" where
  "for_from i 0 body s = Some s"
| "for_from i (Suc k) body s = Option.bind (body i s) (for_from (Suc i) k body)"

lemma load_in [simp]: "i < length xs \<Longrightarrow> load xs i = Some (xs ! i)"
  by (simp add: load_def)

lemma load_eq_Some_iff: "load xs i = Some v \<longleftrightarrow> i < length xs \<and> xs ! i = v"
  by (auto simp: load_def)

lemma load_eq_None_iff: "load xs i = None \<longleftrightarrow> length xs \<le> i"
  by (auto simp: load_def)

lemma store_in [simp]: "i < length xs \<Longrightarrow> store i v xs = Some (xs[i := v])"
  by (simp add: store_def)

lemma store_eq_Some_iff: "store i v xs = Some ys \<longleftrightarrow> i < length xs \<and> ys = xs[i := v]"
  by (auto simp: store_def)

lemma load_store: "store i v xs = Some ys \<Longrightarrow> load ys j = (if j = i then Some v else load xs j)"
  by (auto simp: store_eq_Some_iff load_def)

lemma for_from_stores:
  "i + k \<le> length xs \<Longrightarrow>
   for_from i k (\<lambda>j ys. store j (f j) ys) xs = Some (take i xs @ map f [i..<i + k] @ drop (i + k) xs)"
proof (induction k arbitrary: i xs)
  case 0
  then show ?case by simp
next
  case (Suc k)
  then have i: "i < length xs" by simp
  have "for_from i (Suc k) (\<lambda>j ys. store j (f j) ys) xs
      = for_from (Suc i) k (\<lambda>j ys. store j (f j) ys) (xs[i := f i])"
    using i by simp
  also have "\<dots> = Some (take (Suc i) (xs[i := f i]) @ map f [Suc i..<Suc i + k]
      @ drop (Suc i + k) (xs[i := f i]))"
    using Suc by (intro Suc.IH) simp
  also have "take (Suc i) (xs[i := f i]) = take i xs @ [f i]"
    using i by (simp add: take_Suc_conv_app_nth)
  finally have "for_from i (Suc k) (\<lambda>j ys. store j (f j) ys) xs
      = Some (take i xs @ f i # map f [Suc i..<i + Suc k] @ drop (i + Suc k) xs)"
    by simp
  moreover have "[i..<i + Suc k] = i # [Suc i..<i + Suc k]" by (rule upt_conv_Cons) simp
  ultimately show ?case by (simp del: upt_Suc for_from.simps)
qed

lemma for_from_fill [c_array]:
  "n \<le> length xs \<Longrightarrow> for_from 0 n (\<lambda>j ys. store j (f j) ys) xs = Some (map f [0..<n] @ drop n xs)"
  using for_from_stores [of 0 n xs f] by simp

lemma for_from_cong:
  "(\<And>j s. i \<le> j \<Longrightarrow> j < i + k \<Longrightarrow> f j s = g j s) \<Longrightarrow> for_from i k f s = for_from i k g s"
proof (induction k arbitrary: i s)
  case 0
  then show ?case by simp
next
  case (Suc k)
  have "f i s = g i s" by (rule Suc.prems) auto
  moreover have "for_from (Suc i) k f t = for_from (Suc i) k g t" for t
    by (rule Suc.IH) (rule Suc.prems; simp)
  ultimately show ?case by (cases "g i s") simp_all
qed

lemma for_from_inv:
  assumes "P i s"
    and "\<And>j s. i \<le> j \<Longrightarrow> j < i + k \<Longrightarrow> P j s \<Longrightarrow> \<exists>s'. body j s = Some s' \<and> P (Suc j) s'"
  shows "\<exists>s'. for_from i k body s = Some s' \<and> P (i + k) s'"
  using assms
proof (induction k arbitrary: i s)
  case 0
  then show ?case by simp
next
  case (Suc k)
  obtain t where t: "body i s = Some t" "P (Suc i) t" using Suc.prems(1) Suc.prems(2) [of i s] by auto
  have "\<exists>s'. for_from (Suc i) k body t = Some s' \<and> P (Suc i + k) s'"
    by (rule Suc.IH [OF t(2)]) (rule Suc.prems(2); simp)
  then show ?case using t(1) by simp
qed

lemma nth_update_if: "xs[i := v] ! j = (if j = i \<and> i < length xs then v else xs ! j)"
  by (cases "i < length xs") (auto simp: nth_list_update list_update_beyond not_less)

lemma filter_eq_upt: "a \<le> n \<Longrightarrow> n < b \<Longrightarrow> filter (\<lambda>i. i = n) [a..<b] = [n]"
proof -
  assume n: "a \<le> n" "n < b"
  then have "[a..<b] = [a..<n] @ n # [Suc n..<b]"
    using upt_add_eq_append [of a n "b - n"] by (simp add: upt_conv_Cons)
  then show ?thesis by (simp add: filter_empty_conv)
qed

section \<open>Bits\<close>

definition bit_scan_forward :: "'a::len word \<Rightarrow> nat option" where
  "bit_scan_forward w = List.find (bit w) [0..<LENGTH('a)]"

definition popcnt :: "'a::len word \<Rightarrow> nat" where
  "popcnt w = length (filter (bit w) [0..<LENGTH('a)])"

lemma bit_shifted_one [bit_rules]:
  "bit (2 ^ m :: 'a::len word) n \<longleftrightarrow> n = m \<and> n < LENGTH('a)"
  by (auto simp: bit_exp_iff)

lemma and_shifted_one_eq_0 [bit_rules]:
  "(w AND 2 ^ n = (0 :: 'a::len word)) \<longleftrightarrow> \<not> (n < LENGTH('a) \<and> bit w n)"
proof
  assume eq: "w AND 2 ^ n = 0"
  have "bit (w AND 2 ^ n) n = False" by (subst eq) simp
  then show "\<not> (n < LENGTH('a) \<and> bit w n)" by (auto simp: bit_and_iff bit_shifted_one)
next
  assume "\<not> (n < LENGTH('a) \<and> bit w n)"
  then show "w AND 2 ^ n = 0"
    by (intro bit_word_eqI) (auto simp: bit_and_iff bit_shifted_one)
qed

lemma bit_word_less [simp, dest]: "bit (w :: 'a::len word) n \<Longrightarrow> n < LENGTH('a)"
  by (rule bit_imp_le_length)

lemma popcnt_card: "popcnt (w :: 'a::len word) = card {n. bit w n}"
proof -
  have "{n. bit w n} = set (filter (bit w) [0..<LENGTH('a)])" by auto
  then show ?thesis
    by (simp add: popcnt_def distinct_card del: set_filter)
qed

lemma popcnt_le: "popcnt (w :: 'a::len word) \<le> LENGTH('a)"
  unfolding popcnt_def by (rule order_trans [OF length_filter_le]) simp

lemma bit_scan_forward_Some:
  "bit_scan_forward (w :: 'a::len word) = Some n \<longleftrightarrow>
     n < LENGTH('a) \<and> bit w n \<and> (\<forall>m < n. \<not> bit w m)"
  by (auto simp: bit_scan_forward_def find_Some_iff nth_append intro!: exI [of _ n])

lemma bit_scan_forward_None: "bit_scan_forward (w :: 'a::len word) = None \<longleftrightarrow> w = 0"
proof
  assume "bit_scan_forward w = None"
  then show "w = 0"
    by (intro bit_word_eqI) (auto simp: bit_scan_forward_def find_None_iff)
qed (simp add: bit_scan_forward_def find_None_iff)

lemma div_mod_eq_iff: "(i :: nat) div k = j div k \<and> i mod k = j mod k \<longleftrightarrow> i = j"
  by (metis div_mult_mod_eq)

section \<open>Little-endian memory\<close>

type_synonym byte = "8 word"

fun le_bytes :: "nat \<Rightarrow> nat \<Rightarrow> byte list" where
  "le_bytes 0 n = []"
| "le_bytes (Suc k) n = of_nat n # le_bytes k (n div 256)"

fun le_val :: "byte list \<Rightarrow> nat" where
  "le_val [] = 0"
| "le_val (b # bs) = unat b + 256 * le_val bs"

text \<open>Reading and writing a \<open>k\<close>-byte integer at an offset of a memory block.\<close>

definition read_le :: "nat \<Rightarrow> nat \<Rightarrow> byte list \<Rightarrow> nat ub" where
  "read_le k off bs = (if off + k \<le> length bs then Some (le_val (take k (drop off bs))) else None)"

definition write_le :: "nat \<Rightarrow> nat \<Rightarrow> nat \<Rightarrow> byte list \<Rightarrow> byte list ub" where
  "write_le k off v bs =
     (if off + k \<le> length bs then Some (take off bs @ le_bytes k v @ drop (off + k) bs) else None)"

lemma length_le_bytes [simp]: "length (le_bytes k n) = k"
  by (induction k arbitrary: n) auto

lemma le_val_le_bytes: "le_val (le_bytes k n) = n mod 256 ^ k"
proof (induction k arbitrary: n)
  case 0
  then show ?case by simp
next
  case (Suc k)
  have "le_val (le_bytes (Suc k) n) = n mod 256 + 256 * (n div 256 mod 256 ^ k)"
    by (simp add: Suc unat_of_nat)
  also have "\<dots> = n mod (256 * 256 ^ k)"
    by (simp add: mod_mult2_eq)
  finally show ?case by simp
qed

lemma read_write_le_same:
  "write_le k off v bs = Some bs' \<Longrightarrow> read_le k off bs' = Some (v mod 256 ^ k) \<and> length bs' = length bs"
  by (auto simp: write_le_def read_le_def le_val_le_bytes split: if_splits)

lemma nth_write_le:
  "write_le k off v bs = Some bs' \<Longrightarrow> i < off \<or> off + k \<le> i \<Longrightarrow> bs' ! i = bs ! i"
proof -
  assume w: "write_le k off v bs = Some bs'" and i: "i < off \<or> off + k \<le> i"
  from w have len: "off + k \<le> length bs" and bs': "bs' = (take off bs @ le_bytes k v) @ drop (off + k) bs"
    by (auto simp: write_le_def split: if_splits)
  have pre: "length (take off bs @ le_bytes k v) = off + k" using len by simp
  from i show "bs' ! i = bs ! i"
  proof
    assume "i < off"
    then show ?thesis using len by (simp add: bs' nth_append)
  next
    assume "off + k \<le> i"
    then show ?thesis unfolding bs' nth_append pre using len by simp
  qed
qed

lemma take_drop_eq_iff:
  assumes "length xs = length ys" "off + k \<le> length xs"
  shows "take k (drop off xs) = take k (drop off ys) \<longleftrightarrow> (\<forall>i. off \<le> i \<and> i < off + k \<longrightarrow> xs ! i = ys ! i)"
proof -
  have "take k (drop off xs) = take k (drop off ys) \<longleftrightarrow> (\<forall>j < k. xs ! (off + j) = ys ! (off + j))"
    using assms by (simp add: list_eq_iff_nth_eq)
  also have "\<dots> \<longleftrightarrow> (\<forall>i. off \<le> i \<and> i < off + k \<longrightarrow> xs ! i = ys ! i)"
    by (metis add.commute le_Suc_ex nat_add_left_cancel_less le_add1)
  finally show ?thesis .
qed

lemma read_le_cong:
  assumes "length xs = length ys" "\<And>i. off \<le> i \<Longrightarrow> i < off + k \<Longrightarrow> xs ! i = ys ! i"
  shows "read_le k off xs = read_le k off ys"
proof (cases "off + k \<le> length xs")
  case True
  then have "take k (drop off xs) = take k (drop off ys)"
    using assms take_drop_eq_iff [OF assms(1) True] by blast
  then show ?thesis using assms(1) True by (simp add: read_le_def)
next
  case False
  then show ?thesis using assms(1) by (simp add: read_le_def)
qed

lemma read_write_le_other:
  assumes "write_le k off v bs = Some bs'" "off' + k' \<le> off \<or> off + k \<le> off'"
  shows "read_le k' off' bs' = read_le k' off' bs"
  by (rule read_le_cong) (use assms nth_write_le [OF assms(1)] read_write_le_same [OF assms(1)] in auto)

section \<open>Counting in words\<close>

lemma unat_less_Suc: "(x :: 'a::len word) < y \<Longrightarrow> unat (x + 1) = Suc (unat x)"
proof -
  assume "x < y"
  then have "Suc (unat x) < 2 ^ LENGTH('a)" by (intro le_less_trans [OF _ unsigned_less [of y]]) (simp add: word_less_nat_alt)
  then show ?thesis by (simp add: unat_word_ariths)
qed

lemma sint_of_nat_small: "n < 2 ^ 31 \<Longrightarrow> sint (of_nat n :: 32 word) = int n"
  by (simp add: signed_of_nat signed_take_bit_int_eq_self)

section \<open>size_t arithmetic on natural numbers\<close>

definition size_sub :: "nat \<Rightarrow> nat \<Rightarrow> nat" where
  "size_sub a b = (if b \<le> a then a - b else a + 2 ^ 64 - b)"

lemma size_sub_le [simp]: "b \<le> a \<Longrightarrow> size_sub a b = a - b"
  by (simp add: size_sub_def)

section \<open>Signed 64-bit arithmetic on integers\<close>

text \<open>The values of \<open>intmax_t\<close>: a result outside them is undefined.\<close>

definition in_imax :: "int \<Rightarrow> bool" where
  "in_imax v \<longleftrightarrow> - (2 ^ 63) \<le> v \<and> v < 2 ^ 63"

end
