(* ===== verification/BitSets.thy ===== *)
theory BitSets
  imports Prelude
begin

unbundle bit_operations_syntax

text \<open>
  The three bit-set types of the library: \<open>cpu_set_t\<close> (src/sched/cpuset.c), \<open>fd_set\<close>
  (src/poll/fdset.c) and \<open>sigset_t\<close> (src/signal/sigprocmask.c). All three promise the same
  interface, a set of small integers with checked insertion, removal and membership; the locale
  \<open>checked_bitset\<close> states that contract, proves once that any sequence of operations
  implements the same sequence on a mathematical set, and is interpreted on each of them.
  A NULL pointer argument is \<open>None\<close>.
\<close>

section \<open>The contract\<close>

datatype bitop = SetBit int | ClrBit int

text \<open>What a sequence of operations does to a mathematical set with elements in a range:
  an operation outside the range is rejected and changes nothing.\<close>

fun abs_bitop :: "int set \<Rightarrow> bitop \<Rightarrow> int set \<Rightarrow> int set" where
  "abs_bitop U (SetBit i) A = (if i \<in> U then insert i A else A)"
| "abs_bitop U (ClrBit i) A = (if i \<in> U then A - {i} else A)"

fun abs_bitops :: "int set \<Rightarrow> bitop list \<Rightarrow> int set \<Rightarrow> int set" where
  "abs_bitops U [] A = A"
| "abs_bitops U (x # xs) A = abs_bitops U xs (abs_bitop U x A)"

text \<open>The same sequence on an implementation whose calls leave the set alone on failure.\<close>

fun run_bitop ::
  "(int \<Rightarrow> 's \<Rightarrow> 's res ub) \<Rightarrow> (int \<Rightarrow> 's \<Rightarrow> 's res ub) \<Rightarrow> bitop \<Rightarrow> 's \<Rightarrow> 's ub" where
  "run_bitop setb clrb (SetBit i) s =
     map_option (\<lambda>r. case r of Inl _ \<Rightarrow> s | Inr s' \<Rightarrow> s') (setb i s)"
| "run_bitop setb clrb (ClrBit i) s =
     map_option (\<lambda>r. case r of Inl _ \<Rightarrow> s | Inr s' \<Rightarrow> s') (clrb i s)"

fun run_bitops ::
  "(int \<Rightarrow> 's \<Rightarrow> 's res ub) \<Rightarrow> (int \<Rightarrow> 's \<Rightarrow> 's res ub) \<Rightarrow> bitop list \<Rightarrow> 's \<Rightarrow> 's ub" where
  "run_bitops setb clrb [] s = Some s"
| "run_bitops setb clrb (x # xs) s =
     Option.bind (run_bitop setb clrb x s) (run_bitops setb clrb xs)"

locale checked_bitset =
  fixes setb clrb :: "int \<Rightarrow> 's \<Rightarrow> 's res ub"
    and isset :: "int \<Rightarrow> 's \<Rightarrow> bool res ub"
    and universe :: "'s \<Rightarrow> int set"
    and elems :: "'s \<Rightarrow> int set"
    and invar :: "'s \<Rightarrow> bool"
  assumes elems_universe: "invar s \<Longrightarrow> elems s \<subseteq> universe s"
    and setb_ok: "invar s \<Longrightarrow> i \<in> universe s \<Longrightarrow>
      \<exists>s'. setb i s = Some (Inr s') \<and> invar s' \<and> universe s' = universe s
        \<and> elems s' = insert i (elems s)"
    and setb_err: "invar s \<Longrightarrow> i \<notin> universe s \<Longrightarrow> setb i s = Some (fail_with EINVAL)"
    and clrb_ok: "invar s \<Longrightarrow> i \<in> universe s \<Longrightarrow>
      \<exists>s'. clrb i s = Some (Inr s') \<and> invar s' \<and> universe s' = universe s
        \<and> elems s' = elems s - {i}"
    and clrb_err: "invar s \<Longrightarrow> i \<notin> universe s \<Longrightarrow> clrb i s = Some (fail_with EINVAL)"
    and isset_ok: "invar s \<Longrightarrow> i \<in> universe s \<Longrightarrow> isset i s = Some (Inr (i \<in> elems s))"
    and isset_err: "invar s \<Longrightarrow> i \<notin> universe s \<Longrightarrow> isset i s = Some (fail_with EINVAL)"
begin

lemma run_bitop_refines:
  assumes "invar s"
  shows "\<exists>s'. run_bitop setb clrb x s = Some s' \<and> invar s' \<and> universe s' = universe s
    \<and> elems s' = abs_bitop (universe s) x (elems s)"
proof (cases x)
  case (SetBit i)
  then show ?thesis
    using setb_ok [OF assms, of i] setb_err [OF assms, of i] assms
    by (cases "i \<in> universe s") auto
next
  case (ClrBit i)
  then show ?thesis
    using clrb_ok [OF assms, of i] clrb_err [OF assms, of i] assms
    by (cases "i \<in> universe s") auto
qed

lemma run_bitops_refines:
  "invar s \<Longrightarrow> \<exists>s'. run_bitops setb clrb xs s = Some s' \<and> invar s' \<and> universe s' = universe s
    \<and> elems s' = abs_bitops (universe s) xs (elems s)"
proof (induction xs arbitrary: s)
  case Nil
  then show ?case by simp
next
  case (Cons x xs)
  obtain t where t: "run_bitop setb clrb x s = Some t" "invar t" "universe t = universe s"
      "elems t = abs_bitop (universe s) x (elems s)"
    using run_bitop_refines [OF Cons.prems] by blast
  from Cons.IH [OF t(2)] t show ?case by simp
qed

lemma isset_after_run:
  assumes "invar s" and "i \<in> universe s"
  shows "Option.bind (run_bitops setb clrb xs s) (isset i)
    = Some (Inr (i \<in> abs_bitops (universe s) xs (elems s)))"
proof -
  obtain s' where s': "run_bitops setb clrb xs s = Some s'" "invar s'" "universe s' = universe s"
      "elems s' = abs_bitops (universe s) xs (elems s)"
    using run_bitops_refines [OF assms(1)] by blast
  from s' assms(2) show ?thesis by (simp add: isset_ok)
qed

end

section \<open>cpu_set_t\<close>

record cpu_set =
  num_groups :: int
  num_cpus :: int
  group_mask :: "64 word list"

definition wlibc_cpu_alloc_size :: "int \<Rightarrow> int res" where
  "wlibc_cpu_alloc_size n = (if n \<le> 0 then fail_with EINVAL else Inr (16 + ((n - 1) div 64) * 8))"

text \<open>The loop that \<open>wlibc_cpu_alloc\<close> and \<open>wlibc_cpu_zero\<close> share.\<close>

definition zero_groups :: "cpu_set \<Rightarrow> cpu_set ub" where
  "zero_groups s = map_option (\<lambda>m. s\<lparr>group_mask := m\<rparr>)
     (for_from 0 (nat (num_groups s)) (\<lambda>i m. store i 0 m) (group_mask s))"

text \<open>\<open>heap_ok\<close> says whether the heap grants the block, \<open>junk\<close> what the block holds before it is
  initialised; the block has room for the masks its byte size leaves after the two counters.\<close>

definition wlibc_cpu_alloc :: "bool \<Rightarrow> (nat \<Rightarrow> 64 word) \<Rightarrow> int \<Rightarrow> cpu_set res ub" where
  "wlibc_cpu_alloc heap_ok junk n =
     (if n \<le> 0 then Some (fail_with EINVAL)
      else if \<not> heap_ok then Some fail_silent
      else map_option Inr (zero_groups
        \<lparr>num_groups = n div 64 + (if n mod 64 = 0 then 0 else 1),
         num_cpus = n,
         group_mask = map junk [0..<nat ((16 + ((n - 1) div 64) * 8 - 8) div 8)]\<rparr>))"

definition wlibc_cpu_zero :: "cpu_set option \<Rightarrow> cpu_set res ub" where
  "wlibc_cpu_zero p = (case p of None \<Rightarrow> Some (fail_with EINVAL) | Some s \<Rightarrow> map_option Inr (zero_groups s))"

definition wlibc_cpu_set :: "int \<Rightarrow> cpu_set option \<Rightarrow> cpu_set res ub" where
  "wlibc_cpu_set cpu p = (case p of None \<Rightarrow> Some (fail_with EINVAL) | Some s \<Rightarrow>
     if cpu < 0 \<or> cpu \<ge> num_cpus s then Some (fail_with EINVAL)
     else do {
       m \<leftarrow> load (group_mask s) (nat (cpu div 64));
       ms \<leftarrow> store (nat (cpu div 64)) (m OR push_bit (nat (cpu mod 64)) 1) (group_mask s);
       Some (Inr (s\<lparr>group_mask := ms\<rparr>)) })"

definition wlibc_cpu_clr :: "int \<Rightarrow> cpu_set option \<Rightarrow> cpu_set res ub" where
  "wlibc_cpu_clr cpu p = (case p of None \<Rightarrow> Some (fail_with EINVAL) | Some s \<Rightarrow>
     if cpu < 0 \<or> cpu \<ge> num_cpus s then Some (fail_with EINVAL)
     else do {
       m \<leftarrow> load (group_mask s) (nat (cpu div 64));
       ms \<leftarrow> store (nat (cpu div 64)) (m AND NOT (push_bit (nat (cpu mod 64)) 1)) (group_mask s);
       Some (Inr (s\<lparr>group_mask := ms\<rparr>)) })"

definition wlibc_cpu_isset :: "int \<Rightarrow> cpu_set option \<Rightarrow> bool res ub" where
  "wlibc_cpu_isset cpu p = (case p of None \<Rightarrow> Some (fail_with EINVAL) | Some s \<Rightarrow>
     if cpu < 0 \<or> cpu \<ge> num_cpus s then Some (fail_with EINVAL)
     else do {
       m \<leftarrow> load (group_mask s) (nat (cpu div 64));
       Some (Inr (m AND push_bit (nat (cpu mod 64)) 1 \<noteq> 0)) })"

definition wlibc_cpu_count :: "cpu_set option \<Rightarrow> int res ub" where
  "wlibc_cpu_count p = (case p of None \<Rightarrow> Some (fail_with EINVAL) | Some s \<Rightarrow>
     map_option Inr (for_from 0 (nat (num_groups s))
       (\<lambda>i count. map_option (\<lambda>m. count + int (popcnt m)) (load (group_mask s) i)) 0))"

text \<open>The three binary operations differ only in the word operation.\<close>

definition cpu_combine ::
  "(64 word \<Rightarrow> 64 word \<Rightarrow> 64 word) \<Rightarrow> cpu_set option \<Rightarrow> cpu_set option \<Rightarrow> cpu_set option \<Rightarrow> cpu_set res ub" where
  "cpu_combine f dest src1 src2 = (case (dest, src1, src2) of
     (Some d, Some s1, Some s2) \<Rightarrow>
       if \<not> (num_groups d = num_groups s1 \<and> num_groups d = num_groups s2) then Some (fail_with EINVAL)
       else map_option (\<lambda>ms. Inr (d\<lparr>group_mask := ms\<rparr>))
         (for_from 0 (nat (num_groups d))
           (\<lambda>i ms. do { a \<leftarrow> load (group_mask s1) i; b \<leftarrow> load (group_mask s2) i; store i (f a b) ms })
           (group_mask d))
   | _ \<Rightarrow> Some (fail_with EINVAL))"

definition wlibc_cpu_and where "wlibc_cpu_and = cpu_combine (AND)"
definition wlibc_cpu_or where "wlibc_cpu_or = cpu_combine (OR)"
definition wlibc_cpu_xor where "wlibc_cpu_xor = cpu_combine (XOR)"

fun groups_differ :: "nat \<Rightarrow> nat \<Rightarrow> 64 word list \<Rightarrow> 64 word list \<Rightarrow> bool ub" where
  "groups_differ i 0 m1 m2 = Some False"
| "groups_differ i (Suc k) m1 m2 = do {
     a \<leftarrow> load m1 i; b \<leftarrow> load m2 i;
     if a \<noteq> b then Some True else groups_differ (Suc i) k m1 m2 }"

definition wlibc_cpu_equal :: "cpu_set option \<Rightarrow> cpu_set option \<Rightarrow> bool res ub" where
  "wlibc_cpu_equal p1 p2 = (case (p1, p2) of
     (Some s1, Some s2) \<Rightarrow>
       if num_groups s1 \<noteq> num_groups s2 then Some (Inr False)
       else if num_cpus s1 \<noteq> num_cpus s2 then Some (Inr False)
       else map_option (\<lambda>d. Inr (\<not> d))
         (groups_differ 0 (nat (num_groups s1)) (group_mask s1) (group_mask s2))
   | _ \<Rightarrow> Some (fail_with EINVAL))"

section \<open>fd_set\<close>

record fd_set =
  masks :: "64 word list"

definition FD_SETSIZE :: int where
  "FD_SETSIZE = 1024"

definition wlibc_fd_clr :: "int \<Rightarrow> fd_set option \<Rightarrow> fd_set res ub" where
  "wlibc_fd_clr fd p = (case p of None \<Rightarrow> Some (fail_with EINVAL) | Some s \<Rightarrow>
     if fd \<ge> FD_SETSIZE \<or> fd < 0 then Some (fail_with EINVAL)
     else do {
       m \<leftarrow> load (masks s) (nat (fd div 64));
       ms \<leftarrow> store (nat (fd div 64)) (m AND NOT (push_bit (nat (fd mod 64)) 1)) (masks s);
       Some (Inr (s\<lparr>masks := ms\<rparr>)) })"

definition wlibc_fd_set :: "int \<Rightarrow> fd_set option \<Rightarrow> fd_set res ub" where
  "wlibc_fd_set fd p = (case p of None \<Rightarrow> Some (fail_with EINVAL) | Some s \<Rightarrow>
     if fd \<ge> FD_SETSIZE \<or> fd < 0 then Some (fail_with EINVAL)
     else do {
       m \<leftarrow> load (masks s) (nat (fd div 64));
       ms \<leftarrow> store (nat (fd div 64)) (m OR push_bit (nat (fd mod 64)) 1) (masks s);
       Some (Inr (s\<lparr>masks := ms\<rparr>)) })"

definition wlibc_fd_zero :: "fd_set option \<Rightarrow> fd_set res" where
  "wlibc_fd_zero p = (case p of None \<Rightarrow> fail_with EINVAL
     | Some s \<Rightarrow> Inr (s\<lparr>masks := replicate (length (masks s)) 0\<rparr>))"

definition wlibc_fd_isset :: "int \<Rightarrow> fd_set option \<Rightarrow> bool res ub" where
  "wlibc_fd_isset fd p = (case p of None \<Rightarrow> Some (fail_with EINVAL) | Some s \<Rightarrow>
     if fd \<ge> FD_SETSIZE \<or> fd < 0 then Some (fail_with EINVAL)
     else do {
       m \<leftarrow> load (masks s) (nat (fd div 64));
       Some (Inr (m AND push_bit (nat (fd mod 64)) 1 \<noteq> 0)) })"

section \<open>sigset_t\<close>

type_synonym sigset = "32 word"

definition NSIG :: int where
  "NSIG = 32"

definition validate_signal :: "int \<Rightarrow> bool" where
  "validate_signal sig \<longleftrightarrow> \<not> (sig \<le> 0 \<or> sig \<ge> NSIG)"

definition wlibc_sigemptyset :: "sigset option \<Rightarrow> sigset res" where
  "wlibc_sigemptyset p = (case p of None \<Rightarrow> fail_with EINVAL | Some s \<Rightarrow> Inr 0)"

text \<open>\<open>(2u << (NSIG - 1)) - 1\<close> at 32 bits: the shift drops the bit and the subtraction wraps.\<close>

definition wlibc_sigfillset :: "sigset option \<Rightarrow> sigset res" where
  "wlibc_sigfillset p = (case p of None \<Rightarrow> fail_with EINVAL
     | Some s \<Rightarrow> Inr (push_bit (nat (NSIG - 1)) 2 - 1))"

definition wlibc_sigaddset :: "sigset option \<Rightarrow> int \<Rightarrow> sigset res" where
  "wlibc_sigaddset p sig = (case p of None \<Rightarrow> fail_with EINVAL | Some s \<Rightarrow>
     if \<not> validate_signal sig then fail_with EINVAL else Inr (s OR push_bit (nat sig) 1))"

definition wlibc_sigdelset :: "sigset option \<Rightarrow> int \<Rightarrow> sigset res" where
  "wlibc_sigdelset p sig = (case p of None \<Rightarrow> fail_with EINVAL | Some s \<Rightarrow>
     if \<not> validate_signal sig then fail_with EINVAL else Inr (s AND NOT (push_bit (nat sig) 1)))"

definition wlibc_sigismember :: "sigset option \<Rightarrow> int \<Rightarrow> bool res" where
  "wlibc_sigismember p sig = (case p of None \<Rightarrow> fail_with EINVAL | Some s \<Rightarrow>
     if \<not> validate_signal sig then fail_with EINVAL else Inr (s AND push_bit (nat sig) 1 \<noteq> 0))"

section \<open>Mask arrays\<close>

text \<open>The set a little array of 64-bit masks stands for; \<open>n\<close> bounds the elements.\<close>

definition mask_elems :: "int \<Rightarrow> 64 word list \<Rightarrow> int set" where
  "mask_elems n ms = {i. 0 \<le> i \<and> i < n \<and> bit (ms ! nat (i div 64)) (nat (i mod 64))}"

lemma mask_pos_eq_iff:
  assumes "0 \<le> i" and "0 \<le> j"
  shows "nat (j div 64) = nat (i div 64) \<and> nat (j mod 64) = nat (i mod 64) \<longleftrightarrow> j = i"
proof
  assume "nat (j div 64) = nat (i div 64) \<and> nat (j mod 64) = nat (i mod 64)"
  then have "j div 64 = i div 64" and "j mod 64 = i mod 64"
    using assms by (auto simp: nat_eq_iff pos_imp_zdiv_nonneg_iff)
  then show "j = i" by (metis div_mult_mod_eq)
qed simp

lemma mask_bit_in_range: "nat ((i::int) mod 64) < 64"
  using pos_mod_bound [of 64 i] by linarith

lemma mask_bit_update:
  assumes "0 \<le> i" "nat (i div 64) < length ms" "0 \<le> j"
    and "\<And>b. b \<noteq> nat (i mod 64) \<Longrightarrow> bit w b = bit (ms ! nat (i div 64)) b"
  shows "bit (ms[nat (i div 64) := w] ! nat (j div 64)) (nat (j mod 64))
    = (if j = i then bit w (nat (i mod 64)) else bit (ms ! nat (j div 64)) (nat (j mod 64)))"
proof (cases "nat (j div 64) = nat (i div 64)")
  case True
  then have "j \<noteq> i \<Longrightarrow> nat (j mod 64) \<noteq> nat (i mod 64)"
    using mask_pos_eq_iff [OF assms(1,3)] by blast
  then show ?thesis using assms(2,4) True by auto
next
  case False
  then have "j \<noteq> i" by auto
  with False show ?thesis by simp
qed

lemma mask_elems_set:
  assumes "0 \<le> i" "i < n" "nat (i div 64) < length ms"
  shows "mask_elems n (ms[nat (i div 64) := ms ! nat (i div 64) OR 2 ^ nat (i mod 64)])
    = insert i (mask_elems n ms)"
proof (rule set_eqI)
  fix j
  show "j \<in> mask_elems n (ms[nat (i div 64) := ms ! nat (i div 64) OR 2 ^ nat (i mod 64)])
    \<longleftrightarrow> j \<in> insert i (mask_elems n ms)"
  proof (cases "0 \<le> j")
    case True
    show ?thesis
      using mask_bit_update [OF assms(1,3) True, of "ms ! nat (i div 64) OR 2 ^ nat (i mod 64)"]
        assms(1,2) mask_bit_in_range [of i]
      by (simp add: mask_elems_def bit_or_iff bit_shifted_one)
  next
    case False
    then show ?thesis using assms(1) by (auto simp: mask_elems_def)
  qed
qed

lemma mask_elems_clr:
  assumes "0 \<le> i" "nat (i div 64) < length ms"
  shows "mask_elems n (ms[nat (i div 64) := ms ! nat (i div 64) AND NOT (2 ^ nat (i mod 64))])
    = mask_elems n ms - {i}"
proof (rule set_eqI)
  fix j
  show "j \<in> mask_elems n (ms[nat (i div 64) := ms ! nat (i div 64) AND NOT (2 ^ nat (i mod 64))])
    \<longleftrightarrow> j \<in> mask_elems n ms - {i}"
  proof (cases "0 \<le> j")
    case True
    have keep: "b \<noteq> nat (i mod 64) \<Longrightarrow>
      bit (ms ! nat (i div 64) AND NOT (2 ^ nat (i mod 64))) b = bit (ms ! nat (i div 64)) b" for b
      by (auto simp: bit_and_iff bit_not_iff bit_shifted_one)
    show ?thesis
      using mask_bit_update [OF assms True keep] mask_bit_in_range [of i]
      by (simp add: mask_elems_def bit_and_iff bit_not_iff bit_shifted_one)
  next
    case False
    then show ?thesis by (auto simp: mask_elems_def)
  qed
qed

lemma mask_elems_isset:
  assumes "0 \<le> i" "i < n"
  shows "(ms ! nat (i div 64)) AND 2 ^ nat (i mod 64) \<noteq> 0 \<longleftrightarrow> i \<in> mask_elems n ms"
  using assms mask_bit_in_range [of i] by (simp add: mask_elems_def and_shifted_one_eq_0)

section \<open>cpu_set_t implements the contract\<close>

definition cpu_elems :: "cpu_set \<Rightarrow> int set" where
  "cpu_elems s = mask_elems (num_cpus s) (group_mask s)"

definition cpu_inv :: "cpu_set \<Rightarrow> bool" where
  "cpu_inv s \<longleftrightarrow> 0 < num_cpus s \<and> num_groups s = (num_cpus s - 1) div 64 + 1
     \<and> length (group_mask s) = nat (num_groups s)
     \<and> (\<forall>g b. g < length (group_mask s) \<longrightarrow> bit (group_mask s ! g) b \<longrightarrow> int (g * 64 + b) < num_cpus s)"

lemma cpu_group_in_range:
  assumes "cpu_inv s" "0 \<le> i" "i < num_cpus s"
  shows "nat (i div 64) < length (group_mask s)"
proof -
  have "i div 64 \<le> (num_cpus s - 1) div 64" using assms by (intro zdiv_mono1) auto
  then show ?thesis using assms by (auto simp: cpu_inv_def)
qed

lemma num_groups_eq: "0 < (n::int) \<Longrightarrow> n div 64 + (if n mod 64 = 0 then 0 else 1) = (n - 1) div 64 + 1"
proof (cases "n mod 64 = 0")
  case True
  have "(n - 1) div 64 = n div 64 - 1"
    by (rule int_div_pos_eq [where r = 63]) (use True div_mult_mod_eq [of n 64] in auto)
  then show ?thesis using True by simp
next
  case False
  then have "0 < n mod 64" using pos_mod_sign [of 64 n] by linarith
  then have "(n - 1) div 64 = n div 64"
    by (intro int_div_pos_eq [where r = "n mod 64 - 1"])
      (use div_mult_mod_eq [of n 64] pos_mod_bound [of 64 n] in auto)
  then show ?thesis using False by simp
qed

lemma zero_groups_ok:
  "length (group_mask s) = nat (num_groups s) \<Longrightarrow>
   zero_groups s = Some (s\<lparr>group_mask := replicate (nat (num_groups s)) 0\<rparr>)"
  by (simp add: zero_groups_def for_from_fill map_replicate_const)

lemma cpu_inv_zero: "cpu_inv s \<Longrightarrow> cpu_inv (s\<lparr>group_mask := replicate (nat (num_groups s)) 0\<rparr>)"
  by (auto simp: cpu_inv_def)

lemma cpu_elems_zero: "cpu_inv s \<Longrightarrow> cpu_elems (s\<lparr>group_mask := replicate (nat (num_groups s)) 0\<rparr>) = {}"
proof -
  assume inv: "cpu_inv s"
  have "i \<ge> 0 \<Longrightarrow> i < num_cpus s \<Longrightarrow> nat (i div 64) < nat (num_groups s)" for i
    using cpu_group_in_range [OF inv, of i] inv by (simp add: cpu_inv_def)
  then show ?thesis by (auto simp: cpu_elems_def mask_elems_def)
qed

lemma cpu_bit_index:
  "int (nat (i div 64) * 64 + nat (i mod 64)) = i" if "0 \<le> (i::int)"
  using that by (simp add: pos_imp_zdiv_nonneg_iff)

lemma cpu_invD:
  "cpu_inv s \<Longrightarrow> g < length (group_mask s) \<Longrightarrow> bit (group_mask s ! g) b \<Longrightarrow> int (g * 64 + b) < num_cpus s"
  by (simp add: cpu_inv_def)

lemma cpu_inv_mask_update:
  assumes "cpu_inv s" "g < length (group_mask s)"
    and "\<And>b. bit w b \<Longrightarrow> int (g * 64 + b) < num_cpus s"
  shows "cpu_inv (s\<lparr>group_mask := (group_mask s)[g := w]\<rparr>)"
  using assms cpu_invD [OF assms(1)] unfolding cpu_inv_def by (simp add: nth_update_if)

lemma cpu_inv_set:
  assumes "cpu_inv s" "0 \<le> i" "i < num_cpus s"
  shows "cpu_inv (s\<lparr>group_mask := (group_mask s)[nat (i div 64) :=
    group_mask s ! nat (i div 64) OR 2 ^ nat (i mod 64)]\<rparr>)"
proof (rule cpu_inv_mask_update [OF assms(1) cpu_group_in_range [OF assms]])
  fix b
  assume "bit (group_mask s ! nat (i div 64) OR 2 ^ nat (i mod 64)) b"
  then consider "bit (group_mask s ! nat (i div 64)) b" | "b = nat (i mod 64)"
    by (auto simp: bit_or_iff bit_shifted_one)
  then show "int (nat (i div 64) * 64 + b) < num_cpus s"
  proof cases
    case 1
    then show ?thesis by (rule cpu_invD [OF assms(1) cpu_group_in_range [OF assms]])
  next
    case 2
    then show ?thesis using cpu_bit_index [OF assms(2)] assms(3) by simp
  qed
qed

lemma cpu_inv_clr:
  assumes "cpu_inv s"
  shows "cpu_inv (s\<lparr>group_mask := (group_mask s)[g := group_mask s ! g AND w]\<rparr>)"
  using assms by (auto simp: cpu_inv_def nth_update_if bit_and_iff split: if_splits)

interpretation cpus: checked_bitset
  "\<lambda>i s. wlibc_cpu_set i (Some s)" "\<lambda>i s. wlibc_cpu_clr i (Some s)" "\<lambda>i s. wlibc_cpu_isset i (Some s)"
  "\<lambda>s. {0..<num_cpus s}" cpu_elems cpu_inv
proof (unfold_locales, goal_cases)
  case (1 s)
  then show ?case by (auto simp: cpu_elems_def mask_elems_def)
next
  case (2 s i)
  then show ?case
    using cpu_group_in_range [of s i] cpu_inv_set [of s i]
    by (auto simp: wlibc_cpu_set_def cpu_elems_def mask_elems_set)
next
  case (4 s i)
  then show ?case
    using cpu_group_in_range [of s i]
    by (auto simp: wlibc_cpu_clr_def cpu_elems_def mask_elems_clr cpu_inv_clr)
next
  case (6 s i)
  then show ?case
    using cpu_group_in_range [of s i]
    by (auto simp: wlibc_cpu_isset_def cpu_elems_def mask_elems_isset)
qed (auto simp: wlibc_cpu_set_def wlibc_cpu_clr_def wlibc_cpu_isset_def)

section \<open>fd_set implements the contract\<close>

definition fd_inv :: "fd_set \<Rightarrow> bool" where
  "fd_inv s \<longleftrightarrow> length (masks s) = 128"

definition fd_elems :: "fd_set \<Rightarrow> int set" where
  "fd_elems s = mask_elems FD_SETSIZE (masks s)"

lemma fd_mask_in_range: "fd_inv s \<Longrightarrow> 0 \<le> i \<Longrightarrow> i < FD_SETSIZE \<Longrightarrow> nat (i div 64) < length (masks s)"
  by (auto simp: fd_inv_def FD_SETSIZE_def)

interpretation fds: checked_bitset
  "\<lambda>i s. wlibc_fd_set i (Some s)" "\<lambda>i s. wlibc_fd_clr i (Some s)" "\<lambda>i s. wlibc_fd_isset i (Some s)"
  "\<lambda>s. {0..<FD_SETSIZE}" fd_elems fd_inv
proof (unfold_locales, goal_cases)
  case (1 s)
  then show ?case by (auto simp: fd_elems_def mask_elems_def)
next
  case (2 s i)
  then show ?case
    using fd_mask_in_range [of s i]
    by (auto simp: wlibc_fd_set_def fd_elems_def mask_elems_set fd_inv_def)
next
  case (4 s i)
  then show ?case
    using fd_mask_in_range [of s i]
    by (auto simp: wlibc_fd_clr_def fd_elems_def mask_elems_clr fd_inv_def)
next
  case (6 s i)
  then show ?case
    using fd_mask_in_range [of s i]
    by (auto simp: wlibc_fd_isset_def fd_elems_def mask_elems_isset)
qed (auto simp: wlibc_fd_set_def wlibc_fd_clr_def wlibc_fd_isset_def)

section \<open>sigset_t implements the contract\<close>

definition sig_elems :: "sigset \<Rightarrow> int set" where
  "sig_elems s = {i. 0 < i \<and> i < NSIG \<and> bit s (nat i)}"

lemma validate_signal_iff: "validate_signal sig \<longleftrightarrow> sig \<in> {0<..<NSIG}"
  by (auto simp: validate_signal_def)

lemma sig_elems_add: "0 < i \<Longrightarrow> i < NSIG \<Longrightarrow> sig_elems (s OR 2 ^ nat i) = insert i (sig_elems s)"
  by (auto simp: sig_elems_def bit_or_iff bit_shifted_one NSIG_def nat_less_iff)

lemma sig_elems_del: "0 < i \<Longrightarrow> sig_elems (s AND NOT (2 ^ nat i)) = sig_elems s - {i}"
  by (auto simp: sig_elems_def bit_and_iff bit_not_iff bit_shifted_one NSIG_def nat_less_iff)

interpretation sigs: checked_bitset
  "\<lambda>i s. Some (wlibc_sigaddset (Some s) i)" "\<lambda>i s. Some (wlibc_sigdelset (Some s) i)"
  "\<lambda>i s. Some (wlibc_sigismember (Some s) i)" "\<lambda>s. {0<..<NSIG}" sig_elems "\<lambda>s. True"
proof (unfold_locales, goal_cases)
  case (1 s)
  then show ?case by (auto simp: sig_elems_def)
next
  case (6 s i)
  then show ?case
    by (auto simp: wlibc_sigismember_def validate_signal_iff sig_elems_def and_shifted_one_eq_0
      NSIG_def nat_less_iff)
qed (auto simp: wlibc_sigaddset_def wlibc_sigdelset_def wlibc_sigismember_def validate_signal_iff
    sig_elems_add sig_elems_del)

section \<open>Properties\<close>

lemma wlibc_cpu_alloc_ok:
  assumes "0 < n"
  shows "\<exists>s. wlibc_cpu_alloc True junk n = Some (Inr s) \<and> cpu_inv s \<and> num_cpus s = n \<and> cpu_elems s = {}"
proof -
  define s where "s = \<lparr>num_groups = (n - 1) div 64 + 1, num_cpus = n,
    group_mask = map junk [0..<nat ((n - 1) div 64 + 1)]\<rparr>"
  let ?z = "s\<lparr>group_mask := replicate (nat (num_groups s)) 0\<rparr>"
  have size: "(16 + ((n - 1) div 64) * 8 - 8) div 8 = (n - 1) div 64 + 1" by simp
  have "wlibc_cpu_alloc True junk n = map_option Inr (zero_groups s)"
    using assms num_groups_eq [OF assms] by (simp add: wlibc_cpu_alloc_def s_def size add.commute)
  also have "zero_groups s = Some ?z" by (rule zero_groups_ok) (simp add: s_def)
  finally have alloc: "wlibc_cpu_alloc True junk n = Some (Inr ?z)" by simp
  have inv: "cpu_inv ?z" using assms by (auto simp: cpu_inv_def s_def)
  have "?z = ?z\<lparr>group_mask := replicate (nat (num_groups ?z)) 0\<rparr>" by simp
  then have "cpu_elems ?z = {}" using cpu_elems_zero [OF inv] by simp
  with alloc inv show ?thesis by (auto simp: s_def)
qed

text \<open>C29: a set that \<open>wlibc_cpu_alloc\<close> returns behaves as a mathematical set of processor
  numbers: after any sequence of CPU_SET and CPU_CLR calls, valid or not, no call reads or writes
  outside the mask array, and CPU_ISSET answers for every processor of the set exactly what the
  same sequence gives on a set of integers that starts empty.\<close>

theorem cpu_set_refines_set:
  assumes "0 < n" and "0 \<le> i" and "i < n"
  shows "\<exists>s. wlibc_cpu_alloc True junk n = Some (Inr s) \<and>
    Option.bind (run_bitops (\<lambda>c s. wlibc_cpu_set c (Some s)) (\<lambda>c s. wlibc_cpu_clr c (Some s)) ops s)
      (\<lambda>s'. wlibc_cpu_isset i (Some s')) = Some (Inr (i \<in> abs_bitops {0..<n} ops {}))"
proof -
  obtain s where s: "wlibc_cpu_alloc True junk n = Some (Inr s)" "cpu_inv s" "num_cpus s = n"
      "cpu_elems s = {}"
    using wlibc_cpu_alloc_ok [OF assms(1)] by blast
  have "i \<in> {0..<num_cpus s}" using assms s(3) by simp
  from cpus.isset_after_run [OF s(2) this, of ops] s show ?thesis by simp
qed

theorem cpu_set_refines_set_witness:
  "\<exists>s. wlibc_cpu_alloc True (\<lambda>_. 7) 100 = Some (Inr s) \<and>
    Option.bind (run_bitops (\<lambda>c s. wlibc_cpu_set c (Some s)) (\<lambda>c s. wlibc_cpu_clr c (Some s))
        [SetBit 70, SetBit 3, SetBit 100, ClrBit 3] s)
      (\<lambda>s'. wlibc_cpu_isset 70 (Some s')) = Some (Inr True)"
  using cpu_set_refines_set [of 100 70 "\<lambda>_. 7" "[SetBit 70, SetBit 3, SetBit 100, ClrBit 3]"] by simp

lemma count_loop:
  assumes "n \<le> length ms"
  shows "for_from i (n - i) (\<lambda>i c. map_option (\<lambda>m. c + int (popcnt m)) (load ms i)) c
    = Some (c + (\<Sum>g = i..<n. int (popcnt (ms ! g))))"
  using assms
proof (induction "n - i" arbitrary: i c)
  case 0
  then show ?case by simp
next
  case (Suc k)
  then have i: "i < n" and k: "k = n - Suc i" by auto
  have "(\<Sum>g = i..<n. int (popcnt (ms ! g))) = int (popcnt (ms ! i)) + (\<Sum>g = Suc i..<n. int (popcnt (ms ! g)))"
    using i by (simp add: sum.atLeast_Suc_lessThan)
  moreover have "n - i = Suc (n - Suc i)" using i by simp
  ultimately show ?case
    using Suc.hyps(1) [OF k, of "c + int (popcnt (ms ! i))"] Suc.prems i by simp
qed

lemma cpu_elems_UN:
  assumes "cpu_inv s"
  shows "cpu_elems s = (\<Union>g<length (group_mask s). (\<lambda>b. int (g * 64 + b)) ` {b. bit (group_mask s ! g) b})"
proof (intro equalityI subsetI)
  fix i assume "i \<in> cpu_elems s"
  then have i: "0 \<le> i" "i < num_cpus s" "bit (group_mask s ! nat (i div 64)) (nat (i mod 64))"
    by (auto simp: cpu_elems_def mask_elems_def)
  show "i \<in> (\<Union>g<length (group_mask s). (\<lambda>b. int (g * 64 + b)) ` {b. bit (group_mask s ! g) b})"
    using cpu_group_in_range [OF assms i(1,2)] i(3) cpu_bit_index [OF i(1)]
    by (intro UN_I [of "nat (i div 64)"] image_eqI [of _ _ "nat (i mod 64)"]) auto
next
  fix i assume "i \<in> (\<Union>g<length (group_mask s). (\<lambda>b. int (g * 64 + b)) ` {b. bit (group_mask s ! g) b})"
  then obtain g b where gb: "g < length (group_mask s)" "bit (group_mask s ! g) b" "i = int (g * 64 + b)"
    by auto
  then have b: "b < 64" by auto
  have "i div 64 = int g" and "i mod 64 = int b" using gb(3) b by auto
  then show "i \<in> cpu_elems s"
    using gb cpu_invD [OF assms gb(1,2)] by (simp add: cpu_elems_def mask_elems_def)
qed

text \<open>CPU_COUNT returns the number of processors in the set.\<close>

theorem cpu_count_card:
  assumes "cpu_inv s"
  shows "wlibc_cpu_count (Some s) = Some (Inr (int (card (cpu_elems s))))"
proof -
  let ?ms = "group_mask s" and ?img = "\<lambda>g. (\<lambda>b. int (g * 64 + b)) ` {b. bit (group_mask s ! g) b}"
  have bits: "{b. bit (w :: 64 word) b} \<subseteq> {..<64}" for w by auto
  have card_img: "card (?img g) = popcnt (?ms ! g)" for g
    by (simp add: popcnt_card card_image inj_on_def)
  have "card (cpu_elems s) = (\<Sum>g<length ?ms. card (?img g))"
    unfolding cpu_elems_UN [OF assms]
  proof (rule card_UN_disjoint)
    show "\<forall>g\<in>{..<length ?ms}. finite (?img g)"
      using bits by (auto intro: finite_subset)
    show "\<forall>g\<in>{..<length ?ms}. \<forall>h\<in>{..<length ?ms}. g \<noteq> h \<longrightarrow> ?img g \<inter> ?img h = {}"
    proof (intro ballI impI)
      fix g h :: nat assume "g \<noteq> h"
      have "int (g * 64 + b) \<noteq> int (h * 64 + c)" if "b < 64" "c < 64" for b c :: nat
        using \<open>g \<noteq> h\<close> that by auto
      then show "?img g \<inter> ?img h = {}" using bits by fastforce
    qed
  qed simp
  then have "int (card (cpu_elems s)) = (\<Sum>g = 0..<length ?ms. int (popcnt (?ms ! g)))"
    by (simp only: card_img lessThan_atLeast0 of_nat_sum)
  moreover have "length ?ms = nat (num_groups s)" using assms by (simp add: cpu_inv_def)
  ultimately show ?thesis
    using count_loop [of "nat (num_groups s)" ?ms 0 0] by (simp add: wlibc_cpu_count_def)
qed

theorem cpu_count_card_witness:
  "wlibc_cpu_count (Some \<lparr>num_groups = 1, num_cpus = 4, group_mask = [1]\<rparr>)
    = Some (Inr (int (card (cpu_elems \<lparr>num_groups = 1, num_cpus = 4, group_mask = [1]\<rparr>))))"
  by (rule cpu_count_card) (auto simp: cpu_inv_def bit_1_iff)

lemma cpu_combine_eq:
  assumes "cpu_inv d" "cpu_inv a" "cpu_inv b" "num_cpus a = num_cpus d" "num_cpus b = num_cpus d"
  shows "cpu_combine f (Some d) (Some a) (Some b)
    = Some (Inr (d\<lparr>group_mask := map2 f (group_mask a) (group_mask b)\<rparr>))"
proof -
  let ?n = "nat (num_groups d)"
  have len: "length (group_mask d) = ?n" "length (group_mask a) = ?n" "length (group_mask b) = ?n"
    and groups: "num_groups a = num_groups d" "num_groups b = num_groups d"
    using assms by (auto simp: cpu_inv_def)
  have "for_from 0 ?n (\<lambda>i ms. do { x \<leftarrow> load (group_mask a) i; y \<leftarrow> load (group_mask b) i; store i (f x y) ms })
      (group_mask d)
    = for_from 0 ?n (\<lambda>i ms. store i (f (group_mask a ! i) (group_mask b ! i)) ms) (group_mask d)"
    by (rule for_from_cong) (simp add: len)
  also have "\<dots> = Some (map (\<lambda>i. f (group_mask a ! i) (group_mask b ! i)) [0..<?n])"
    by (simp add: for_from_fill len)
  also have "map (\<lambda>i. f (group_mask a ! i) (group_mask b ! i)) [0..<?n] = map2 f (group_mask a) (group_mask b)"
    by (rule nth_equalityI) (simp_all add: len)
  finally show ?thesis by (simp add: cpu_combine_def groups)
qed

lemma cpu_inv_map2:
  assumes "cpu_inv d" "cpu_inv a" "cpu_inv b" "num_cpus a = num_cpus d" "num_cpus b = num_cpus d"
    and "\<And>x y n. bit (f x y) n \<Longrightarrow> bit x n \<or> bit y n"
  shows "cpu_inv (d\<lparr>group_mask := map2 f (group_mask a) (group_mask b)\<rparr>)"
proof -
  have len: "length (group_mask a) = length (group_mask d)" "length (group_mask b) = length (group_mask d)"
    using assms(1-5) by (auto simp: cpu_inv_def)
  have "int (g * 64 + n) < num_cpus d"
    if "g < length (group_mask d)" "bit (f (group_mask a ! g) (group_mask b ! g)) n" for g n
    using assms(6) [OF that(2)] that(1) cpu_invD [OF assms(2), of g n] cpu_invD [OF assms(3), of g n]
    by (auto simp: len assms(4,5))
  then show ?thesis using assms(1) len by (simp add: cpu_inv_def)
qed

lemma cpu_elems_map2:
  assumes "cpu_inv d" "cpu_inv a" "cpu_inv b" "num_cpus a = num_cpus d" "num_cpus b = num_cpus d"
    and "\<And>x y n. bit (f x y) n \<longleftrightarrow> F (bit x n) (bit y n)"
  shows "cpu_elems (d\<lparr>group_mask := map2 f (group_mask a) (group_mask b)\<rparr>)
    = {i \<in> {0..<num_cpus d}. F (i \<in> cpu_elems a) (i \<in> cpu_elems b)}"
  using cpu_group_in_range [OF assms(2)] cpu_group_in_range [OF assms(3)] assms(4-6)
  by (auto simp: cpu_elems_def mask_elems_def)

text \<open>On sets of the same size CPU_AND, CPU_OR and CPU_XOR store the intersection, the union
  and the symmetric difference in the destination, which stays well formed.\<close>

theorem cpu_and_or_xor:
  assumes "cpu_inv d" "cpu_inv a" "cpu_inv b" "num_cpus a = num_cpus d" "num_cpus b = num_cpus d"
  shows "\<exists>x y z. wlibc_cpu_and (Some d) (Some a) (Some b) = Some (Inr x) \<and> cpu_inv x
      \<and> cpu_elems x = cpu_elems a \<inter> cpu_elems b
    \<and> wlibc_cpu_or (Some d) (Some a) (Some b) = Some (Inr y) \<and> cpu_inv y
      \<and> cpu_elems y = cpu_elems a \<union> cpu_elems b
    \<and> wlibc_cpu_xor (Some d) (Some a) (Some b) = Some (Inr z) \<and> cpu_inv z
      \<and> cpu_elems z = (cpu_elems a - cpu_elems b) \<union> (cpu_elems b - cpu_elems a)"
proof -
  note combine = cpu_combine_eq [OF assms] and inv = cpu_inv_map2 [OF assms] and elems = cpu_elems_map2 [OF assms]
  have sub: "cpu_elems a \<subseteq> {0..<num_cpus d}" "cpu_elems b \<subseteq> {0..<num_cpus d}"
    using cpus.elems_universe assms by force+
  have and_inv: "cpu_inv (d\<lparr>group_mask := map2 (AND) (group_mask a) (group_mask b)\<rparr>)"
    and or_inv: "cpu_inv (d\<lparr>group_mask := map2 (OR) (group_mask a) (group_mask b)\<rparr>)"
    and xor_inv: "cpu_inv (d\<lparr>group_mask := map2 (XOR) (group_mask a) (group_mask b)\<rparr>)"
    by (rule inv; auto simp: bit_and_iff bit_or_iff bit_xor_iff)+
  have and_elems: "cpu_elems (d\<lparr>group_mask := map2 (AND) (group_mask a) (group_mask b)\<rparr>)
      = cpu_elems a \<inter> cpu_elems b"
    using elems [of "(AND)" "(\<and>)"] sub by (auto simp: bit_and_iff)
  have or_elems: "cpu_elems (d\<lparr>group_mask := map2 (OR) (group_mask a) (group_mask b)\<rparr>)
      = cpu_elems a \<union> cpu_elems b"
    using elems [of "(OR)" "(\<or>)"] sub by (auto simp: bit_or_iff)
  have xor_elems: "cpu_elems (d\<lparr>group_mask := map2 (XOR) (group_mask a) (group_mask b)\<rparr>)
      = (cpu_elems a - cpu_elems b) \<union> (cpu_elems b - cpu_elems a)"
    using elems [of "(XOR)" "(\<noteq>)"] sub by (auto simp: bit_xor_iff)
  show ?thesis
    unfolding wlibc_cpu_and_def wlibc_cpu_or_def wlibc_cpu_xor_def combine
    using and_inv or_inv xor_inv and_elems or_elems xor_elems by blast
qed

theorem cpu_and_or_xor_witness:
  "\<exists>x. wlibc_cpu_or (Some \<lparr>num_groups = 1, num_cpus = 4, group_mask = [0]\<rparr>)
      (Some \<lparr>num_groups = 1, num_cpus = 4, group_mask = [1]\<rparr>)
      (Some \<lparr>num_groups = 1, num_cpus = 4, group_mask = [0]\<rparr>) = Some (Inr x) \<and> cpu_inv x"
  using cpu_and_or_xor [of "\<lparr>num_groups = 1, num_cpus = 4, group_mask = [0]\<rparr>"
    "\<lparr>num_groups = 1, num_cpus = 4, group_mask = [1]\<rparr>" "\<lparr>num_groups = 1, num_cpus = 4, group_mask = [0]\<rparr>"]
  by (auto simp: cpu_inv_def bit_1_iff)

text \<open>C30: FD_SET, FD_CLR and FD_ISSET on a zeroed descriptor set implement a mathematical set
  over the descriptors below FD_SETSIZE, for any sequence of calls, and never leave the mask array.\<close>

theorem fd_set_refines_set:
  assumes "fd_inv s" and "0 \<le> i" and "i < FD_SETSIZE"
  shows "\<exists>z. wlibc_fd_zero (Some s) = Inr z \<and>
    Option.bind (run_bitops (\<lambda>c s. wlibc_fd_set c (Some s)) (\<lambda>c s. wlibc_fd_clr c (Some s)) ops z)
      (\<lambda>s'. wlibc_fd_isset i (Some s')) = Some (Inr (i \<in> abs_bitops {0..<FD_SETSIZE} ops {}))"
proof -
  define z where "z = s\<lparr>masks := replicate (length (masks s)) 0\<rparr>"
  have z: "fd_inv z" "fd_elems z = {}"
    using assms(1) by (auto simp: z_def fd_inv_def fd_elems_def mask_elems_def FD_SETSIZE_def)
  have "i \<in> {0..<FD_SETSIZE}" using assms by simp
  from fds.isset_after_run [OF z(1) this, of ops] z(2) show ?thesis
    by (simp add: wlibc_fd_zero_def z_def)
qed

theorem fd_set_refines_set_witness:
  "Option.bind (run_bitops (\<lambda>c s. wlibc_fd_set c (Some s)) (\<lambda>c s. wlibc_fd_clr c (Some s))
      [SetBit 5, SetBit 1023, ClrBit 5, SetBit 1024] \<lparr>masks = replicate 128 0\<rparr>)
    (\<lambda>s'. wlibc_fd_isset 1023 (Some s')) = Some (Inr True)"
  using fd_set_refines_set [of "\<lparr>masks = replicate 128 9\<rparr>" 1023 "[SetBit 5, SetBit 1023, ClrBit 5, SetBit 1024]"]
  by (simp add: fd_inv_def FD_SETSIZE_def wlibc_fd_zero_def)

text \<open>Sigemptyset and sigfillset give the empty and the full set of the signals 1 to 31, and
  after any sequence of sigaddset and sigdelset calls sigismember answers as the same sequence
  on a mathematical set does.\<close>

theorem sigset_refines_set:
  assumes "0 < i" and "i < NSIG"
  shows "\<exists>e f. wlibc_sigemptyset (Some s) = Inr e \<and> sig_elems e = {}
    \<and> wlibc_sigfillset (Some s) = Inr f \<and> sig_elems f = {0<..<NSIG}
    \<and> Option.bind (run_bitops (\<lambda>c s. Some (wlibc_sigaddset (Some s) c))
          (\<lambda>c s. Some (wlibc_sigdelset (Some s) c)) ops s)
        (\<lambda>s'. Some (wlibc_sigismember (Some s') i))
      = Some (Inr (i \<in> abs_bitops {0<..<NSIG} ops (sig_elems s)))"
proof -
  have "push_bit 31 2 - 1 = (- 1 :: sigset)" by simp
  then have fill: "wlibc_sigfillset (Some s) = Inr (- 1)"
    by (simp add: wlibc_sigfillset_def NSIG_def)
  have full: "sig_elems (- 1) = {0<..<NSIG}"
    by (auto simp: sig_elems_def NSIG_def bit_minus_1_iff nat_less_iff)
  have "i \<in> {0<..<NSIG}" using assms by simp
  from sigs.isset_after_run [OF TrueI this, of ops s] fill full show ?thesis
    by (simp add: wlibc_sigemptyset_def sig_elems_def)
qed

theorem sigset_refines_set_witness:
  "\<exists>e f. wlibc_sigemptyset (Some 4) = Inr e \<and> sig_elems e = {}
    \<and> wlibc_sigfillset (Some 4) = Inr f \<and> sig_elems f = {0<..<NSIG}"
  using sigset_refines_set [of 9 4 "[SetBit 9]"] by (auto simp: NSIG_def)

end
