(* ===== verification/ErrorMap.thy ===== *)
theory ErrorMap
  imports Prelude
begin

text \<open>
  The translation of kernel status codes and Win32 error codes to errno values
  (src/internal/error.c). The values the library compares with are constructors, every other value
  is \<open>STATUS_OTHER\<close> or \<open>ERROR_OTHER\<close>.
  \<open>map_ntstatus_to_errno\<close> returns the value stored in errno, \<open>None\<close> when errno is left alone.
  The case of \<open>STATUS_NAME_TOO_LONG\<close> has no \<open>break\<close> in the source: the value that stays in errno
  is that of the following case.
\<close>

datatype ntstatus =
    STATUS_SUCCESS | STATUS_PENDING | STATUS_END_OF_FILE | STATUS_PIPE_EMPTY
  | STATUS_NO_MEMORY | STATUS_FATAL_MEMORY_EXHAUSTION
  | STATUS_ACCESS_DENIED | STATUS_SHARING_VIOLATION | STATUS_SECTION_PROTECTION | STATUS_INVALID_OWNER
  | STATUS_CANNOT_DELETE | STATUS_MUTANT_NOT_OWNED | STATUS_PRIVILEGE_NOT_HELD
  | STATUS_OBJECT_NAME_NOT_FOUND | STATUS_OBJECT_PATH_NOT_FOUND
  | STATUS_TOO_MANY_OPENED_FILES | STATUS_NAME_TOO_LONG | STATUS_NOT_A_DIRECTORY
  | STATUS_DIRECTORY_NOT_EMPTY | STATUS_OBJECT_NAME_EXISTS | STATUS_OBJECT_NAME_COLLISION
  | STATUS_INVALID_HANDLE
  | STATUS_IO_TIMEOUT | STATUS_IO_UNALIGNED_WRITE | STATUS_FILE_LOCK_CONFLICT
  | STATUS_INVALID_PARAMETER | STATUS_ILLEGAL_FUNCTION | STATUS_OBJECT_NAME_INVALID
  | STATUS_INVALID_EA_NAME | STATUS_EA_LIST_INCONSISTENT | STATUS_SECTION_TOO_BIG
  | STATUS_MAPPED_ALIGNMENT | STATUS_INVALID_SUB_AUTHORITY | STATUS_INVALID_ACL | STATUS_INVALID_SID
  | STATUS_INVALID_SECURITY_DESCR | STATUS_IO_REPARSE_DATA_INVALID
  | STATUS_FILE_IS_A_DIRECTORY
  | STATUS_PIPE_BROKEN | STATUS_PIPE_BUSY | STATUS_PIPE_DISCONNECTED | STATUS_PIPE_NOT_AVAILABLE
  | STATUS_INVALID_DEVICE_REQUEST | STATUS_NOT_SUPPORTED | STATUS_EAS_NOT_SUPPORTED
  | STATUS_INSUFFICIENT_RESOURCES | STATUS_LOCK_NOT_GRANTED | STATUS_RANGE_NOT_LOCKED
  | STATUS_BUFFER_TOO_SMALL | STATUS_EA_TOO_LARGE | STATUS_BUFFER_OVERFLOW
  | STATUS_TIMEOUT
  | STATUS_OTHER nat

definition map_ntstatus_to_errno :: "ntstatus \<Rightarrow> errno option" where
  "map_ntstatus_to_errno st =
    (if st \<in> {STATUS_NO_MEMORY, STATUS_FATAL_MEMORY_EXHAUSTION} then Some ENOMEM
     else if st \<in> {STATUS_ACCESS_DENIED, STATUS_SHARING_VIOLATION, STATUS_SECTION_PROTECTION,
                   STATUS_INVALID_OWNER} then Some EACCES
     else if st \<in> {STATUS_CANNOT_DELETE, STATUS_MUTANT_NOT_OWNED, STATUS_PRIVILEGE_NOT_HELD} then Some EPERM
     else if st \<in> {STATUS_OBJECT_NAME_NOT_FOUND, STATUS_OBJECT_PATH_NOT_FOUND} then Some ENOENT
     else if st = STATUS_TOO_MANY_OPENED_FILES then Some EMFILE
     else if st \<in> {STATUS_NAME_TOO_LONG, STATUS_NOT_A_DIRECTORY} then Some ENOTDIR
     else if st = STATUS_DIRECTORY_NOT_EMPTY then Some ENOTEMPTY
     else if st \<in> {STATUS_OBJECT_NAME_EXISTS, STATUS_OBJECT_NAME_COLLISION} then Some EEXIST
     else if st = STATUS_INVALID_HANDLE then Some EBADF
     else if st \<in> {STATUS_IO_TIMEOUT, STATUS_IO_UNALIGNED_WRITE, STATUS_FILE_LOCK_CONFLICT} then Some EIO
     else if st \<in> {STATUS_INVALID_PARAMETER, STATUS_ILLEGAL_FUNCTION, STATUS_OBJECT_NAME_INVALID,
                   STATUS_INVALID_EA_NAME, STATUS_EA_LIST_INCONSISTENT, STATUS_SECTION_TOO_BIG,
                   STATUS_MAPPED_ALIGNMENT, STATUS_INVALID_SUB_AUTHORITY, STATUS_INVALID_ACL,
                   STATUS_INVALID_SID, STATUS_INVALID_SECURITY_DESCR,
                   STATUS_IO_REPARSE_DATA_INVALID} then Some EINVAL
     else if st = STATUS_FILE_IS_A_DIRECTORY then Some EISDIR
     else if st \<in> {STATUS_PIPE_BROKEN, STATUS_PIPE_BUSY, STATUS_PIPE_DISCONNECTED,
                   STATUS_PIPE_NOT_AVAILABLE} then Some EPIPE
     else if st = STATUS_INVALID_DEVICE_REQUEST then Some EROFS
     else if st \<in> {STATUS_NOT_SUPPORTED, STATUS_EAS_NOT_SUPPORTED} then Some ENOTSUP
     else if st \<in> {STATUS_INSUFFICIENT_RESOURCES, STATUS_LOCK_NOT_GRANTED, STATUS_RANGE_NOT_LOCKED}
       then Some ENOLCK
     else if st = STATUS_BUFFER_TOO_SMALL then Some ERANGE
     else if st \<in> {STATUS_EA_TOO_LARGE, STATUS_BUFFER_OVERFLOW} then Some E2BIG
     else if st = STATUS_TIMEOUT then Some ETIMEDOUT
     else None)"

datatype doserror =
    ERROR_NOT_ENOUGH_MEMORY | ERROR_OUTOFMEMORY | ERROR_ACCESS_DENIED | ERROR_SHARING_VIOLATION
  | ERROR_FILE_NOT_FOUND | ERROR_PATH_NOT_FOUND | ERROR_TOO_MANY_OPEN_FILES | ERROR_DIRECTORY
  | ERROR_DIR_NOT_EMPTY | ERROR_ALREADY_EXISTS | ERROR_FILE_EXISTS | ERROR_INVALID_HANDLE
  | ERROR_WRITE_FAULT | ERROR_READ_FAULT | ERROR_INVALID_PARAMETER | ERROR_INVALID_FUNCTION
  | ERROR_INVALID_REPARSE_DATA | ERROR_INVALID_NAME | ERROR_BROKEN_PIPE | ERROR_BAD_PIPE
  | ERROR_PIPE_BUSY | ERROR_NO_DATA | ERROR_PIPE_NOT_CONNECTED
  | ERROR_OTHER nat

definition map_doserror_to_errno :: "doserror \<Rightarrow> errno option" where
  "map_doserror_to_errno e =
    (if e \<in> {ERROR_NOT_ENOUGH_MEMORY, ERROR_OUTOFMEMORY} then Some ENOMEM
     else if e \<in> {ERROR_ACCESS_DENIED, ERROR_SHARING_VIOLATION} then Some EACCES
     else if e \<in> {ERROR_FILE_NOT_FOUND, ERROR_PATH_NOT_FOUND} then Some ENOENT
     else if e = ERROR_TOO_MANY_OPEN_FILES then Some EMFILE
     else if e = ERROR_DIRECTORY then Some ENOTDIR
     else if e = ERROR_DIR_NOT_EMPTY then Some ENOTEMPTY
     else if e \<in> {ERROR_ALREADY_EXISTS, ERROR_FILE_EXISTS} then Some EEXIST
     else if e = ERROR_INVALID_HANDLE then Some EBADF
     else if e \<in> {ERROR_WRITE_FAULT, ERROR_READ_FAULT} then Some EIO
     else if e \<in> {ERROR_INVALID_PARAMETER, ERROR_INVALID_FUNCTION, ERROR_INVALID_REPARSE_DATA,
                   ERROR_INVALID_NAME} then Some EINVAL
     else if e \<in> {ERROR_BROKEN_PIPE, ERROR_BAD_PIPE, ERROR_PIPE_BUSY, ERROR_NO_DATA,
                   ERROR_PIPE_NOT_CONNECTED} then Some EPIPE
     else None)"

text \<open>A failed kernel call never stores ENAMETOOLONG: the value that a too long name leaves in
  errno is ENOTDIR, since its case falls through to the next one.\<close>

theorem ntstatus_never_enametoolong:
  "map_ntstatus_to_errno st \<noteq> Some ENAMETOOLONG \<and> map_ntstatus_to_errno STATUS_NAME_TOO_LONG = Some ENOTDIR"
  unfolding map_ntstatus_to_errno_def by (simp add: if_distrib [where f = "\<lambda>x. x = Some ENAMETOOLONG"])

end
