(* ===== verification/FdTable.thy ===== *)
theory FdTable
  imports ErrorMap
begin

unbundle bit_operations_syntax

text \<open>
  The file descriptor table (src/fcntl/internal.c, include/internal/fcntl.h).

  \<open>fd_state\<close> holds the four globals of the component: the heap block \<open>_wlibc_fd_table\<close>, the
  number of entries \<open>_wlibc_fd_table_size\<close>, the sequence counter (an unsigned int, which wraps) and
  the three standard handles of the process parameters that inserts at 0, 1 and 2 also write.
  Every exported function takes the table's lock for its whole body, so it is one step here.
  The heap is a parameter: \<open>heap n\<close> says whether a block of \<open>n\<close> entries is granted, and
  \<open>junk\<close> gives the contents of entries that a grown block has not initialised. The kernel is a
  parameter as well: \<open>nt_close\<close> acts on an abstract kernel state.
  An access outside the block is \<open>None\<close>.
\<close>

type_synonym HANDLE = "64 word"

definition INVALID_HANDLE_VALUE :: HANDLE where
  "INVALID_HANDLE_VALUE = - 1"

datatype handle_t =
  INVALID_HANDLE | NULL_HANDLE | CONSOLE_HANDLE | FILE_HANDLE | DIRECTORY_HANDLE | PIPE_HANDLE

record fdinfo =
  handle :: HANDLE
  htype :: handle_t
  flags :: "32 word"
  sequence :: "32 word"

record fd_state =
  fd_table :: "fdinfo list"
  fd_table_size :: nat
  fd_sequence :: "32 word"
  std_handle :: "nat \<Rightarrow> HANDLE"

definition O_RDONLY :: "32 word" where "O_RDONLY = 0x0"
definition O_WRONLY :: "32 word" where "O_WRONLY = 0x1"
definition O_RDWR :: "32 word" where "O_RDWR = 0x2"
definition O_APPEND :: "32 word" where "O_APPEND = 0x8"
definition O_CLOEXEC :: "32 word" where "O_CLOEXEC = 0x80"

text \<open>A conversion to int of a size_t value.\<close>

definition c_int :: "nat \<Rightarrow> int" where
  "c_int n = signed_take_bit 31 (int n)"

lemma c_int_small [simp]: "n < 2 ^ 31 \<Longrightarrow> c_int n = int n"
  by (simp add: c_int_def signed_take_bit_int_eq_self_iff)

section \<open>Primary functions\<close>

definition internal_insert_fd ::
  "nat \<Rightarrow> HANDLE \<Rightarrow> handle_t \<Rightarrow> 32 word \<Rightarrow> fd_state \<Rightarrow> fd_state ub" where
  "internal_insert_fd index h ty fl s = do {
     tbl \<leftarrow> store index \<lparr>handle = h, htype = ty, flags = fl, sequence = fd_sequence s + 1\<rparr> (fd_table s);
     Some (s\<lparr>fd_table := tbl, fd_sequence := fd_sequence s + 1,
       std_handle := (if index \<le> 2 then (std_handle s)(index := h) else std_handle s)\<rparr>) }"

fun find_free :: "fdinfo list \<Rightarrow> nat \<Rightarrow> nat \<Rightarrow> nat option ub" where
  "find_free tbl i 0 = Some None"
| "find_free tbl i (Suc k) = do {
     e \<leftarrow> load tbl i;
     if handle e = 0 then Some (Some i) else find_free tbl (Suc i) k }"

text \<open>\<open>RtlReAllocateHeap\<close> on the table: the old entries stay, new ones hold whatever the block holds.\<close>

definition realloc_table :: "(nat \<Rightarrow> bool) \<Rightarrow> (nat \<Rightarrow> fdinfo) \<Rightarrow> nat \<Rightarrow> fdinfo list \<Rightarrow> fdinfo list option" where
  "realloc_table heap junk n tbl =
     (if heap n then Some (take n tbl @ map junk [length tbl..<n]) else None)"

definition clear_handle :: "nat \<Rightarrow> fdinfo list \<Rightarrow> fdinfo list ub" where
  "clear_handle i tbl = do { e \<leftarrow> load tbl i; store i (e\<lparr>handle := 0\<rparr>) tbl }"

definition register_to_fd_table ::
  "(nat \<Rightarrow> bool) \<Rightarrow> (nat \<Rightarrow> fdinfo) \<Rightarrow> HANDLE \<Rightarrow> handle_t \<Rightarrow> 32 word \<Rightarrow> fd_state \<Rightarrow> (int res \<times> fd_state) ub" where
  "register_to_fd_table heap junk h ty fl s = do {
     free \<leftarrow> find_free (fd_table s) 0 (fd_table_size s);
     case free of
       Some i \<Rightarrow> do { s' \<leftarrow> internal_insert_fd i h ty fl s; Some (Inr (int i), s') }
     | None \<Rightarrow> (case realloc_table heap junk (fd_table_size s * 2) (fd_table s) of
         None \<Rightarrow> Some (fail_with ENOMEM, s)
       | Some tbl \<Rightarrow> do {
           s1 \<leftarrow> internal_insert_fd (fd_table_size s) h ty fl (s\<lparr>fd_table := tbl\<rparr>);
           tbl2 \<leftarrow> for_from (fd_table_size s + 1) (fd_table_size s * 2 - (fd_table_size s + 1))
             clear_handle (fd_table s1);
           Some (Inr (int (fd_table_size s)),
             s1\<lparr>fd_table := tbl2, fd_table_size := fd_table_size s * 2\<rparr>) }) }"

text \<open>\<open>_fd * 2\<close> is an int: above \<open>2 ^ 30\<close> it overflows, which is undefined.\<close>

definition insert_into_fd_table ::
  "(nat \<Rightarrow> bool) \<Rightarrow> (nat \<Rightarrow> fdinfo) \<Rightarrow> int \<Rightarrow> HANDLE \<Rightarrow> handle_t \<Rightarrow> 32 word \<Rightarrow> fd_state \<Rightarrow> (int res \<times> fd_state) ub" where
  "insert_into_fd_table heap junk fd h ty fl s =
     (if fd \<ge> c_int (fd_table_size s) then
        (case realloc_table heap junk (nat fd * 2) (fd_table s) of
           None \<Rightarrow> Some (fail_with ENOMEM, s)
         | Some tbl \<Rightarrow>
             if fd * 2 \<ge> 2 ^ 31 then None
             else do {
               tbl2 \<leftarrow> for_from (fd_table_size s) (nat fd * 2 - fd_table_size s) clear_handle tbl;
               s' \<leftarrow> internal_insert_fd (nat fd) h ty fl
                 (s\<lparr>fd_table := tbl2, fd_table_size := nat fd * 2\<rparr>);
               Some (Inr fd, s') })
      else if fd < 0 then None
      else do { s' \<leftarrow> internal_insert_fd (nat fd) h ty fl s; Some (Inr fd, s') })"

text \<open>The search loop that \<open>unregister_from_fd_table\<close> and \<open>get_fd\<close> share.\<close>

fun find_handle :: "HANDLE \<Rightarrow> fdinfo list \<Rightarrow> nat \<Rightarrow> nat \<Rightarrow> nat option ub" where
  "find_handle h tbl i 0 = Some None"
| "find_handle h tbl i (Suc k) = do {
     e \<leftarrow> load tbl i;
     if handle e \<noteq> INVALID_HANDLE_VALUE \<and> handle e = h then Some (Some i)
     else find_handle h tbl (Suc i) k }"

definition unregister_from_fd_table :: "HANDLE \<Rightarrow> fd_state \<Rightarrow> fd_state ub" where
  "unregister_from_fd_table h s = do {
     r \<leftarrow> find_handle h (fd_table s) 0 (fd_table_size s);
     case r of None \<Rightarrow> Some s
     | Some i \<Rightarrow> do { tbl \<leftarrow> clear_handle i (fd_table s); Some (s\<lparr>fd_table := tbl\<rparr>) } }"

definition get_fd :: "HANDLE \<Rightarrow> fd_state \<Rightarrow> int res ub" where
  "get_fd h s = do {
     r \<leftarrow> find_handle h (fd_table s) 0 (fd_table_size s);
     Some (case r of None \<Rightarrow> fail_with EBADF | Some i \<Rightarrow> Inr (int i)) }"

text \<open>Array reads and writes at an int index.\<close>

definition load_fd :: "int \<Rightarrow> fd_state \<Rightarrow> fdinfo ub" where
  "load_fd fd s = (if fd < 0 then None else load (fd_table s) (nat fd))"

definition store_fd :: "int \<Rightarrow> fdinfo \<Rightarrow> fd_state \<Rightarrow> fd_state ub" where
  "store_fd fd e s = (if fd < 0 then None
     else map_option (\<lambda>t. s\<lparr>fd_table := t\<rparr>) (store (nat fd) e (fd_table s)))"

definition close_fd ::
  "('k \<Rightarrow> HANDLE \<Rightarrow> ntstatus \<times> 'k) \<Rightarrow> int \<Rightarrow> fd_state \<Rightarrow> 'k \<Rightarrow> (int res \<times> fd_state \<times> 'k) ub" where
  "close_fd nt_close fd s k = do {
     e \<leftarrow> load_fd fd s;
     let (status, k') = nt_close k (handle e) in
       if status \<noteq> STATUS_SUCCESS then Some (Inl (map_ntstatus_to_errno status), s, k')
       else do {
         s' \<leftarrow> store_fd fd (e\<lparr>handle := 0, htype := INVALID_HANDLE\<rparr>) s;
         Some (Inr 0, s', k') } }"

section \<open>Getters, setters and validation\<close>

definition validate_fd :: "int \<Rightarrow> fd_state \<Rightarrow> bool ub" where
  "validate_fd fd s =
     (if fd < 0 \<or> fd \<ge> c_int (fd_table_size s) then Some False
      else map_option (\<lambda>e. handle e \<noteq> 0) (load_fd fd s))"

definition get_fd_handle :: "int \<Rightarrow> fd_state \<Rightarrow> HANDLE ub" where
  "get_fd_handle fd s = map_option handle (load_fd fd s)"

definition get_fd_flags :: "int \<Rightarrow> fd_state \<Rightarrow> 32 word ub" where
  "get_fd_flags fd s = map_option flags (load_fd fd s)"

definition get_fd_type :: "int \<Rightarrow> fd_state \<Rightarrow> handle_t ub" where
  "get_fd_type fd s = do {
     v \<leftarrow> validate_fd fd s;
     if v then map_option htype (load_fd fd s) else Some INVALID_HANDLE }"

text \<open>\<open>info\<close> is what the caller's structure held: an invalid descriptor leaves two of its fields.\<close>

definition get_fdinfo :: "int \<Rightarrow> fdinfo \<Rightarrow> fd_state \<Rightarrow> fdinfo ub" where
  "get_fdinfo fd info s = do {
     v \<leftarrow> validate_fd fd s;
     if v then load_fd fd s else Some (info\<lparr>handle := 0, htype := INVALID_HANDLE\<rparr>) }"

definition set_fd_handle :: "int \<Rightarrow> HANDLE \<Rightarrow> fd_state \<Rightarrow> fd_state ub" where
  "set_fd_handle fd h s = do { e \<leftarrow> load_fd fd s; store_fd fd (e\<lparr>handle := h\<rparr>) s }"

definition set_fd_flags :: "int \<Rightarrow> 32 word \<Rightarrow> fd_state \<Rightarrow> fd_state ub" where
  "set_fd_flags fd fl s = do { e \<leftarrow> load_fd fd s; store_fd fd (e\<lparr>flags := fl\<rparr>) s }"

definition set_fd_type :: "int \<Rightarrow> handle_t \<Rightarrow> fd_state \<Rightarrow> fd_state ub" where
  "set_fd_type fd ty s = do { e \<leftarrow> load_fd fd s; store_fd fd (e\<lparr>htype := ty\<rparr>) s }"

definition add_fd_flags :: "int \<Rightarrow> 32 word \<Rightarrow> fd_state \<Rightarrow> fd_state ub" where
  "add_fd_flags fd fl s = do { e \<leftarrow> load_fd fd s; store_fd fd (e\<lparr>flags := flags e OR fl\<rparr>) s }"

section \<open>The abstract table\<close>

text \<open>What clients see: a finite map from descriptors to entries. An entry is in use when its
  handle is not NULL.\<close>

definition fd_lookup :: "fd_state \<Rightarrow> int \<Rightarrow> fdinfo option" where
  "fd_lookup s fd = (if 0 \<le> fd \<and> fd < int (fd_table_size s) \<and> handle (fd_table s ! nat fd) \<noteq> 0
     then Some (fd_table s ! nat fd) else None)"

definition tbl_inv :: "fd_state \<Rightarrow> bool" where
  "tbl_inv s \<longleftrightarrow> length (fd_table s) = fd_table_size s \<and> 0 < fd_table_size s \<and> fd_table_size s < 2 ^ 31"

text \<open>A heap that never grants a table whose number of entries is not an int.\<close>

definition bounded_heap :: "(nat \<Rightarrow> bool) \<Rightarrow> nat \<Rightarrow> bool" where
  "bounded_heap heap n \<longleftrightarrow> heap n \<and> n < 2 ^ 31"

locale descriptor_table =
  fixes lookup :: "'s \<Rightarrow> int \<Rightarrow> fdinfo option"
    and invar :: "'s \<Rightarrow> bool"
    and register :: "HANDLE \<Rightarrow> handle_t \<Rightarrow> 32 word \<Rightarrow> 's \<Rightarrow> (int res \<times> 's) ub"
    and insert_at :: "int \<Rightarrow> HANDLE \<Rightarrow> handle_t \<Rightarrow> 32 word \<Rightarrow> 's \<Rightarrow> (int res \<times> 's) ub"
    and release :: "int \<Rightarrow> 's \<Rightarrow> 's ub"
  assumes lookup_nonneg: "lookup s fd = Some e \<Longrightarrow> 0 \<le> fd"
    and lookup_handle: "lookup s fd = Some e \<Longrightarrow> handle e \<noteq> 0"
    and register_spec: "invar s \<Longrightarrow> h \<noteq> 0 \<Longrightarrow>
      register h ty fl s = Some (fail_with ENOMEM, s) \<or>
      (\<exists>fd s' q. register h ty fl s = Some (Inr fd, s') \<and> invar s' \<and> 0 \<le> fd \<and> lookup s fd = None
        \<and> (\<forall>i. 0 \<le> i \<longrightarrow> i < fd \<longrightarrow> lookup s i \<noteq> None)
        \<and> lookup s' = (lookup s)(fd \<mapsto> \<lparr>handle = h, htype = ty, flags = fl, sequence = q\<rparr>))"
    and insert_spec: "invar s \<Longrightarrow> h \<noteq> 0 \<Longrightarrow> 0 \<le> fd \<Longrightarrow>
      insert_at fd h ty fl s = Some (fail_with ENOMEM, s) \<or>
      (\<exists>s' q. insert_at fd h ty fl s = Some (Inr fd, s') \<and> invar s'
        \<and> lookup s' = (lookup s)(fd \<mapsto> \<lparr>handle = h, htype = ty, flags = fl, sequence = q\<rparr>))"
    and release_spec: "invar s \<Longrightarrow> lookup s fd = Some e \<Longrightarrow>
      \<exists>s'. release fd s = Some s' \<and> invar s' \<and> lookup s' = (lookup s)(fd := None)"
begin

lemma register_lowest:
  assumes "invar s" "h \<noteq> 0" "register h ty fl s = Some (Inr fd, s')"
  shows "fd = (LEAST i. 0 \<le> i \<and> lookup s i = None)"
proof -
  have "0 \<le> fd \<and> lookup s fd = None" "\<forall>i. 0 \<le> i \<longrightarrow> i < fd \<longrightarrow> lookup s i \<noteq> None"
    using register_spec [OF assms(1,2), of ty fl] assms(3) by auto
  then show ?thesis
    by (intro Least_equality [symmetric]) (auto intro: leI)
qed

text \<open>A released descriptor is the next one handed out when no lower one is free.\<close>

lemma release_then_register:
  assumes "invar s" "lookup s fd = Some e" "h \<noteq> 0"
    and below: "\<forall>i. 0 \<le> i \<longrightarrow> i < fd \<longrightarrow> lookup s i \<noteq> None"
    and rel: "release fd s = Some s1" and reg: "register h ty fl s1 = Some (Inr n, s2)"
  shows "n = fd"
proof -
  have s1: "invar s1" "lookup s1 = (lookup s)(fd := None)"
    using release_spec [OF assms(1,2)] rel by auto
  have "n = (LEAST i. 0 \<le> i \<and> lookup s1 i = None)"
    by (rule register_lowest [OF s1(1) assms(3) reg])
  also have "\<dots> = fd"
    using lookup_nonneg [OF assms(2)] below
    by (intro Least_equality) (auto simp: s1(2) intro: leI split: if_splits)
  finally show ?thesis .
qed

text \<open>Two registrations in a row never hand out the same descriptor.\<close>

lemma register_twice_distinct:
  assumes "invar s" "h \<noteq> 0" "h' \<noteq> 0"
    and "register h ty fl s = Some (Inr fd, s1)" "register h' ty' fl' s1 = Some (Inr fd', s2)"
  shows "fd \<noteq> fd' \<and> lookup s2 fd = lookup s1 fd"
proof -
  obtain q where s1: "invar s1" "lookup s1 = (lookup s)(fd \<mapsto> \<lparr>handle = h, htype = ty, flags = fl, sequence = q\<rparr>)"
    using register_spec [OF assms(1,2), of ty fl] assms(4) by auto
  have "lookup s1 fd' = None" "\<exists>q. lookup s2 = (lookup s1)(fd' \<mapsto> \<lparr>handle = h', htype = ty', flags = fl', sequence = q\<rparr>)"
    using register_spec [OF s1(1) assms(3), of ty' fl'] assms(5) by auto
  then show ?thesis using s1(2) by (auto split: if_splits)
qed

end

section \<open>The table implements it\<close>

lemma find_free_eq:
  "i + k \<le> length tbl \<Longrightarrow> find_free tbl i k = Some (List.find (\<lambda>j. handle (tbl ! j) = 0) [i..<i + k])"
proof (induction k arbitrary: i)
  case 0
  then show ?case by simp
next
  case (Suc k)
  have "[i..<i + Suc k] = i # [Suc i..<Suc i + k]" using upt_conv_Cons [of i "i + Suc k"] by simp
  then show ?case using Suc by (simp del: upt_Suc)
qed

lemma find_handle_eq:
  "i + k \<le> length tbl \<Longrightarrow> find_handle h tbl i k
     = Some (List.find (\<lambda>j. handle (tbl ! j) \<noteq> INVALID_HANDLE_VALUE \<and> handle (tbl ! j) = h) [i..<i + k])"
proof (induction k arbitrary: i)
  case 0
  then show ?case by simp
next
  case (Suc k)
  have "[i..<i + Suc k] = i # [Suc i..<Suc i + k]" using upt_conv_Cons [of i "i + Suc k"] by simp
  then show ?case using Suc by (simp del: upt_Suc)
qed

lemma find_upt_Some:
  "List.find P [0..<n] = Some i \<longleftrightarrow> i < n \<and> P i \<and> (\<forall>j < i. \<not> P j)"
  by (auto simp: find_Some_iff nth_append intro!: exI [of _ i])

lemma find_upt_None: "List.find P [0..<n] = None \<longleftrightarrow> (\<forall>i < n. \<not> P i)"
  by (auto simp: find_None_iff)

lemma clear_loop:
  "i + k \<le> length tbl \<Longrightarrow> \<exists>t. for_from i k clear_handle tbl = Some t \<and> length t = length tbl
     \<and> (\<forall>j. j < i \<or> i + k \<le> j \<longrightarrow> t ! j = tbl ! j) \<and> (\<forall>j. i \<le> j \<and> j < i + k \<longrightarrow> handle (t ! j) = 0)"
proof (induction k arbitrary: i tbl)
  case 0
  then show ?case by auto
next
  case (Suc k)
  let ?t1 = "tbl[i := (tbl ! i)\<lparr>handle := 0\<rparr>]"
  obtain t where t: "for_from (Suc i) k clear_handle ?t1 = Some t" "length t = length tbl"
      "\<forall>j. j < Suc i \<or> Suc i + k \<le> j \<longrightarrow> t ! j = ?t1 ! j" "\<forall>j. Suc i \<le> j \<and> j < Suc i + k \<longrightarrow> handle (t ! j) = 0"
    using Suc.IH [of "Suc i" ?t1] Suc.prems by auto
  have "for_from i (Suc k) clear_handle tbl = Some t"
    using Suc.prems t(1) by (simp add: clear_handle_def)
  moreover have "\<forall>j. j < i \<or> i + Suc k \<le> j \<longrightarrow> t ! j = tbl ! j" using t(3) by (auto simp: nth_update_if)
  moreover have "\<forall>j. i \<le> j \<and> j < i + Suc k \<longrightarrow> handle (t ! j) = 0"
  proof (intro allI impI)
    fix j assume j: "i \<le> j \<and> j < i + Suc k"
    show "handle (t ! j) = 0"
      using t(3) t(4) Suc.prems j by (cases "j = i") (simp_all add: nth_update_if)
  qed
  ultimately show ?case using t(2) by blast
qed

lemma internal_insert_fd_spec:
  assumes "tbl_inv s" "0 \<le> fd" "fd < int (fd_table_size s)" "h \<noteq> 0"
  shows "\<exists>s' q. internal_insert_fd (nat fd) h ty fl s = Some s' \<and> tbl_inv s' \<and> fd_table_size s' = fd_table_size s
    \<and> fd_lookup s' = (fd_lookup s)(fd \<mapsto> \<lparr>handle = h, htype = ty, flags = fl, sequence = q\<rparr>)"
  using assms
  by (auto simp: internal_insert_fd_def tbl_inv_def fd_lookup_def fun_eq_iff nth_update_if nat_eq_iff)

lemma realloc_table_Some:
  assumes "realloc_table (bounded_heap heap) junk n tbl = Some t" "length tbl \<le> n"
  shows "n < 2 ^ 31 \<and> length t = n \<and> (\<forall>i < length tbl. t ! i = tbl ! i)"
  using assms by (auto simp: realloc_table_def bounded_heap_def nth_append split: if_splits)

text \<open>Growing keeps every entry and adds only free ones.\<close>

lemma grow_spec:
  assumes inv: "tbl_inv s" and n: "fd_table_size s \<le> n"
    and t: "realloc_table (bounded_heap heap) junk n (fd_table s) = Some t"
  shows "\<exists>t2. for_from (fd_table_size s) (n - fd_table_size s) clear_handle t = Some t2
    \<and> tbl_inv (s\<lparr>fd_table := t2, fd_table_size := n\<rparr>)
    \<and> fd_lookup (s\<lparr>fd_table := t2, fd_table_size := n\<rparr>) = fd_lookup s"
proof -
  have len: "length (fd_table s) = fd_table_size s" using inv by (simp add: tbl_inv_def)
  have tt: "n < 2 ^ 31" "length t = n" "\<forall>i < fd_table_size s. t ! i = fd_table s ! i"
    using realloc_table_Some [OF t] n len by auto
  obtain t2 where t2: "for_from (fd_table_size s) (n - fd_table_size s) clear_handle t = Some t2"
      "length t2 = n" "\<forall>j. j < fd_table_size s \<longrightarrow> t2 ! j = t ! j"
      "\<forall>j. fd_table_size s \<le> j \<and> j < n \<longrightarrow> handle (t2 ! j) = 0"
    using clear_loop [of "fd_table_size s" "n - fd_table_size s" t] n tt(2) by auto
  have "fd_lookup (s\<lparr>fd_table := t2, fd_table_size := n\<rparr>) fd = fd_lookup s fd" for fd
    using t2(3,4) tt(3) n by (cases "fd < int (fd_table_size s)") (auto simp: fd_lookup_def nat_less_iff)
  then show ?thesis using t2 tt n inv by (auto simp: tbl_inv_def fun_eq_iff)
qed

lemma insert_into_fd_table_spec:
  assumes inv: "tbl_inv s" and "h \<noteq> 0" and fd: "0 \<le> fd"
  shows "insert_into_fd_table (bounded_heap heap) junk fd h ty fl s = Some (fail_with ENOMEM, s) \<or>
    (\<exists>s' q. insert_into_fd_table (bounded_heap heap) junk fd h ty fl s = Some (Inr fd, s') \<and> tbl_inv s'
      \<and> fd_lookup s' = (fd_lookup s)(fd \<mapsto> \<lparr>handle = h, htype = ty, flags = fl, sequence = q\<rparr>))"
proof (cases "fd < int (fd_table_size s)")
  case True
  then show ?thesis
    using internal_insert_fd_spec [OF inv fd True \<open>h \<noteq> 0\<close>, of ty fl] inv fd
    by (auto simp: insert_into_fd_table_def tbl_inv_def)
next
  case False
  show ?thesis
  proof (cases "realloc_table (bounded_heap heap) junk (nat fd * 2) (fd_table s)")
    case None
    then show ?thesis using False inv by (simp add: insert_into_fd_table_def tbl_inv_def)
  next
    case (Some t)
    have size: "0 < fd_table_size s" "length (fd_table s) = fd_table_size s" using inv by (auto simp: tbl_inv_def)
    have n: "fd_table_size s \<le> nat fd * 2" "0 < fd" using False size by linarith+
    have small: "nat fd * 2 < 2 ^ 31" using realloc_table_Some [OF Some] n(1) size(2) by simp
    obtain t2 where t2: "for_from (fd_table_size s) (nat fd * 2 - fd_table_size s) clear_handle t = Some t2"
        "tbl_inv (s\<lparr>fd_table := t2, fd_table_size := nat fd * 2\<rparr>)"
        "fd_lookup (s\<lparr>fd_table := t2, fd_table_size := nat fd * 2\<rparr>) = fd_lookup s"
      using grow_spec [OF inv n(1) Some] by blast
    have "fd < int (fd_table_size (s\<lparr>fd_table := t2, fd_table_size := nat fd * 2\<rparr>))" using n(2) by simp
    from internal_insert_fd_spec [OF t2(2) fd this \<open>h \<noteq> 0\<close>, of ty fl] t2 False Some small inv
    show ?thesis by (auto simp: insert_into_fd_table_def tbl_inv_def)
  qed
qed

lemma register_grow:
  assumes inv: "tbl_inv s" and "h \<noteq> 0"
    and t: "realloc_table (bounded_heap heap) junk (fd_table_size s * 2) (fd_table s) = Some t"
  shows "\<exists>s1 t2 q. internal_insert_fd (fd_table_size s) h ty fl (s\<lparr>fd_table := t\<rparr>) = Some s1
    \<and> for_from (fd_table_size s + 1) (fd_table_size s * 2 - (fd_table_size s + 1)) clear_handle (fd_table s1) = Some t2
    \<and> tbl_inv (s1\<lparr>fd_table := t2, fd_table_size := fd_table_size s * 2\<rparr>)
    \<and> fd_lookup (s1\<lparr>fd_table := t2, fd_table_size := fd_table_size s * 2\<rparr>)
      = (fd_lookup s)(int (fd_table_size s) \<mapsto> \<lparr>handle = h, htype = ty, flags = fl, sequence = q\<rparr>)"
proof -
  let ?n = "fd_table_size s"
  have size: "0 < ?n" "length (fd_table s) = ?n" using inv by (auto simp: tbl_inv_def)
  have tt: "?n * 2 < 2 ^ 31" "length t = ?n * 2" "\<forall>i < ?n. t ! i = fd_table s ! i"
    using realloc_table_Some [OF t] size by auto
  define e where "e = \<lparr>handle = h, htype = ty, flags = fl, sequence = fd_sequence s + 1\<rparr>"
  obtain s1 where s1: "internal_insert_fd ?n h ty fl (s\<lparr>fd_table := t\<rparr>) = Some s1" "fd_table s1 = t[?n := e]"
    using tt(2) size(1) by (auto simp: internal_insert_fd_def e_def)
  obtain t2 where t2: "for_from (?n + 1) (?n * 2 - (?n + 1)) clear_handle (t[?n := e]) = Some t2"
      "length t2 = ?n * 2" "\<forall>j. j < ?n + 1 \<longrightarrow> t2 ! j = t[?n := e] ! j"
      "\<forall>j. ?n + 1 \<le> j \<and> j < ?n * 2 \<longrightarrow> handle (t2 ! j) = 0"
    using clear_loop [of "?n + 1" "?n * 2 - (?n + 1)" "t[?n := e]"] tt(2) size(1) by auto
  have low: "t2 ! i = fd_table s ! i" if "i < ?n" for i using t2(3) tt(3) that by (simp add: nth_update_if)
  have mid: "t2 ! ?n = e" using t2(3) tt(2) size(1) by simp
  have "fd_lookup (s1\<lparr>fd_table := t2, fd_table_size := ?n * 2\<rparr>) fd = ((fd_lookup s)(int ?n \<mapsto> e)) fd" for fd
  proof -
    consider "fd < 0" | "0 \<le> fd" "fd < int ?n" | "fd = int ?n" | "int ?n < fd" "fd < int (?n * 2)" | "int (?n * 2) \<le> fd"
      by linarith
    then show ?thesis
    proof cases
      case 4
      then have "handle (t2 ! nat fd) = 0" using t2(4) by (auto simp: nat_less_iff)
      with 4 show ?thesis by (auto simp: fd_lookup_def)
    qed (use low mid size(1) \<open>h \<noteq> 0\<close> in \<open>auto simp: fd_lookup_def nat_less_iff e_def\<close>)
  qed
  then have "fd_lookup (s1\<lparr>fd_table := t2, fd_table_size := ?n * 2\<rparr>) = (fd_lookup s)(int ?n \<mapsto> e)" by (rule ext)
  moreover have "tbl_inv (s1\<lparr>fd_table := t2, fd_table_size := ?n * 2\<rparr>)" using tt(1) t2(2) size by (simp add: tbl_inv_def)
  ultimately show ?thesis using s1 t2(1) unfolding e_def by auto
qed

lemma fd_lookup_None_iff:
  assumes "0 \<le> i" "i < int (fd_table_size s)"
  shows "fd_lookup s i = None \<longleftrightarrow> handle (fd_table s ! nat i) = 0"
  using assms by (simp add: fd_lookup_def)

lemma register_to_fd_table_spec:
  assumes inv: "tbl_inv s" and "h \<noteq> 0"
  shows "register_to_fd_table (bounded_heap heap) junk h ty fl s = Some (fail_with ENOMEM, s) \<or>
    (\<exists>fd s' q. register_to_fd_table (bounded_heap heap) junk h ty fl s = Some (Inr fd, s') \<and> tbl_inv s' \<and> 0 \<le> fd
      \<and> fd_lookup s fd = None \<and> (\<forall>i. 0 \<le> i \<longrightarrow> i < fd \<longrightarrow> fd_lookup s i \<noteq> None)
      \<and> fd_lookup s' = (fd_lookup s)(fd \<mapsto> \<lparr>handle = h, htype = ty, flags = fl, sequence = q\<rparr>))"
proof (cases "List.find (\<lambda>j. handle (fd_table s ! j) = 0) [0..<fd_table_size s]")
  case (Some i)
  have free: "find_free (fd_table s) 0 (fd_table_size s) = Some (Some i)"
    using find_free_eq [of 0 "fd_table_size s" "fd_table s"] inv Some by (simp add: tbl_inv_def)
  have i: "i < fd_table_size s" "handle (fd_table s ! i) = 0" "\<forall>j < i. handle (fd_table s ! j) \<noteq> 0"
    using Some by (auto simp: find_upt_Some)
  have "\<forall>j. 0 \<le> j \<longrightarrow> j < int i \<longrightarrow> fd_lookup s j \<noteq> None"
    using i by (auto simp: fd_lookup_None_iff nat_less_iff)
  then show ?thesis
    using internal_insert_fd_spec [OF inv, of "int i" h ty fl] i free \<open>h \<noteq> 0\<close>
    by (auto simp: register_to_fd_table_def fd_lookup_None_iff)
next
  case None
  have free: "find_free (fd_table s) 0 (fd_table_size s) = Some None"
    using find_free_eq [of 0 "fd_table_size s" "fd_table s"] inv None by (simp add: tbl_inv_def)
  have used: "\<forall>j. 0 \<le> j \<longrightarrow> j < int (fd_table_size s) \<longrightarrow> fd_lookup s j \<noteq> None"
    using None by (auto simp: find_upt_None fd_lookup_None_iff nat_less_iff)
  show ?thesis
  proof (cases "realloc_table (bounded_heap heap) junk (fd_table_size s * 2) (fd_table s)")
    case None
    then show ?thesis using free by (simp add: register_to_fd_table_def)
  next
    case (Some t)
    have "fd_lookup s (int (fd_table_size s)) = None" by (simp add: fd_lookup_def)
    with register_grow [OF inv \<open>h \<noteq> 0\<close> Some, of ty fl] free Some used show ?thesis
      by (auto simp: register_to_fd_table_def)
  qed
qed

text \<open>Memory is short only when every descriptor of the table is in use and the heap refuses to double it.\<close>

definition needs_memory :: "(nat \<Rightarrow> bool) \<Rightarrow> fd_state \<Rightarrow> bool" where
  "needs_memory heap s \<longleftrightarrow> \<not> bounded_heap heap (fd_table_size s * 2) \<and> (\<forall>i. 0 \<le> i \<longrightarrow> i < int (fd_table_size s) \<longrightarrow> fd_lookup s i \<noteq> None)"

lemma register_out_of_memory:
  assumes inv: "tbl_inv s" and "h \<noteq> 0" and fails: "register_to_fd_table (bounded_heap heap) junk h ty fl s = Some (fail_with ENOMEM, s1)"
  shows "needs_memory heap s"
proof -
  have free: "find_free (fd_table s) 0 (fd_table_size s) = Some (List.find (\<lambda>j. handle (fd_table s ! j) = 0) [0..<fd_table_size s])"
    using find_free_eq [of 0 "fd_table_size s" "fd_table s"] inv by (simp add: tbl_inv_def)
  have none: "List.find (\<lambda>j. handle (fd_table s ! j) = 0) [0..<fd_table_size s] = None"
    using free fails by (cases "List.find (\<lambda>j. handle (fd_table s ! j) = 0) [0..<fd_table_size s]")
      (auto simp: register_to_fd_table_def split: bind_splits)
  have "realloc_table (bounded_heap heap) junk (fd_table_size s * 2) (fd_table s) = None"
    using free none fails by (auto simp: register_to_fd_table_def split: bind_splits option.splits)
  then show ?thesis
    using none by (auto simp: needs_memory_def realloc_table_def find_upt_None fd_lookup_None_iff nat_less_iff split: if_splits)
qed

definition beyond_memory :: "(nat \<Rightarrow> bool) \<Rightarrow> int \<Rightarrow> fd_state \<Rightarrow> bool" where
  "beyond_memory heap fd s \<longleftrightarrow> \<not> bounded_heap heap (nat fd * 2) \<and> int (fd_table_size s) \<le> fd"

lemma insert_out_of_memory:
  assumes inv: "tbl_inv s" and fails: "insert_into_fd_table (bounded_heap heap) junk fd h ty fl s = Some (fail_with ENOMEM, s1)"
  shows "beyond_memory heap fd s"
proof -
  have "c_int (fd_table_size s) = int (fd_table_size s)" using inv by (simp add: tbl_inv_def)
  then show ?thesis
    using fails by (auto simp: insert_into_fd_table_def beyond_memory_def realloc_table_def split: if_splits option.splits bind_splits)
qed

lemma close_fd_size: "close_fd nt_close fd s k = Some (r, s', k') \<Longrightarrow> fd_table_size s' = fd_table_size s"
  by (auto simp: close_fd_def store_fd_def Let_def split: bind_splits prod.splits if_splits)

lemma close_fd_success:
  assumes "tbl_inv s" "fd_lookup s fd = Some e" "nt_close k (handle e) = (STATUS_SUCCESS, k')"
  shows "\<exists>s'. close_fd nt_close fd s k = Some (Inr 0, s', k') \<and> tbl_inv s' \<and> fd_lookup s' = (fd_lookup s)(fd := None)"
  using assms
  by (auto simp: close_fd_def load_fd_def store_fd_def fd_lookup_def tbl_inv_def fun_eq_iff nth_update_if
    nat_eq_iff nat_less_iff split: if_splits)

definition release_fd :: "int \<Rightarrow> fd_state \<Rightarrow> fd_state ub" where
  "release_fd fd s = map_option (\<lambda>(r, s', k). s') (close_fd (\<lambda>k h. (STATUS_SUCCESS, k)) fd s ())"

interpretation fdt: descriptor_table fd_lookup tbl_inv
  "register_to_fd_table (bounded_heap heap) junk" "insert_into_fd_table (bounded_heap heap) junk" release_fd
  for heap junk
proof (unfold_locales, goal_cases)
  case (1 s fd e)
  then show ?case by (simp add: fd_lookup_def split: if_splits)
next
  case (2 s fd e)
  then show ?case by (auto simp: fd_lookup_def split: if_splits)
next
  case (3 s h ty fl)
  then show ?case by (rule register_to_fd_table_spec)
next
  case (4 s h fd ty fl)
  then show ?case by (rule insert_into_fd_table_spec)
next
  case (5 s fd e)
  then show ?case
    using close_fd_success [of s fd e "\<lambda>k h. (STATUS_SUCCESS, k)" "()" "()"] by (auto simp: release_fd_def)
qed

section \<open>Handle classification\<close>

text \<open>The kernel's answers about a handle are a parameter: device type, file attributes, granted access.\<close>

datatype device_type =
  FILE_DEVICE_NULL | FILE_DEVICE_CONSOLE | FILE_DEVICE_DISK | FILE_DEVICE_NAMED_PIPE | FILE_DEVICE_OTHER nat

record nt_query =
  query_device :: "HANDLE \<Rightarrow> ntstatus \<times> device_type"
  query_attributes :: "HANDLE \<Rightarrow> ntstatus \<times> 32 word"
  query_access :: "HANDLE \<Rightarrow> ntstatus \<times> 32 word"
  conin :: HANDLE
  conout :: HANDLE

definition FILE_ATTRIBUTE_DIRECTORY :: "32 word" where "FILE_ATTRIBUTE_DIRECTORY = 0x10"
definition FILE_READ_DATA :: "32 word" where "FILE_READ_DATA = 0x1"
definition FILE_WRITE_DATA :: "32 word" where "FILE_WRITE_DATA = 0x2"
definition FILE_APPEND_DATA :: "32 word" where "FILE_APPEND_DATA = 0x4"
definition GENERIC_READ :: "32 word" where "GENERIC_READ = 0x80000000"
definition GENERIC_WRITE :: "32 word" where "GENERIC_WRITE = 0x40000000"
definition GENERIC_EXECUTE :: "32 word" where "GENERIC_EXECUTE = 0x20000000"
definition GENERIC_ALL :: "32 word" where "GENERIC_ALL = 0x10000000"

definition determine_handle_type :: "nt_query \<Rightarrow> HANDLE \<Rightarrow> handle_t" where
  "determine_handle_type q h = (case query_device q h of (status, dev) \<Rightarrow>
     if status \<noteq> STATUS_SUCCESS then INVALID_HANDLE
     else (case dev of
       FILE_DEVICE_NULL \<Rightarrow> NULL_HANDLE
     | FILE_DEVICE_CONSOLE \<Rightarrow> CONSOLE_HANDLE
     | FILE_DEVICE_DISK \<Rightarrow> (case query_attributes q h of (status, attr) \<Rightarrow>
         if status \<noteq> STATUS_SUCCESS then FILE_HANDLE
         else if attr AND FILE_ATTRIBUTE_DIRECTORY \<noteq> 0 then DIRECTORY_HANDLE
         else FILE_HANDLE)
     | FILE_DEVICE_NAMED_PIPE \<Rightarrow> PIPE_HANDLE
     | FILE_DEVICE_OTHER _ \<Rightarrow> INVALID_HANDLE))"

definition access_to_flags :: "32 word \<Rightarrow> 32 word" where
  "access_to_flags acc = (let
     f0 = 0;
     f1 = (if acc AND FILE_APPEND_DATA \<noteq> 0 then f0 OR (O_APPEND OR O_WRONLY) else f0);
     f2 = (if acc AND (GENERIC_READ OR GENERIC_WRITE OR GENERIC_EXECUTE OR GENERIC_ALL) \<noteq> 0 then
             (if acc AND GENERIC_ALL \<noteq> 0
                 \<or> acc AND (GENERIC_READ OR GENERIC_WRITE) = GENERIC_READ OR GENERIC_WRITE then f1 OR O_RDWR
              else if acc AND GENERIC_WRITE \<noteq> 0 then f1 OR O_WRONLY
              else if acc AND GENERIC_READ \<noteq> 0 then f1 OR O_RDONLY
              else f1)
           else f1);
     f3 = (if acc AND (FILE_READ_DATA OR FILE_WRITE_DATA) = FILE_READ_DATA OR FILE_WRITE_DATA then f2 OR O_RDWR
           else if acc AND FILE_WRITE_DATA \<noteq> 0 then f2 OR O_WRONLY
           else if acc AND FILE_READ_DATA \<noteq> 0 then f2 OR O_RDONLY
           else f2)
     in if f3 AND (O_WRONLY OR O_RDWR) = O_WRONLY OR O_RDWR then f3 AND NOT O_WRONLY else f3)"

definition determine_handle_flags :: "nt_query \<Rightarrow> HANDLE \<Rightarrow> 32 word" where
  "determine_handle_flags q h = (case query_access q h of (status, acc) \<Rightarrow>
     if status \<noteq> STATUS_SUCCESS then O_RDONLY else access_to_flags acc)"

section \<open>Initialisation\<close>

definition FOPEN_FLAG :: byte where "FOPEN_FLAG = 0x01"

definition init_slot :: "nt_query \<Rightarrow> HANDLE \<Rightarrow> handle_t \<Rightarrow> nat \<Rightarrow> fd_state \<Rightarrow> fd_state ub" where
  "init_slot q h ty i s = map_option
     (\<lambda>tbl. s\<lparr>fd_table := tbl, fd_sequence := fd_sequence s + 1\<rparr>)
     (store i \<lparr>handle = h, htype = ty, flags = determine_handle_flags q h, sequence = fd_sequence s + 1\<rparr> (fd_table s))"

definition initialize_std_handles :: "nt_query \<Rightarrow> HANDLE \<Rightarrow> nat \<Rightarrow> bool \<Rightarrow> bool \<Rightarrow> fd_state \<Rightarrow> fd_state ub" where
  "initialize_std_handles q h index console_subsystem output s =
     (if determine_handle_type q h \<noteq> INVALID_HANDLE then init_slot q h (determine_handle_type q h) index s
      else if console_subsystem then
        (let con = (if output then conout q else conin q) in do {
           e \<leftarrow> load (fd_table s) index;
           if con \<noteq> 0 then
             map_option (\<lambda>tbl. s\<lparr>fd_table := tbl, fd_sequence := fd_sequence s + 1\<rparr>)
               (store index \<lparr>handle = con, htype = CONSOLE_HANDLE,
                  flags = (if output then O_WRONLY else O_RDONLY), sequence = fd_sequence s + 1\<rparr> (fd_table s))
           else map_option (\<lambda>tbl. s\<lparr>fd_table := tbl\<rparr>) (store index (e\<lparr>handle := 0\<rparr>) (fd_table s)) })
      else Some s)"

function table_size_for :: "nat \<Rightarrow> nat \<Rightarrow> nat" where
  "table_size_for sz n = (if 0 < sz \<and> sz < n then table_size_for (sz * 2) n else sz)"
  by pat_completeness auto
termination
  by (relation "measure (\<lambda>(sz, n). n - sz)") auto

declare table_size_for.simps [simp del]

text \<open>One descriptor of the RuntimeData block: a flag byte, then (after all flag bytes) its handle.\<close>

definition init_inherited :: "nt_query \<Rightarrow> byte list \<Rightarrow> nat \<Rightarrow> nat \<Rightarrow> fd_state \<Rightarrow> fd_state ub" where
  "init_inherited q data n i s = do {
     flag \<leftarrow> load data (4 + i);
     v \<leftarrow> read_le 8 (4 + n + i * 8) data;
     let h = (of_nat v :: HANDLE) in
       if flag AND FOPEN_FLAG = 0 \<or> h = INVALID_HANDLE_VALUE \<or> determine_handle_type q h = INVALID_HANDLE
       then map_option (\<lambda>tbl. s\<lparr>fd_table := tbl\<rparr>) (clear_handle i (fd_table s))
       else init_slot q h (determine_handle_type q h) i s }"

text \<open>\<open>Inl\<close> is the exit of the process when the table cannot be allocated.\<close>

definition init_fd_table ::
  "(nat \<Rightarrow> bool) \<Rightarrow> (nat \<Rightarrow> fdinfo) \<Rightarrow> nt_query \<Rightarrow> HANDLE \<Rightarrow> (nat \<Rightarrow> HANDLE) \<Rightarrow> byte list option \<Rightarrow> (ntstatus + fd_state) ub" where
  "init_fd_table heap junk q console stdh data = do {
     n \<leftarrow> (case data of None \<Rightarrow> Some 0 | Some bs \<Rightarrow> read_le 4 0 bs);
     let console_subsystem = \<not> (console = 0 \<or> console = - 1);
         sz = table_size_for 4 n in
     if \<not> heap sz then Some (Inl STATUS_NO_MEMORY)
     else do {
       tbl \<leftarrow> for_from 0 sz clear_handle (map junk [0..<sz]);
       s0 \<leftarrow> initialize_std_handles q (stdh 0) 0 console_subsystem False
         \<lparr>fd_table = tbl, fd_table_size = sz, fd_sequence = 0, std_handle = stdh\<rparr>;
       s1 \<leftarrow> initialize_std_handles q (stdh 1) 1 console_subsystem True s0;
       s2 \<leftarrow> initialize_std_handles q (stdh 2) 2 console_subsystem True s1;
       s3 \<leftarrow> for_from 3 (n - 3) (init_inherited q (case data of None \<Rightarrow> [] | Some bs \<Rightarrow> bs) n) s2;
       Some (Inr s3) } }"

end
