(* ===== verification/Inherit.thy ===== *)
theory Inherit
  imports FdTable
begin

unbundle bit_operations_syntax

text \<open>
  Descriptor inheritance. The parent packs its descriptors into the lpReserved2 block of the
  startup information (\<open>initialize_inherit_information\<close> and
  \<open>give_inherit_information_to_startupinfo\<close> of src/spawn/spawn.c); the child's
  \<open>init_fd_table\<close> (theory FdTable) unpacks the same bytes. The block is modelled byte by byte,
  so the round trip at the end of this theory is about the layout the two files agree on.
\<close>

record inherit_fdinfo =
  ih_handle :: HANDLE
  ih_type :: handle_t
  ih_flags :: "32 word"

definition FPIPE_FLAG :: byte where "FPIPE_FLAG = 0x08"
definition FAPPEND_FLAG :: byte where "FAPPEND_FLAG = 0x20"
definition FDEV_FLAG :: byte where "FDEV_FLAG = 0x40"

definition initialize_inherit_information ::
  "(nat \<Rightarrow> bool) \<Rightarrow> nat \<Rightarrow> (nat \<Rightarrow> inherit_fdinfo) \<Rightarrow> fd_state \<Rightarrow> inherit_fdinfo list res ub" where
  "initialize_inherit_information heap max_fd junk s =
     (if \<not> heap (max_fd + 1) then Some (fail_with ENOMEM)
      else map_option Inr (for_from 0 (max_fd + 1)
        (\<lambda>i ifd. if int i < c_int (fd_table_size s) then do {
              e \<leftarrow> load (fd_table s) i;
              store i \<lparr>ih_handle = handle e, ih_type = htype e, ih_flags = flags e\<rparr> ifd }
            else store i \<lparr>ih_handle = 0, ih_type = INVALID_HANDLE, ih_flags = 0\<rparr> ifd)
        (map junk [0..<max_fd + 1])))"

definition real_max_fd :: "inherit_fdinfo list \<Rightarrow> nat \<Rightarrow> nat ub" where
  "real_max_fd ifd fds = for_from 0 (fds + 1)
     (\<lambda>i m. map_option (\<lambda>e. if ih_handle e \<noteq> 0 then i else m) (load ifd i)) 0"

definition inherit_flag :: "inherit_fdinfo \<Rightarrow> byte" where
  "inherit_flag e = (let
     f0 = FOPEN_FLAG;
     f1 = (if ih_flags e AND O_APPEND \<noteq> 0 then f0 OR FAPPEND_FLAG else f0)
     in if ih_type e = PIPE_HANDLE then f1 OR FPIPE_FLAG
        else if ih_type e = CONSOLE_HANDLE \<or> ih_type e = NULL_HANDLE then f1 OR FDEV_FLAG
        else f1)"

text \<open>The body of the packing loop: the flag byte, the handle, and the three standard handles.\<close>

definition pack_fd ::
  "inherit_fdinfo list \<Rightarrow> nat \<Rightarrow> nat \<Rightarrow> byte list \<times> (nat \<Rightarrow> HANDLE) \<Rightarrow> (byte list \<times> (nat \<Rightarrow> HANDLE)) ub" where
  "pack_fd ifd n i st = do {
     e \<leftarrow> load ifd i;
     b1 \<leftarrow> store (4 + i) (inherit_flag e) (fst st);
     b2 \<leftarrow> write_le 8 (4 + n + i * 8)
       (unat (if ih_handle e \<noteq> 0 then ih_handle e else INVALID_HANDLE_VALUE)) b1;
     Some (b2, if i \<le> 2 then (snd st)(i := ih_handle e) else snd st) }"

text \<open>\<open>cbReserved2\<close> is a WORD, so the size of the block is reduced modulo \<open>2 ^ 16\<close>.\<close>

definition give_inherit_information_to_startupinfo ::
  "(nat \<Rightarrow> bool) \<Rightarrow> (nat \<Rightarrow> byte) \<Rightarrow> inherit_fdinfo list \<Rightarrow> nat \<Rightarrow> (nat \<Rightarrow> HANDLE) \<Rightarrow> (byte list \<times> (nat \<Rightarrow> HANDLE)) res ub" where
  "give_inherit_information_to_startupinfo heap junk ifd fds stdh = do {
     m \<leftarrow> real_max_fd ifd fds;
     let n = m + 1; cb = (4 + (8 + 1) * n) mod 2 ^ 16 in
     if \<not> heap cb then Some (fail_with ENOMEM)
     else do {
       b0 \<leftarrow> write_le 4 0 n (map junk [0..<cb]);
       st \<leftarrow> for_from 0 n (pack_fd ifd n) (b0, stdh);
       Some (Inr st) } }"

section \<open>What the parent packs\<close>

lemma real_max_fd_ok:
  assumes "length ifd = fds + 1"
  shows "\<exists>m \<le> fds. real_max_fd ifd fds = Some m \<and> (\<forall>i. m < i \<longrightarrow> i \<le> fds \<longrightarrow> ih_handle (ifd ! i) = 0)"
proof -
  let ?P = "\<lambda>j m. m \<le> fds \<and> (\<forall>i. m < i \<longrightarrow> i < j \<longrightarrow> ih_handle (ifd ! i) = 0)"
  have "\<exists>m. real_max_fd ifd fds = Some m \<and> ?P (0 + (fds + 1)) m"
    unfolding real_max_fd_def
    by (rule for_from_inv) (use assms in \<open>auto simp: less_Suc_eq\<close>)
  then show ?thesis by auto
qed

definition wire_handle :: "inherit_fdinfo \<Rightarrow> HANDLE" where
  "wire_handle e = (if ih_handle e \<noteq> 0 then ih_handle e else INVALID_HANDLE_VALUE)"

definition packed :: "inherit_fdinfo list \<Rightarrow> nat \<Rightarrow> nat \<Rightarrow> byte list \<Rightarrow> bool" where
  "packed ifd n j bs \<longleftrightarrow> length bs = 4 + 9 * n \<and> read_le 4 0 bs = Some n
     \<and> (\<forall>i < j. bs ! (4 + i) = inherit_flag (ifd ! i)
          \<and> read_le 8 (4 + n + i * 8) bs = Some (unat (wire_handle (ifd ! i))))"

lemma read_le_store_other:
  assumes "i < off \<or> off + k \<le> i"
  shows "read_le k off (bs[i := b]) = read_le k off bs"
  by (rule read_le_cong) (use assms in \<open>auto simp: nth_update_if\<close>)

lemma pack_fd_packed:
  assumes "packed ifd n j (fst st)" "j < n" "n \<le> length ifd"
  shows "\<exists>st'. pack_fd ifd n j st = Some st' \<and> packed ifd n (Suc j) (fst st')
    \<and> snd st' = (if j \<le> 2 then (snd st)(j := ih_handle (ifd ! j)) else snd st)"
proof -
  let ?b = "fst st" and ?f = "inherit_flag (ifd ! j)" and ?h = "wire_handle (ifd ! j)"
  have len: "length ?b = 4 + 9 * n" using assms(1) by (simp add: packed_def)
  obtain b2 where b2: "write_le 8 (4 + n + j * 8) (unat ?h) (?b[4 + j := ?f]) = Some b2"
    using len assms(2) by (auto simp: write_le_def)
  have "unat ?h < 256 ^ 8" using unsigned_less [of ?h] by simp
  then have self: "read_le 8 (4 + n + j * 8) b2 = Some (unat ?h)" "length b2 = 4 + 9 * n"
    using read_write_le_same [OF b2] len by auto
  have count: "read_le 4 0 b2 = Some n"
    using read_write_le_other [OF b2, of 0 4] read_le_store_other [of "4 + j" 0 4 ?b ?f] assms(1,2)
    by (simp add: packed_def)
  have flag: "b2 ! (4 + i) = inherit_flag (ifd ! i)" if "i < Suc j" for i
    using nth_write_le [OF b2, of "4 + i"] that assms(1,2) len
    by (auto simp: packed_def nth_update_if less_Suc_eq)
  have hdl: "read_le 8 (4 + n + i * 8) b2 = Some (unat (wire_handle (ifd ! i)))" if "i < Suc j" for i
  proof (cases "i = j")
    case False
    then have "i < j" using that by simp
    then show ?thesis
      using read_write_le_other [OF b2, of "4 + n + i * 8" 8]
        read_le_store_other [of "4 + j" "4 + n + i * 8" 8 ?b ?f] assms(1,2)
      by (simp add: packed_def)
  qed (use self in simp)
  have "packed ifd n (Suc j) b2" using self count flag hdl by (simp add: packed_def)
  then show ?thesis
    using assms(2,3) len b2 by (auto simp: pack_fd_def wire_handle_def)
qed

lemma give_inherit_packed:
  assumes "length ifd = fds + 1" and "4 + 9 * (fds + 1) < 2 ^ 16" and "\<forall>n. heap n"
  shows "\<exists>n bs sh. give_inherit_information_to_startupinfo heap junk ifd fds stdh = Some (Inr (bs, sh))
    \<and> 0 < n \<and> n \<le> fds + 1 \<and> packed ifd n n bs
    \<and> (\<forall>i. n \<le> i \<longrightarrow> i \<le> fds \<longrightarrow> ih_handle (ifd ! i) = 0)
    \<and> (\<forall>i < n. i \<le> 2 \<longrightarrow> sh i = ih_handle (ifd ! i))"
proof -
  obtain m where m: "m \<le> fds" "real_max_fd ifd fds = Some m"
      "\<forall>i. m < i \<longrightarrow> i \<le> fds \<longrightarrow> ih_handle (ifd ! i) = 0"
    using real_max_fd_ok [OF assms(1)] by blast
  let ?n = "m + 1"
  have cb: "(4 + (8 + 1) * ?n) mod 2 ^ 16 = 4 + 9 * ?n" using m(1) assms(2) by simp
  obtain b0 where b0: "write_le 4 0 ?n (map junk [0..<4 + 9 * ?n]) = Some b0" by (auto simp: write_le_def)
  have "?n < 256 ^ 4" using m(1) assms(2) by simp
  then have start: "packed ifd ?n 0 b0" using read_write_le_same [OF b0] by (simp add: packed_def)
  let ?P = "\<lambda>j st. packed ifd ?n j (fst st) \<and> (\<forall>i < j. i \<le> 2 \<longrightarrow> snd st i = ih_handle (ifd ! i))"
  have "\<exists>st. for_from 0 ?n (pack_fd ifd ?n) (b0, stdh) = Some st \<and> ?P (0 + ?n) st"
  proof (rule for_from_inv)
    fix j st assume j: "j < 0 + ?n" "?P j st"
    obtain st' where st': "pack_fd ifd ?n j st = Some st'" "packed ifd ?n (Suc j) (fst st')"
        "snd st' = (if j \<le> 2 then (snd st)(j := ih_handle (ifd ! j)) else snd st)"
      using pack_fd_packed [of ifd ?n j st] j m(1) assms(1) by auto
    then show "\<exists>st'. pack_fd ifd ?n j st = Some st' \<and> ?P (Suc j) st'"
      using j(2) by (auto simp: less_Suc_eq)
  qed (use start in simp)
  then obtain st where st: "for_from 0 ?n (pack_fd ifd ?n) (b0, stdh) = Some st" "?P ?n st" by auto
  have "give_inherit_information_to_startupinfo heap junk ifd fds stdh = Some (Inr (fst st, snd st))"
    using m(2) assms(3) cb b0 st(1) by (simp add: give_inherit_information_to_startupinfo_def Let_def del: for_from.simps)
  then show ?thesis using st(2) m by (intro exI [of _ ?n] exI [of _ "fst st"] exI [of _ "snd st"]) auto
qed

section \<open>What the child unpacks\<close>

lemma table_size_for_bounds:
  "0 < sz \<Longrightarrow> n \<le> table_size_for sz n \<and> sz \<le> table_size_for sz n \<and> table_size_for sz n \<le> max sz (2 * n)"
proof (induction sz n rule: table_size_for.induct)
  case (1 sz n)
  then show ?case by (cases "sz < n") (auto simp: table_size_for.simps [of sz n])
qed

text \<open>What a child makes of a handle it receives: a descriptor of its own with the type and the
  access the kernel reports, or none when the handle is not usable.\<close>

definition inherits :: "nt_query \<Rightarrow> HANDLE \<Rightarrow> fdinfo option \<Rightarrow> bool" where
  "inherits q h r \<longleftrightarrow> (case r of
     None \<Rightarrow> h = INVALID_HANDLE_VALUE \<or> determine_handle_type q h = INVALID_HANDLE
   | Some e \<Rightarrow> h \<noteq> INVALID_HANDLE_VALUE \<and> determine_handle_type q h \<noteq> INVALID_HANDLE \<and> handle e = h
       \<and> htype e = determine_handle_type q h \<and> flags e = determine_handle_flags q h)"

lemma inherit_flag_open: "inherit_flag e AND FOPEN_FLAG \<noteq> 0"
  by (simp add: inherit_flag_def Let_def FOPEN_FLAG_def FAPPEND_FLAG_def FPIPE_FLAG_def FDEV_FLAG_def)

lemma wire_handle_nonzero: "wire_handle e \<noteq> 0"
  by (simp add: wire_handle_def INVALID_HANDLE_VALUE_def)

lemma init_inherited_step:
  assumes "packed ifd n n bs" "i < n" "tbl_inv s" "n \<le> fd_table_size s"
  shows "\<exists>s'. init_inherited q bs n i s = Some s' \<and> tbl_inv s' \<and> fd_table_size s' = fd_table_size s
    \<and> inherits q (wire_handle (ifd ! i)) (fd_lookup s' (int i))
    \<and> (\<forall>j. j \<noteq> int i \<longrightarrow> fd_lookup s' j = fd_lookup s j)"
proof -
  let ?h = "wire_handle (ifd ! i)"
  have len: "length bs = 4 + 9 * n" "i < length (fd_table s)" "length (fd_table s) = fd_table_size s"
    using assms by (auto simp: packed_def tbl_inv_def)
  have rd: "load bs (4 + i) = Some (inherit_flag (ifd ! i))" "read_le 8 (4 + n + i * 8) bs = Some (unat ?h)"
    using assms(1,2) len by (auto simp: packed_def load_def)
  show ?thesis
  proof (cases "?h = INVALID_HANDLE_VALUE \<or> determine_handle_type q ?h = INVALID_HANDLE")
    case True
    then have "init_inherited q bs n i s
        = Some (s\<lparr>fd_table := (fd_table s)[i := (fd_table s ! i)\<lparr>handle := 0\<rparr>]\<rparr>)"
      using rd len by (simp add: init_inherited_def clear_handle_def)
    then show ?thesis
      using True len assms(3) by (auto simp: tbl_inv_def fd_lookup_def inherits_def nth_update_if nat_eq_iff)
  next
    case False
    then have "init_inherited q bs n i s = init_slot q ?h (determine_handle_type q ?h) i s"
      using rd inherit_flag_open by (simp add: init_inherited_def Let_def)
    then show ?thesis
      using False len assms(3) wire_handle_nonzero
      by (auto simp: init_slot_def tbl_inv_def fd_lookup_def inherits_def nth_update_if nat_eq_iff)
  qed
qed

lemma init_std_step:
  assumes "tbl_inv s" "i < fd_table_size s"
  shows "\<exists>s'. initialize_std_handles q h i c out s = Some s' \<and> tbl_inv s' \<and> fd_table_size s' = fd_table_size s
    \<and> (\<forall>j. j \<noteq> int i \<longrightarrow> fd_lookup s' j = fd_lookup s j)"
  using assms
  by (auto simp: initialize_std_handles_def init_slot_def tbl_inv_def fd_lookup_def Let_def nth_update_if nat_eq_iff)

lemma init_std_three:
  assumes "tbl_inv s" "4 \<le> fd_table_size s" "fd_lookup s = Map.empty"
  shows "\<exists>s0 s1 s2. initialize_std_handles q h0 0 c False s = Some s0
    \<and> initialize_std_handles q h1 1 c True s0 = Some s1 \<and> initialize_std_handles q h2 2 c True s1 = Some s2
    \<and> tbl_inv s2 \<and> fd_table_size s2 = fd_table_size s \<and> (\<forall>j \<ge> 3. fd_lookup s2 j = None)"
proof -
  obtain s0 where s0: "initialize_std_handles q h0 0 c False s = Some s0" "tbl_inv s0"
      "fd_table_size s0 = fd_table_size s" "\<forall>j. j \<noteq> int 0 \<longrightarrow> fd_lookup s0 j = fd_lookup s j"
    using init_std_step [OF assms(1), of 0 q h0 c False] assms(2) by auto
  obtain s1 where s1: "initialize_std_handles q h1 1 c True s0 = Some s1" "tbl_inv s1"
      "fd_table_size s1 = fd_table_size s0" "\<forall>j. j \<noteq> int 1 \<longrightarrow> fd_lookup s1 j = fd_lookup s0 j"
    using init_std_step [OF s0(2), of 1 q h1 c True] assms(2) s0(3) by auto
  obtain s2 where s2: "initialize_std_handles q h2 2 c True s1 = Some s2" "tbl_inv s2"
      "fd_table_size s2 = fd_table_size s1" "\<forall>j. j \<noteq> int 2 \<longrightarrow> fd_lookup s2 j = fd_lookup s1 j"
    using init_std_step [OF s1(2), of 2 q h2 c True] assms(2) s0(3) s1(3) by auto
  have "\<forall>j \<ge> 3. fd_lookup s2 j = None" using s0(4) s1(4) s2(4) assms(3) by simp
  then show ?thesis using s0(1,3) s1(1,3) s2(1-3) by auto
qed

lemma init_fd_table_unpacks:
  assumes p: "packed ifd n n bs" and n: "n < 2 ^ 16" and heap: "\<forall>k. heap k"
  shows "\<exists>s. init_fd_table heap junk q console stdh (Some bs) = Some (Inr s) \<and> tbl_inv s
    \<and> (\<forall>i. 3 \<le> i \<longrightarrow> i < n \<longrightarrow> inherits q (wire_handle (ifd ! i)) (fd_lookup s (int i)))
    \<and> (\<forall>i. 3 \<le> i \<longrightarrow> int n \<le> i \<longrightarrow> fd_lookup s i = None)"
proof -
  let ?sz = "table_size_for 4 n"
  have sz: "n \<le> ?sz" "4 \<le> ?sz" "?sz < 2 ^ 31" using table_size_for_bounds [of 4 n] n by auto
  obtain tbl where tbl: "for_from 0 ?sz clear_handle (map junk [0..<?sz]) = Some tbl" "length tbl = ?sz"
      "\<forall>j < ?sz. handle (tbl ! j) = 0"
    using clear_loop [of 0 ?sz "map junk [0..<?sz]"] by auto
  define s where "s = \<lparr>fd_table = tbl, fd_table_size = ?sz, fd_sequence = 0, std_handle = stdh\<rparr>"
  have s: "tbl_inv s" "4 \<le> fd_table_size s" "fd_lookup s = Map.empty"
    using tbl sz by (auto simp: s_def tbl_inv_def fd_lookup_def fun_eq_iff nat_less_iff)
  let ?c = "\<not> (console = 0 \<or> console = - 1)"
  obtain s0 s1 s2 where std: "initialize_std_handles q (stdh 0) 0 ?c False s = Some s0"
      "initialize_std_handles q (stdh 1) 1 ?c True s0 = Some s1" "initialize_std_handles q (stdh 2) 2 ?c True s1 = Some s2"
      "tbl_inv s2" "fd_table_size s2 = fd_table_size s" "\<forall>j \<ge> 3. fd_lookup s2 j = None"
    using init_std_three [OF s, of q "stdh 0" ?c "stdh 1" "stdh 2"] by blast
  let ?P = "\<lambda>j s. tbl_inv s \<and> fd_table_size s = ?sz
    \<and> (\<forall>i. 3 \<le> i \<longrightarrow> i < j \<longrightarrow> inherits q (wire_handle (ifd ! i)) (fd_lookup s (int i)))
    \<and> (\<forall>i. int j \<le> i \<longrightarrow> fd_lookup s i = None)"
  have "\<exists>s'. for_from 3 (n - 3) (init_inherited q bs n) s2 = Some s' \<and> ?P (3 + (n - 3)) s'"
  proof (rule for_from_inv)
    show "?P 3 s2" using std(4-6) by (simp add: s_def)
  next
    fix j t assume j: "3 \<le> j" "j < 3 + (n - 3)" "?P j t"
    then have "j < n" by simp
    with j obtain t' where t': "init_inherited q bs n j t = Some t'" "tbl_inv t'" "fd_table_size t' = ?sz"
        "inherits q (wire_handle (ifd ! j)) (fd_lookup t' (int j))" "\<forall>i. i \<noteq> int j \<longrightarrow> fd_lookup t' i = fd_lookup t i"
      using init_inherited_step [OF p, of j t q] sz(1) by auto
    then show "\<exists>t'. init_inherited q bs n j t = Some t' \<and> ?P (Suc j) t'"
      using j(3) by (auto simp: less_Suc_eq)
  qed
  then obtain s' where s': "for_from 3 (n - 3) (init_inherited q bs n) s2 = Some s'" "?P (3 + (n - 3)) s'" by blast
  have "init_fd_table heap junk q console stdh (Some bs) = Some (Inr s')"
    using p heap tbl(1) std(1-3) s'(1) unfolding s_def by (simp add: init_fd_table_def Let_def packed_def)
  then show ?thesis using s'(2) by (cases "3 \<le> n") auto
qed

section \<open>The round trip\<close>

lemma initialize_inherit_information_ok:
  assumes "tbl_inv p" "\<forall>n. heap n"
  shows "\<exists>ifd. initialize_inherit_information heap max_fd junk p = Some (Inr ifd) \<and> length ifd = max_fd + 1
    \<and> (\<forall>i \<le> max_fd. ih_handle (ifd ! i) = (case fd_lookup p (int i) of None \<Rightarrow> 0 | Some e \<Rightarrow> handle e))"
proof -
  define f where "f i = (if i < fd_table_size p then \<lparr>ih_handle = handle (fd_table p ! i), ih_type = htype (fd_table p ! i),
      ih_flags = flags (fd_table p ! i)\<rparr> else \<lparr>ih_handle = 0, ih_type = INVALID_HANDLE, ih_flags = 0\<rparr>)" for i
  have loop: "for_from 0 (max_fd + 1)
      (\<lambda>i ifd. if int i < c_int (fd_table_size p) then do {
          e \<leftarrow> load (fd_table p) i;
          store i \<lparr>ih_handle = handle e, ih_type = htype e, ih_flags = flags e\<rparr> ifd }
        else store i \<lparr>ih_handle = 0, ih_type = INVALID_HANDLE, ih_flags = 0\<rparr> ifd) (map junk [0..<max_fd + 1])
    = for_from 0 (max_fd + 1) (\<lambda>i. store i (f i)) (map junk [0..<max_fd + 1])"
    by (rule for_from_cong) (use assms(1) in \<open>simp add: f_def tbl_inv_def\<close>)
  have fill: "for_from 0 (max_fd + 1) (\<lambda>i. store i (f i)) (map junk [0..<max_fd + 1]) = Some (map f [0..<max_fd + 1])"
    by (simp add: for_from_fill del: for_from.simps upt_Suc)
  have eq: "initialize_inherit_information heap max_fd junk p = Some (Inr (map f [0..<max_fd + 1]))"
    unfolding initialize_inherit_information_def loop fill using assms(2) by simp
  have "\<forall>i \<le> max_fd. ih_handle (map f [0..<max_fd + 1] ! i) = (case fd_lookup p (int i) of None \<Rightarrow> 0 | Some e \<Rightarrow> handle e)"
  proof (intro allI impI)
    fix i assume "i \<le> max_fd"
    then have "map f [0..<max_fd + 1] ! i = f i" by (subst nth_map) (auto simp del: upt_Suc)
    then show "ih_handle (map f [0..<max_fd + 1] ! i) = (case fd_lookup p (int i) of None \<Rightarrow> 0 | Some e \<Rightarrow> handle e)"
      by (simp add: f_def fd_lookup_def)
  qed
  with eq show ?thesis by (intro exI [of _ "map f [0..<max_fd + 1]"]) simp
qed

text \<open>C13: descriptor inheritance round trip. What a parent packs from its descriptor table into
  the startup block, the child's start-up unpacks into the same descriptors: descriptor \<open>fd\<close> (from 3
  up) of the child is absent when the parent's is closed, and otherwise carries the parent's
  handle, with the type and access flags the kernel reports for it. Packing and unpacking stay
  inside the block, as long as the block's size fits the WORD that carries it.\<close>

theorem child_inherits_parent_descriptors:
  assumes "tbl_inv p" and "4 + 9 * (max_fd + 1) < 2 ^ 16" and "\<forall>n. heap n"
  shows "\<exists>ifd bs sh c.
    initialize_inherit_information heap max_fd junk p = Some (Inr ifd)
    \<and> give_inherit_information_to_startupinfo heap junk' ifd max_fd stdh = Some (Inr (bs, sh))
    \<and> init_fd_table heap junk'' q console sh (Some bs) = Some (Inr c)
    \<and> (\<forall>fd. 3 \<le> fd \<longrightarrow> fd \<le> int max_fd \<longrightarrow>
        (case fd_lookup p fd of None \<Rightarrow> fd_lookup c fd = None | Some e \<Rightarrow> inherits q (handle e) (fd_lookup c fd)))"
proof -
  obtain ifd where ifd: "initialize_inherit_information heap max_fd junk p = Some (Inr ifd)" "length ifd = max_fd + 1"
      "\<forall>i \<le> max_fd. ih_handle (ifd ! i) = (case fd_lookup p (int i) of None \<Rightarrow> 0 | Some e \<Rightarrow> handle e)"
    using initialize_inherit_information_ok [OF assms(1,3), of max_fd junk] by (elim exE conjE) (rule that)
  obtain n bs sh where pk: "give_inherit_information_to_startupinfo heap junk' ifd max_fd stdh = Some (Inr (bs, sh))"
      "n \<le> max_fd + 1" "packed ifd n n bs" "\<forall>i. n \<le> i \<longrightarrow> i \<le> max_fd \<longrightarrow> ih_handle (ifd ! i) = 0"
    using give_inherit_packed [OF ifd(2) assms(2,3), of junk' stdh] by (elim exE conjE) (rule that)
  have "n < 2 ^ 16" using pk(2) assms(2) by simp
  then obtain c where c: "init_fd_table heap junk'' q console sh (Some bs) = Some (Inr c)"
      "\<forall>i. 3 \<le> i \<longrightarrow> i < n \<longrightarrow> inherits q (wire_handle (ifd ! i)) (fd_lookup c (int i))"
      "\<forall>i. 3 \<le> i \<longrightarrow> int n \<le> i \<longrightarrow> fd_lookup c i = None"
    using init_fd_table_unpacks [OF pk(3) _ assms(3), of junk'' q console sh] by auto
  have "case fd_lookup p fd of None \<Rightarrow> fd_lookup c fd = None | Some e \<Rightarrow> inherits q (handle e) (fd_lookup c fd)"
    if fd: "3 \<le> fd" "fd \<le> int max_fd" for fd
  proof -
    have i: "3 \<le> nat fd" "nat fd \<le> max_fd" "int (nat fd) = fd" using fd by auto
    have h: "ih_handle (ifd ! nat fd) = (case fd_lookup p fd of None \<Rightarrow> 0 | Some e \<Rightarrow> handle e)" using ifd(3) i by auto
    show ?thesis
    proof (cases "nat fd < n")
      case True
      then have "inherits q (wire_handle (ifd ! nat fd)) (fd_lookup c fd)" using c(2) i by fastforce
      then show ?thesis
        using h fdt.lookup_handle by (auto simp: wire_handle_def inherits_def split: option.splits)
    next
      case False
      then have "ih_handle (ifd ! nat fd) = 0" "fd_lookup c fd = None" using pk(4) c(3) i by auto
      then show ?thesis using h fdt.lookup_handle by (auto split: option.splits)
    qed
  qed
  with ifd(1) pk(1) c(1) show ?thesis by blast
qed

definition example_parent :: fd_state where
  "example_parent = \<lparr>fd_table = replicate 5 \<lparr>handle = 0x44, htype = FILE_HANDLE, flags = 2, sequence = 1\<rparr>,
     fd_table_size = 5, fd_sequence = 5, std_handle = (\<lambda>_. 0)\<rparr>"

definition example_query :: nt_query where
  "example_query = \<lparr>query_device = (\<lambda>_. (STATUS_SUCCESS, FILE_DEVICE_DISK)),
     query_attributes = (\<lambda>_. (STATUS_SUCCESS, 0)), query_access = (\<lambda>_. (STATUS_SUCCESS, 3)),
     conin = 0, conout = 0\<rparr>"

theorem child_inherits_parent_descriptors_witness:
  "\<exists>ifd bs sh c e. initialize_inherit_information (\<lambda>_. True) 4 undefined example_parent = Some (Inr ifd)
    \<and> give_inherit_information_to_startupinfo (\<lambda>_. True) (\<lambda>_. 0) ifd 4 (\<lambda>_. 0) = Some (Inr (bs, sh))
    \<and> init_fd_table (\<lambda>_. True) undefined example_query 0 sh (Some bs) = Some (Inr c)
    \<and> fd_lookup c 4 = Some e \<and> handle e = 0x44"
proof -
  have inv: "tbl_inv example_parent" by (simp add: tbl_inv_def example_parent_def)
  have e: "fd_lookup example_parent 4 = Some \<lparr>handle = 0x44, htype = FILE_HANDLE, flags = 2, sequence = 1\<rparr>"
    by (simp add: fd_lookup_def example_parent_def)
  obtain ifd bs sh c where c: "initialize_inherit_information (\<lambda>_. True) 4 undefined example_parent = Some (Inr ifd)"
      "give_inherit_information_to_startupinfo (\<lambda>_. True) (\<lambda>_. 0) ifd 4 (\<lambda>_. 0) = Some (Inr (bs, sh))"
      "init_fd_table (\<lambda>_. True) undefined example_query 0 sh (Some bs) = Some (Inr c)"
      "\<forall>fd. 3 \<le> fd \<longrightarrow> fd \<le> int 4 \<longrightarrow> (case fd_lookup example_parent fd of None \<Rightarrow> fd_lookup c fd = None
         | Some e \<Rightarrow> inherits example_query (handle e) (fd_lookup c fd))"
    using child_inherits_parent_descriptors [OF inv, of 4 "\<lambda>_. True" undefined "\<lambda>_. 0" "\<lambda>_. 0" undefined example_query 0]
    by auto
  have "inherits example_query 0x44 (fd_lookup c 4)" using c(4) [rule_format, of 4] e by simp
  then obtain e' where "fd_lookup c 4 = Some e'" "handle e' = 0x44"
    by (auto simp: inherits_def INVALID_HANDLE_VALUE_def determine_handle_type_def example_query_def split: option.splits)
  with c(1-3) show ?thesis by blast
qed

end
