(* ===== verification/FdOps.thy ===== *)
theory FdOps
  imports FdTable
begin

unbundle bit_operations_syntax

text \<open>
  The descriptor system calls on top of the table: close (src/unistd/close.c), dup, dup2 and dup3
  (src/unistd/dup.c), fcntl (src/fcntl/fcntl.c), lseek (src/unistd/lseek.c), read and write
  (src/unistd/read.c, src/unistd/write.c). The NT system calls they make are the fields of
  \<open>nt_io\<close>, functions on an abstract kernel state \<open>'k\<close>; \<open>read\<close> and \<open>write\<close> pass a length
  as a ULONG, so counts are reduced modulo \<open>2 ^ 32\<close>.
\<close>

record 'k nt_io =
  NtClose :: "'k \<Rightarrow> HANDLE \<Rightarrow> ntstatus \<times> 'k"
  NtDuplicateObject :: "'k \<Rightarrow> HANDLE \<Rightarrow> bool \<Rightarrow> ntstatus \<times> HANDLE \<times> 'k"
    \<comment> \<open>the flag: the copy keeps the attributes of the source\<close>
  NtQueryPosition :: "'k \<Rightarrow> HANDLE \<Rightarrow> ntstatus \<times> int"
  NtQueryEndOfFile :: "'k \<Rightarrow> HANDLE \<Rightarrow> ntstatus \<times> int"
  NtSetPosition :: "'k \<Rightarrow> HANDLE \<Rightarrow> int \<Rightarrow> ntstatus \<times> 'k"
  NtReadFile :: "'k \<Rightarrow> HANDLE \<Rightarrow> nat \<Rightarrow> ntstatus \<times> byte list \<times> 'k"
  NtWriteFile :: "'k \<Rightarrow> HANDLE \<Rightarrow> bool \<Rightarrow> byte list \<Rightarrow> ntstatus \<times> nat \<times> 'k"
    \<comment> \<open>the flag: FILE_WRITE_TO_END_OF_FILE instead of the file pointer position\<close>

definition AT_FDCWD :: int where "AT_FDCWD = 0x1000000"

section \<open>close\<close>

definition wlibc_close :: "'k nt_io \<Rightarrow> int \<Rightarrow> fd_state \<Rightarrow> 'k \<Rightarrow> (int res \<times> fd_state \<times> 'k) ub" where
  "wlibc_close nt fd s k =
     (if fd = AT_FDCWD then Some (Inr 0, s, k)
      else do {
        v \<leftarrow> validate_fd fd s;
        if \<not> v then Some (fail_with EBADF, s, k) else close_fd (NtClose nt) fd s k })"

section \<open>dup\<close>

text \<open>\<open>info\<close> is the uninitialised local structure that \<open>get_fdinfo\<close> fills.\<close>

definition do_dup ::
  "'k nt_io \<Rightarrow> (nat \<Rightarrow> bool) \<Rightarrow> (nat \<Rightarrow> fdinfo) \<Rightarrow> fdinfo \<Rightarrow> int \<Rightarrow> int \<Rightarrow> 32 word \<Rightarrow> fd_state \<Rightarrow> 'k \<Rightarrow> (int res \<times> fd_state \<times> 'k) ub" where
  "do_dup nt heap junk info oldfd newfd fl s k = do {
     old \<leftarrow> get_fdinfo oldfd info s;
     let (status, target, k1) = NtDuplicateObject nt k (handle old) (fl \<noteq> O_CLOEXEC) in
     if status \<noteq> STATUS_SUCCESS then Some (Inl (map_ntstatus_to_errno status), s, k1)
     else if newfd = -1 then do {
       (r, s1) \<leftarrow> register_to_fd_table heap junk target (htype old) (flags old) s;
       Some (r, s1, k1) }
     else do {
       v \<leftarrow> validate_fd newfd s;
       (r, s1, k2) \<leftarrow> (if v then close_fd (NtClose nt) newfd s k1 else Some (Inr 0, s, k1));
       case r of
         Inl e \<Rightarrow> Some (Inl e, s1, k2)
       | Inr _ \<Rightarrow> do {
           (r', s2) \<leftarrow> insert_into_fd_table heap junk newfd target (htype old) (flags old OR fl) s1;
           Some (r', s2, k2) } } }"

definition wlibc_common_dup ::
  "'k nt_io \<Rightarrow> (nat \<Rightarrow> bool) \<Rightarrow> (nat \<Rightarrow> fdinfo) \<Rightarrow> fdinfo \<Rightarrow> int \<Rightarrow> int \<Rightarrow> 32 word \<Rightarrow> fd_state \<Rightarrow> 'k \<Rightarrow> (int res \<times> fd_state \<times> 'k) ub" where
  "wlibc_common_dup nt heap junk info oldfd newfd fl s k = do {
     v \<leftarrow> validate_fd oldfd s;
     if \<not> v then Some (fail_with EBADF, s, k)
     else if fl \<noteq> 0 \<and> fl \<noteq> O_CLOEXEC then Some (fail_with EINVAL, s, k)
     else if newfd = oldfd then Some (Inr newfd, s, k)
     else do_dup nt heap junk info oldfd newfd fl s k }"

section \<open>fcntl\<close>

lemma validate_fd_TrueD: "validate_fd fd s = Some True \<Longrightarrow> 0 \<le> fd \<and> fd < c_int (fd_table_size s)"
  by (auto simp: validate_fd_def split: if_splits)

text \<open>The loop of \<open>do_dupfd\<close>: the first descriptor at or above the requested one that is not in use.\<close>

function first_unused_from :: "int \<Rightarrow> fd_state \<Rightarrow> int ub" where
  "first_unused_from fd s = (case validate_fd fd s of
     None \<Rightarrow> None
   | Some v \<Rightarrow> if v then first_unused_from (fd + 1) s else Some fd)"
  by pat_completeness auto
termination
  by (relation "measure (\<lambda>(fd, s). nat (c_int (fd_table_size s) - fd))") (auto dest: validate_fd_TrueD)

declare first_unused_from.simps [simp del]

definition do_dupfd ::
  "'k nt_io \<Rightarrow> (nat \<Rightarrow> bool) \<Rightarrow> (nat \<Rightarrow> fdinfo) \<Rightarrow> fdinfo \<Rightarrow> int \<Rightarrow> int \<Rightarrow> 32 word \<Rightarrow> fd_state \<Rightarrow> 'k \<Rightarrow> (int res \<times> fd_state \<times> 'k) ub" where
  "do_dupfd nt heap junk info oldfd newfd fl s k = do {
     fd \<leftarrow> first_unused_from newfd s;
     do_dup nt heap junk info oldfd fd fl s k }"

datatype fcntl_cmd = F_DUPFD | F_DUPFD_CLOEXEC | F_GETFD | F_SETFD | F_GETFL | F_SETFL | F_OTHER int

definition O_ASYNC :: "32 word" where "O_ASYNC = 0x100000"
definition O_DIRECT :: "32 word" where "O_DIRECT = 0x400000"
definition O_NOATIME :: "32 word" where "O_NOATIME = 0x200000"
definition O_NONBLOCK :: "32 word" where "O_NONBLOCK = 0x4000000"

definition wlibc_fcntl ::
  "'k nt_io \<Rightarrow> (nat \<Rightarrow> bool) \<Rightarrow> (nat \<Rightarrow> fdinfo) \<Rightarrow> fdinfo \<Rightarrow> int \<Rightarrow> fcntl_cmd \<Rightarrow> int \<Rightarrow> fd_state \<Rightarrow> 'k \<Rightarrow> (int res \<times> fd_state \<times> 'k) ub" where
  "wlibc_fcntl nt heap junk info fd cmd arg s k = do {
     v \<leftarrow> validate_fd fd s;
     if \<not> v then Some (fail_silent, s, k)
     else (case cmd of
       F_DUPFD \<Rightarrow> do_dupfd nt heap junk info fd arg 0 s k
     | F_DUPFD_CLOEXEC \<Rightarrow> do_dupfd nt heap junk info fd arg O_CLOEXEC s k
     | F_GETFD \<Rightarrow> map_option (\<lambda>f. (Inr (sint (f AND O_CLOEXEC)), s, k)) (get_fd_flags fd s)
     | F_SETFD \<Rightarrow> map_option (\<lambda>s'. (Inr 0, s', k)) (add_fd_flags fd (word_of_int arg AND O_CLOEXEC) s)
     | F_GETFL \<Rightarrow> map_option (\<lambda>f. (Inr (sint f), s, k)) (get_fd_flags fd s)
     | F_SETFL \<Rightarrow> map_option (\<lambda>s'. (Inr 0, s', k))
         (add_fd_flags fd (word_of_int arg AND (O_APPEND OR O_ASYNC OR O_DIRECT OR O_NOATIME OR O_NONBLOCK)) s)
     | F_OTHER _ \<Rightarrow> Some (fail_with EINVAL, s, k)) }"

section \<open>lseek, read, write\<close>

text \<open>A NULL buffer is \<open>buffer_null\<close> for \<open>read\<close> and \<open>None\<close> for \<open>write\<close>.
  \<open>whence\<close>: SEEK_SET is 0, SEEK_CUR is 1, SEEK_END is 2. The sum of position and offset is a
  LONGLONG; an overflow of the signed addition is undefined.\<close>

definition wlibc_lseek :: "'k nt_io \<Rightarrow> fdinfo \<Rightarrow> int \<Rightarrow> int \<Rightarrow> int \<Rightarrow> fd_state \<Rightarrow> 'k \<Rightarrow> (int res \<times> 'k) ub" where
  "wlibc_lseek nt info0 fd offset whence s k = do {
     info \<leftarrow> get_fdinfo fd info0 s;
     if htype info = INVALID_HANDLE then Some (fail_with EBADF, k)
     else if htype info = PIPE_HANDLE then Some (fail_with ESPIPE, k)
     else if whence < 0 \<or> whence > 2 then Some (fail_with EINVAL, k)
     else if whence = 0 \<and> offset < 0 then Some (fail_with EINVAL, k)
     else (let (status, current) =
             (if whence = 0 then (STATUS_SUCCESS, 0)
              else if whence = 1 then NtQueryPosition nt k (handle info)
              else NtQueryEndOfFile nt k (handle info)) in
       if status \<noteq> STATUS_SUCCESS then Some (Inl (map_ntstatus_to_errno status), k)
       else if \<not> (- (2 ^ 63) \<le> current + offset \<and> current + offset < 2 ^ 63) then None
       else (let (status, k') = NtSetPosition nt k (handle info) (current + offset) in
         if status \<noteq> STATUS_SUCCESS then Some (Inl (map_ntstatus_to_errno status), k')
         else Some (Inr (current + offset), k'))) }"

definition wlibc_read :: "'k nt_io \<Rightarrow> fdinfo \<Rightarrow> int \<Rightarrow> bool \<Rightarrow> nat \<Rightarrow> fd_state \<Rightarrow> 'k \<Rightarrow> (byte list res \<times> 'k) ub" where
  "wlibc_read nt info0 fd buffer_null count s k = (if buffer_null then Some (fail_with EFAULT, k) else do {
     info \<leftarrow> get_fdinfo fd info0 s;
     if htype info = DIRECTORY_HANDLE \<or> htype info = INVALID_HANDLE then
       Some (fail_with (if htype info = DIRECTORY_HANDLE then EISDIR else EBADF), k)
     else (let (status, data, k') = NtReadFile nt k (handle info) (count mod 2 ^ 32) in
       if status \<notin> {STATUS_SUCCESS, STATUS_PENDING, STATUS_END_OF_FILE, STATUS_PIPE_BROKEN, STATUS_PIPE_EMPTY}
       then Some (Inl (map_ntstatus_to_errno status), k')
       else Some (Inr data, k')) })"

definition wlibc_write :: "'k nt_io \<Rightarrow> fdinfo \<Rightarrow> int \<Rightarrow> byte list option \<Rightarrow> fd_state \<Rightarrow> 'k \<Rightarrow> (int res \<times> 'k) ub" where
  "wlibc_write nt info0 fd buffer s k = (case buffer of None \<Rightarrow> Some (fail_with EFAULT, k) | Some data \<Rightarrow> do {
     info \<leftarrow> get_fdinfo fd info0 s;
     if htype info = DIRECTORY_HANDLE \<or> htype info = INVALID_HANDLE then
       Some (fail_with (if htype info = DIRECTORY_HANDLE then EISDIR else EBADF), k)
     else (let (status, n, k') = NtWriteFile nt k (handle info) (flags info AND O_APPEND \<noteq> 0)
             (take (length data mod 2 ^ 32) data) in
       if status \<noteq> STATUS_SUCCESS \<and> status \<noteq> STATUS_PENDING
       then Some (Inl (map_ntstatus_to_errno status), k')
       else Some (Inr (int n), k')) })"

section \<open>Lemmas\<close>

lemma validate_fd_lookup: "tbl_inv s \<Longrightarrow> validate_fd fd s = Some (fd_lookup s fd \<noteq> None)"
  by (auto simp: validate_fd_def load_fd_def fd_lookup_def tbl_inv_def nat_less_iff)

lemma load_fd_lookup: "tbl_inv s \<Longrightarrow> fd_lookup s fd = Some e \<Longrightarrow> load_fd fd s = Some e"
  by (auto simp: load_fd_def fd_lookup_def tbl_inv_def nat_less_iff split: if_splits)

lemma get_fdinfo_lookup:
  "tbl_inv s \<Longrightarrow> get_fdinfo fd info s
     = Some (case fd_lookup s fd of None \<Rightarrow> info\<lparr>handle := 0, htype := INVALID_HANDLE\<rparr> | Some e \<Rightarrow> e)"
  by (auto simp: get_fdinfo_def validate_fd_lookup load_fd_lookup split: option.splits)

lemma first_unused_from_spec:
  assumes "tbl_inv s"
  shows "\<exists>fd. first_unused_from n s = Some fd \<and> n \<le> fd \<and> fd_lookup s fd = None
    \<and> (\<forall>i. n \<le> i \<longrightarrow> i < fd \<longrightarrow> fd_lookup s i \<noteq> None)"
  using assms
proof (induction n s rule: first_unused_from.induct)
  case (1 n s)
  show ?case
  proof (cases "fd_lookup s n = None")
    case True
    with 1 show ?thesis by (simp add: first_unused_from.simps [of n] validate_fd_lookup)
  next
    case False
    then have v: "validate_fd n s = Some True" using 1(2) by (simp add: validate_fd_lookup)
    obtain fd where fd: "first_unused_from (n + 1) s = Some fd" "n + 1 \<le> fd" "fd_lookup s fd = None"
        "\<forall>i. n + 1 \<le> i \<longrightarrow> i < fd \<longrightarrow> fd_lookup s i \<noteq> None"
      using 1(1) [OF v] 1(2) by auto
    have "i = n \<or> n + 1 \<le> i" if "n \<le> i" for i using that by linarith
    then show ?thesis
      using fd False v by (intro exI [of _ fd]) (auto simp: first_unused_from.simps [of n])
  qed
qed

lemma close_fd_lookup:
  assumes "tbl_inv s" "fd_lookup s fd = Some e" "nt_close k (handle e) = (st, k')"
  shows "\<exists>s'. close_fd nt_close fd s k
      = Some (if st = STATUS_SUCCESS then Inr 0 else Inl (map_ntstatus_to_errno st), s', k') \<and> tbl_inv s'
    \<and> fd_lookup s' = (if st = STATUS_SUCCESS then (fd_lookup s)(fd := None) else fd_lookup s)"
proof (cases "st = STATUS_SUCCESS")
  case True
  then show ?thesis using close_fd_success [of s fd e nt_close k k'] assms by simp
next
  case False
  then show ?thesis using assms by (simp add: close_fd_def load_fd_lookup)
qed

section \<open>Properties\<close>

text \<open>C14: registration hands out the lowest descriptor that is not in use (as POSIX asks of open
  and dup), gives it exactly the handle, type and flags passed, leaves every other descriptor
  alone, and keeps the table well formed; only when every descriptor is in use and the heap refuses to
  grow the table it fails with ENOMEM and changes nothing. It never accesses memory outside the table.\<close>

theorem register_lowest_free:
  assumes "tbl_inv s" and "h \<noteq> 0"
  shows "register_to_fd_table (bounded_heap heap) junk h ty fl s = Some (fail_with ENOMEM, s) \<and> needs_memory heap s \<or>
    (\<exists>fd s' q. register_to_fd_table (bounded_heap heap) junk h ty fl s = Some (Inr fd, s') \<and> tbl_inv s'
      \<and> fd = (LEAST i. 0 \<le> i \<and> fd_lookup s i = None)
      \<and> fd_lookup s' = (fd_lookup s)(fd \<mapsto> \<lparr>handle = h, htype = ty, flags = fl, sequence = q\<rparr>))"
proof (rule disjE [OF fdt.register_spec [OF assms, of heap junk ty fl]])
  assume "\<exists>fd s' q. register_to_fd_table (bounded_heap heap) junk h ty fl s = Some (Inr fd, s') \<and> tbl_inv s' \<and> 0 \<le> fd
    \<and> fd_lookup s fd = None \<and> (\<forall>i. 0 \<le> i \<longrightarrow> i < fd \<longrightarrow> fd_lookup s i \<noteq> None)
    \<and> fd_lookup s' = (fd_lookup s)(fd \<mapsto> \<lparr>handle = h, htype = ty, flags = fl, sequence = q\<rparr>)"
  then obtain fd s' q where reg: "register_to_fd_table (bounded_heap heap) junk h ty fl s = Some (Inr fd, s')"
      and rest: "tbl_inv s'" "fd_lookup s' = (fd_lookup s)(fd \<mapsto> \<lparr>handle = h, htype = ty, flags = fl, sequence = q\<rparr>)"
    by (elim exE conjE)
  show ?thesis
    using reg rest fdt.register_lowest [OF assms reg] by (intro disjI2 exI [of _ fd] exI [of _ s'] exI [of _ q]) simp
qed (use register_out_of_memory [OF assms] in simp)

definition example_table :: fd_state where
  "example_table = \<lparr>fd_table = replicate 4 \<lparr>handle = 0x44, htype = FILE_HANDLE, flags = 2, sequence = 1\<rparr>,
     fd_table_size = 4, fd_sequence = 5, std_handle = (\<lambda>_. 0)\<rparr>"

lemma example_table_inv: "tbl_inv example_table"
  by (simp add: tbl_inv_def example_table_def)

theorem register_lowest_free_witness:
  "tbl_inv example_table \<and> (\<exists>r s'. register_to_fd_table (bounded_heap (\<lambda>_. True)) undefined 0x50 PIPE_HANDLE 0
    example_table = Some (r, s') \<and> r = Inr (LEAST i. 0 \<le> i \<and> fd_lookup example_table i = None))"
  using register_lowest_free [OF example_table_inv, of "0x50" "\<lambda>_. True" undefined PIPE_HANDLE 0] example_table_inv
  by (auto simp: needs_memory_def bounded_heap_def example_table_def)

text \<open>C33: a closed descriptor is handed out again by the next registration when every lower one
  is in use.\<close>

theorem closed_fd_is_reused:
  assumes "tbl_inv s" "fd_lookup s fd = Some e" "h \<noteq> 0"
    and "\<forall>i. 0 \<le> i \<longrightarrow> i < fd \<longrightarrow> fd_lookup s i \<noteq> None"
    and "close_fd (\<lambda>k h. (STATUS_SUCCESS, k)) fd s () = Some (r, s1, u)"
    and "register_to_fd_table (bounded_heap heap) junk h ty fl s1 = Some (Inr n, s2)"
  shows "n = fd"
proof -
  have "release_fd fd s = Some s1" using assms(5) by (simp add: release_fd_def)
  then show ?thesis by (rule fdt.release_then_register [OF assms(1-4) _ assms(6)])
qed

theorem closed_fd_is_reused_witness:
  "\<exists>s1 s2. close_fd (\<lambda>k h. (STATUS_SUCCESS, k)) 2 example_table () = Some (Inr 0, s1, ())
    \<and> register_to_fd_table (bounded_heap (\<lambda>_. True)) undefined 0x50 PIPE_HANDLE 0 s1 = Some (Inr 2, s2)"
proof -
  have e: "fd_lookup example_table 2 = Some \<lparr>handle = 0x44, htype = FILE_HANDLE, flags = 2, sequence = 1\<rparr>"
    by (simp add: fd_lookup_def example_table_def)
  have low: "\<forall>i. 0 \<le> i \<longrightarrow> i < 2 \<longrightarrow> fd_lookup example_table i \<noteq> None"
    by (auto simp: fd_lookup_def example_table_def)
  define s1 where "s1 = example_table\<lparr>fd_table := (fd_table example_table)[2 :=
    \<lparr>handle = 0, htype = INVALID_HANDLE, flags = 2, sequence = 1\<rparr>]\<rparr>"
  have cl: "close_fd (\<lambda>k h. (STATUS_SUCCESS, k)) 2 example_table () = Some (Inr 0, s1, ())"
    by (simp add: close_fd_def load_fd_def store_fd_def example_table_def s1_def)
  have "\<exists>n s2. register_to_fd_table (bounded_heap (\<lambda>_. True)) undefined 0x50 PIPE_HANDLE 0 s1 = Some (Inr n, s2)"
    by (simp add: register_to_fd_table_def s1_def example_table_def internal_insert_fd_def eval_nat_numeral)
  then obtain n s2 where "register_to_fd_table (bounded_heap (\<lambda>_. True)) undefined 0x50 PIPE_HANDLE 0 s1 = Some (Inr n, s2)"
    by blast
  with closed_fd_is_reused [OF example_table_inv e _ low cl this] cl show ?thesis by auto
qed

text \<open>C28: dup2 and dup3. When the kernel duplicates the handle and closes the old target, the
  call returns the requested descriptor, which then carries the new handle with the source's type
  and flags (plus O_CLOEXEC for dup3), and every other descriptor is unchanged. Only when
  the descriptor is beyond the table and the heap refuses to grow it, the result is ENOMEM, with the
  target closed.\<close>

theorem dup2_duplicates:
  assumes inv: "tbl_inv s" and old: "fd_lookup s oldfd = Some e" and new: "0 \<le> newfd" "newfd \<noteq> oldfd"
    and fl: "fl = 0 \<or> fl = O_CLOEXEC"
    and dup: "NtDuplicateObject nt k (handle e) (fl \<noteq> O_CLOEXEC) = (STATUS_SUCCESS, t, k1)" "t \<noteq> 0"
    and closes: "\<forall>h. fst (NtClose nt k1 h) = STATUS_SUCCESS"
  shows "\<exists>r s' k' q. wlibc_common_dup nt (bounded_heap heap) junk info oldfd newfd fl s k = Some (r, s', k') \<and> tbl_inv s'
    \<and> (r = Inr newfd \<and> fd_lookup s' = (fd_lookup s)(newfd \<mapsto> \<lparr>handle = t, htype = htype e, flags = flags e OR fl, sequence = q\<rparr>)
       \<or> r = fail_with ENOMEM \<and> beyond_memory heap newfd s \<and> fd_lookup s' = (fd_lookup s)(newfd := None))"
proof -
  have common: "wlibc_common_dup nt (bounded_heap heap) junk info oldfd newfd fl s k
      = do_dup nt (bounded_heap heap) junk info oldfd newfd fl s k"
    using old fl new(2) by (auto simp: wlibc_common_dup_def validate_fd_lookup [OF inv])
  obtain s1 k2 where cl: "(if fd_lookup s newfd \<noteq> None then close_fd (NtClose nt) newfd s k1 else Some (Inr 0, s, k1))
      = Some (Inr 0, s1, k2)" "tbl_inv s1" "fd_lookup s1 = (fd_lookup s)(newfd := None)" "fd_table_size s1 = fd_table_size s"
  proof (cases "fd_lookup s newfd")
    case None
    then show ?thesis using that [of s k1] inv by (simp add: fun_upd_idem)
  next
    case (Some e')
    obtain k2 where "NtClose nt k1 (handle e') = (STATUS_SUCCESS, k2)"
      using closes by (metis prod.collapse)
    from close_fd_lookup [where nt_close = "NtClose nt" and k = k1, OF inv Some this] that Some show ?thesis by (auto dest: close_fd_size)
  qed
  have "do_dup nt (bounded_heap heap) junk info oldfd newfd fl s k
    = map_option (\<lambda>(r, s2). (r, s2, k2)) (insert_into_fd_table (bounded_heap heap) junk newfd t (htype e) (flags e OR fl) s1)"
    using old dup(1) new(1) cl(1)
    by (auto simp: do_dup_def get_fdinfo_lookup [OF inv] validate_fd_lookup [OF inv] map_option_case
      split: option.splits if_splits)
  then show ?thesis
    using fdt.insert_spec [OF cl(2) dup(2) new(1), of heap junk "htype e" "flags e OR fl"] insert_out_of_memory [OF cl(2), of heap junk newfd t "htype e" "flags e OR fl"]
      cl(2-4) common by (auto simp: beyond_memory_def)
qed

text \<open>A kernel with one file handle per call, to show that the hypotheses of the theorems hold together.\<close>

definition example_nt :: "unit nt_io" where
  "example_nt = \<lparr>NtClose = (\<lambda>k h. (STATUS_SUCCESS, k)), NtDuplicateObject = (\<lambda>k h b. (STATUS_SUCCESS, 0x99, k)),
     NtQueryPosition = (\<lambda>k h. (STATUS_SUCCESS, 10)), NtQueryEndOfFile = (\<lambda>k h. (STATUS_SUCCESS, 100)),
     NtSetPosition = (\<lambda>k h p. (STATUS_SUCCESS, k)), NtReadFile = (\<lambda>k h n. (STATUS_SUCCESS, replicate n 0, k)),
     NtWriteFile = (\<lambda>k h a bs. (STATUS_SUCCESS, length bs, k))\<rparr>"

lemma example_table_lookup:
  "0 \<le> i \<Longrightarrow> i < 4 \<Longrightarrow> fd_lookup example_table i = Some \<lparr>handle = 0x44, htype = FILE_HANDLE, flags = 2, sequence = 1\<rparr>"
  by (simp add: fd_lookup_def example_table_def nat_less_iff)

theorem dup2_duplicates_witness:
  "\<exists>s' k' q. wlibc_common_dup example_nt (bounded_heap (\<lambda>_. True)) undefined undefined 1 9 0 example_table () = Some (Inr 9, s', k')
    \<and> tbl_inv s' \<and> fd_lookup s' 9 = Some \<lparr>handle = 0x99, htype = FILE_HANDLE, flags = 2, sequence = q\<rparr>"
  using dup2_duplicates [OF example_table_inv example_table_lookup [of 1], of 9 0 example_nt "()" "0x99" "()" "\<lambda>_. True" undefined undefined]
  by (fastforce simp: example_nt_def beyond_memory_def bounded_heap_def)

text \<open>Dup2 to a negative descriptor other than -1 is not rejected: whenever the kernel
  duplicates the handle, the call writes outside the descriptor table (undefined behaviour).\<close>

theorem dup2_negative_undefined:
  assumes inv: "tbl_inv s" and old: "fd_lookup s oldfd = Some e" and "newfd < -1"
    and dup: "NtDuplicateObject nt k (handle e) True = (STATUS_SUCCESS, t, k1)"
  shows "wlibc_common_dup nt heap junk info oldfd newfd 0 s k = None"
proof -
  have "fd_lookup s newfd = None" "newfd \<noteq> oldfd" using assms(3) old by (auto simp: fd_lookup_def)
  moreover have "c_int (fd_table_size s) = int (fd_table_size s)" using inv by (simp add: tbl_inv_def)
  moreover have "O_CLOEXEC \<noteq> 0" by (simp add: O_CLOEXEC_def)
  ultimately show ?thesis
    using old dup assms(3)
    by (simp add: wlibc_common_dup_def do_dup_def validate_fd_lookup [OF inv] get_fdinfo_lookup [OF inv]
      insert_into_fd_table_def)
qed

theorem dup2_negative_undefined_witness:
  "wlibc_common_dup example_nt (\<lambda>_. True) undefined undefined 1 (-5) 0 example_table () = None"
  using dup2_negative_undefined [OF example_table_inv example_table_lookup [of 1], of "-5" example_nt "()" "0x99" "()"]
  by (simp add: example_nt_def)

text \<open>C32: F_DUPFD returns the lowest unused descriptor that is not below its argument, with the
  source's type and flags and the handle the kernel made; only when that descriptor is beyond
  the table and the heap refuses to grow it, the result is ENOMEM with the table unchanged.\<close>

theorem fcntl_dupfd_lowest:
  assumes inv: "tbl_inv s" and old: "fd_lookup s fd = Some e" and "0 \<le> arg"
    and dup: "NtDuplicateObject nt k (handle e) True = (STATUS_SUCCESS, t, k1)" "t \<noteq> 0"
  shows "\<exists>n r s' q. wlibc_fcntl nt (bounded_heap heap) junk info fd F_DUPFD arg s k = Some (r, s', k1) \<and> tbl_inv s'
    \<and> arg \<le> n \<and> fd_lookup s n = None \<and> (\<forall>i. arg \<le> i \<longrightarrow> i < n \<longrightarrow> fd_lookup s i \<noteq> None)
    \<and> (r = Inr n \<and> fd_lookup s' = (fd_lookup s)(n \<mapsto> \<lparr>handle = t, htype = htype e, flags = flags e, sequence = q\<rparr>)
       \<or> r = fail_with ENOMEM \<and> beyond_memory heap n s \<and> s' = s)"
proof -
  obtain n where n: "first_unused_from arg s = Some n" "arg \<le> n" "fd_lookup s n = None"
      "\<forall>i. arg \<le> i \<longrightarrow> i < n \<longrightarrow> fd_lookup s i \<noteq> None"
    using first_unused_from_spec [OF inv, of arg] by blast
  have nn: "0 \<le> n" using n(2) assms(3) by simp
  have "O_CLOEXEC \<noteq> 0" by (simp add: O_CLOEXEC_def)
  then have "wlibc_fcntl nt (bounded_heap heap) junk info fd F_DUPFD arg s k
      = map_option (\<lambda>(r, s2). (r, s2, k1)) (insert_into_fd_table (bounded_heap heap) junk n t (htype e) (flags e) s)"
    using old dup(1) n(1,3) nn
    by (auto simp: wlibc_fcntl_def do_dupfd_def do_dup_def get_fdinfo_lookup [OF inv] validate_fd_lookup [OF inv]
      map_option_case split: option.splits)
  then show ?thesis
    using fdt.insert_spec [OF inv dup(2) nn, of heap junk "htype e" "flags e"]
      insert_out_of_memory [OF inv, of heap junk n t "htype e" "flags e"] n inv by auto
qed

theorem fcntl_dupfd_lowest_witness:
  "\<exists>n s' q. wlibc_fcntl example_nt (bounded_heap (\<lambda>_. True)) undefined undefined 1 F_DUPFD 2 example_table () = Some (Inr n, s', ())
    \<and> 2 \<le> n \<and> fd_lookup example_table n = None \<and> (\<forall>i. 2 \<le> i \<longrightarrow> i < n \<longrightarrow> fd_lookup example_table i \<noteq> None)
    \<and> fd_lookup s' n = Some \<lparr>handle = 0x99, htype = FILE_HANDLE, flags = 2, sequence = q\<rparr>"
proof -
  obtain n r s' q where n: "wlibc_fcntl example_nt (bounded_heap (\<lambda>_. True)) undefined undefined 1 F_DUPFD 2 example_table () = Some (r, s', ())"
      "2 \<le> n" "fd_lookup example_table n = None" "\<forall>i. 2 \<le> i \<longrightarrow> i < n \<longrightarrow> fd_lookup example_table i \<noteq> None"
      "r = Inr n \<and> fd_lookup s' = (fd_lookup example_table)(n \<mapsto> \<lparr>handle = 0x99, htype = FILE_HANDLE, flags = 2, sequence = q\<rparr>)
        \<or> r = fail_with ENOMEM \<and> beyond_memory (\<lambda>_. True) n example_table \<and> s' = example_table"
    using fcntl_dupfd_lowest [OF example_table_inv example_table_lookup [of 1], of 2 example_nt "()" "0x99" "()" "\<lambda>_. True" undefined undefined]
    by (auto simp: example_nt_def)
  have "fd_lookup example_table 4 = None" by (simp add: fd_lookup_def example_table_def)
  then have "n \<le> 4" using spec [OF n(4), of 4] by simp
  then have "\<not> beyond_memory (\<lambda>_. True) n example_table" by (auto simp: beyond_memory_def bounded_heap_def nat_less_iff)
  then show ?thesis using n by (auto intro!: exI [of _ n] exI [of _ s'])
qed

text \<open>Fcntl F_SETFD and F_SETFL only ever add flags: whatever their argument, every flag that
  was set stays set, so FD_CLOEXEC and O_APPEND cannot be cleared.\<close>

theorem fcntl_set_never_clears:
  assumes inv: "tbl_inv s" and fd: "fd_lookup s fd = Some e" and cmd: "cmd = F_SETFD \<or> cmd = F_SETFL"
  shows "\<exists>s' e'. wlibc_fcntl nt heap junk info fd cmd arg s k = Some (Inr 0, s', k)
    \<and> fd_lookup s' = (fd_lookup s)(fd \<mapsto> e') \<and> handle e' = handle e
    \<and> (\<forall>n. bit (flags e) n \<longrightarrow> bit (flags e') n)"
proof -
  have add: "\<exists>s'. add_fd_flags fd w s = Some s' \<and> fd_lookup s' = (fd_lookup s)(fd \<mapsto> e\<lparr>flags := flags e OR w\<rparr>)" for w
    using fd inv
    by (auto simp: add_fd_flags_def load_fd_lookup store_fd_def fd_lookup_def tbl_inv_def fun_eq_iff nth_update_if
      nat_eq_iff nat_less_iff split: if_splits)
  define w where "w = (if cmd = F_SETFD then word_of_int arg AND O_CLOEXEC
    else word_of_int arg AND (O_APPEND OR O_ASYNC OR O_DIRECT OR O_NOATIME OR O_NONBLOCK))"
  obtain s' where "add_fd_flags fd w s = Some s'" "fd_lookup s' = (fd_lookup s)(fd \<mapsto> e\<lparr>flags := flags e OR w\<rparr>)"
    using add by blast
  then have "wlibc_fcntl nt heap junk info fd cmd arg s k = Some (Inr 0, s', k)
    \<and> fd_lookup s' = (fd_lookup s)(fd \<mapsto> e\<lparr>flags := flags e OR w\<rparr>)"
    using fd cmd by (auto simp: wlibc_fcntl_def validate_fd_lookup [OF inv] w_def)
  then show ?thesis
    by (intro exI [of _ s'] exI [of _ "e\<lparr>flags := flags e OR w\<rparr>"]) (auto simp: bit_or_iff)
qed

theorem fcntl_set_never_clears_witness:
  "\<exists>s' e'. wlibc_fcntl example_nt (\<lambda>_. True) undefined undefined 1 F_SETFL 0 example_table () = Some (Inr 0, s', ())
    \<and> fd_lookup s' 1 = Some e' \<and> bit (flags e') 1"
proof -
  have "bit (2 :: 32 word) 1" by simp
  then show ?thesis
    using fcntl_set_never_clears [OF example_table_inv example_table_lookup [of 1], of F_SETFL example_nt "\<lambda>_. True" undefined undefined 0 "()"]
    by fastforce
qed

text \<open>Lseek on a usable, seekable descriptor moves the kernel's file pointer to base plus
  offset and returns that position; the base is 0, the current position or the end of the file by
  \<open>whence\<close>.\<close>

theorem lseek_moves_pointer:
  assumes inv: "tbl_inv s" and fd: "fd_lookup s fd = Some e" and ty: "htype e \<noteq> PIPE_HANDLE" "htype e \<noteq> INVALID_HANDLE"
    and base: "wh = 0 \<and> 0 \<le> off \<and> base = 0
      \<or> wh = 1 \<and> NtQueryPosition nt k (handle e) = (STATUS_SUCCESS, base)
      \<or> wh = 2 \<and> NtQueryEndOfFile nt k (handle e) = (STATUS_SUCCESS, base)"
    and range: "- (2 ^ 63) \<le> base + off" "base + off < 2 ^ 63"
    and set: "NtSetPosition nt k (handle e) (base + off) = (STATUS_SUCCESS, k')"
  shows "wlibc_lseek nt info fd off wh s k = Some (Inr (base + off), k')"
proof -
  have info: "get_fdinfo fd info s = Some e" using fd by (simp add: get_fdinfo_lookup [OF inv])
  from base show ?thesis
    by (elim disjE conjE) (use ty range set in \<open>simp_all add: wlibc_lseek_def info\<close>)
qed

theorem lseek_moves_pointer_witness:
  "wlibc_lseek example_nt undefined 1 5 1 example_table () = Some (Inr 15, ())"
  using lseek_moves_pointer [OF example_table_inv example_table_lookup [of 1], of 1 5 10 example_nt "()" "()" undefined]
  by (simp add: example_nt_def)

end
