(* ===== verification/Stream.thy ===== *)
theory Stream
  imports FdOps
begin

unbundle bit_operations_syntax

text \<open>
  Buffered streams (src/stdio: fread.c, fwrite.c, fflush.c, fseek.c, ftell.c, ungetc.c, fgetc.c,
  fputc.c, fputs.c, feof.c, ferror.c, clearerr.c, and \<open>FILE\<close> of include/internal/stdio.h).

  A stream is a \<open>FILE\<close> record; the calls it makes on its descriptor (read, write, lseek and the
  descriptor's flags) are the fields of \<open>sysio\<close>, functions on a world \<open>'w\<close>, and \<open>posix_io\<close>
  supplies the library's own functions for them. \<open>None\<close> stands for undefined behaviour or a loop
  that does not end. Offsets are size_t values kept as \<open>nat\<close>; the places where they can wrap, the
  subtraction of two offsets and the product of size and count, are \<open>size_sub\<close> and \<open>size_mul\<close>. The heap is the flag \<open>heap_ok\<close> and the
  contents \<open>junk\<close> of a fresh buffer. Locking is not modelled: every function holds the stream's
  lock for its whole body. Errno values that the inner calls store are not part of the results.
\<close>

section \<open>Data\<close>

record FILE =
  f_magic :: nat
  f_fd :: int
  f_mode :: "32 word"
  f_error :: "32 word"
  f_buffer :: "byte list option"
  f_bufsize :: nat
  f_start :: nat
  f_end :: nat
  f_pos :: nat
  f_prev :: nat

definition IOBUFFER_INTERNAL :: "32 word" where "IOBUFFER_INTERNAL = 0x1"
definition IOBUFFER_EXTERNAL :: "32 word" where "IOBUFFER_EXTERNAL = 0x2"
definition IOBUFFER_ALLOCATED :: "32 word" where "IOBUFFER_ALLOCATED = 0x8"
definition IOBUFFER_RDONLY :: "32 word" where "IOBUFFER_RDONLY = 0x100"
definition IOBUFFER_WRONLY :: "32 word" where "IOBUFFER_WRONLY = 0x200"
definition IOBUFFER_RDWR :: "32 word" where "IOBUFFER_RDWR = 0x400"
definition IOFBF :: "32 word" where "IOFBF = 0x10"
definition IOLBF :: "32 word" where "IOLBF = 0x20"
definition IONBF :: "32 word" where "IONBF = 0x40"
definition IOEOF :: "32 word" where "IOEOF = 0x1"
definition IOERROR :: "32 word" where "IOERROR = 0x2"
definition OP_READ :: nat where "OP_READ = 1"
definition OP_WRITE :: nat where "OP_WRITE = 2"

definition has_mode :: "FILE \<Rightarrow> 32 word \<Rightarrow> bool" where
  "has_mode f m \<longleftrightarrow> f_mode f AND m \<noteq> 0"

record 'w sysio =
  sys_read :: "'w \<Rightarrow> int \<Rightarrow> nat \<Rightarrow> (byte list res \<times> 'w) ub"
  sys_write :: "'w \<Rightarrow> int \<Rightarrow> byte list \<Rightarrow> (int res \<times> 'w) ub"
  sys_lseek :: "'w \<Rightarrow> int \<Rightarrow> int \<Rightarrow> int \<Rightarrow> (int res \<times> 'w) ub"
  sys_flags :: "'w \<Rightarrow> int \<Rightarrow> (32 word) ub"

definition posix_io :: "'k nt_io \<Rightarrow> fdinfo \<Rightarrow> (fd_state \<times> 'k) sysio" where
  "posix_io nt info = \<lparr>
     sys_read = (\<lambda>(s, k) fd n. map_option (\<lambda>(r, k'). (r, (s, k'))) (wlibc_read nt info fd False n s k)),
     sys_write = (\<lambda>(s, k) fd bs. map_option (\<lambda>(r, k'). (r, (s, k'))) (wlibc_write nt info fd (Some bs) s k)),
     sys_lseek = (\<lambda>(s, k) fd off wh. map_option (\<lambda>(r, k'). (r, (s, k'))) (wlibc_lseek nt info fd off wh s k)),
     sys_flags = (\<lambda>(s, k) fd. get_fd_flags fd s)\<rparr>"

text \<open>\<open>memcpy\<close> out of and into a buffer that may be NULL.\<close>

definition copy_out :: "nat \<Rightarrow> nat \<Rightarrow> byte list option \<Rightarrow> byte list ub" where
  "copy_out off n b = (case b of
     None \<Rightarrow> (if n = 0 then Some [] else None)
   | Some bs \<Rightarrow> if off + n \<le> length bs then Some (take n (drop off bs)) else None)"

definition copy_in :: "nat \<Rightarrow> byte list \<Rightarrow> byte list option \<Rightarrow> byte list option ub" where
  "copy_in off src b = (case b of
     None \<Rightarrow> (if src = [] then Some None else None)
   | Some bs \<Rightarrow> if off + length src \<le> length bs
       then Some (Some (take off bs @ src @ drop (off + length src) bs)) else None)"

definition size_mul :: "nat \<Rightarrow> nat \<Rightarrow> nat" where
  "size_mul a b = a * b mod 2 ^ 64"

section \<open>fflush\<close>

definition common_fflush :: "'w sysio \<Rightarrow> FILE \<Rightarrow> 'w \<Rightarrow> (int \<times> FILE \<times> 'w) ub" where
  "common_fflush io f w =
     (if has_mode f IONBF then Some (0, f, w)
      else if has_mode f IOBUFFER_RDONLY then Some (0, f, w)
      else if f_prev f = OP_READ then Some (0, f, w)
      else if f_start f \<noteq> f_pos f then do {
        bs \<leftarrow> copy_out 0 (size_sub (f_pos f) (f_start f)) (f_buffer f);
        (r, w') \<leftarrow> sys_write io w (f_fd f) bs;
        case r of
          Inl _ \<Rightarrow> Some (- 1, f\<lparr>f_error := IOERROR\<rparr>, w')
        | Inr _ \<Rightarrow> Some (0, f\<lparr>f_start := f_pos f\<rparr>, w') }
      else Some (0, f, w))"

section \<open>fread\<close>

definition read_wrapper :: "'w sysio \<Rightarrow> FILE \<Rightarrow> nat \<Rightarrow> 'w \<Rightarrow> (byte list \<times> FILE \<times> 'w) ub" where
  "read_wrapper io f n w = do {
     (r, w') \<leftarrow> sys_read io w (f_fd f) n;
     case r of
       Inl _ \<Rightarrow> Some ([], f\<lparr>f_error := IOERROR\<rparr>, w')
     | Inr bs \<Rightarrow> Some (bs, if bs = [] then f\<lparr>f_error := IOEOF\<rparr> else f, w') }"

lemma read_wrapper_bufsize: "read_wrapper io f n w = Some (bs, f', w') \<Longrightarrow> f_bufsize f' = f_bufsize f"
  by (auto simp: read_wrapper_def split: Option.bind_splits sum.splits if_splits)

text \<open>Whole blocks are read straight into the caller's memory; the flag says that no read failed.\<close>

function fread_direct :: "'w sysio \<Rightarrow> nat \<Rightarrow> FILE \<Rightarrow> byte list \<Rightarrow> 'w \<Rightarrow> (bool \<times> byte list \<times> FILE \<times> 'w) ub" where
  "fread_direct io data_size f out w =
     (if length out + f_bufsize f < data_size then
        (case read_wrapper io f (f_bufsize f) w of
           None \<Rightarrow> None
         | Some (bs, f', w') \<Rightarrow>
             if bs = [] then Some (False, out, f', w')
             else fread_direct io data_size f' (out @ bs) w')
      else Some (True, out, f, w))"
  by pat_completeness auto
termination
  by (relation "measure (\<lambda>(io, data_size, f, out, w). data_size - length out)")
    (auto simp: neq_Nil_conv)

text \<open>The last block goes through the stream's buffer.\<close>

function fread_fill :: "'w sysio \<Rightarrow> nat \<Rightarrow> FILE \<Rightarrow> nat \<Rightarrow> 'w \<Rightarrow> (nat \<times> FILE \<times> 'w) ub" where
  "fread_fill io need f got w =
     (if got < f_bufsize f \<and> got < need then
        (case read_wrapper io f (f_bufsize f - got) w of
           None \<Rightarrow> None
         | Some (bs, f', w') \<Rightarrow>
             if bs = [] then Some (got, f', w')
             else (case copy_in got bs (f_buffer f') of
                 None \<Rightarrow> None
               | Some b \<Rightarrow> fread_fill io need (f'\<lparr>f_buffer := b\<rparr>) (got + length bs) w'))
      else Some (got, f, w))"
  by pat_completeness auto
termination
  by (relation "measure (\<lambda>(io, need, f, got, w). f_bufsize f - got)")
    (auto dest!: read_wrapper_bufsize simp: neq_Nil_conv)

declare fread_direct.simps [simp del] fread_fill.simps [simp del]

definition alloc_buffer :: "bool \<Rightarrow> (nat \<Rightarrow> byte) \<Rightarrow> FILE \<Rightarrow> FILE option" where
  "alloc_buffer heap_ok junk f =
     (if has_mode f IOBUFFER_INTERNAL \<and> \<not> has_mode f IOBUFFER_ALLOCATED then
        (if heap_ok then Some (f\<lparr>f_buffer := Some (map junk [0..<f_bufsize f]), f_mode := f_mode f OR IOBUFFER_ALLOCATED\<rparr>)
         else None)
      else Some f)"

text \<open>The buffered path of \<open>common_fread\<close> once the requested bytes are not all in the buffer.\<close>

definition fread_refill :: "'w sysio \<Rightarrow> nat \<Rightarrow> FILE \<Rightarrow> 'w \<Rightarrow> (byte list \<times> FILE \<times> 'w) ub" where
  "fread_refill io data_size f w = do {
     old \<leftarrow> (if f_pos f < f_end f
       then copy_out (size_sub (f_pos f) (f_start f)) (f_end f - f_pos f) (f_buffer f) else Some []);
     (more, out, f1, w1) \<leftarrow> fread_direct io data_size f old w;
     let f2 = f1\<lparr>f_pos := f_pos f1 + length out, f_start := f_pos f1 + length out, f_end := f_pos f1 + length out\<rparr> in
     if \<not> more then Some (out, f2, w1)
     else do {
       (got, f3, w2) \<leftarrow> fread_fill io (data_size - length out) f2 0 w1;
       if got > 0 then do {
         tail \<leftarrow> copy_out 0 (min (data_size - length out) got) (f_buffer f3);
         Some (out @ tail, f3\<lparr>f_end := f_pos f3 + got, f_start := f_pos f3, f_pos := f_pos f3 + length tail\<rparr>, w2) }
       else Some (out, f3, w2) } }"

text \<open>The result is the return value, the bytes stored in the caller's memory, the stream and the world.\<close>

definition common_fread ::
  "'w sysio \<Rightarrow> bool \<Rightarrow> (nat \<Rightarrow> byte) \<Rightarrow> nat \<Rightarrow> nat \<Rightarrow> FILE \<Rightarrow> 'w \<Rightarrow> (nat \<times> byte list \<times> FILE \<times> 'w) ub" where
  "common_fread io heap_ok junk sz count f w =
     (if f_error f = IOEOF \<or> f_error f = IOERROR then Some (0, [], f, w)
      else if has_mode f IOBUFFER_WRONLY then Some (0, [], f\<lparr>f_error := IOERROR\<rparr>, w)
      else if has_mode f IONBF then do {
        (bs, f1, w1) \<leftarrow> read_wrapper io f (size_mul sz count) w;
        let f2 = f1\<lparr>f_prev := OP_READ\<rparr>;
            f3 = (if bs \<noteq> [] then f2\<lparr>f_pos := f_pos f2 + length bs, f_start := f_pos f2 + length bs,
                    f_end := f_pos f2 + length bs\<rparr> else f2) in
        Some (length bs div sz, bs, f3, w1) }
      else do {
        (f1, w1) \<leftarrow> (if f_prev f = OP_WRITE then do {
            (_, g, w1) \<leftarrow> common_fflush io f w;
            Some (g\<lparr>f_end := f_start g\<rparr>, w1) }
          else Some (f, w));
        case alloc_buffer heap_ok junk (f1\<lparr>f_prev := OP_READ\<rparr>) of
          None \<Rightarrow> Some (0, [], f1\<lparr>f_prev := OP_READ, f_buffer := None\<rparr>, w1)
        | Some f2 \<Rightarrow>
            if size_mul sz count \<le> size_sub (f_end f2) (f_pos f2) then do {
              bs \<leftarrow> copy_out (size_sub (f_pos f2) (f_start f2)) (size_mul sz count) (f_buffer f2);
              Some (count, bs, f2\<lparr>f_pos := f_pos f2 + size_mul sz count\<rparr>, w1) }
            else do {
              (out, f3, w2) \<leftarrow> fread_refill io (size_mul sz count) f2 w1;
              Some (length out div sz, out, f3, w2) } })"

section \<open>fwrite\<close>

text \<open>Whole blocks are written straight from the caller's memory. A write that returns 0 is
  repeated, so the loop need not end.\<close>

partial_function (option) fwrite_direct :: "'w sysio \<Rightarrow> byte list \<Rightarrow> FILE \<Rightarrow> nat \<Rightarrow> 'w \<Rightarrow> (bool \<times> nat \<times> 'w) ub" where
  "fwrite_direct io data f n w =
     (if n + f_bufsize f < length data then
        Option.bind (sys_write io w (f_fd f) (take (f_bufsize f) (drop n data)))
          (\<lambda>rw. if isl (fst rw) then Some (False, n, snd rw)
                else fwrite_direct io data f (n + nat (projr (fst rw))) (snd rw))
      else Some (True, n, w))"

text \<open>The seek when a stream starts writing: to the end in append mode, else back from read-ahead.\<close>

definition fwrite_start :: "'w sysio \<Rightarrow> FILE \<Rightarrow> 'w \<Rightarrow> (FILE \<times> 'w) ub" where
  "fwrite_start io f w =
     (if f_prev f \<noteq> OP_WRITE then do {
        fl \<leftarrow> sys_flags io w (f_fd f);
        (pos, w1) \<leftarrow> (if fl AND O_APPEND \<noteq> 0 then do {
              (r, w1) \<leftarrow> sys_lseek io w (f_fd f) 0 2;
              Some (case r of Inl _ \<Rightarrow> 2 ^ 64 - 1 | Inr p \<Rightarrow> nat p, w1) }
            else if f_prev f = OP_READ then do {
              (_, w1) \<leftarrow> sys_lseek io w (f_fd f) (int (f_pos f)) 0;
              Some (f_pos f, w1) }
            else Some (f_pos f, w));
        Some (f\<lparr>f_pos := pos, f_start := pos, f_end := pos\<rparr>, w1) }
      else Some (f, w))"

text \<open>The buffered path of \<open>common_fwrite\<close> once the data does not fit in the buffer.\<close>

definition fwrite_spill :: "'w sysio \<Rightarrow> byte list \<Rightarrow> FILE \<Rightarrow> 'w \<Rightarrow> (int \<times> FILE \<times> 'w) ub" where
  "fwrite_spill io data f w = do {
     let room = size_sub (f_end f) (f_pos f);
     (ok, bw, f1, w1) \<leftarrow> (if room \<noteq> f_bufsize f then do {
           b \<leftarrow> copy_in (size_sub (f_pos f) (f_start f)) (take room data) (f_buffer f);
           bs \<leftarrow> copy_out 0 (f_bufsize f) b;
           (r, w1) \<leftarrow> sys_write io w (f_fd f) bs;
           Some (\<not> isl r, room, f\<lparr>f_buffer := b\<rparr>, w1) }
         else Some (True, 0, f, w));
     if \<not> ok then Some (0, f1\<lparr>f_error := IOERROR\<rparr>, w1)
     else do {
       (more, n, w2) \<leftarrow> fwrite_direct io data f1 bw w1;
       let f2 = f1\<lparr>f_pos := f_pos f1 + n, f_start := f_pos f1 + n, f_end := f_pos f1 + n\<rparr>;
       if \<not> more then Some (int n, f2, w2)
       else do {
         b \<leftarrow> copy_in 0 (drop n data) (f_buffer f2);
         Some (int (length data), f2\<lparr>f_buffer := b, f_end := f_pos f2 + f_bufsize f2,
           f_start := f_pos f2, f_pos := f_pos f2 + (length data - n)\<rparr>, w2) } } }"

text \<open>\<open>result / size\<close> divides size_t values: a result of -1 is \<open>2 ^ 64 - 1\<close> in that division.\<close>

definition result_div :: "int \<Rightarrow> nat \<Rightarrow> nat" where
  "result_div r sz = nat (r mod 2 ^ 64) div sz"

definition common_fwrite ::
  "'w sysio \<Rightarrow> bool \<Rightarrow> (nat \<Rightarrow> byte) \<Rightarrow> byte list \<Rightarrow> nat \<Rightarrow> nat \<Rightarrow> FILE \<Rightarrow> 'w \<Rightarrow> (nat \<times> FILE \<times> 'w) ub" where
  "common_fwrite io heap_ok junk data sz count f w =
     (if f_error f = IOERROR then Some (0, f, w)
      else if has_mode f IOBUFFER_RDONLY then Some (0, f\<lparr>f_error := IOERROR\<rparr>, w)
      else if has_mode f IONBF then do {
        (r, w1) \<leftarrow> sys_write io w (f_fd f) data;
        case r of
          Inl _ \<Rightarrow> Some (result_div (- 1) sz, f\<lparr>f_prev := OP_WRITE, f_error := IOERROR\<rparr>, w1)
        | Inr n \<Rightarrow> Some (result_div n sz, f\<lparr>f_prev := OP_WRITE, f_pos := f_pos f + nat n,
              f_start := f_pos f + nat n, f_end := f_pos f + nat n\<rparr>, w1) }
      else do {
        (f1, w1) \<leftarrow> fwrite_start io f w;
        case alloc_buffer heap_ok junk (f1\<lparr>f_prev := OP_WRITE\<rparr>) of
          None \<Rightarrow> Some (0, f1\<lparr>f_prev := OP_WRITE, f_buffer := None\<rparr>, w1)
        | Some f2 \<Rightarrow> do {
            let f3 = (if f_start f2 = f_end f2 \<and> (has_mode f2 IOBUFFER_ALLOCATED \<or> has_mode f2 IOBUFFER_EXTERNAL)
              then f2\<lparr>f_start := f_pos f2, f_end := f_pos f2 + f_bufsize f2\<rparr> else f2);
            if length data \<le> size_sub (f_end f3) (f_pos f3) then do {
              b \<leftarrow> copy_in (size_sub (f_pos f3) (f_start f3)) data (f_buffer f3);
              Some (count, f3\<lparr>f_buffer := b, f_pos := f_pos f3 + length data\<rparr>, w1) }
            else do {
              (r, f4, w2) \<leftarrow> fwrite_spill io data f3 w1;
              Some (result_div r sz, f4, w2) } } })"

section \<open>Seeking, pushing back, status\<close>

text \<open>\<open>pos + offset\<close> is computed as size_t.\<close>

definition common_fseek :: "'w sysio \<Rightarrow> FILE \<Rightarrow> int \<Rightarrow> int \<Rightarrow> 'w \<Rightarrow> (int \<times> FILE \<times> 'w) ub" where
  "common_fseek io f offset whence w = do {
     (f1, w1) \<leftarrow> (if f_prev f = OP_WRITE then map_option (\<lambda>(_, g, w1). (g, w1)) (common_fflush io f w) else Some (f, w));
     let new_pos = nat ((int (f_pos f1) + offset) mod 2 ^ 64);
     if whence = 1 \<and> f_prev f1 = OP_READ \<and> new_pos \<ge> f_start f1 \<and> new_pos \<le> f_end f1 \<and> f_start f1 \<noteq> f_end f1
     then Some (0, f1\<lparr>f_pos := new_pos\<rparr>, w1)
     else do {
       (r, w2) \<leftarrow> sys_lseek io w1 (f_fd f1) offset whence;
       case r of
         Inl _ \<Rightarrow> Some (- 1, f1, w2)
       | Inr p \<Rightarrow> Some (0, f1\<lparr>f_pos := nat p, f_start := nat p, f_end := nat p,
           f_error := (if whence = 0 \<and> offset = 0 then 0 else f_error f1 AND NOT IOEOF)\<rparr>, w2) } }"

definition common_ungetc :: "int \<Rightarrow> FILE \<Rightarrow> (int \<times> FILE) ub" where
  "common_ungetc ch f =
     (if f_prev f \<noteq> OP_READ then Some (- 1, f)
      else if f_pos f > f_start f then do {
        b \<leftarrow> copy_in (f_pos f - 1 - f_start f) [word_of_int ch] (f_buffer f);
        Some (ch, f\<lparr>f_pos := f_pos f - 1, f_buffer := b, f_error := f_error f AND NOT IOEOF\<rparr>) }
      else Some (- 1, f))"

definition common_feof :: "FILE \<Rightarrow> 32 word" where
  "common_feof f = (if f_error f = IOEOF then IOEOF else 0)"

definition common_ferror :: "FILE \<Rightarrow> 32 word" where
  "common_ferror f = (if f_error f = IOERROR then IOERROR else 0)"

definition common_clearerr :: "FILE \<Rightarrow> FILE" where
  "common_clearerr f = f\<lparr>f_error := 0\<rparr>"

section \<open>Characters and lines\<close>

text \<open>A character is a signed char, returned as an int; \<open>jch\<close> is the uninitialised local that is
  returned when the read stored nothing.\<close>

definition common_fgetc ::
  "'w sysio \<Rightarrow> bool \<Rightarrow> (nat \<Rightarrow> byte) \<Rightarrow> byte \<Rightarrow> FILE \<Rightarrow> 'w \<Rightarrow> (int \<times> FILE \<times> 'w) ub" where
  "common_fgetc io heap_ok junk jch f w =
     (if \<not> has_mode f IONBF \<and> f_prev f = OP_READ \<and> f_start f \<noteq> f_end f \<and> f_pos f \<noteq> f_end f then do {
        bs \<leftarrow> copy_out (size_sub (f_pos f) (f_start f)) 1 (f_buffer f);
        Some (sint (hd bs), f\<lparr>f_pos := f_pos f + 1\<rparr>, w) }
      else do {
        (_, bs, f1, w1) \<leftarrow> common_fread io heap_ok junk 1 1 f w;
        if f_error f1 = IOEOF then Some (- 1, f1, w1)
        else Some (sint (if bs = [] then jch else hd bs), f1, w1) })"

definition common_fputc ::
  "'w sysio \<Rightarrow> bool \<Rightarrow> (nat \<Rightarrow> byte) \<Rightarrow> int \<Rightarrow> FILE \<Rightarrow> 'w \<Rightarrow> (int \<times> FILE \<times> 'w) ub" where
  "common_fputc io heap_ok junk ch f w =
     (if \<not> has_mode f IONBF \<and> f_prev f = OP_WRITE \<and> f_start f \<noteq> f_end f \<and> f_pos f \<noteq> f_end f then do {
        b \<leftarrow> copy_in (size_sub (f_pos f) (f_start f)) [word_of_int ch] (f_buffer f);
        Some (ch, f\<lparr>f_buffer := b, f_pos := f_pos f + 1\<rparr>, w) }
      else do {
        (n, f1, w1) \<leftarrow> common_fwrite io heap_ok junk [word_of_int ch] 1 1 f w;
        Some (if n \<noteq> 1 then - 1 else ch, f1, w1) })"

definition common_fputs ::
  "'w sysio \<Rightarrow> bool \<Rightarrow> (nat \<Rightarrow> byte) \<Rightarrow> byte list \<Rightarrow> FILE \<Rightarrow> 'w \<Rightarrow> (int \<times> FILE \<times> 'w) ub" where
  "common_fputs io heap_ok junk str f w =
     map_option (\<lambda>(n, f1, w1). (signed_take_bit 31 (int n), f1, w1))
       (common_fwrite io heap_ok junk str 1 (length str) f w)"

text \<open>The loop of \<open>common_fgets\<close>: \<open>k\<close> is the room left before the terminator.\<close>

fun fgets_loop ::
  "'w sysio \<Rightarrow> bool \<Rightarrow> (nat \<Rightarrow> byte) \<Rightarrow> byte \<Rightarrow> nat \<Rightarrow> byte list \<Rightarrow> FILE \<Rightarrow> 'w \<Rightarrow> (byte list \<times> FILE \<times> 'w) ub" where
  "fgets_loop io heap_ok junk jch 0 out f w = Some (out, f, w)"
| "fgets_loop io heap_ok junk jch (Suc k) out f w = do {
     (c, f1, w1) \<leftarrow> common_fgetc io heap_ok junk jch f w;
     if c = - 1 then Some (out, f1, w1)
     else if c = 10 then Some (out @ [10], f1, w1)
     else fgets_loop io heap_ok junk jch k (out @ [word_of_int c]) f1 w1 }"

definition common_fgets ::
  "'w sysio \<Rightarrow> bool \<Rightarrow> (nat \<Rightarrow> byte) \<Rightarrow> byte \<Rightarrow> nat \<Rightarrow> FILE \<Rightarrow> 'w \<Rightarrow> (byte list \<times> FILE \<times> 'w) ub" where
  "common_fgets io heap_ok junk jch count f w =
     map_option (\<lambda>(out, f1, w1). (out @ [0], f1, w1)) (fgets_loop io heap_ok junk jch (count - 1) [] f w)"

text \<open>\<open>cells\<close> is the heap block of the line, \<open>sz\<close> the size the caller knows; \<open>heap\<close> grants or refuses
  a reallocation, whose new cells hold \<open>junk\<close>. The result is the return value.\<close>

partial_function (option) getdelim_loop ::
  "'w sysio \<Rightarrow> bool \<Rightarrow> (nat \<Rightarrow> byte) \<Rightarrow> byte \<Rightarrow> (nat \<Rightarrow> bool) \<Rightarrow> int \<Rightarrow> byte list \<Rightarrow> nat \<Rightarrow> FILE \<Rightarrow> 'w
    \<Rightarrow> (int res \<times> byte list \<times> FILE \<times> 'w) ub" where
  "getdelim_loop io heap_ok junk jch heap delim cells result f w =
     Option.bind (common_fgetc io heap_ok junk jch f w) (\<lambda>(c, f1, w1).
       if c = - 1 then Some (fail_silent, cells, f1, w1)
       else Option.bind (store result (word_of_int c) cells) (\<lambda>cells1.
         if c = delim then
           Option.bind (store (result + 1) 0 cells1) (\<lambda>cells2. Some (Inr (int (result + 1)), cells2, f1, w1))
         else if result + 1 = length cells then
           (if heap (length cells * 2)
            then getdelim_loop io heap_ok junk jch heap delim (cells1 @ map junk [length cells..<length cells * 2]) (result + 1) f1 w1
            else Some (fail_with ENOMEM, cells1, f1, w1))
         else getdelim_loop io heap_ok junk jch heap delim cells1 (result + 1) f1 w1))"

definition common_getdelim ::
  "'w sysio \<Rightarrow> bool \<Rightarrow> (nat \<Rightarrow> byte) \<Rightarrow> byte \<Rightarrow> (nat \<Rightarrow> bool) \<Rightarrow> int \<Rightarrow> byte list option \<Rightarrow> FILE \<Rightarrow> 'w
    \<Rightarrow> (int res \<times> byte list option \<times> FILE \<times> 'w) ub" where
  "common_getdelim io heap_ok junk jch heap delim line f w =
     (case line of
        None \<Rightarrow> if heap 512
          then map_option (\<lambda>(r, c, f1, w1). (r, Some c, f1, w1))
            (getdelim_loop io heap_ok junk jch heap delim (map junk [0..<512]) 0 f w)
          else Some (fail_with ENOMEM, None, f, w)
      | Some cells \<Rightarrow> map_option (\<lambda>(r, c, f1, w1). (r, Some c, f1, w1))
          (getdelim_loop io heap_ok junk jch heap delim cells 0 f w))"

section \<open>Entry points\<close>

definition valid_stream :: "FILE option \<Rightarrow> bool" where
  "valid_stream p \<longleftrightarrow> (case p of None \<Rightarrow> False | Some f \<Rightarrow> f_magic f = 1)"

text \<open>\<open>fread\<close> and \<open>fwrite\<close> with their argument checks; the first component is the return value and the
  errno value it stored, if any.\<close>

definition wlibc_fread ::
  "'w sysio \<Rightarrow> bool \<Rightarrow> (nat \<Rightarrow> byte) \<Rightarrow> bool \<Rightarrow> nat \<Rightarrow> nat \<Rightarrow> FILE option \<Rightarrow> 'w \<Rightarrow> (nat res \<times> byte list \<times> FILE option \<times> 'w) ub" where
  "wlibc_fread io heap_ok junk buffer_null sz count p w =
     (if buffer_null then Some (fail_with EINVAL, [], p, w)
      else if size_mul sz count = 0 then Some (Inr 0, [], p, w)
      else if \<not> valid_stream p then Some (fail_with EINVAL, [], p, w)
      else map_option (\<lambda>(n, bs, f, w1). (Inr n, bs, Some f, w1)) (common_fread io heap_ok junk sz count (the p) w))"

definition wlibc_fwrite ::
  "'w sysio \<Rightarrow> bool \<Rightarrow> (nat \<Rightarrow> byte) \<Rightarrow> byte list option \<Rightarrow> nat \<Rightarrow> nat \<Rightarrow> FILE option \<Rightarrow> 'w \<Rightarrow> (nat res \<times> FILE option \<times> 'w) ub" where
  "wlibc_fwrite io heap_ok junk buffer sz count p w = (case buffer of
     None \<Rightarrow> Some (fail_with EINVAL, p, w)
   | Some data \<Rightarrow>
       if size_mul sz count = 0 then Some (Inr 0, p, w)
       else if \<not> valid_stream p then Some (fail_with EINVAL, p, w)
       else map_option (\<lambda>(n, f, w1). (Inr n, Some f, w1)) (common_fwrite io heap_ok junk data sz count (the p) w))"

definition wlibc_fseek :: "'w sysio \<Rightarrow> FILE option \<Rightarrow> int \<Rightarrow> int \<Rightarrow> 'w \<Rightarrow> (int res \<times> FILE option \<times> 'w) ub" where
  "wlibc_fseek io p offset whence w =
     (if \<not> valid_stream p then Some (fail_with EINVAL, p, w)
      else if whence < 0 \<or> whence > 2 then Some (fail_with EINVAL, p, w)
      else map_option (\<lambda>(r, f, w1). (Inr r, Some f, w1)) (common_fseek io (the p) offset whence w))"

definition wlibc_ftell :: "FILE option \<Rightarrow> nat res" where
  "wlibc_ftell p = (if \<not> valid_stream p then fail_with EINVAL else Inr (f_pos (the p)))"

definition wlibc_ungetc :: "int \<Rightarrow> FILE option \<Rightarrow> (int res \<times> FILE option) ub" where
  "wlibc_ungetc ch p =
     (if ch = - 1 then Some (fail_silent, p)
      else if \<not> valid_stream p then Some (fail_with EINVAL, p)
      else map_option (\<lambda>(r, f). (Inr r, Some f)) (common_ungetc ch (the p)))"

end
