(* ===== verification/StreamProps.thy ===== *)
theory StreamProps
  imports Stream
begin

unbundle bit_operations_syntax

text \<open>
  Correctness of the buffered streams. Two locales say what a stream needs of its descriptor:
  \<open>byte_sink\<close> (writes append all their bytes) and \<open>byte_source\<close> (reads return a non-empty
  prefix of what is left). Inside them the stream operations are related to the abstract byte
  sequence: what has been written is what the descriptor has received followed by what is
  pending in the buffer, what can be read is what is buffered followed by what the descriptor
  still holds. Both are interpreted on the library's own read and write (\<open>posix_io\<close>) over a kernel
  that holds one file.
\<close>

section \<open>Mode bits\<close>

lemma mode_bits:
  "has_mode f IONBF \<longleftrightarrow> bit (f_mode f) 6"
  "has_mode f IOBUFFER_RDONLY \<longleftrightarrow> bit (f_mode f) 8"
  "has_mode f IOBUFFER_WRONLY \<longleftrightarrow> bit (f_mode f) 9"
  "has_mode f IOBUFFER_INTERNAL \<longleftrightarrow> bit (f_mode f) 0"
  "has_mode f IOBUFFER_EXTERNAL \<longleftrightarrow> bit (f_mode f) 1"
  "has_mode f IOBUFFER_ALLOCATED \<longleftrightarrow> bit (f_mode f) 3"
  using and_shifted_one_eq_0 [of "f_mode f" 6] and_shifted_one_eq_0 [of "f_mode f" 8]
    and_shifted_one_eq_0 [of "f_mode f" 9] and_shifted_one_eq_0 [of "f_mode f" 0]
    and_shifted_one_eq_0 [of "f_mode f" 1] and_shifted_one_eq_0 [of "f_mode f" 3]
  by (simp_all add: has_mode_def IONBF_def IOBUFFER_RDONLY_def IOBUFFER_WRONLY_def IOBUFFER_INTERNAL_def
    IOBUFFER_EXTERNAL_def IOBUFFER_ALLOCATED_def)

lemma bit_or_allocated: "bit (m OR IOBUFFER_ALLOCATED) n \<longleftrightarrow> bit m n \<or> n = 3"
proof -
  have "IOBUFFER_ALLOCATED = 2 ^ 3" by (simp add: IOBUFFER_ALLOCATED_def)
  then have "bit IOBUFFER_ALLOCATED n \<longleftrightarrow> n = 3"
    using bit_shifted_one [of 3 n, where 'a = 32] by (simp only:) auto
  then show ?thesis by (simp only: bit_or_iff)
qed

lemma op_distinct [simp]: "OP_READ \<noteq> OP_WRITE" "OP_WRITE \<noteq> OP_READ" "OP_READ \<noteq> 0" "OP_WRITE \<noteq> 0"
  by (simp_all add: OP_READ_def OP_WRITE_def)

lemma error_distinct [simp]: "IOEOF \<noteq> 0" "IOERROR \<noteq> 0" "IOEOF \<noteq> IOERROR" "IOERROR \<noteq> IOEOF"
  by (simp_all add: IOEOF_def IOERROR_def)

section \<open>memcpy\<close>

lemma copy_out_Some [simp]: "off + n \<le> length b \<Longrightarrow> copy_out off n (Some b) = Some (take n (drop off b))"
  by (simp add: copy_out_def)

lemma copy_in_Some [simp]:
  "off + length src \<le> length b \<Longrightarrow> copy_in off src (Some b) = Some (Some (take off b @ src @ drop (off + length src) b))"
  by (simp add: copy_in_def)

section \<open>Writing\<close>

text \<open>A stream in its writing state: an allocated buffer whose window in the file is
  \<open>f_start .. f_start + f_bufsize\<close>, with the bytes up to \<open>f_pos\<close> not flushed.\<close>

definition writing :: "int \<Rightarrow> FILE \<Rightarrow> bool" where
  "writing d f \<longleftrightarrow> f_fd f = d \<and> f_prev f = OP_WRITE \<and> f_error f \<noteq> IOERROR
     \<and> \<not> has_mode f IONBF \<and> \<not> has_mode f IOBUFFER_RDONLY \<and> has_mode f IOBUFFER_INTERNAL \<and> has_mode f IOBUFFER_ALLOCATED
     \<and> 0 < f_bufsize f \<and> f_bufsize f < 2 ^ 32
     \<and> f_start f \<le> f_pos f \<and> f_pos f \<le> f_end f \<and> f_end f = f_start f + f_bufsize f
     \<and> (\<exists>b. f_buffer f = Some b \<and> length b = f_bufsize f)"

definition unflushed :: "FILE \<Rightarrow> byte list" where
  "unflushed f = take (f_pos f - f_start f) (case f_buffer f of None \<Rightarrow> [] | Some b \<Rightarrow> b)"

text \<open>A stream that has just been created for writing: nothing buffered, the buffer not yet allocated.\<close>

definition fresh_writer :: "int \<Rightarrow> FILE \<Rightarrow> bool" where
  "fresh_writer d f \<longleftrightarrow> f_fd f = d \<and> f_prev f = 0 \<and> f_error f \<noteq> IOERROR
     \<and> \<not> has_mode f IONBF \<and> \<not> has_mode f IOBUFFER_RDONLY \<and> has_mode f IOBUFFER_INTERNAL
     \<and> \<not> has_mode f IOBUFFER_ALLOCATED \<and> 0 < f_bufsize f \<and> f_bufsize f < 2 ^ 32 \<and> f_start f = f_pos f"

text \<open>What the first write makes of such a stream before it stores any byte.\<close>

definition opened :: "(nat \<Rightarrow> byte) \<Rightarrow> FILE \<Rightarrow> FILE" where
  "opened junk f = f\<lparr>f_buffer := Some (map junk [0..<f_bufsize f]), f_mode := f_mode f OR IOBUFFER_ALLOCATED,
     f_start := f_pos f, f_end := f_pos f + f_bufsize f, f_prev := OP_WRITE\<rparr>"

lemma opened_writing: "fresh_writer d f \<Longrightarrow> writing d (opened junk f)"
  by (simp add: fresh_writer_def writing_def opened_def mode_bits bit_or_allocated)

lemma unflushed_opened [simp]: "unflushed (opened junk f) = []"
  by (simp add: unflushed_def opened_def)

text \<open>A sequence of \<open>fwrite\<close> calls on one stream; the results are what each call returned.\<close>

fun fwrites ::
  "'w sysio \<Rightarrow> (nat \<Rightarrow> byte) \<Rightarrow> byte list list \<Rightarrow> FILE \<Rightarrow> 'w \<Rightarrow> (nat list \<times> FILE \<times> 'w) ub" where
  "fwrites io junk [] f w = Some ([], f, w)"
| "fwrites io junk (data # rest) f w = do {
     (n, f1, w1) \<leftarrow> common_fwrite io True junk data 1 (length data) f w;
     (ns, f2, w2) \<leftarrow> fwrites io junk rest f1 w1;
     Some (n # ns, f2, w2) }"

locale byte_sink =
  fixes io :: "'w sysio" and d :: int and sunk :: "'w \<Rightarrow> byte list" and okw :: "'w \<Rightarrow> bool"
  assumes write_all: "okw w \<Longrightarrow> length bs < 2 ^ 32 \<Longrightarrow>
      \<exists>w'. sys_write io w d bs = Some (Inr (int (length bs)), w') \<and> okw w' \<and> sunk w' = sunk w @ bs"
    and not_append: "okw w \<Longrightarrow> \<exists>fl. sys_flags io w d = Some fl \<and> fl AND O_APPEND = 0"
begin

lemma fwrite_direct_sink:
  assumes "okw w" "n \<le> length data" "0 < f_bufsize f" "f_bufsize f < 2 ^ 32" "f_fd f = d"
  shows "\<exists>m w'. fwrite_direct io data f n w = Some (True, m, w') \<and> okw w' \<and> n \<le> m \<and> m \<le> length data
    \<and> length data - m \<le> f_bufsize f \<and> sunk w' = sunk w @ take (m - n) (drop n data)"
  using assms
proof (induction "length data - n" arbitrary: n w rule: less_induct)
  case less
  show ?case
  proof (cases "n + f_bufsize f < length data")
    case False
    then show ?thesis
      using less.prems by (intro exI [of _ n] exI [of _ w]) (simp add: fwrite_direct.simps [of io data f n])
  next
    case True
    let ?bs = "take (f_bufsize f) (drop n data)" and ?n = "n + f_bufsize f"
    have len: "length ?bs = f_bufsize f" using True by simp
    obtain w1 where w1: "sys_write io w d ?bs = Some (Inr (int (f_bufsize f)), w1)" "okw w1" "sunk w1 = sunk w @ ?bs"
      using write_all [OF less.prems(1), of ?bs] less.prems(4) len by auto
    have dec: "length data - ?n < length data - n" using True less.prems(3) by arith
    obtain m w' where m: "fwrite_direct io data f ?n w1 = Some (True, m, w')" "okw w'" "?n \<le> m" "m \<le> length data"
        "length data - m \<le> f_bufsize f" "sunk w' = sunk w1 @ take (m - ?n) (drop ?n data)"
      using less.hyps [OF dec w1(2)] True less.prems(3-5) by auto
    have "fwrite_direct io data f n w = Some (True, m, w')"
      using True w1(1) less.prems(5) m(1) by (subst fwrite_direct.simps) simp
    moreover have "?bs @ take (m - ?n) (drop ?n data) = take (m - n) (drop n data)"
      using m(3) take_add [of "f_bufsize f" "m - ?n" "drop n data"] by (simp add: add.commute)
    ultimately show ?thesis using m w1(3) by (intro exI [of _ m] exI [of _ w']) auto
  qed
qed

lemma fwrite_spill_sink:
  assumes wr: "writing d f" and ok: "okw w" and big: "f_end f - f_pos f < length data"
  shows "\<exists>f' w'. fwrite_spill io data f w = Some (int (length data), f', w') \<and> writing d f' \<and> okw w'
    \<and> sunk w' @ unflushed f' = sunk w @ unflushed f @ data"
proof -
  obtain b where b: "f_buffer f = Some b" "length b = f_bufsize f" using wr by (auto simp: writing_def)
  have facts: "f_fd f = d" "0 < f_bufsize f" "f_bufsize f < 2 ^ 32" "f_start f \<le> f_pos f" "f_pos f \<le> f_end f"
      "f_end f = f_start f + f_bufsize f"
    using wr by (auto simp: writing_def)
  let ?room = "f_end f - f_pos f"
  define b1 where "b1 = (if ?room \<noteq> f_bufsize f then take (f_pos f - f_start f) b @ take ?room data else b)"
  define n0 where "n0 = (if ?room \<noteq> f_bufsize f then ?room else 0)"
  obtain w1 where first: "(if size_sub (f_end f) (f_pos f) \<noteq> f_bufsize f then do {
           b \<leftarrow> copy_in (size_sub (f_pos f) (f_start f)) (take (size_sub (f_end f) (f_pos f)) data) (f_buffer f);
           bs \<leftarrow> copy_out 0 (f_bufsize f) b;
           (r, w1) \<leftarrow> sys_write io w (f_fd f) bs;
           Some (\<not> isl r, size_sub (f_end f) (f_pos f), f\<lparr>f_buffer := b\<rparr>, w1) }
         else Some (True, 0, f, w)) = Some (True, n0, f\<lparr>f_buffer := Some b1\<rparr>, w1)"
      "okw w1" "sunk w1 = sunk w @ unflushed f @ take n0 data"
  proof (cases "?room = f_bufsize f")
    case True
    then have "unflushed f = []" using facts by (simp add: unflushed_def)
    moreover have "f\<lparr>f_buffer := Some b1\<rparr> = f" using True b(1) by (simp add: b1_def)
    ultimately show ?thesis using that [of w] True ok facts(5) by (simp add: n0_def)
  next
    case False
    have len: "length b1 = f_bufsize f" using False big b facts by (simp add: b1_def)
    have fit: "f_pos f - f_start f + length (take ?room data) = length b" using big b facts by simp
    obtain w1 where w1: "sys_write io w d b1 = Some (Inr (int (f_bufsize f)), w1)" "okw w1" "sunk w1 = sunk w @ b1"
      using write_all [OF ok, of b1] len facts(3) by auto
    have room: "size_sub (f_end f) (f_pos f) = ?room" "size_sub (f_pos f) (f_start f) = f_pos f - f_start f"
      using facts by simp_all
    have cin: "copy_in (f_pos f - f_start f) (take ?room data) (f_buffer f) = Some (Some b1)"
      unfolding b(1) using fit False by (subst copy_in_Some) (simp_all add: b1_def)
    have cout: "copy_out 0 (f_bufsize f) (Some b1) = Some b1" using len by simp
    have "b1 = unflushed f @ take n0 data" using False b by (simp add: b1_def n0_def unflushed_def)
    then have "sunk w1 = sunk w @ unflushed f @ take n0 data" using w1(3) by simp
    then show ?thesis
      using that [of w1] False w1(1,2) facts(1) by (simp add: room cin cout n0_def)
  qed
  have n0: "n0 \<le> length data" using big by (simp add: n0_def)
  have len1: "length b1 = f_bufsize f" using big b facts by (auto simp: b1_def)
  obtain m w2 where m: "fwrite_direct io data (f\<lparr>f_buffer := Some b1\<rparr>) n0 w1 = Some (True, m, w2)" "okw w2" "n0 \<le> m"
      "m \<le> length data" "length data - m \<le> f_bufsize f" "sunk w2 = sunk w1 @ take (m - n0) (drop n0 data)"
    using fwrite_direct_sink [OF first(2) n0, of "f\<lparr>f_buffer := Some b1\<rparr>"] facts by auto
  define f' where "f' = f\<lparr>f_buffer := Some (drop m data @ drop (length data - m) b1), f_start := f_pos f + m,
    f_end := f_pos f + m + f_bufsize f, f_pos := f_pos f + m + (length data - m)\<rparr>"
  have "fwrite_spill io data f w = Some (int (length data), f', w2)"
    unfolding fwrite_spill_def Let_def first(1) using m(1,5) len1 by (simp add: f'_def)
  moreover have "writing d f'"
    using wr m(5) len1 unfolding writing_def f'_def has_mode_def by simp
  moreover have "sunk w2 @ unflushed f' = sunk w @ unflushed f @ data"
  proof -
    have "take n0 data @ take (m - n0) (drop n0 data) = take m data"
      using m(3) take_add [of n0 "m - n0" data] by simp
    then show ?thesis using m(6) first(3) by (simp add: f'_def unflushed_def)
  qed
  ultimately show ?thesis using m(2) by blast
qed

lemma fwrite_writing:
  assumes wr: "writing d f" and ok: "okw w" and small: "length data < 2 ^ 64"
  shows "\<exists>f' w'. common_fwrite io h junk data 1 (length data) f w = Some (length data, f', w') \<and> writing d f' \<and> okw w'
    \<and> sunk w' @ unflushed f' = sunk w @ unflushed f @ data"
proof -
  obtain b where b: "f_buffer f = Some b" "length b = f_bufsize f" using wr by (auto simp: writing_def)
  have facts: "f_start f \<le> f_pos f" "f_pos f \<le> f_end f" "f_end f = f_start f + f_bufsize f" "f_start f \<noteq> f_end f"
    using wr by (auto simp: writing_def)
  have path: "common_fwrite io h junk data 1 (length data) f w =
    (if length data \<le> f_end f - f_pos f then do {
        b \<leftarrow> copy_in (f_pos f - f_start f) data (f_buffer f);
        Some (length data, f\<lparr>f_buffer := b, f_pos := f_pos f + length data\<rparr>, w) }
     else do { (r, f4, w2) \<leftarrow> fwrite_spill io data f w; Some (result_div r 1, f4, w2) })"
  proof -
    have "f_prev f = OP_WRITE" using wr by (simp add: writing_def)
    then have same: "f\<lparr>f_prev := OP_WRITE\<rparr> = f" by simp
    have "fwrite_start io f w = Some (f, w)" "alloc_buffer h junk f = Some f"
      using wr by (simp_all add: writing_def fwrite_start_def alloc_buffer_def)
    then show ?thesis
      using wr facts by (simp add: common_fwrite_def writing_def same Let_def)
  qed
  show ?thesis
  proof (cases "length data \<le> f_end f - f_pos f")
    case True
    let ?f' = "f\<lparr>f_buffer := Some (take (f_pos f - f_start f) b @ data @ drop (f_pos f - f_start f + length data) b),
      f_pos := f_pos f + length data\<rparr>"
    have "common_fwrite io h junk data 1 (length data) f w = Some (length data, ?f', w)"
      unfolding path using True b facts by simp
    moreover have "writing d ?f'" using wr True b facts unfolding writing_def has_mode_def by auto
    moreover have "unflushed ?f' = unflushed f @ data" using True b facts by (simp add: unflushed_def)
    ultimately show ?thesis using ok by (intro exI [of _ ?f'] exI [of _ w]) simp
  next
    case False
    obtain f' w' where f': "fwrite_spill io data f w = Some (int (length data), f', w')" "writing d f'" "okw w'"
        "sunk w' @ unflushed f' = sunk w @ unflushed f @ data"
      using fwrite_spill_sink [OF wr ok, of data] False by auto
    have "common_fwrite io h junk data 1 (length data) f w = Some (length data, f', w')"
      unfolding path using False f'(1) small by (simp add: result_div_def)
    with f' show ?thesis by blast
  qed
qed

lemma fwrites_writing:
  assumes "writing d f" "okw w" "\<forall>data \<in> set ds. length data < 2 ^ 64"
  shows "\<exists>f' w'. fwrites io junk ds f w = Some (map length ds, f', w') \<and> writing d f' \<and> okw w'
    \<and> sunk w' @ unflushed f' = sunk w @ unflushed f @ concat ds"
  using assms
proof (induction ds arbitrary: f w)
  case (Cons data ds)
  obtain f1 w1 where 1: "common_fwrite io True junk data 1 (length data) f w = Some (length data, f1, w1)"
      "writing d f1" "okw w1" "sunk w1 @ unflushed f1 = sunk w @ unflushed f @ data"
    using fwrite_writing [OF Cons.prems(1,2), of data True junk] Cons.prems(3) by auto
  obtain f2 w2 where 2: "fwrites io junk ds f1 w1 = Some (map length ds, f2, w2)" "writing d f2" "okw w2"
      "sunk w2 @ unflushed f2 = sunk w1 @ unflushed f1 @ concat ds"
    using Cons.IH [OF 1(2,3)] Cons.prems(3) by auto
  have "sunk w2 @ unflushed f2 = sunk w @ unflushed f @ concat (data # ds)"
    using 2(4) 1(4) by (metis append.assoc concat.simps(2))
  then show ?case using 1(1) 2(1-3) by simp
qed simp

lemma fwrite_fresh:
  assumes "fresh_writer d f" "okw w"
  shows "common_fwrite io True junk data 1 n f w = common_fwrite io True junk data 1 n (opened junk f) w"
proof -
  obtain fl where fl: "sys_flags io w d = Some fl" "fl AND O_APPEND = 0" using not_append assms(2) by blast
  have wr: "writing d (opened junk f)" using assms(1) by (rule opened_writing)
  have "fwrite_start io f w = Some (f\<lparr>f_start := f_pos f, f_end := f_pos f\<rparr>, w)"
    using assms(1) fl by (simp add: fwrite_start_def fresh_writer_def)
  moreover have "fwrite_start io (opened junk f) w = Some (opened junk f, w)"
    by (simp add: fwrite_start_def opened_def)
  moreover have "alloc_buffer True junk (opened junk f) = Some (opened junk f)"
    using wr by (simp add: alloc_buffer_def writing_def)
  moreover have "(opened junk f)\<lparr>f_prev := OP_WRITE\<rparr> = opened junk f" by (simp add: opened_def)
  moreover have "f_start (opened junk f) \<noteq> f_end (opened junk f)"
    using assms(1) by (simp add: opened_def fresh_writer_def)
  moreover have "has_mode (f\<lparr>f_mode := f_mode f OR IOBUFFER_ALLOCATED\<rparr>) IOBUFFER_ALLOCATED"
    by (simp add: mode_bits bit_or_allocated)
  moreover have "f_error (opened junk f) = f_error f" by (simp add: opened_def)
  moreover have order: "f\<lparr>f_prev := OP_WRITE, f_buffer := b, f_mode := m, f_start := p, f_end := q\<rparr>
    = f\<lparr>f_buffer := b, f_mode := m, f_start := p, f_end := q, f_prev := OP_WRITE\<rparr>" for b m p q by simp
  ultimately show ?thesis
    using assms(1) wr
    by (simp add: common_fwrite_def fresh_writer_def writing_def alloc_buffer_def opened_def has_mode_def Let_def
      order)
qed

lemma fflush_writing:
  assumes wr: "writing d f" and ok: "okw w"
  shows "\<exists>f' w'. common_fflush io f w = Some (0, f', w') \<and> okw w' \<and> sunk w' = sunk w @ unflushed f \<and> f_start f' = f_pos f'
    \<and> f_pos f' = f_pos f"
proof (cases "f_start f = f_pos f")
  case True
  then show ?thesis using wr ok by (simp add: common_fflush_def writing_def unflushed_def)
next
  case False
  obtain b where b: "f_buffer f = Some b" "length b = f_bufsize f" using wr by (auto simp: writing_def)
  have facts: "f_fd f = d" "f_start f \<le> f_pos f" "f_pos f - f_start f \<le> f_bufsize f" "f_bufsize f < 2 ^ 32"
    using wr by (auto simp: writing_def)
  have pend: "copy_out 0 (f_pos f - f_start f) (f_buffer f) = Some (unflushed f)" "length (unflushed f) < 2 ^ 32"
    using b facts by (simp_all add: unflushed_def)
  obtain w' where w': "sys_write io w d (unflushed f) = Some (Inr (int (length (unflushed f))), w')" "okw w'"
      "sunk w' = sunk w @ unflushed f"
    using write_all [OF ok pend(2)] by blast
  have "common_fflush io f w = Some (0, f\<lparr>f_start := f_pos f\<rparr>, w')"
    using wr False w'(1) pend(1) facts by (simp add: common_fflush_def writing_def)
  then show ?thesis using w' by simp
qed

lemma fwrites_then_fflush:
  assumes fr: "fresh_writer d f" and ok: "okw w" and small: "\<forall>data \<in> set ds. length data < 2 ^ 64"
  shows "\<exists>f1 w1 f2 w2. fwrites io junk ds f w = Some (map length ds, f1, w1) \<and> common_fflush io f1 w1 = Some (0, f2, w2)
    \<and> okw w2 \<and> sunk w2 = sunk w @ concat ds"
proof (cases ds)
  case Nil
  then show ?thesis using fr ok by (simp add: common_fflush_def fresh_writer_def)
next
  case (Cons data rest)
  have "fwrites io junk ds f w = fwrites io junk ds (opened junk f) w"
    using fwrite_fresh [OF fr ok] Cons by simp
  moreover obtain f1 w1 where 1: "fwrites io junk ds (opened junk f) w = Some (map length ds, f1, w1)" "writing d f1" "okw w1"
      "sunk w1 @ unflushed f1 = sunk w @ concat ds"
    using fwrites_writing [OF opened_writing [OF fr] ok small, of junk junk] by auto
  ultimately show ?thesis using fflush_writing [OF 1(2,3)] by auto
qed

end

section \<open>Reading\<close>

text \<open>A stream in its reading state: the buffer holds the bytes of the file from \<open>f_start\<close> to
  \<open>f_end\<close>, of which those from \<open>f_pos\<close> on have not been handed out.\<close>

definition reading :: "int \<Rightarrow> FILE \<Rightarrow> bool" where
  "reading d f \<longleftrightarrow> f_fd f = d \<and> f_prev f = OP_READ
     \<and> \<not> has_mode f IONBF \<and> \<not> has_mode f IOBUFFER_WRONLY \<and> has_mode f IOBUFFER_INTERNAL \<and> has_mode f IOBUFFER_ALLOCATED
     \<and> 0 < f_bufsize f \<and> f_bufsize f < 2 ^ 32
     \<and> f_start f \<le> f_pos f \<and> f_pos f \<le> f_end f \<and> f_end f \<le> f_start f + f_bufsize f
     \<and> (\<exists>b. f_buffer f = Some b \<and> length b = f_bufsize f)"

definition buffered :: "FILE \<Rightarrow> byte list" where
  "buffered f = take (f_end f - f_pos f) (drop (f_pos f - f_start f) (case f_buffer f of None \<Rightarrow> [] | Some b \<Rightarrow> b))"

definition fresh_reader :: "int \<Rightarrow> FILE \<Rightarrow> bool" where
  "fresh_reader d f \<longleftrightarrow> f_fd f = d \<and> f_prev f = 0 \<and> f_error f = 0
     \<and> \<not> has_mode f IONBF \<and> \<not> has_mode f IOBUFFER_WRONLY \<and> has_mode f IOBUFFER_INTERNAL
     \<and> \<not> has_mode f IOBUFFER_ALLOCATED \<and> 0 < f_bufsize f \<and> f_bufsize f < 2 ^ 32
     \<and> f_start f = f_pos f \<and> f_end f = f_pos f"

definition primed :: "(nat \<Rightarrow> byte) \<Rightarrow> FILE \<Rightarrow> FILE" where
  "primed junk f = f\<lparr>f_prev := OP_READ, f_buffer := Some (map junk [0..<f_bufsize f]),
     f_mode := f_mode f OR IOBUFFER_ALLOCATED\<rparr>"

lemma primed_reading: "fresh_reader d f \<Longrightarrow> reading d (primed junk f)"
  by (simp add: fresh_reader_def reading_def primed_def mode_bits bit_or_allocated)

lemma buffered_primed [simp]: "fresh_reader d f \<Longrightarrow> buffered (primed junk f) = []"
  by (simp add: buffered_def primed_def fresh_reader_def)

text \<open>A sequence of \<open>fread\<close> calls of the given sizes; the results are the bytes each call stored.\<close>

fun freads ::
  "'w sysio \<Rightarrow> (nat \<Rightarrow> byte) \<Rightarrow> nat list \<Rightarrow> FILE \<Rightarrow> 'w \<Rightarrow> (byte list list \<times> FILE \<times> 'w) ub" where
  "freads io junk [] f w = Some ([], f, w)"
| "freads io junk (n # ns) f w = do {
     (_, bs, f1, w1) \<leftarrow> common_fread io True junk 1 n f w;
     (bss, f2, w2) \<leftarrow> freads io junk ns f1 w1;
     Some (bs # bss, f2, w2) }"

text \<open>The byte before the position is still in the buffer.\<close>

definition last_kept :: "byte \<Rightarrow> FILE \<Rightarrow> bool" where
  "last_kept c f \<longleftrightarrow> f_start f < f_pos f \<and> (\<exists>b. f_buffer f = Some b \<and> b ! (f_pos f - 1 - f_start f) = c)"

lemma ungetc_last_kept:
  assumes rd: "reading d f" and err: "f_error f = 0" and last: "last_kept c f"
  shows "\<exists>f'. common_ungetc (sint c) f = Some (sint c, f') \<and> reading d f' \<and> buffered f' = c # buffered f \<and> f_pos f' = f_pos f - 1"
proof -
  obtain b where b: "f_buffer f = Some b" "b ! (f_pos f - 1 - f_start f) = c" "f_start f < f_pos f" "length b = f_bufsize f"
    using rd last by (auto simp: last_kept_def reading_def)
  let ?i = "f_pos f - 1 - f_start f"
  have facts: "f_pos f \<le> f_end f" "f_end f \<le> f_start f + f_bufsize f" "f_prev f = OP_READ" using rd by (auto simp: reading_def)
  have i: "?i < length b" "Suc ?i = f_pos f - f_start f" using b facts by auto
  have same: "take ?i b @ c # drop (Suc ?i) b = b" using i(1) b(2) id_take_nth_drop [of ?i b] by simp
  then have "common_ungetc (sint c) f = Some (sint c, f\<lparr>f_pos := f_pos f - 1\<rparr>)"
    using i b facts err by (simp add: common_ungetc_def copy_in_def)
  moreover have "reading d (f\<lparr>f_pos := f_pos f - 1\<rparr>)" using rd b by (auto simp: reading_def has_mode_def)
  moreover have "buffered (f\<lparr>f_pos := f_pos f - 1\<rparr>) = c # buffered f"
  proof -
    have "drop ?i b = c # drop (f_pos f - f_start f) b" using i b(2) by (metis Cons_nth_drop_Suc)
    moreover have "f_end f - (f_pos f - 1) = Suc (f_end f - f_pos f)" using b facts by simp
    ultimately show ?thesis using b(1) by (simp add: buffered_def)
  qed
  ultimately show ?thesis by auto
qed

locale byte_source =
  fixes io :: "'w sysio" and d :: int and src :: "'w \<Rightarrow> byte list" and okr :: "'w \<Rightarrow> bool"
  assumes read_some: "okr w \<Longrightarrow> 0 < n \<Longrightarrow> n < 2 ^ 32 \<Longrightarrow>
      \<exists>bs w'. sys_read io w d n = Some (Inr bs, w') \<and> okr w' \<and> length bs \<le> n \<and> src w = bs @ src w' \<and> (bs = [] \<longrightarrow> src w = [])"
begin

lemma read_wrapper_source:
  assumes "okr w" "f_fd f = d" "0 < n" "n < 2 ^ 32"
  shows "\<exists>bs w'. read_wrapper io f n w = Some (bs, if bs = [] then f\<lparr>f_error := IOEOF\<rparr> else f, w') \<and> okr w'
    \<and> length bs \<le> n \<and> src w = bs @ src w' \<and> (bs = [] \<longrightarrow> src w = [])"
  using read_some [OF assms(1,3,4)] assms(2) by (fastforce simp: read_wrapper_def)

lemma fread_direct_source:
  assumes "okr w" "f_fd f = d" "0 < f_bufsize f" "f_bufsize f < 2 ^ 32" "length out \<le> n"
  shows "\<exists>more out' w'. fread_direct io n f out w = Some (more, out @ out', if more then f else f\<lparr>f_error := IOEOF\<rparr>, w')
    \<and> okr w' \<and> src w = out' @ src w' \<and> length (out @ out') \<le> n \<and> (more \<longrightarrow> n \<le> length (out @ out') + f_bufsize f)
    \<and> (\<not> more \<longrightarrow> src w' = [] \<and> length (out @ out') < n) \<and> (n \<le> length out + f_bufsize f \<longrightarrow> more \<and> out' = [])"
  using assms
proof (induction "n - length out" arbitrary: out w rule: less_induct)
  case less
  show ?case
  proof (cases "length out + f_bufsize f < n")
    case False
    then show ?thesis
      using less.prems by (intro exI [of _ True] exI [of _ "[]"] exI [of _ w]) (simp add: fread_direct.simps [of io n f out])
  next
    case True
    obtain bs w1 where 1: "read_wrapper io f (f_bufsize f) w = Some (bs, if bs = [] then f\<lparr>f_error := IOEOF\<rparr> else f, w1)"
        "okr w1" "length bs \<le> f_bufsize f" "src w = bs @ src w1" "bs = [] \<longrightarrow> src w = []"
      using read_wrapper_source [OF less.prems(1-4)] by blast
    show ?thesis
    proof (cases "bs = []")
      case True
      then show ?thesis
        using 1 \<open>length out + f_bufsize f < n\<close>
        by (intro exI [of _ False] exI [of _ "[]"] exI [of _ w1]) (simp add: fread_direct.simps [of io n f out])
    next
      case False
      have step: "fread_direct io n f out w = fread_direct io n f (out @ bs) w1"
        using False True 1(1) by (simp add: fread_direct.simps [of io n f out])
      have dec: "n - length (out @ bs) < n - length out" "length (out @ bs) \<le> n"
        using False True 1(3) by (auto simp: neq_Nil_conv)
      obtain more out' w' where ih: "fread_direct io n f (out @ bs) w1
            = Some (more, (out @ bs) @ out', if more then f else f\<lparr>f_error := IOEOF\<rparr>, w')"
          "okr w'" "src w1 = out' @ src w'" "length ((out @ bs) @ out') \<le> n"
          "more \<longrightarrow> n \<le> length ((out @ bs) @ out') + f_bufsize f"
          "\<not> more \<longrightarrow> src w' = [] \<and> length ((out @ bs) @ out') < n"
        using less.hyps [OF dec(1) 1(2) less.prems(2-4) dec(2)] by blast
      show ?thesis
        using ih 1(4) True by (intro exI [of _ more] exI [of _ "bs @ out'"] exI [of _ w']) (simp add: step)
    qed
  qed
qed

lemma fread_fill_source:
  assumes "okr w" "f_fd f = d" "f_bufsize f < 2 ^ 32" "need \<le> f_bufsize f" "f_buffer f = Some b"
    "length b = f_bufsize f" "got \<le> f_bufsize f"
  shows "\<exists>bs e w'. fread_fill io need f got w
      = Some (got + length bs, f\<lparr>f_buffer := Some (take got b @ bs @ drop (got + length bs) b), f_error := e\<rparr>, w')
    \<and> okr w' \<and> got + length bs \<le> f_bufsize f \<and> src w = bs @ src w'
    \<and> (got + length bs < need \<longrightarrow> e = IOEOF \<and> src w' = []) \<and> (need \<le> got + length bs \<longrightarrow> e = f_error f)"
  using assms
proof (induction "f_bufsize f - got" arbitrary: got f w b rule: less_induct)
  case less
  show ?case
  proof (cases "got < need")
    case False
    have "f\<lparr>f_buffer := Some b\<rparr> = f" using less.prems(5) by simp
    then show ?thesis
      using False less.prems
      by (intro exI [of _ "[]"] exI [of _ "f_error f"] exI [of _ w]) (simp add: fread_fill.simps [of io need f got])
  next
    case True
    then have room: "got < f_bufsize f" using less.prems(4) by simp
    then have amount: "0 < f_bufsize f - got" "f_bufsize f - got < 2 ^ 32" using less.prems(3) by linarith+
    obtain bs w1 where 1: "read_wrapper io f (f_bufsize f - got) w = Some (bs, if bs = [] then f\<lparr>f_error := IOEOF\<rparr> else f, w1)"
        "okr w1" "length bs \<le> f_bufsize f - got" "src w = bs @ src w1" "bs = [] \<longrightarrow> src w = []"
      using read_wrapper_source [OF less.prems(1,2) amount] by blast
    show ?thesis
    proof (cases "bs = []")
      case True
      have "f\<lparr>f_buffer := Some b, f_error := IOEOF\<rparr> = f\<lparr>f_error := IOEOF\<rparr>" using less.prems(5) by simp
      then show ?thesis
        using True 1 room \<open>got < need\<close>
        by (intro exI [of _ "[]"] exI [of _ IOEOF] exI [of _ w1]) (simp add: fread_fill.simps [of io need f got])
    next
      case False
      let ?b = "take got b @ bs @ drop (got + length bs) b"
      let ?f = "f\<lparr>f_buffer := Some ?b\<rparr>"
      have lb: "length ?b = f_bufsize f" using 1(3) room less.prems(6) by simp
      have step: "fread_fill io need f got w = fread_fill io need ?f (got + length bs) w1"
        using False room \<open>got < need\<close> 1(1,3) less.prems(5,6) by (simp add: fread_fill.simps [of io need f got])
      have dec: "f_bufsize ?f - (got + length bs) < f_bufsize f - got"
        using False 1(3) room by (auto simp: neq_Nil_conv)
      have pre: "f_fd ?f = d" "f_bufsize ?f < 2 ^ 32" "need \<le> f_bufsize ?f" "f_buffer ?f = Some ?b" "length ?b = f_bufsize ?f"
          "got + length bs \<le> f_bufsize ?f"
        using less.prems(2-4) lb 1(3) room by simp_all
      obtain bs' e w' where ih: "fread_fill io need ?f (got + length bs) w1 = Some (got + length bs + length bs',
            ?f\<lparr>f_buffer := Some (take (got + length bs) ?b @ bs' @ drop (got + length bs + length bs') ?b), f_error := e\<rparr>, w')"
          "okr w'" "got + length bs + length bs' \<le> f_bufsize ?f" "src w1 = bs' @ src w'"
          "got + length bs + length bs' < need \<longrightarrow> e = IOEOF \<and> src w' = []" "need \<le> got + length bs + length bs' \<longrightarrow> e = f_error f"
        using less.hyps [OF dec 1(2) pre] by auto
      have "take (got + length bs) ?b = take got b @ bs" using room less.prems(6) by simp
      moreover have "drop (got + length bs + length bs') ?b = drop (got + length (bs @ bs')) b"
        using room less.prems(6) by (simp add: add.commute add.left_commute)
      ultimately show ?thesis
        using ih 1(4) by (intro exI [of _ "bs @ bs'"] exI [of _ e] exI [of _ w']) (simp add: step add.assoc)
    qed
  qed
qed

text \<open>What one read promises: it hands out the next bytes, all of them unless the data ends.\<close>

definition reads :: "nat \<Rightarrow> FILE \<Rightarrow> 'w \<Rightarrow> byte list \<Rightarrow> FILE \<Rightarrow> 'w \<Rightarrow> bool" where
  "reads n f w bs f' w' \<longleftrightarrow> reading d f' \<and> okr w' \<and> buffered f @ src w = bs @ buffered f' @ src w' \<and> f_pos f' = f_pos f + length bs
     \<and> (f_error f' = f_error f \<and> length bs = n \<or> f_error f' = IOEOF \<and> length bs < n \<and> buffered f' @ src w' = [])
     \<and> (0 < n \<and> n \<le> f_bufsize f \<and> length bs = n \<longrightarrow> last_kept (last bs) f')"

lemma fread_refill_source:
  assumes rd: "reading d f" and ok: "okr w" and big: "f_end f - f_pos f < n"
  shows "\<exists>bs f' w'. fread_refill io n f w = Some (bs, f', w') \<and> reads n f w bs f' w'"
proof -
  obtain b where b: "f_buffer f = Some b" "length b = f_bufsize f" using rd by (auto simp: reading_def)
  have facts: "f_fd f = d" "0 < f_bufsize f" "f_bufsize f < 2 ^ 32" "f_start f \<le> f_pos f" "f_pos f \<le> f_end f"
      "f_end f \<le> f_start f + f_bufsize f"
    using rd by (auto simp: reading_def)
  have old: "(if f_pos f < f_end f then copy_out (size_sub (f_pos f) (f_start f)) (f_end f - f_pos f) (f_buffer f) else Some [])
      = Some (buffered f)" "length (buffered f) \<le> n"
    using b facts big by (auto simp: buffered_def)
  obtain more out' w1 where dir: "fread_direct io n f (buffered f) w
        = Some (more, buffered f @ out', if more then f else f\<lparr>f_error := IOEOF\<rparr>, w1)" "okr w1" "src w = out' @ src w1"
      "length (buffered f @ out') \<le> n" "more \<longrightarrow> n \<le> length (buffered f @ out') + f_bufsize f"
      "\<not> more \<longrightarrow> src w1 = [] \<and> length (buffered f @ out') < n"
      "n \<le> length (buffered f) + f_bufsize f \<longrightarrow> more \<and> out' = []"
    using fread_direct_source [OF ok facts(1-3) old(2)] by blast
  let ?out = "buffered f @ out'"
  let ?f = "f\<lparr>f_pos := f_pos f + length ?out, f_start := f_pos f + length ?out, f_end := f_pos f + length ?out\<rparr>"
  show ?thesis
  proof (cases more)
    case False
    have "fread_refill io n f w = Some (?out, ?f\<lparr>f_error := IOEOF\<rparr>, w1)"
      unfolding fread_refill_def old(1) using dir(1) False by simp
    moreover have "reads n f w ?out (?f\<lparr>f_error := IOEOF\<rparr>) w1"
      using rd dir False b by (auto simp: reads_def reading_def buffered_def has_mode_def)
    ultimately show ?thesis by blast
  next
    case True
    let ?need = "n - length ?out"
    have need: "?need \<le> f_bufsize f" using dir(5) True by simp
    obtain bs e w2 where fill: "fread_fill io ?need ?f 0 w1
          = Some (length bs, ?f\<lparr>f_buffer := Some (bs @ drop (length bs) b), f_error := e\<rparr>, w2)"
        "okr w2" "length bs \<le> f_bufsize f" "src w1 = bs @ src w2"
        "length bs < ?need \<longrightarrow> e = IOEOF \<and> src w2 = []" "?need \<le> length bs \<longrightarrow> e = f_error f"
      using fread_fill_source [OF dir(2), of ?f ?need b 0] facts(1,3) b need by auto
    let ?tail = "take ?need bs"
    let ?f3 = "?f\<lparr>f_buffer := Some (bs @ drop (length bs) b), f_error := e\<rparr>"
    let ?f' = "?f3\<lparr>f_end := f_pos ?f3 + length bs, f_start := f_pos ?f3, f_pos := f_pos ?f3 + length ?tail\<rparr>"
    have "fread_refill io n f w = Some (?out @ ?tail, ?f', w2)"
      unfolding fread_refill_def old(1) using dir(1) True fill(1,3) b
      by (cases "bs = []") (simp_all add: Let_def min_def)
    moreover have "reads n f w (?out @ ?tail) ?f' w2"
    proof -
      have "reading d ?f'" using rd b fill(3) by (auto simp: reading_def has_mode_def)
      moreover have "buffered ?f' = drop ?need bs"
        by (cases "length bs < ?need") (simp_all add: buffered_def)
      moreover have split: "take m bs @ drop m bs @ xs = bs @ xs" for m xs
        by (metis append_take_drop_id append.assoc)
      moreover have "0 < n \<and> n \<le> f_bufsize f \<and> length (?out @ ?tail) = n \<longrightarrow> last_kept (last (?out @ ?tail)) ?f'"
      proof (intro impI, elim conjE)
        assume n: "n \<le> f_bufsize f" "length (?out @ ?tail) = n"
        then have "out' = []" "?tail \<noteq> []" using dir(7) big facts b by (auto simp: buffered_def)
        then have "last (?out @ ?tail) = ?tail ! (length ?tail - 1)" 
          using last_appendR [of ?tail ?out] last_conv_nth [of ?tail] by simp
        with \<open>?tail \<noteq> []\<close> show "last_kept (last (?out @ ?tail)) ?f'"
          by (auto simp: last_kept_def nth_append min_def)
      qed
      ultimately show ?thesis
        using dir(3,4) fill(2,4,5,6) by (cases "length bs < ?need") (auto simp: reads_def split)
    qed
    ultimately show ?thesis by blast
  qed
qed

lemma fread_fast:
  assumes rd: "reading d f" and err: "f_error f = 0" and small: "n < 2 ^ 64"
  shows "common_fread io h junk 1 n f w = (if n \<le> f_end f - f_pos f then do {
        bs \<leftarrow> copy_out (f_pos f - f_start f) n (f_buffer f);
        Some (n, bs, f\<lparr>f_pos := f_pos f + n\<rparr>, w) }
      else do { (out, f3, w2) \<leftarrow> fread_refill io n f w; Some (length out, out, f3, w2) })"
proof -
  have "f_prev f = OP_READ" "f_start f \<le> f_pos f" "f_pos f \<le> f_end f" using rd by (simp_all add: reading_def)
  then have same: "f\<lparr>f_prev := OP_READ\<rparr> = f" by simp
  have "alloc_buffer h junk f = Some f" using rd by (simp add: reading_def alloc_buffer_def)
  moreover have "size_mul 1 n = n" using small by (simp add: size_mul_def)
  ultimately show ?thesis using rd err by (simp add: common_fread_def reading_def same)
qed

lemma fread_reading:
  assumes rd: "reading d f" and ok: "okr w" and err: "f_error f = 0" and small: "n < 2 ^ 64"
  shows "\<exists>bs f' w'. common_fread io h junk 1 n f w = Some (length bs, bs, f', w') \<and> reads n f w bs f' w'"
proof -
  obtain b where b: "f_buffer f = Some b" "length b = f_bufsize f" using rd by (auto simp: reading_def)
  have facts: "f_start f \<le> f_pos f" "f_pos f \<le> f_end f" "f_end f \<le> f_start f + f_bufsize f"
    using rd by (auto simp: reading_def)
  have path: "common_fread io h junk 1 n f w = (if n \<le> f_end f - f_pos f then do {
        bs \<leftarrow> copy_out (f_pos f - f_start f) n (f_buffer f);
        Some (n, bs, f\<lparr>f_pos := f_pos f + n\<rparr>, w) }
      else do { (out, f3, w2) \<leftarrow> fread_refill io n f w; Some (length out, out, f3, w2) })"
    by (rule fread_fast [OF rd err small])
  show ?thesis
  proof (cases "n \<le> f_end f - f_pos f")
    case True
    let ?bs = "take n (drop (f_pos f - f_start f) b)"
    have "common_fread io h junk 1 n f w = Some (length ?bs, ?bs, f\<lparr>f_pos := f_pos f + n\<rparr>, w)"
      unfolding path using True b facts by simp
    moreover have "reads n f w ?bs (f\<lparr>f_pos := f_pos f + n\<rparr>) w"
    proof -
      have "buffered f = ?bs @ buffered (f\<lparr>f_pos := f_pos f + n\<rparr>)"
        using True facts b take_add [of n "f_end f - f_pos f - n" "drop (f_pos f - f_start f) b"]
        by (simp add: buffered_def algebra_simps)
      moreover have "0 < n \<longrightarrow> last_kept (last ?bs) (f\<lparr>f_pos := f_pos f + n\<rparr>)"
        using True b facts by (auto simp: last_kept_def last_conv_nth algebra_simps)
      ultimately show ?thesis using rd ok True b facts by (auto simp: reads_def reading_def has_mode_def)
    qed
    ultimately show ?thesis by blast
  next
    case False
    then show ?thesis using fread_refill_source [OF rd ok, of n] path by fastforce
  qed
qed

lemma freads_reading:
  assumes "reading d f" "okr w" "f_error f = 0 \<or> f_error f = IOEOF \<and> buffered f @ src w = []" "\<forall>n \<in> set ns. n < 2 ^ 64"
  shows "\<exists>bss f' w'. freads io junk ns f w = Some (bss, f', w') \<and> concat bss = take (sum_list ns) (buffered f @ src w)
    \<and> f_pos f' = f_pos f + length (concat bss)"
  using assms
proof (induction ns arbitrary: f w)
  case (Cons n ns)
  show ?case
  proof (cases "f_error f = 0")
    case True
    obtain bs f1 w1 where 1: "common_fread io True junk 1 n f w = Some (length bs, bs, f1, w1)" "reads n f w bs f1 w1"
      using fread_reading [OF Cons.prems(1,2) True, of n True junk] Cons.prems(4) by auto
    have st: "reading d f1" "okr w1" "buffered f @ src w = bs @ buffered f1 @ src w1" "f_pos f1 = f_pos f + length bs"
        "f_error f1 = 0 \<and> length bs = n \<or> f_error f1 = IOEOF \<and> length bs < n \<and> buffered f1 @ src w1 = []"
      using 1(2) True by (auto simp: reads_def)
    obtain bss f2 w2 where 2: "freads io junk ns f1 w1 = Some (bss, f2, w2)"
        "concat bss = take (sum_list ns) (buffered f1 @ src w1)" "f_pos f2 = f_pos f1 + length (concat bss)"
      using Cons.IH [OF st(1,2)] st(5) Cons.prems(4) by auto
    have "bs @ concat bss = take (sum_list (n # ns)) (buffered f @ src w)"
      unfolding st(3) 2(2) using st(5) by (auto simp: take_all)
    then have "concat (bs # bss) = take (sum_list (n # ns)) (buffered f @ src w)" by simp
    moreover have "freads io junk (n # ns) f w = Some (bs # bss, f2, w2)" using 1(1) 2(1) by simp
    moreover have "f_pos f2 = f_pos f + length (concat (bs # bss))" using 2(3) st(4) by simp
    ultimately show ?thesis by blast
  next
    case False
    then have eof: "f_error f = IOEOF" "buffered f @ src w = []" using Cons.prems(3) by auto
    obtain bss f2 w2 where "freads io junk ns f w = Some (bss, f2, w2)"
        "concat bss = take (sum_list ns) (buffered f @ src w)" "f_pos f2 = f_pos f + length (concat bss)"
      using Cons.IH [OF Cons.prems(1,2)] eof Cons.prems(4) by auto
    then show ?thesis using eof by (simp add: common_fread_def)
  qed
qed simp

lemma fread_fresh:
  assumes "fresh_reader d f"
  shows "common_fread io True junk 1 n f w = common_fread io True junk 1 n (primed junk f) w"
proof -
  have rd: "reading d (primed junk f)" using assms by (rule primed_reading)
  have "alloc_buffer True junk (f\<lparr>f_prev := OP_READ\<rparr>) = Some (primed junk f)"
    using assms by (simp add: alloc_buffer_def fresh_reader_def primed_def has_mode_def)
  moreover have "alloc_buffer True junk (primed junk f) = Some (primed junk f)"
    using rd by (simp add: alloc_buffer_def reading_def)
  moreover have same: "(primed junk f)\<lparr>f_prev := OP_READ\<rparr> = primed junk f" by (simp add: primed_def)
  moreover have "f_error (primed junk f) = f_error f" "f_prev (primed junk f) \<noteq> OP_WRITE" "f_prev f \<noteq> OP_WRITE"
    using assms by (simp_all add: primed_def fresh_reader_def)
  ultimately show ?thesis
    using assms rd by (simp add: common_fread_def fresh_reader_def reading_def same)
qed

lemma freads_fresh:
  assumes fr: "fresh_reader d f" and ok: "okr w" and small: "\<forall>n \<in> set ns. n < 2 ^ 64"
  shows "\<exists>bss f' w'. freads io junk ns f w = Some (bss, f', w') \<and> concat bss = take (sum_list ns) (src w)
    \<and> f_pos f' = f_pos f + length (concat bss)"
proof (cases ns)
  case (Cons n rest)
  have "freads io junk ns f w = freads io junk ns (primed junk f) w"
    using fread_fresh [OF fr] Cons by simp
  moreover have "f_error (primed junk f) = 0" "f_pos (primed junk f) = f_pos f"
    using fr by (simp_all add: primed_def fresh_reader_def)
  ultimately show ?thesis
    using freads_reading [OF primed_reading [OF fr] ok, of junk ns junk] small fr by simp
qed simp

text \<open>One character, and its return to the stream.\<close>

lemma fgetc_reading:
  assumes rd: "reading d f" and ok: "okr w" and err: "f_error f = 0" and nxt: "buffered f @ src w = c # rest"
  shows "\<exists>f' w'. common_fgetc io h junk jch f w = Some (sint c, f', w') \<and> reading d f' \<and> okr w' \<and> f_error f' = 0
    \<and> buffered f' @ src w' = rest \<and> f_pos f' = f_pos f + 1 \<and> last_kept c f'"
proof -
  obtain bs f1 w1 where 1: "common_fread io h junk 1 1 f w = Some (length bs, bs, f1, w1)" "reads 1 f w bs f1 w1"
    using fread_reading [OF rd ok err, of 1 h junk] by auto
  have bufsize: "0 < f_bufsize f" using rd by (simp add: reading_def)
  have bs: "bs = [c]" "f_error f1 = 0" "buffered f1 @ src w1 = rest" "last_kept c f1"
    using 1(2) nxt err bufsize by (auto simp: reads_def length_Suc_conv Cons_eq_append_conv)
  have "common_fgetc io h junk jch f w = Some (sint c, f1, w1)"
  proof (cases "f_pos f = f_end f")
    case True
    then show ?thesis using 1(1) bs by (simp add: common_fgetc_def)
  next
    case False
    then have "1 \<le> f_end f - f_pos f" "f_start f \<noteq> f_end f" "f_start f \<le> f_pos f" "f_pos f \<le> f_end f"
      using rd by (auto simp: reading_def)
    moreover from this have "copy_out (f_pos f - f_start f) 1 (f_buffer f) = Some [c]" "f1 = f\<lparr>f_pos := f_pos f + 1\<rparr>" "w1 = w"
      using 1(1) bs(1) fread_fast [OF rd err, of 1 h junk w] by (auto split: Option.bind_splits)
    ultimately show ?thesis using rd False by (simp add: common_fgetc_def reading_def)
  qed
  then show ?thesis using bs 1(2) by (auto simp: reads_def)
qed

end

end
