(* ===== verification/StreamKernel.thy ===== *)
theory StreamKernel
  imports StreamProps
begin

unbundle bit_operations_syntax

text \<open>
  Streams over the library's own read and write. \<open>nt_writer\<close> and \<open>nt_reader\<close> say what is relied on
  of the NT kernel for one open file (NtWriteFile appends all its bytes at the file pointer,
  NtReadFile returns the next bytes, none only at the end); both are sublocales of the stream
  interfaces \<open>byte_sink\<close> and \<open>byte_source\<close> through \<open>posix_io\<close>, i.e. through the descriptor table and
  \<open>wlibc_read\<close> and \<open>wlibc_write\<close>. A kernel that keeps one file in memory satisfies them.
\<close>

section \<open>From the kernel to the streams\<close>

locale open_file =
  fixes nt :: "'k nt_io" and info :: fdinfo and s :: fd_state and d :: int and e :: fdinfo
  assumes table: "tbl_inv s" and opened_fd: "fd_lookup s d = Some e"
    and data_file: "htype e \<noteq> DIRECTORY_HANDLE" "htype e \<noteq> INVALID_HANDLE"
begin

lemma fdinfo: "get_fdinfo d info s = Some e"
  using opened_fd by (simp add: get_fdinfo_lookup [OF table])

lemma fdflags: "get_fd_flags d s = Some (flags e)"
  using load_fd_lookup [OF table opened_fd] by (simp add: get_fd_flags_def)

end

locale nt_writer = open_file nt info s d e
  for nt :: "'k nt_io" and info :: fdinfo and s :: fd_state and d :: int and e :: fdinfo +
  fixes sunk :: "'k \<Rightarrow> byte list" and okk :: "'k \<Rightarrow> bool"
  assumes no_append: "flags e AND O_APPEND = 0"
    and nt_write: "\<forall>k bs. okk k \<longrightarrow> length bs < 2 ^ 32 \<longrightarrow>
      (\<exists>k'. NtWriteFile nt k (handle e) False bs = (STATUS_SUCCESS, length bs, k') \<and> okk k' \<and> sunk k' = sunk k @ bs)"

sublocale nt_writer \<subseteq> byte_sink "posix_io nt info" d "\<lambda>w. sunk (snd w)" "\<lambda>w. fst w = s \<and> okk (snd w)"
proof unfold_locales
  fix w :: "fd_state \<times> 'k" and bs :: "byte list"
  assume w: "fst w = s \<and> okk (snd w)" and len: "length bs < 2 ^ 32"
  obtain k' where k': "NtWriteFile nt (snd w) (handle e) False bs = (STATUS_SUCCESS, length bs, k')" "okk k'"
      "sunk k' = sunk (snd w) @ bs"
    using nt_write w len by blast
  have "sys_write (posix_io nt info) w d bs = Some (Inr (int (length bs)), (s, k'))"
    using w len k'(1) data_file no_append by (cases w) (simp add: posix_io_def wlibc_write_def fdinfo)
  with k' show "\<exists>w'. sys_write (posix_io nt info) w d bs = Some (Inr (int (length bs)), w') \<and> (fst w' = s \<and> okk (snd w'))
      \<and> sunk (snd w') = sunk (snd w) @ bs" by auto
next
  fix w :: "fd_state \<times> 'k"
  assume "fst w = s \<and> okk (snd w)"
  then show "\<exists>fl. sys_flags (posix_io nt info) w d = Some fl \<and> fl AND O_APPEND = 0"
    using no_append by (cases w) (simp add: posix_io_def fdflags)
qed

context nt_writer
begin

lemma writes_flushed:
  "fresh_writer d f \<Longrightarrow> okk k \<Longrightarrow> \<forall>data \<in> set ds. length data < 2 ^ 64 \<Longrightarrow>
    \<exists>f1 w1 f2 k2. fwrites (posix_io nt info) junk ds f (s, k) = Some (map length ds, f1, w1)
      \<and> common_fflush (posix_io nt info) f1 w1 = Some (0, f2, (s, k2)) \<and> sunk k2 = sunk k @ concat ds"
  using fwrites_then_fflush [of f "(s, k)" ds junk] by fastforce

end

locale nt_reader = open_file nt info s d e
  for nt :: "'k nt_io" and info :: fdinfo and s :: fd_state and d :: int and e :: fdinfo +
  fixes src :: "'k \<Rightarrow> byte list" and okk :: "'k \<Rightarrow> bool"
  assumes nt_read: "\<forall>k n. okk k \<longrightarrow> 0 < n \<longrightarrow> n < 2 ^ 32 \<longrightarrow>
      (\<exists>st bs k'. NtReadFile nt k (handle e) n = (st, bs, k') \<and> st \<in> {STATUS_SUCCESS, STATUS_END_OF_FILE} \<and> okk k'
         \<and> length bs \<le> n \<and> src k = bs @ src k' \<and> (bs = [] \<longrightarrow> src k = []))"

sublocale nt_reader \<subseteq> byte_source "posix_io nt info" d "\<lambda>w. src (snd w)" "\<lambda>w. fst w = s \<and> okk (snd w)"
proof unfold_locales
  fix w :: "fd_state \<times> 'k" and n :: nat
  assume w: "fst w = s \<and> okk (snd w)" and n: "0 < n" "n < 2 ^ 32"
  obtain st bs k' where k': "NtReadFile nt (snd w) (handle e) n = (st, bs, k')" "st \<in> {STATUS_SUCCESS, STATUS_END_OF_FILE}"
      "okk k'" "length bs \<le> n" "src (snd w) = bs @ src k'" "bs = [] \<longrightarrow> src (snd w) = []"
    using nt_read w n by meson
  have "sys_read (posix_io nt info) w d n = Some (Inr bs, (s, k'))"
    using w n(2) k'(1,2) data_file by (cases w) (auto simp: posix_io_def wlibc_read_def fdinfo)
  with k' show "\<exists>bs w'. sys_read (posix_io nt info) w d n = Some (Inr bs, w') \<and> (fst w' = s \<and> okk (snd w')) \<and> length bs \<le> n
      \<and> src (snd w) = bs @ src (snd w') \<and> (bs = [] \<longrightarrow> src (snd w) = [])" by auto
qed

context nt_reader
begin

lemma fgetc_next:
  assumes "reading d f" "okk k" "f_error f = 0" "buffered f @ src k = c # rest"
  shows "\<exists>f1 k1. common_fgetc (posix_io nt info) h junk jch f (s, k) = Some (sint c, f1, (s, k1)) \<and> reading d f1
    \<and> f_error f1 = 0 \<and> buffered f1 @ src k1 = rest \<and> f_pos f1 = f_pos f + 1 \<and> last_kept c f1"
  using fgetc_reading [of f "(s, k)" c rest h junk jch] assms by fastforce

lemma reads_in_order:
  "fresh_reader d f \<Longrightarrow> okk k \<Longrightarrow> \<forall>n \<in> set ns. n < 2 ^ 64 \<Longrightarrow>
    \<exists>bss f' w'. freads (posix_io nt info) junk ns f (s, k) = Some (bss, f', w')
      \<and> concat bss = take (sum_list ns) (src k) \<and> f_pos f' = f_pos f + length (concat bss)"
  using freads_fresh [of f "(s, k)" ns junk] by simp

end

section \<open>A kernel with one file in memory\<close>

record ram =
  content :: "byte list"
  fptr :: nat

definition ram_read :: "ram \<Rightarrow> HANDLE \<Rightarrow> nat \<Rightarrow> ntstatus \<times> byte list \<times> ram" where
  "ram_read k h n = (let bs = take n (drop (fptr k) (content k)) in
     (if bs = [] then STATUS_END_OF_FILE else STATUS_SUCCESS, bs, k\<lparr>fptr := fptr k + length bs\<rparr>))"

definition ram_write :: "ram \<Rightarrow> HANDLE \<Rightarrow> bool \<Rightarrow> byte list \<Rightarrow> ntstatus \<times> nat \<times> ram" where
  "ram_write k h at_end bs = (let p = (if at_end then length (content k) else fptr k) in
     (STATUS_SUCCESS, length bs,
      k\<lparr>content := take p (content k) @ replicate (p - length (content k)) 0 @ bs @ drop (p + length bs) (content k),
        fptr := p + length bs\<rparr>))"

definition ram_nt :: "ram nt_io" where
  "ram_nt = \<lparr>NtClose = (\<lambda>k h. (STATUS_SUCCESS, k)), NtDuplicateObject = (\<lambda>k h b. (STATUS_SUCCESS, h, k)),
     NtQueryPosition = (\<lambda>k h. (STATUS_SUCCESS, int (fptr k))), NtQueryEndOfFile = (\<lambda>k h. (STATUS_SUCCESS, int (length (content k)))),
     NtSetPosition = (\<lambda>k h p. (STATUS_SUCCESS, k\<lparr>fptr := nat p\<rparr>)), NtReadFile = ram_read, NtWriteFile = ram_write\<rparr>"

lemma ram_write_appends:
  "fptr k = length (content k) \<Longrightarrow> ram_write k h False bs
     = (STATUS_SUCCESS, length bs, \<lparr>content = content k @ bs, fptr = length (content k @ bs)\<rparr>)"
  by (simp add: ram_write_def)

interpretation rw: nt_writer ram_nt undefined example_table 1 "\<lparr>handle = 0x44, htype = FILE_HANDLE, flags = 2, sequence = 1\<rparr>"
  content "\<lambda>k. fptr k = length (content k)"
  by unfold_locales
    (simp_all add: example_table_inv example_table_lookup O_APPEND_def ram_nt_def ram_write_appends)

interpretation rr: nt_reader ram_nt undefined example_table 1 "\<lparr>handle = 0x44, htype = FILE_HANDLE, flags = 2, sequence = 1\<rparr>"
  "\<lambda>k. drop (fptr k) (content k)" "\<lambda>_. True"
proof unfold_locales
  have "\<exists>st bs k'. ram_read k h n = (st, bs, k') \<and> st \<in> {STATUS_SUCCESS, STATUS_END_OF_FILE} \<and> True
      \<and> length bs \<le> n \<and> drop (fptr k) (content k) = bs @ drop (fptr k') (content k') \<and> (bs = [] \<longrightarrow> drop (fptr k) (content k) = [])"
    if "0 < n" for k n h
  proof -
    let ?r = "drop (fptr k) (content k)"
    have "?r = take n ?r @ drop (fptr k + length (take n ?r)) (content k)"
      using append_take_drop_id [of "length (take n ?r)" ?r] by (simp add: add.commute min_def split: if_splits)
    then show ?thesis using that by (auto simp: ram_read_def Let_def)
  qed
  then show "\<forall>k n. True \<longrightarrow> 0 < n \<longrightarrow> n < 2 ^ 32 \<longrightarrow> (\<exists>st bs k'. NtReadFile ram_nt k (handle \<lparr>handle = 0x44, htype = FILE_HANDLE,
      flags = 2, sequence = 1\<rparr>) n = (st, bs, k') \<and> st \<in> {STATUS_SUCCESS, STATUS_END_OF_FILE} \<and> True \<and> length bs \<le> n
      \<and> drop (fptr k) (content k) = bs @ drop (fptr k') (content k') \<and> (bs = [] \<longrightarrow> drop (fptr k) (content k) = []))"
    by (simp add: ram_nt_def)
qed

section \<open>Properties\<close>

text \<open>C1: buffered output loses, duplicates and reorders nothing. Over any kernel whose NtWriteFile
  appends what it is given, a sequence of fwrite calls of any sizes on a freshly opened, fully
  buffered stream returns the requested count each time, and after fflush the file holds exactly
  the concatenation of the data after what it held before.\<close>

theorem fwrites_reach_file:
  assumes "tbl_inv s" "fd_lookup s d = Some e" "htype e \<noteq> DIRECTORY_HANDLE" "htype e \<noteq> INVALID_HANDLE"
    and "flags e AND O_APPEND = 0"
    and "\<forall>k bs. okk k \<longrightarrow> length bs < 2 ^ 32 \<longrightarrow>
      (\<exists>k'. NtWriteFile nt k (handle e) False bs = (STATUS_SUCCESS, length bs, k') \<and> okk k' \<and> sunk k' = sunk k @ bs)"
    and "fresh_writer d f" "okk k" "\<forall>data \<in> set ds. length data < 2 ^ 64"
  shows "\<exists>f1 w1 f2 k2. fwrites (posix_io nt info) junk ds f (s, k) = Some (map length ds, f1, w1)
    \<and> common_fflush (posix_io nt info) f1 w1 = Some (0, f2, (s, k2)) \<and> sunk k2 = sunk k @ concat ds"
proof -
  have nt: "nt_writer nt s d e sunk okk" by unfold_locales (use assms in blast)+
  show ?thesis by (rule nt_writer.writes_flushed [OF nt assms(7-9)])
qed

definition example_file :: FILE where
  "example_file = \<lparr>f_magic = 1, f_fd = 1, f_mode = IOBUFFER_RDWR OR IOBUFFER_INTERNAL OR IOFBF, f_error = 0,
     f_buffer = None, f_bufsize = 4, f_start = 0, f_end = 0, f_pos = 0, f_prev = 0\<rparr>"

lemma example_file_fresh: "fresh_writer 1 example_file" "fresh_reader 1 example_file"
  by (simp_all add: fresh_writer_def fresh_reader_def example_file_def has_mode_def IOBUFFER_RDWR_def IOBUFFER_INTERNAL_def
    IOFBF_def IONBF_def IOBUFFER_RDONLY_def IOBUFFER_WRONLY_def IOBUFFER_ALLOCATED_def)

theorem fwrites_reach_file_witness:
  "\<exists>f1 w1 f2 k2. fwrites (posix_io ram_nt undefined) (\<lambda>_. 0) [[1, 2, 3], [4, 5, 6, 7, 8, 9, 10], [11]] example_file
      (example_table, \<lparr>content = [0], fptr = 1\<rparr>) = Some ([3, 7, 1], f1, w1)
    \<and> common_fflush (posix_io ram_nt undefined) f1 w1 = Some (0, f2, (example_table, k2))
    \<and> content k2 = [0, 1, 2, 3, 4, 5, 6, 7, 8, 9, 10, 11]"
proof -
  have counts: "map length [[1, 2, 3], [4, 5, 6, 7, 8, 9, 10], [11 :: byte]] = [3, 7, 1]" by simp
  show ?thesis
    using fwrites_reach_file [OF example_table_inv example_table_lookup _ _ _ rw.nt_write example_file_fresh(1),
        of "\<lparr>content = [0], fptr = 1\<rparr>" "[[1, 2, 3], [4, 5, 6, 7, 8, 9, 10], [11]]" undefined "\<lambda>_. 0", unfolded counts]
    by (simp add: O_APPEND_def del: fwrites.simps)
qed

text \<open>C2: buffered input returns the file's bytes in order, without loss or repetition, however the
  kernel splits them. Over any kernel whose NtReadFile returns some of the remaining bytes, and none
  only at the end of the file, any sequence of fread calls on a freshly opened stream stores
  together the first bytes of the file, as many as were asked for in total or all there are, and
  the position that ftell reports has advanced by that number.\<close>

theorem freads_return_file:
  assumes "tbl_inv s" "fd_lookup s d = Some e" "htype e \<noteq> DIRECTORY_HANDLE" "htype e \<noteq> INVALID_HANDLE"
    and "\<forall>k n. okk k \<longrightarrow> 0 < n \<longrightarrow> n < 2 ^ 32 \<longrightarrow>
      (\<exists>st bs k'. NtReadFile nt k (handle e) n = (st, bs, k') \<and> st \<in> {STATUS_SUCCESS, STATUS_END_OF_FILE} \<and> okk k'
         \<and> length bs \<le> n \<and> src k = bs @ src k' \<and> (bs = [] \<longrightarrow> src k = []))"
    and "fresh_reader d f" "okk k" "\<forall>n \<in> set ns. n < 2 ^ 64"
  shows "\<exists>bss f' w'. freads (posix_io nt info) junk ns f (s, k) = Some (bss, f', w')
    \<and> concat bss = take (sum_list ns) (src k) \<and> f_pos f' = f_pos f + length (concat bss)"
proof -
  have nt: "nt_reader nt s d e src okk" by unfold_locales (use assms in blast)+
  show ?thesis by (rule nt_reader.reads_in_order [OF nt assms(6-8)])
qed

theorem freads_return_file_witness:
  "\<exists>bss f' w'. freads (posix_io ram_nt undefined) (\<lambda>_. 0) [2, 7, 5] example_file
      (example_table, \<lparr>content = [1, 2, 3, 4, 5, 6, 7, 8, 9, 10, 11], fptr = 0\<rparr>) = Some (bss, f', w')
    \<and> concat bss = [1, 2, 3, 4, 5, 6, 7, 8, 9, 10, 11] \<and> f_pos f' = length (concat bss)"
  using freads_return_file [OF example_table_inv example_table_lookup _ _ rr.nt_read example_file_fresh(2),
      where k = "\<lparr>content = [1, 2, 3, 4, 5, 6, 7, 8, 9, 10, 11], fptr = 0\<rparr>" and ns = "[2, 7, 5]", of undefined "\<lambda>_. 0"]
  by (simp add: example_file_def del: freads.simps)

text \<open>C27: fgetc followed by ungetc of what it returned. When bytes are left, fgetc returns the
  next one as a signed char and consumes it; ungetc of that value then succeeds and puts the stream
  back to where it was: the same bytes are left and the position is the old one.\<close>

theorem fgetc_ungetc_restores:
  assumes "tbl_inv s" "fd_lookup s d = Some e" "htype e \<noteq> DIRECTORY_HANDLE" "htype e \<noteq> INVALID_HANDLE"
    and "\<forall>k n. okk k \<longrightarrow> 0 < n \<longrightarrow> n < 2 ^ 32 \<longrightarrow>
      (\<exists>st bs k'. NtReadFile nt k (handle e) n = (st, bs, k') \<and> st \<in> {STATUS_SUCCESS, STATUS_END_OF_FILE} \<and> okk k'
         \<and> length bs \<le> n \<and> src k = bs @ src k' \<and> (bs = [] \<longrightarrow> src k = []))"
    and rd: "reading d f" "okk k" "f_error f = 0" "buffered f @ src k = c # rest"
  shows "\<exists>f1 k1 f2. common_fgetc (posix_io nt info) h junk jch f (s, k) = Some (sint c, f1, (s, k1))
    \<and> buffered f1 @ src k1 = rest
    \<and> common_ungetc (sint c) f1 = Some (sint c, f2) \<and> reading d f2 \<and> buffered f2 @ src k1 = c # rest \<and> f_pos f2 = f_pos f"
proof -
  have nt: "nt_reader nt s d e src okk" by unfold_locales (use assms(1-5) in blast)+
  obtain f1 k1 where f1: "common_fgetc (posix_io nt info) h junk jch f (s, k) = Some (sint c, f1, (s, k1))" "reading d f1"
      "f_error f1 = 0" "buffered f1 @ src k1 = rest" "f_pos f1 = f_pos f + 1" "last_kept c f1"
    using nt_reader.fgetc_next [OF nt rd, of info h junk jch] by blast
  obtain f2 where "common_ungetc (sint c) f1 = Some (sint c, f2)" "reading d f2" "buffered f2 = c # buffered f1" "f_pos f2 = f_pos f1 - 1"
    using ungetc_last_kept [OF f1(2,3,6)] by blast
  with f1 show ?thesis by auto
qed

definition example_reader :: FILE where
  "example_reader = example_file\<lparr>f_mode := f_mode example_file OR IOBUFFER_ALLOCATED, f_prev := OP_READ,
     f_buffer := Some [0x61, 0x0A, 0xFF, 7], f_end := 3\<rparr>"

lemma example_reader_reading: "reading 1 example_reader" "f_error example_reader = 0" "buffered example_reader = [0x61, 0x0A, 0xFF]"
  by (simp_all add: reading_def buffered_def example_reader_def example_file_def has_mode_def IOBUFFER_RDWR_def
    IOBUFFER_INTERNAL_def IOFBF_def IONBF_def IOBUFFER_WRONLY_def IOBUFFER_ALLOCATED_def)

theorem fgetc_ungetc_restores_witness:
  "\<exists>f1 k1 f2. common_fgetc (posix_io ram_nt undefined) True (\<lambda>_. 0) 0 example_reader (example_table, \<lparr>content = [9], fptr = 0\<rparr>)
      = Some (97, f1, (example_table, k1))
    \<and> common_ungetc 97 f1 = Some (97, f2) \<and> buffered f2 @ drop (fptr k1) (content k1) = [0x61, 0x0A, 0xFF, 9]"
  using fgetc_ungetc_restores [OF example_table_inv example_table_lookup _ _ rr.nt_read example_reader_reading(1),
      where k = "\<lparr>content = [9], fptr = 0\<rparr>" and c = "0x61" and rest = "[0x0A, 0xFF, 9]", of undefined True "\<lambda>_. 0" 0]
    example_reader_reading(2,3) by auto

definition small_world :: "fd_state \<times> ram" where
  "small_world = (example_table, \<lparr>content = [], fptr = 0\<rparr>)"

lemmas stream_run = posix_io_def small_world_def wlibc_write_def wlibc_read_def rw.fdinfo rw.fdflags ram_nt_def ram_write_def
  ram_read_def common_fwrite_def fwrite_start_def alloc_buffer_def common_fflush_def example_file_def has_mode_def
  IOBUFFER_RDWR_def IOBUFFER_INTERNAL_def IOBUFFER_EXTERNAL_def IOFBF_def IONBF_def IOBUFFER_RDONLY_def IOBUFFER_WRONLY_def
  IOBUFFER_ALLOCATED_def IOERROR_def OP_READ_def OP_WRITE_def O_APPEND_def copy_in_def copy_out_def size_sub_def
  fwrite_spill_def fwrite_direct.simps result_div_def Let_def

text \<open>Fflush does not reset the end of the buffer window, so a later fwrite that overfills the
  window writes a whole buffer of which only the beginning is new data. Two bytes, a flush and four
  more bytes put two stale bytes of the buffer into the file, whatever they were.\<close>

theorem fflush_then_fwrite_writes_stale_bytes:
  "\<exists>f1 w1 f2 w2 f3 s3 k3 f4 s4 k4.
     common_fwrite (posix_io ram_nt undefined) True junk [1, 2] 1 2 example_file small_world = Some (2, f1, w1)
   \<and> common_fflush (posix_io ram_nt undefined) f1 w1 = Some (0, f2, w2)
   \<and> common_fwrite (posix_io ram_nt undefined) True junk [3, 4, 5, 6] 1 4 f2 w2 = Some (4, f3, (s3, k3))
   \<and> common_fflush (posix_io ram_nt undefined) f3 (s3, k3) = Some (0, f4, (s4, k4))
   \<and> content k4 = [1, 2, 3, 4, junk 2, junk 3, 5, 6]"
  by (simp add: stream_run upt_rec) (simp add: numeral_2_eq_2 numeral_3_eq_3)

text \<open>Getdelim stores the terminator one past the end of the line buffer when the line with its
  delimiter fills the buffer exactly: reading a two-byte line into a two-byte buffer is undefined.\<close>

theorem getdelim_terminator_overruns:
  "common_getdelim (posix_io ram_nt undefined) True junk jch (\<lambda>_. True) 10 (Some [x, y]) example_reader small_world = None"
  by (simp add: common_getdelim_def getdelim_loop.simps common_fgetc_def example_reader_def stream_run store_def)

end
