(* ===== verification/Buffer.thy ===== *)
theory Buffer
  imports Prelude
begin

text \<open>
  The byte buffers that the formatted input and output functions read from and write to
  (include/internal/buffer.h and src/internal/buffer.c). \<open>buffer_t\<close> keeps the source's fields; the
  only write callback of the library is \<open>memory_buffer_write\<close>, so the callback is one of two
  constructors. \<open>heap\<close> says which block sizes malloc and realloc grant. Sizes are size_t values:
  the doubling of the size wraps at \<open>2 ^ 64\<close>, after which the loop does not end.
\<close>

datatype write_fn = WRITE_NULL | MEMORY_BUFFER_WRITE

record buffer_t =
  b_data :: "byte list option"
  b_pos :: nat
  b_size :: nat
  b_write :: write_fn
  b_error :: bool

definition advance :: "nat \<Rightarrow> buffer_t \<Rightarrow> buffer_t" where
  "advance step b = b\<lparr>b_pos := min (b_pos b + step) (b_size b)\<rparr>"

definition pending :: "buffer_t \<Rightarrow> nat" where
  "pending b = size_sub (b_size b) (b_pos b)"

definition load_data :: "buffer_t \<Rightarrow> nat \<Rightarrow> byte ub" where
  "load_data b i = Option.bind (b_data b) (\<lambda>d. load d i)"

definition readbyte :: "buffer_t \<Rightarrow> (byte \<times> buffer_t) ub" where
  "readbyte b =
     (if b_error b then Some (0, b)
      else if b_pos b + 1 > b_size b then Some (0, b)
      else map_option (\<lambda>x. (x, b\<lparr>b_pos := b_pos b + 1\<rparr>)) (load_data b (b_pos b)))"

definition peekbyte :: "buffer_t \<Rightarrow> nat \<Rightarrow> byte ub" where
  "peekbyte b offset =
     (if b_error b then Some 0
      else if b_pos b + offset \<ge> b_size b then Some 0
      else load_data b (b_pos b + offset))"

section \<open>The growing callback\<close>

text \<open>The doubling loops of \<open>memory_buffer_write\<close>: \<open>need\<close> bytes beyond \<open>used\<close>.\<close>

partial_function (option) grow :: "nat \<Rightarrow> nat \<Rightarrow> nat \<Rightarrow> nat ub" where
  "grow used need n = (if need > size_sub n used then grow used need (n * 2 mod 2 ^ 64) else Some n)"

declare grow.simps [code]

definition memory_buffer_write :: "(nat \<Rightarrow> bool) \<Rightarrow> buffer_t \<Rightarrow> nat \<Rightarrow> (nat \<times> buffer_t) ub" where
  "memory_buffer_write heap b sz =
     (if b_error b then Some (0, b)
      else if sz = 0 then Some (0, b)
      else if b_size b = 0 then do {
        n \<leftarrow> grow 0 sz 64;
        let b1 = b\<lparr>b_pos := 0, b_size := n\<rparr>;
        if \<not> heap n then Some (0, b1\<lparr>b_data := None, b_error := True\<rparr>)
        else Some (n, b1\<lparr>b_data := Some (replicate n 0)\<rparr>) }
      else do {
        n \<leftarrow> grow (b_pos b) sz (b_size b);
        let b1 = b\<lparr>b_size := n\<rparr>;
        if \<not> heap n then Some (0, b1\<lparr>b_data := None, b_error := True\<rparr>)
        else if n < b_size b then None
        else Some (n, b1\<lparr>b_data := Some ((case b_data b of None \<Rightarrow> [] | Some d \<Rightarrow> take (b_size b) d)
               @ replicate (n - b_size b) 0)\<rparr>) })"

text \<open>What \<open>writebyte\<close> and \<open>writen\<close> share: room for \<open>sz\<close> bytes, or \<open>False\<close> when there is none.\<close>

definition make_room :: "(nat \<Rightarrow> bool) \<Rightarrow> nat \<Rightarrow> buffer_t \<Rightarrow> (bool \<times> buffer_t) ub" where
  "make_room heap sz b =
     (if b_pos b + sz > b_size b then
        (if b_write b = WRITE_NULL then Some (False, b)
         else map_option (\<lambda>(_, b1). (\<not> b_error b1, b1)) (memory_buffer_write heap b sz))
      else Some (True, b))"

text \<open>\<open>memcpy\<close> into the buffer's block.\<close>

definition copy_data :: "nat \<Rightarrow> byte list \<Rightarrow> buffer_t \<Rightarrow> buffer_t ub" where
  "copy_data off bs b = (if bs = [] then Some b else Option.bind (b_data b) (\<lambda>d.
     if off + length bs \<le> length d
     then Some (b\<lparr>b_data := Some (take off d @ bs @ drop (off + length bs) d)\<rparr>) else None))"

definition writen :: "(nat \<Rightarrow> bool) \<Rightarrow> buffer_t \<Rightarrow> byte list \<Rightarrow> (nat \<times> buffer_t) ub" where
  "writen heap b bs =
     (if b_error b then Some (0, b)
      else do {
        (ok, b1) \<leftarrow> make_room heap (length bs) b;
        if \<not> ok then Some (0, b1)
        else do {
          b2 \<leftarrow> copy_data (b_pos b1) bs b1;
          Some (length bs, b2\<lparr>b_pos := b_pos b2 + length bs\<rparr>) } })"

definition writebyte :: "(nat \<Rightarrow> bool) \<Rightarrow> buffer_t \<Rightarrow> byte \<Rightarrow> (nat \<times> buffer_t) ub" where
  "writebyte heap b byte =
     (if b_error b then Some (0, b)
      else do {
        (ok, b1) \<leftarrow> make_room heap 1 b;
        if \<not> ok then Some (0, b1)
        else do {
          b2 \<leftarrow> copy_data (b_pos b1) [byte] b1;
          Some (1, b2\<lparr>b_pos := b_pos b2 + 1\<rparr>) } })"

section \<open>Invariant and abstraction\<close>

definition buf_inv :: "buffer_t \<Rightarrow> bool" where
  "buf_inv b \<longleftrightarrow> \<not> b_error b \<and> b_pos b \<le> b_size b \<and> b_size b < 2 ^ 64
     \<and> (case b_data b of None \<Rightarrow> b_size b = 0 | Some d \<Rightarrow> b_size b \<le> length d)"

definition contents :: "buffer_t \<Rightarrow> byte list" where
  "contents b = take (b_pos b) (case b_data b of None \<Rightarrow> [] | Some d \<Rightarrow> d)"

definition rest :: "buffer_t \<Rightarrow> byte list" where
  "rest b = drop (b_pos b) (take (b_size b) (case b_data b of None \<Rightarrow> [] | Some d \<Rightarrow> d))"

lemma length_contents: "buf_inv b \<Longrightarrow> length (contents b) = b_pos b"
  by (auto simp: buf_inv_def contents_def split: option.splits)

lemma length_rest: "buf_inv b \<Longrightarrow> length (rest b) = b_size b - b_pos b"
  by (auto simp: buf_inv_def rest_def split: option.splits)

lemma peekbyte_rest: "buf_inv b \<Longrightarrow> peekbyte b i = Some (if i < length (rest b) then rest b ! i else 0)"
  by (auto simp: peekbyte_def buf_inv_def rest_def load_data_def load_def split: option.splits)

lemma readbyte_Cons:
  "buf_inv b \<Longrightarrow> rest b = x # xs \<Longrightarrow> \<exists>b'. readbyte b = Some (x, b') \<and> buf_inv b' \<and> rest b' = xs \<and> b' = b\<lparr>b_pos := b_pos b + 1\<rparr>"
proof -
  assume inv: "buf_inv b" and r: "rest b = x # xs"
  obtain d where d: "b_data b = Some d" "b_size b \<le> length d" "b_size b < 2 ^ 64" "\<not> b_error b" "b_pos b \<le> b_size b"
    using inv r by (auto simp: buf_inv_def rest_def split: option.splits)
  have dr: "drop (b_pos b) (take (b_size b) d) = x # xs" using r d by (simp add: rest_def)
  then have lt: "b_pos b < b_size b" by (metis d(2) drop_eq_Nil length_take list.distinct(1) min.absorb2 not_le)
  then have "d ! b_pos b = x" "drop (Suc (b_pos b)) (take (b_size b) d) = xs"
    using nth_via_drop [OF dr] dr d(2) by (simp_all add: drop_Suc tl_drop [symmetric])
  then show ?thesis using d lt by (simp add: readbyte_def buf_inv_def rest_def load_data_def load_def)
qed

lemma readbyte_Nil: "buf_inv b \<Longrightarrow> rest b = [] \<Longrightarrow> readbyte b = Some (0, b)"
  by (auto simp: readbyte_def buf_inv_def rest_def split: option.splits)

section \<open>Growing\<close>

lemma grow_enough:
  assumes "0 < n" "n < 2 ^ 64" "used \<le> n" "used + need \<le> 2 ^ 63"
  shows "\<exists>m. grow used need n = Some m \<and> n \<le> m \<and> used + need \<le> m \<and> m < 2 ^ 64"
  using assms
proof (induction "used + need - n" arbitrary: n rule: less_induct)
  case less
  show ?case
  proof (cases "need > n - used")
    case False
    then show ?thesis using less.prems by (simp add: grow.simps [of used need n])
  next
    case True
    then have n: "n < 2 ^ 63" "n * 2 < 2 ^ 64" "n * 2 mod 2 ^ 64 = n * 2" using less.prems by auto
    have "\<exists>m. grow used need (n * 2) = Some m \<and> n * 2 \<le> m \<and> used + need \<le> m \<and> m < 2 ^ 64"
      using less.prems n(2) True by (intro less.hyps) auto
    moreover have "grow used need n = grow used need (n * 2)"
      using True less.prems(3) n(3) by (simp add: grow.simps [of used need n])
    ultimately show ?thesis by auto
  qed
qed

text \<open>The callback makes room and keeps what was written.\<close>

lemma memory_buffer_write_room:
  assumes inv: "buf_inv b" and sz: "0 < sz" "b_pos b + sz \<le> 2 ^ 63" and heap: "\<forall>n. heap n"
  shows "\<exists>b' n. memory_buffer_write heap b sz = Some (n, b') \<and> buf_inv b' \<and> b_pos b' = b_pos b
    \<and> b_pos b + sz \<le> b_size b' \<and> contents b' = contents b \<and> b_write b' = b_write b"
proof (cases "b_size b = 0")
  case True
  obtain m where m: "grow 0 sz 64 = Some m" "64 \<le> m" "sz \<le> m" "m < 2 ^ 64"
    using grow_enough [of 64 0 sz] sz by auto
  have "b_pos b = 0" using inv True by (simp add: buf_inv_def)
  then show ?thesis using inv True m sz heap by (simp add: memory_buffer_write_def buf_inv_def contents_def Let_def)
next
  case False
  have b: "b_pos b \<le> b_size b" "b_size b < 2 ^ 64" "\<not> b_error b" using inv by (auto simp: buf_inv_def)
  obtain d where d: "b_data b = Some d" "b_size b \<le> length d" using inv False by (auto simp: buf_inv_def split: option.splits)
  obtain m where m: "grow (b_pos b) sz (b_size b) = Some m" "b_size b \<le> m" "b_pos b + sz \<le> m" "m < 2 ^ 64"
    using grow_enough [of "b_size b" "b_pos b" sz] False b sz by auto
  have "memory_buffer_write heap b sz = Some (m, b\<lparr>b_size := m, b_data := Some (take (b_size b) d @ replicate (m - b_size b) 0)\<rparr>)"
    using False b d m sz heap by (simp add: memory_buffer_write_def Let_def)
  then show ?thesis using b d m by (simp add: buf_inv_def contents_def)
qed

lemma memory_buffer_write_fails:
  assumes "buf_inv b" "0 < sz" "b_pos b + sz \<le> 2 ^ 63" "\<forall>n. \<not> heap n"
  shows "\<exists>b'. memory_buffer_write heap b sz = Some (0, b') \<and> b_error b'"
proof -
  have b: "b_pos b \<le> b_size b" "b_size b < 2 ^ 64" "\<not> b_error b" using assms(1) by (auto simp: buf_inv_def)
  have "\<exists>m. grow 0 sz 64 = Some m" using grow_enough [of 64 0 sz] assms(3) by auto
  moreover have "b_size b \<noteq> 0 \<Longrightarrow> \<exists>m. grow (b_pos b) sz (b_size b) = Some m"
    using grow_enough [of "b_size b" "b_pos b" sz] assms(3) b by auto
  ultimately show ?thesis using assms(2,4) b by (auto simp: memory_buffer_write_def Let_def)
qed

lemma copy_data_appends:
  assumes "buf_inv b" "b_pos b + length bs \<le> b_size b"
  shows "\<exists>b'. copy_data (b_pos b) bs b = Some b' \<and> b_pos b' = b_pos b \<and> buf_inv (b'\<lparr>b_pos := b_pos b + length bs\<rparr>)
    \<and> contents (b'\<lparr>b_pos := b_pos b + length bs\<rparr>) = contents b @ bs \<and> b_size b' = b_size b \<and> b_write b' = b_write b"
proof (cases "bs = []")
  case False
  then obtain d where d: "b_data b = Some d" "b_size b \<le> length d" using assms by (auto simp: buf_inv_def split: option.splits)
  then show ?thesis using assms False by (simp add: copy_data_def buf_inv_def contents_def)
qed (use assms in \<open>simp add: copy_data_def\<close>)

section \<open>Writing as appending\<close>

fun puts :: "(buffer_t \<Rightarrow> byte list \<Rightarrow> (nat \<times> buffer_t) ub) \<Rightarrow> buffer_t \<Rightarrow> byte list list \<Rightarrow> buffer_t ub" where
  "puts put b [] = Some b"
| "puts put b (bs # bss) = do { (_, b1) \<leftarrow> put b bs; puts put b1 bss }"

text \<open>What the printing functions rely on: within the capacity, a write succeeds and appends.\<close>

locale output_buffer =
  fixes put :: "buffer_t \<Rightarrow> byte list \<Rightarrow> (nat \<times> buffer_t) ub" and ok :: "buffer_t \<Rightarrow> bool" and cap :: "buffer_t \<Rightarrow> nat"
  assumes put_ok: "ok b \<Longrightarrow> length (contents b) + length bs \<le> cap b \<Longrightarrow>
      \<exists>b'. put b bs = Some (length bs, b') \<and> ok b' \<and> cap b' = cap b \<and> contents b' = contents b @ bs"
begin

lemma puts_concat:
  assumes "ok b" "length (contents b) + length (concat bss) \<le> cap b"
  shows "\<exists>b'. puts put b bss = Some b' \<and> ok b' \<and> cap b' = cap b \<and> contents b' = contents b @ concat bss"
  using assms
proof (induction bss arbitrary: b)
  case (Cons bs bss)
  obtain b1 where 1: "put b bs = Some (length bs, b1)" "ok b1" "cap b1 = cap b" "contents b1 = contents b @ bs"
    using put_ok [OF Cons.prems(1), of bs] Cons.prems(2) by auto
  then show ?case using Cons.IH [OF 1(2)] Cons.prems(2) by auto
qed simp

end

lemma writen_appends:
  assumes inv: "buf_inv b" and room: "b_pos b + length bs \<le> b_size b
      \<or> b_write b = MEMORY_BUFFER_WRITE \<and> (\<forall>n. heap n) \<and> b_pos b + length bs \<le> 2 ^ 63"
  shows "\<exists>b'. writen heap b bs = Some (length bs, b') \<and> buf_inv b' \<and> contents b' = contents b @ bs \<and> b_write b' = b_write b
    \<and> (b_pos b + length bs \<le> b_size b \<longrightarrow> b_size b' = b_size b)"
proof -
  obtain b1 where b1: "make_room heap (length bs) b = Some (True, b1)" "buf_inv b1" "b_pos b1 = b_pos b"
      "b_pos b + length bs \<le> b_size b1" "contents b1 = contents b" "b_write b1 = b_write b"
      "b_pos b + length bs \<le> b_size b \<longrightarrow> b_size b1 = b_size b"
  proof (cases "b_pos b + length bs \<le> b_size b")
    case True
    then show ?thesis using that [of b] inv by (simp add: make_room_def)
  next
    case False
    then have "0 < length bs" using inv by (auto simp: buf_inv_def)
    then obtain b' n where "memory_buffer_write heap b (length bs) = Some (n, b')" "buf_inv b'" "b_pos b' = b_pos b"
        "b_pos b + length bs \<le> b_size b'" "contents b' = contents b" "b_write b' = b_write b"
      using memory_buffer_write_room [OF inv, of "length bs" heap] False room by blast
    then show ?thesis using that [of b'] False room by (simp add: make_room_def buf_inv_def)
  qed
  have err: "\<not> b_error b" using inv by (simp add: buf_inv_def)
  have fit: "b_pos b1 + length bs \<le> b_size b1" using b1(3,4) by simp
  obtain b2 where "copy_data (b_pos b1) bs b1 = Some b2" "b_pos b2 = b_pos b1" "buf_inv (b2\<lparr>b_pos := b_pos b1 + length bs\<rparr>)"
      "contents (b2\<lparr>b_pos := b_pos b1 + length bs\<rparr>) = contents b1 @ bs" "b_size b2 = b_size b1" "b_write b2 = b_write b1"
    using copy_data_appends [OF b1(2) fit] by blast
  then show ?thesis using b1 err by (simp add: writen_def)
qed

lemma writebyte_writen: "writebyte heap b x = writen heap b [x]"
  by (auto simp: writebyte_def writen_def split: Option.bind_splits prod.splits)

interpretation growing: output_buffer "writen (\<lambda>_. True)" "\<lambda>b. buf_inv b \<and> b_write b = MEMORY_BUFFER_WRITE" "\<lambda>_. 2 ^ 63"
  by unfold_locales (use writen_appends length_contents in fastforce)

interpretation fixed: output_buffer "writen heap" "\<lambda>b. buf_inv b \<and> b_write b = WRITE_NULL" b_size for heap
proof unfold_locales
  fix b :: buffer_t and bs :: "byte list"
  assume b: "buf_inv b \<and> b_write b = WRITE_NULL" and fit: "length (contents b) + length bs \<le> b_size b"
  then have "b_pos b + length bs \<le> b_size b" by (simp add: length_contents)
  then show "\<exists>b'. writen heap b bs = Some (length bs, b') \<and> (buf_inv b' \<and> b_write b' = WRITE_NULL) \<and> b_size b' = b_size b
      \<and> contents b' = contents b @ bs"
    using writen_appends [of b bs heap] b by fastforce
qed

section \<open>Properties\<close>

text \<open>C34: an output buffer with the growing callback collects everything. Starting from the empty
  buffer, any sequence of writes of at most \<open>2 ^ 63\<close> bytes in total terminates, never leaves the
  allocated block, and holds exactly the concatenation of the data.\<close>

theorem memory_buffer_collects:
  assumes "length (concat bss) \<le> 2 ^ 63"
  shows "\<exists>b. puts (writen (\<lambda>_. True)) \<lparr>b_data = None, b_pos = 0, b_size = 0, b_write = MEMORY_BUFFER_WRITE, b_error = False\<rparr> bss
      = Some b \<and> buf_inv b \<and> contents b = concat bss"
  using growing.puts_concat [of "\<lparr>b_data = None, b_pos = 0, b_size = 0, b_write = MEMORY_BUFFER_WRITE, b_error = False\<rparr>" bss] assms
  by (auto simp: buf_inv_def contents_def)

theorem memory_buffer_collects_witness:
  "\<exists>b. puts (writen (\<lambda>_. True)) \<lparr>b_data = None, b_pos = 0, b_size = 0, b_write = MEMORY_BUFFER_WRITE, b_error = False\<rparr>
      [[1, 2, 3], [], [4, 5]] = Some b \<and> buf_inv b \<and> contents b = [1, 2, 3, 4, 5]"
  using memory_buffer_collects [of "[[1, 2, 3], [], [4, 5]]"] by simp

lemma fixed_beyond:
  assumes "writen heap b bs = Some (n, b')" "b_write b = WRITE_NULL" "b_pos b + length bs \<le> b_size b"
  shows "map_option (drop (b_size b)) (b_data b') = map_option (drop (b_size b)) (b_data b)"
  using assms by (auto simp: writen_def make_room_def copy_data_def split: Option.bind_split_asm if_split_asm)

text \<open>C35: a buffer over a caller's block (no callback) never writes past it: a write that does not
  fit is refused as a whole and leaves the buffer as it was, a write that fits appends, and the memory
  behind the block keeps its contents.\<close>

theorem fixed_buffer_never_overruns:
  assumes "buf_inv b" "b_write b = WRITE_NULL"
  shows "\<exists>n b'. writen heap b bs = Some (n, b') \<and> buf_inv b' \<and> b_size b' = b_size b
    \<and> map_option (drop (b_size b)) (b_data b') = map_option (drop (b_size b)) (b_data b)
    \<and> (if length bs \<le> pending b then n = length bs \<and> contents b' = contents b @ bs else n = 0 \<and> b' = b)"
proof (cases "length bs \<le> pending b")
  case True
  have "b_pos b \<le> b_size b" using assms(1) by (simp add: buf_inv_def)
  then have "length (contents b) + length bs \<le> b_size b" using True assms(1) by (simp add: pending_def length_contents)
  then obtain b' where b': "writen heap b bs = Some (length bs, b')" "buf_inv b'" "b_size b' = b_size b" "contents b' = contents b @ bs"
    using fixed.put_ok [of b bs heap] assms by auto
  have "map_option (drop (b_size b)) (b_data b') = map_option (drop (b_size b)) (b_data b)"
    using fixed_beyond [OF b'(1) assms(2)] \<open>b_pos b \<le> b_size b\<close> True by (simp add: pending_def)
  then show ?thesis using b' True by simp
next
  case False
  moreover have "b_pos b \<le> b_size b" "\<not> b_error b" using assms(1) by (simp_all add: buf_inv_def)
  moreover from this have "b_size b < b_pos b + length bs" using False by (simp add: pending_def)
  ultimately show ?thesis using assms by (simp add: writen_def make_room_def)
qed

theorem fixed_buffer_never_overruns_witness:
  "\<exists>n b'. writen (\<lambda>_. False) \<lparr>b_data = Some [9, 9, 9, 7], b_pos = 1, b_size = 3, b_write = WRITE_NULL, b_error = False\<rparr> [1, 2] = Some (n, b')
    \<and> n = 2 \<and> contents b' = [9, 1, 2] \<and> map_option (drop 3) (b_data b') = Some [7]"
  using fixed_buffer_never_overruns [of "\<lparr>b_data = Some [9, 9, 9, 7], b_pos = 1, b_size = 3, b_write = WRITE_NULL, b_error = False\<rparr>" "\<lambda>_. False" "[1, 2]"]
  by (auto simp: buf_inv_def pending_def contents_def)

end
