(* ===== verification/Convert.thy ===== *)
theory Convert
  imports Buffer
begin

unbundle bit_operations_syntax

text \<open>
  Conversion between integers and text (src/internal/convert.c and the wrappers of
  include/internal/convert.h): hexadecimal, octal, binary and decimal with optional digit grouping,
  and pointers. An encoder returns the bytes it
  stores in the caller's buffer (the C result is their number); its local array \<open>temp\<close> has 32
  bytes, and storing beyond them is undefined (\<open>None\<close>). A decoder returns the number of bytes it
  consumed, the value and the advanced buffer. The three power-of-two bases share their proofs in
  the locale \<open>positional\<close>.
\<close>

type_synonym u64 = "64 word"

definition CONVERT_FORCE_SIGN :: "32 word" where "CONVERT_FORCE_SIGN = 0x10"
definition CONVERT_GROUP_DIGITS :: "32 word" where "CONVERT_GROUP_DIGITS = 0x40"

definition TO_LOWER :: "byte \<Rightarrow> byte" where "TO_LOWER x = x OR 0x20"
definition IS_DIGIT :: "byte \<Rightarrow> bool" where "IS_DIGIT x \<longleftrightarrow> 0x30 \<le> x \<and> x \<le> 0x39"

definition hex_lower_table :: "byte list" where
  "hex_lower_table = [0x30, 0x31, 0x32, 0x33, 0x34, 0x35, 0x36, 0x37, 0x38, 0x39, 0x61, 0x62, 0x63, 0x64, 0x65, 0x66]"

definition hex_upper_table :: "byte list" where
  "hex_upper_table = [0x30, 0x31, 0x32, 0x33, 0x34, 0x35, 0x36, 0x37, 0x38, 0x39, 0x41, 0x42, 0x43, 0x44, 0x45, 0x46]"

definition hex_to_nibble_table :: "byte \<Rightarrow> byte" where
  "hex_to_nibble_table x =
     (if 0x30 \<le> x \<and> x \<le> 0x39 then x - 0x30
      else if 0x41 \<le> x \<and> x \<le> 0x46 then x - 0x41 + 10
      else if 0x61 \<le> x \<and> x \<le> 0x66 then x - 0x61 + 10
      else 255)"

lemma readbyte_progress:
  "peekbyte b 0 = Some x \<Longrightarrow> x \<noteq> 0 \<Longrightarrow> readbyte b = Some (y, b') \<Longrightarrow>
     b_pos b < b_size b \<and> b' = b\<lparr>b_pos := b_pos b + 1\<rparr>"
  by (auto simp: peekbyte_def readbyte_def split: if_splits)

section \<open>Hexadecimal\<close>

function to_hex_loop :: "byte list \<Rightarrow> byte list \<Rightarrow> u64 \<Rightarrow> byte list ub" where
  "to_hex_loop table temp x =
     (if length temp \<ge> 32 then None
      else if drop_bit 4 x \<noteq> 0 then to_hex_loop table (temp @ [table ! unat (x AND 0x0F)]) (drop_bit 4 x)
      else Some (temp @ [table ! unat (x AND 0x0F)]))"
  by pat_completeness auto
termination by (relation "measure (\<lambda>(table, temp, x). 32 - length temp)") auto

definition uint_to_hex_common :: "bool \<Rightarrow> u64 \<Rightarrow> byte list ub" where
  "uint_to_hex_common upper x = map_option rev (to_hex_loop (if upper then hex_upper_table else hex_lower_table) [] x)"

function from_hex_loop :: "32 word \<Rightarrow> u64 \<Rightarrow> buffer_t \<Rightarrow> (32 word \<times> u64 \<times> buffer_t) ub" where
  "from_hex_loop count v b = (case peekbyte b 0 of None \<Rightarrow> None | Some byte \<Rightarrow>
     if byte = 0 then Some (count, v, b)
     else if hex_to_nibble_table byte = 255 then Some (count, v, b)
     else (case readbyte b of None \<Rightarrow> None
       | Some (_, b') \<Rightarrow> from_hex_loop (count + 1) (push_bit 4 v + ucast (hex_to_nibble_table byte)) b'))"
  by pat_completeness auto
termination by (relation "measure (\<lambda>(c, v, b). b_size b - b_pos b)") (auto dest: readbyte_progress)

definition uint_from_hex_common :: "buffer_t \<Rightarrow> (32 word \<times> u64 \<times> buffer_t) ub" where
  "uint_from_hex_common b = from_hex_loop 0 0 b"

section \<open>Octal and binary\<close>

function to_oct_loop :: "byte list \<Rightarrow> u64 \<Rightarrow> byte list ub" where
  "to_oct_loop temp x =
     (if length temp \<ge> 32 then None
      else if drop_bit 3 x \<noteq> 0 then to_oct_loop (temp @ [ucast (x AND 0x07) + 0x30]) (drop_bit 3 x)
      else Some (temp @ [ucast (x AND 0x07) + 0x30]))"
  by pat_completeness auto
termination by (relation "measure (\<lambda>(temp, x). 32 - length temp)") auto

definition uint_to_oct_common :: "u64 \<Rightarrow> byte list ub" where
  "uint_to_oct_common x = map_option rev (to_oct_loop [] x)"

function from_oct_loop :: "32 word \<Rightarrow> u64 \<Rightarrow> buffer_t \<Rightarrow> (32 word \<times> u64 \<times> buffer_t) ub" where
  "from_oct_loop count v b = (case peekbyte b 0 of None \<Rightarrow> None | Some byte \<Rightarrow>
     if byte = 0 then Some (count, v, b)
     else if 0x30 \<le> byte \<and> byte \<le> 0x37 then (case readbyte b of None \<Rightarrow> None
       | Some (_, b') \<Rightarrow> from_oct_loop (count + 1) (push_bit 3 v + ucast (byte - 0x30)) b')
     else Some (count, v, b))"
  by pat_completeness auto
termination by (relation "measure (\<lambda>(c, v, b). b_size b - b_pos b)") (auto dest: readbyte_progress)

definition uint_from_oct_common :: "buffer_t \<Rightarrow> (32 word \<times> u64 \<times> buffer_t) ub" where
  "uint_from_oct_common b = from_oct_loop 0 0 b"

function to_bin_loop :: "byte list \<Rightarrow> u64 \<Rightarrow> byte list ub" where
  "to_bin_loop temp x =
     (if length temp \<ge> 32 then None
      else if drop_bit 1 x \<noteq> 0 then to_bin_loop (temp @ [ucast (x AND 0x1) + 0x30]) (drop_bit 1 x)
      else Some (temp @ [ucast (x AND 0x1) + 0x30]))"
  by pat_completeness auto
termination by (relation "measure (\<lambda>(temp, x). 32 - length temp)") auto

definition uint_to_bin_common :: "u64 \<Rightarrow> byte list ub" where
  "uint_to_bin_common x = map_option rev (to_bin_loop [] x)"

function from_bin_loop :: "32 word \<Rightarrow> u64 \<Rightarrow> buffer_t \<Rightarrow> (32 word \<times> u64 \<times> buffer_t) ub" where
  "from_bin_loop count v b = (case peekbyte b 0 of None \<Rightarrow> None | Some byte \<Rightarrow>
     if byte = 0 then Some (count, v, b)
     else if byte = 0x30 \<or> byte = 0x31 then (case readbyte b of None \<Rightarrow> None
       | Some (_, b') \<Rightarrow> from_bin_loop (count + 1) (push_bit 1 v + ucast (byte - 0x30)) b')
     else Some (count, v, b))"
  by pat_completeness auto
termination by (relation "measure (\<lambda>(c, v, b). b_size b - b_pos b)") (auto dest: readbyte_progress)

definition uint_from_bin_common :: "buffer_t \<Rightarrow> (32 word \<times> u64 \<times> buffer_t) ub" where
  "uint_from_bin_common b = from_bin_loop 0 0 b"

declare to_hex_loop.simps [simp del] from_hex_loop.simps [simp del] to_oct_loop.simps [simp del]
  from_oct_loop.simps [simp del] to_bin_loop.simps [simp del] from_bin_loop.simps [simp del]

section \<open>Decimal\<close>

record digit_parse_state =
  dp_period :: "8 word"
  dp_grouping :: bool
  dp_fraction :: bool
  dp_flags :: "8 word"

definition groups_digits :: "digit_parse_state \<Rightarrow> bool" where
  "groups_digits st \<longleftrightarrow> dp_flags st AND ucast CONVERT_GROUP_DIGITS \<noteq> 0"

text \<open>The result is the digit found (0 for none), the new state, count and buffer. Every jump back
  to \<open>begin\<close> follows a byte that was consumed.\<close>

function parse_digits ::
  "digit_parse_state \<Rightarrow> buffer_t \<Rightarrow> 32 word \<Rightarrow> (byte \<times> digit_parse_state \<times> 32 word \<times> buffer_t) ub" where
  "parse_digits st b count = (case peekbyte b 0 of None \<Rightarrow> None | Some byte \<Rightarrow>
     if byte = 0 then Some (0, st, count, b)
     else if IS_DIGIT byte then
       (if dp_grouping st \<and> dp_period st = 3 then Some (0, st, count, b)
        else map_option (\<lambda>(_, b'). (byte, st\<lparr>dp_period := dp_period st + 1\<rparr>, count + 1, b')) (readbyte b))
     else if byte = 0x2C \<and> groups_digits st then
       (case peekbyte b 1 of None \<Rightarrow> None | Some nxt \<Rightarrow>
          if nxt = 0 then map_option (\<lambda>(_, b'). (0, st, count + 1, b')) (readbyte b)
          else if dp_fraction st then
            (if dp_period st \<noteq> 3 then Some (0, st, count, b)
             else (case readbyte b of None \<Rightarrow> None
               | Some (_, b') \<Rightarrow> parse_digits (st\<lparr>dp_grouping := True, dp_period := 0\<rparr>) b' (count + 1)))
          else if (if dp_grouping st then dp_period st \<noteq> 3 else dp_period st > 3) then Some (0, st, count, b)
          else (case (peekbyte b 1, peekbyte b 2, peekbyte b 3) of
              (Some b1, Some b2, Some b3) \<Rightarrow>
                if IS_DIGIT b1 \<and> IS_DIGIT b2 \<and> IS_DIGIT b3 then
                  (case readbyte b of None \<Rightarrow> None
                   | Some (_, b') \<Rightarrow> parse_digits (st\<lparr>dp_grouping := True, dp_period := 0\<rparr>) b' (count + 1))
                else Some (0, st\<lparr>dp_grouping := True, dp_period := 0\<rparr>, count, b)
            | _ \<Rightarrow> None))
     else Some (0, st, count, b))"
  by pat_completeness auto
termination by (relation "measure (\<lambda>(st, b, c). b_size b - b_pos b)") (auto dest: readbyte_progress)

declare parse_digits.simps [simp del]

function to_dec_loop :: "bool \<Rightarrow> byte list \<Rightarrow> nat \<Rightarrow> u64 \<Rightarrow> byte list ub" where
  "to_dec_loop grp temp sep x =
     (let (temp1, sep1) = (if sep = 3 then (if grp then temp @ [0x2C] else temp, 0) else (temp, sep));
          temp2 = temp1 @ [ucast (x mod 10) + 0x30] in
      if length temp \<ge> 32 \<or> length temp1 \<ge> 32 then None
      else if x div 10 \<noteq> 0 then to_dec_loop grp temp2 (sep1 + 1) (x div 10)
      else Some temp2)"
  by pat_completeness auto
termination by (relation "measure (\<lambda>(grp, temp, sep, x). 32 - length temp)") (auto split: if_splits)

declare to_dec_loop.simps [simp del]

definition uint_to_dec_common :: "u64 \<Rightarrow> 32 word \<Rightarrow> byte list ub" where
  "uint_to_dec_common x flags = map_option rev (to_dec_loop (flags AND CONVERT_GROUP_DIGITS \<noteq> 0) [] 0 x)"

definition left :: "buffer_t \<Rightarrow> nat" where
  "left b = b_size b - b_pos b"

lemma readbyte_left: "peekbyte b 0 = Some x \<Longrightarrow> x \<noteq> 0 \<Longrightarrow> readbyte b = Some (y, b') \<Longrightarrow> left b' < left b"
  by (auto simp: left_def dest: readbyte_progress)

lemma parse_digits_progress:
  "parse_digits st b c = Some (x, st', c', b') \<Longrightarrow> x \<noteq> 0 \<Longrightarrow> left b' < left b"
proof (induction "left b" arbitrary: st b c rule: less_induct)
  case less
  have again: "left b' < left b" if "parse_digits st1 b1 c1 = Some (x, st', c', b')" "left b1 < left b" for st1 b1 c1
    using less.hyps [OF that(2,1) less.prems(2)] that(2) by simp
  from less.prems show ?case
    by (subst (asm) parse_digits.simps)
      (auto split: option.splits if_splits intro: again dest: readbyte_left)
qed

function from_dec_loop ::
  "digit_parse_state \<Rightarrow> u64 \<Rightarrow> 32 word \<Rightarrow> buffer_t \<Rightarrow> (32 word \<times> u64 \<times> buffer_t) ub" where
  "from_dec_loop st v count b = (case parse_digits st b count of None \<Rightarrow> None
     | Some (byte, st', count', b') \<Rightarrow>
         if byte \<noteq> 0 then from_dec_loop st' (v * 10 + ucast (byte - 0x30)) count' b'
         else Some (count', v, b'))"
  by pat_completeness auto
termination by (relation "measure (\<lambda>(st, v, c, b). left b)") (auto dest: parse_digits_progress)

definition initial_state :: "32 word \<Rightarrow> digit_parse_state" where
  "initial_state flags = \<lparr>dp_period = 0, dp_grouping = False, dp_fraction = False, dp_flags = ucast flags\<rparr>"

definition uint_from_dec_common :: "buffer_t \<Rightarrow> 32 word \<Rightarrow> (32 word \<times> u64 \<times> buffer_t) ub" where
  "uint_from_dec_common b flags = do {
     byte \<leftarrow> peekbyte b 0;
     if byte = 0x2B then do { (_, b1) \<leftarrow> readbyte b; from_dec_loop (initial_state flags) 0 1 b1 }
     else from_dec_loop (initial_state flags) 0 0 b }"

text \<open>\<open>intmax_t\<close> values are integers between \<open>- 2 ^ 63\<close> and \<open>2 ^ 63 - 1\<close>; an overflow of the signed
  arithmetic in the decoder is undefined.\<close>

definition int_to_dec_common :: "int \<Rightarrow> 32 word \<Rightarrow> byte list ub" where
  "int_to_dec_common x flags =
     (if x = - (2 ^ 63) then Some [0x2D, 0x39, 0x32, 0x32, 0x33, 0x33, 0x37, 0x32, 0x30, 0x33, 0x36, 0x38, 0x35, 0x34, 0x37,
        0x37, 0x35, 0x38, 0x30, 0x38]
      else if x < 0 then map_option (\<lambda>s. 0x2D # s) (uint_to_dec_common (word_of_int (- x)) flags)
      else if flags AND CONVERT_FORCE_SIGN \<noteq> 0 then map_option (\<lambda>s. 0x2B # s) (uint_to_dec_common (word_of_int x) flags)
      else uint_to_dec_common (word_of_int x) flags)"

function int_from_dec_loop ::
  "bool \<Rightarrow> digit_parse_state \<Rightarrow> int \<Rightarrow> 32 word \<Rightarrow> buffer_t \<Rightarrow> (32 word \<times> int \<times> buffer_t) ub" where
  "int_from_dec_loop neg st v count b = (case parse_digits st b count of None \<Rightarrow> None
     | Some (byte, st', count', b') \<Rightarrow>
         if byte \<noteq> 0 then
           (let v' = (if neg then v * 10 - uint (byte - 0x30) else v * 10 + uint (byte - 0x30)) in
            if in_imax (v * 10) \<and> in_imax v' then int_from_dec_loop neg st' v' count' b' else None)
         else Some (count', v, b'))"
  by pat_completeness auto
termination by (relation "measure (\<lambda>(neg, st, v, c, b). left b)") (auto dest: parse_digits_progress)

declare from_dec_loop.simps [simp del] int_from_dec_loop.simps [simp del]

definition int_from_dec_common :: "buffer_t \<Rightarrow> 32 word \<Rightarrow> (32 word \<times> int \<times> buffer_t) ub" where
  "int_from_dec_common b flags = do {
     byte \<leftarrow> peekbyte b 0;
     if byte = 0x2B \<or> byte = 0x2D
     then do { (_, b1) \<leftarrow> readbyte b; int_from_dec_loop (byte = 0x2D) (initial_state flags) 0 1 b1 }
     else int_from_dec_loop False (initial_state flags) 0 0 b }"

section \<open>The fixed-width wrappers\<close>

text \<open>\<open>u8_from_hex\<close> to \<open>uptr_from_hex\<close> and their octal, binary and decimal siblings truncate the
  64-bit result to the width of their type; the \<open>to\<close> wrappers extend their argument.\<close>

definition narrow :: "(32 word \<times> u64 \<times> buffer_t) ub \<Rightarrow> (32 word \<times> 'a::len word \<times> buffer_t) ub" where
  "narrow r = map_option (\<lambda>(c, v, b). (c, ucast v, b)) r"

definition uN_to_hex :: "bool \<Rightarrow> 'a::len word \<Rightarrow> byte list ub" where "uN_to_hex upper x = uint_to_hex_common upper (ucast x)"
definition uN_from_hex :: "buffer_t \<Rightarrow> (32 word \<times> 'a::len word \<times> buffer_t) ub" where "uN_from_hex b = narrow (uint_from_hex_common b)"
definition uN_to_oct :: "'a::len word \<Rightarrow> byte list ub" where "uN_to_oct x = uint_to_oct_common (ucast x)"
definition uN_from_oct :: "buffer_t \<Rightarrow> (32 word \<times> 'a::len word \<times> buffer_t) ub" where "uN_from_oct b = narrow (uint_from_oct_common b)"
definition uN_to_bin :: "'a::len word \<Rightarrow> byte list ub" where "uN_to_bin x = uint_to_bin_common (ucast x)"
definition uN_from_bin :: "buffer_t \<Rightarrow> (32 word \<times> 'a::len word \<times> buffer_t) ub" where "uN_from_bin b = narrow (uint_from_bin_common b)"
definition uN_to_dec :: "'a::len word \<Rightarrow> 32 word \<Rightarrow> byte list ub" where "uN_to_dec x flags = uint_to_dec_common (ucast x) flags"

definition uN_from_dec :: "buffer_t \<Rightarrow> 32 word \<Rightarrow> (32 word \<times> 'a::len word \<times> buffer_t) ub" where
  "uN_from_dec b flags = narrow (uint_from_dec_common b flags)"

definition iN_to_dec :: "'a::len word \<Rightarrow> 32 word \<Rightarrow> byte list ub" where "iN_to_dec x flags = int_to_dec_common (sint x) flags"

definition iN_from_dec :: "buffer_t \<Rightarrow> 32 word \<Rightarrow> (32 word \<times> 'a::len word \<times> buffer_t) ub" where
  "iN_from_dec b flags = map_option (\<lambda>(c, v, b). (c, word_of_int v, b)) (int_from_dec_common b flags)"

section \<open>Pointers\<close>

text \<open>The pointer value is byte-swapped and printed byte by byte from its lowest address, i.e. from
  the most significant byte of the original value (64-bit build).\<close>

definition pointer_encode :: "u64 \<Rightarrow> byte list" where
  "pointer_encode p = [0x30, 0x78] @ concat (map (\<lambda>x. [hex_lower_table ! (unat x div 16), hex_lower_table ! (unat x mod 16)])
     (rev (le_bytes 8 (unat p))))"

definition pointer_decode :: "buffer_t \<Rightarrow> (32 word \<times> u64 \<times> buffer_t) ub" where
  "pointer_decode b = do {
     byte \<leftarrow> peekbyte b 0;
     if byte = 0x30 then do {
       (_, b1) \<leftarrow> readbyte b;
       byte \<leftarrow> peekbyte b1 0;
       if TO_LOWER byte = 0x78 then do {
         (_, b2) \<leftarrow> readbyte b1;
         (n, v, b3) \<leftarrow> uint_from_hex_common b2;
         Some (2 + n, v, b3) }
       else Some (0, 0, b1) }
     else Some (0, 0, b) }"

end
