(* ===== verification/ConvertProps.thy ===== *)
theory ConvertProps
  imports Convert
begin

unbundle bit_operations_syntax

text \<open>
  Round trips of the integer conversions. \<open>digits\<close> is the positional representation, least
  significant digit first; the locale \<open>positional\<close> relates an encoder loop and a decoder loop of a
  power-of-two base to it and is interpreted for the hexadecimal (both letter cases), octal and
  binary conversions. The decimal conversion, whose text may carry commas, is treated by its
  groups of three digits.
\<close>

section \<open>Positional representation\<close>

function digits :: "nat \<Rightarrow> nat \<Rightarrow> nat list" where
  "digits B n = (if B \<le> 1 \<or> n < B then [n] else n mod B # digits B (n div B))"
  by pat_completeness auto
termination by (relation "measure snd") (auto intro!: div_less_dividend)

declare digits.simps [simp del]

lemma digits_nonempty [simp]: "digits B n \<noteq> []"
  by (subst digits.simps) simp

lemma digits_small: "n < B \<Longrightarrow> digits B n = [n]"
  by (subst digits.simps) simp

lemma digits_step: "1 < B \<Longrightarrow> B \<le> n \<Longrightarrow> digits B n = n mod B # digits B (n div B)"
  by (subst digits.simps) simp

lemma digits_less: "1 < B \<Longrightarrow> d \<in> set (digits B n) \<Longrightarrow> d < B"
proof (induction B n rule: digits.induct)
  case (1 B n)
  then show ?case by (cases "n < B") (auto simp: digits_small digits_step)
qed

lemma digits_value: "1 < B \<Longrightarrow> foldl (\<lambda>v d. v * B + d) 0 (rev (digits B n)) = n"
proof (induction B n rule: digits.induct)
  case (1 B n)
  then show ?case by (cases "n < B") (simp_all add: digits_small digits_step)
qed

lemma length_digits: "1 < B \<Longrightarrow> 0 < m \<Longrightarrow> length (digits B n) \<le> m \<longleftrightarrow> n < B ^ m"
proof (induction B n arbitrary: m rule: digits.induct)
  case (1 B n)
  show ?case
  proof (cases "n < B")
    case True
    then show ?thesis using 1(2,3) by (cases m) (auto simp: digits_small intro: less_le_trans)
  next
    case False
    then obtain k where m: "m = Suc k" using 1(3) by (cases m) auto
    show ?thesis
    proof (cases k)
      case 0
      then show ?thesis using False m 1(2) digits_nonempty [of B "n div B"] by (simp add: digits_step)
    next
      case (Suc j)
      then have "length (digits B (n div B)) \<le> k \<longleftrightarrow> n div B < B ^ k"
        using 1(1) [of k] False 1(2) by auto
      then show ?thesis using False m 1(2) by (simp add: digits_step div_less_iff_less_mult mult.commute)
    qed
  qed
qed

section \<open>Power-of-two bases\<close>

locale positional =
  fixes enc :: "byte list \<Rightarrow> u64 \<Rightarrow> byte list ub"
    and dec :: "32 word \<Rightarrow> u64 \<Rightarrow> buffer_t \<Rightarrow> (32 word \<times> u64 \<times> buffer_t) ub"
    and k :: nat and chr :: "nat \<Rightarrow> byte" and val :: "byte \<Rightarrow> nat option"
  assumes width: "0 < k" "k < 64"
    and enc_step: "enc temp x = (if length temp \<ge> 32 then None
      else if drop_bit k x \<noteq> 0 then enc (temp @ [chr (unat x mod 2 ^ k)]) (drop_bit k x)
      else Some (temp @ [chr (unat x mod 2 ^ k)]))"
    and dec_step: "dec c v b = (case peekbyte b 0 of None \<Rightarrow> None | Some byte \<Rightarrow>
      if byte = 0 then Some (c, v, b)
      else case val byte of None \<Rightarrow> Some (c, v, b)
        | Some d \<Rightarrow> (case readbyte b of None \<Rightarrow> None | Some (_, b') \<Rightarrow> dec (c + 1) (push_bit k v + of_nat d) b'))"
    and val_chr: "d < 2 ^ k \<Longrightarrow> val (chr d) = Some d" and val_0: "val 0 = None"
begin

lemma base: "1 < (2 :: nat) ^ k"
  using width(1) one_less_power [of "2 :: nat" k] by simp

lemma enc_digits:
  "enc temp x = (if length temp + length (digits (2 ^ k) (unat x)) \<le> 32
     then Some (temp @ map chr (digits (2 ^ k) (unat x))) else None)"
proof (induction "2 ^ k :: nat" "unat x" arbitrary: temp x rule: digits.induct)
  case 1
  have drop: "unat (drop_bit k x) = unat x div 2 ^ k"
    unfolding unat_drop_bit_eq by (rule drop_bit_eq_div)
  show ?case
  proof (cases "unat x < 2 ^ k")
    case True
    then have "drop_bit k x = 0" using drop by (simp add: unat_eq_zero)
    then show ?thesis using True by (subst enc_step) (simp add: digits_small)
  next
    case False
    then have nz: "drop_bit k x \<noteq> 0" using drop by (auto simp: div_eq_0_iff simp flip: unat_eq_zero)
    show ?thesis
    proof (cases "length temp \<ge> 32")
      case True
      then show ?thesis using False base by (subst enc_step) (simp add: digits_step)
    next
      case short: False
      have "enc temp x = enc (temp @ [chr (unat x mod 2 ^ k)]) (drop_bit k x)"
        using nz short by (subst enc_step) simp
      then show ?thesis using 1 [OF _ drop [symmetric]] False base drop by (simp add: digits_step)
    qed
  qed
qed

lemma push_bit_of_nat: "push_bit k (of_nat v) + of_nat d = (of_nat (v * 2 ^ k + d) :: u64)"
  by (simp add: push_bit_eq_mult)

lemma dec_digits:
  assumes "buf_inv b" "rest b = map chr ds @ ys" "\<forall>d \<in> set ds. d < 2 ^ k" "ys = [] \<or> val (hd ys) = None"
  shows "\<exists>b'. dec c (of_nat v) b = Some (c + of_nat (length ds), of_nat (foldl (\<lambda>v d. v * 2 ^ k + d) v ds), b')
    \<and> buf_inv b' \<and> rest b' = ys \<and> b' = b\<lparr>b_pos := b_pos b + length ds\<rparr>"
  using assms
proof (induction ds arbitrary: b c v)
  case Nil
  then show ?case by (subst dec_step) (cases ys; auto simp: peekbyte_rest)
next
  case (Cons d ds)
  obtain b1 where b1: "readbyte b = Some (chr d, b1)" "buf_inv b1" "rest b1 = map chr ds @ ys" "b1 = b\<lparr>b_pos := b_pos b + 1\<rparr>"
    using readbyte_Cons [OF Cons.prems(1), of "chr d"] Cons.prems(2) by auto
  have d: "val (chr d) = Some d" "chr d \<noteq> 0" using val_chr [of d] val_0 Cons.prems(3) by (auto simp: val_0)
  have "dec c (of_nat v) b = dec (c + 1) (of_nat (v * 2 ^ k + d)) b1"
    using b1(1) d Cons.prems(1,2) push_bit_of_nat [of v d] by (subst dec_step) (simp add: peekbyte_rest)
  then show ?case using Cons.IH [OF b1(2,3), of "c + 1" "v * 2 ^ k + d"] Cons.prems(3,4) b1(4) by (simp add: add.assoc)
qed

lemma round_trip:
  assumes "enc [] x = Some t" "buf_inv b" "rest b = rev t @ ys" "ys = [] \<or> val (hd ys) = None"
  shows "\<exists>b'. dec 0 0 b = Some (of_nat (length t), x, b') \<and> buf_inv b' \<and> rest b' = ys"
proof -
  let ?ds = "digits (2 ^ k) (unat x)"
  have t: "t = map chr ?ds" using assms(1) enc_digits [of "[]" x] by (simp split: if_splits)
  have "\<exists>b'. dec 0 (of_nat 0) b = Some (0 + of_nat (length (rev ?ds)), of_nat (foldl (\<lambda>v d. v * 2 ^ k + d) 0 (rev ?ds)), b')
      \<and> buf_inv b' \<and> rest b' = ys \<and> b' = b\<lparr>b_pos := b_pos b + length (rev ?ds)\<rparr>"
    using assms(3,4) t digits_less [OF base] by (intro dec_digits [OF assms(2)]) (auto simp: rev_map)
  then show ?thesis using digits_value [OF base, of "unat x"] t by auto
qed

end

section \<open>The three bases\<close>

lemma and_low_bits:
  "unat (x AND 0x0F :: u64) = unat x mod 2 ^ 4" "unat (x AND 0x07 :: u64) = unat x mod 2 ^ 3"
  "unat (x AND 0x1 :: u64) = unat x mod 2 ^ 1"
proof -
  have "unat (x AND mask n) = unat x mod 2 ^ n" for n
    by (metis take_bit_eq_mask take_bit_eq_mod unsigned_take_bit_eq)
  from this [of 4] this [of 3] this [of 1] show "unat (x AND 0x0F :: u64) = unat x mod 2 ^ 4"
    "unat (x AND 0x07 :: u64) = unat x mod 2 ^ 3" "unat (x AND 0x1 :: u64) = unat x mod 2 ^ 1"
    by (simp_all add: mask_eq_exp_minus_1)
qed

definition hex_val :: "byte \<Rightarrow> nat option" where
  "hex_val x = (if hex_to_nibble_table x = 255 then None else Some (unat (hex_to_nibble_table x)))"

definition oct_val :: "byte \<Rightarrow> nat option" where
  "oct_val x = (if 0x30 \<le> x \<and> x \<le> 0x37 then Some (unat (x - 0x30)) else None)"

definition bin_val :: "byte \<Rightarrow> nat option" where
  "bin_val x = (if x = 0x30 \<or> x = 0x31 then Some (unat (x - 0x30)) else None)"

lemma hex_tables: "list_all (\<lambda>d. hex_val (hex_lower_table ! d) = Some d \<and> hex_val (hex_upper_table ! d) = Some d) [0..<16]"
  by code_simp

lemma hex_val_table:
  assumes "d < 2 ^ 4"
  shows "hex_val (hex_lower_table ! d) = Some d" "hex_val (hex_upper_table ! d) = Some d"
  using hex_tables assms by (simp_all add: list_all_iff del: upt_Suc)

lemma hex_val_0: "hex_val 0 = None"
  by (simp add: hex_val_def hex_to_nibble_table_def)

interpretation hexl: positional "to_hex_loop hex_lower_table" from_hex_loop 4 "\<lambda>d. hex_lower_table ! d" hex_val
proof unfold_locales
  show "to_hex_loop hex_lower_table temp x = (if length temp \<ge> 32 then None
      else if drop_bit 4 x \<noteq> 0 then to_hex_loop hex_lower_table (temp @ [hex_lower_table ! (unat x mod 2 ^ 4)]) (drop_bit 4 x)
      else Some (temp @ [hex_lower_table ! (unat x mod 2 ^ 4)]))" for temp x
    by (subst to_hex_loop.simps) (simp only: and_low_bits)
  show "from_hex_loop c v b = (case peekbyte b 0 of None \<Rightarrow> None | Some byte \<Rightarrow>
      if byte = 0 then Some (c, v, b)
      else case hex_val byte of None \<Rightarrow> Some (c, v, b)
        | Some d \<Rightarrow> (case readbyte b of None \<Rightarrow> None | Some (_, b') \<Rightarrow> from_hex_loop (c + 1) (push_bit 4 v + of_nat d) b'))" for c v b
    by (subst from_hex_loop.simps) (simp add: hex_val_def split: option.split)
qed (simp_all add: hex_val_table hex_val_0)

interpretation hexu: positional "to_hex_loop hex_upper_table" from_hex_loop 4 "\<lambda>d. hex_upper_table ! d" hex_val
proof unfold_locales
  show "to_hex_loop hex_upper_table temp x = (if length temp \<ge> 32 then None
      else if drop_bit 4 x \<noteq> 0 then to_hex_loop hex_upper_table (temp @ [hex_upper_table ! (unat x mod 2 ^ 4)]) (drop_bit 4 x)
      else Some (temp @ [hex_upper_table ! (unat x mod 2 ^ 4)]))" for temp x
    by (subst to_hex_loop.simps) (simp only: and_low_bits)
qed (rule hexl.dec_step | simp add: hex_val_table hex_val_0)+

lemma oct_chars: "list_all (\<lambda>d. oct_val (of_nat d + 0x30) = Some d) [0..<8]" "list_all (\<lambda>d. bin_val (of_nat d + 0x30) = Some d) [0..<2]"
  by code_simp+

lemma ucast_low_bits:
  "ucast (x AND 0x07 :: u64) = (of_nat (unat x mod 2 ^ 3) :: byte)" "ucast (x AND 0x1 :: u64) = (of_nat (unat x mod 2 ^ 1) :: byte)"
  unfolding and_low_bits [symmetric] by simp_all

interpretation oct: positional to_oct_loop from_oct_loop 3 "\<lambda>d. of_nat d + 0x30" oct_val
proof unfold_locales
  show "to_oct_loop temp x = (if length temp \<ge> 32 then None
      else if drop_bit 3 x \<noteq> 0 then to_oct_loop (temp @ [of_nat (unat x mod 2 ^ 3) + 0x30]) (drop_bit 3 x)
      else Some (temp @ [of_nat (unat x mod 2 ^ 3) + 0x30]))" for temp x
    by (subst to_oct_loop.simps) (simp only: ucast_low_bits)
  show "from_oct_loop c v b = (case peekbyte b 0 of None \<Rightarrow> None | Some byte \<Rightarrow>
      if byte = 0 then Some (c, v, b)
      else case oct_val byte of None \<Rightarrow> Some (c, v, b)
        | Some d \<Rightarrow> (case readbyte b of None \<Rightarrow> None | Some (_, b') \<Rightarrow> from_oct_loop (c + 1) (push_bit 3 v + of_nat d) b'))" for c v b
    by (subst from_oct_loop.simps) (auto simp add: oct_val_def split: option.split)
  show "oct_val (of_nat d + 0x30) = Some d" if "d < 2 ^ 3" for d
    using oct_chars(1) that by (simp add: list_all_iff del: upt_Suc)
qed (simp_all add: oct_val_def)

interpretation bin: positional to_bin_loop from_bin_loop 1 "\<lambda>d. of_nat d + 0x30" bin_val
proof unfold_locales
  show "to_bin_loop temp x = (if length temp \<ge> 32 then None
      else if drop_bit 1 x \<noteq> 0 then to_bin_loop (temp @ [of_nat (unat x mod 2 ^ 1) + 0x30]) (drop_bit 1 x)
      else Some (temp @ [of_nat (unat x mod 2 ^ 1) + 0x30]))" for temp x
    by (subst to_bin_loop.simps) (simp only: ucast_low_bits)
  show "from_bin_loop c v b = (case peekbyte b 0 of None \<Rightarrow> None | Some byte \<Rightarrow>
      if byte = 0 then Some (c, v, b)
      else case bin_val byte of None \<Rightarrow> Some (c, v, b)
        | Some d \<Rightarrow> (case readbyte b of None \<Rightarrow> None | Some (_, b') \<Rightarrow> from_bin_loop (c + 1) (push_bit 1 v + of_nat d) b'))" for c v b
    by (subst from_bin_loop.simps) (auto simp add: bin_val_def split: option.split)
  show "bin_val (of_nat d + 0x30) = Some d" if "d < 2 ^ 1" for d
    using oct_chars(2) that by (simp add: list_all_iff del: upt_Suc)
qed (simp_all add: bin_val_def)

section \<open>Decimal: the text\<close>

abbreviation dchr :: "nat \<Rightarrow> byte" where
  "dchr d \<equiv> of_nat d + 0x30"

text \<open>The text of a number, least significant character first, without and with commas.\<close>

function grouped :: "nat \<Rightarrow> byte list" where
  "grouped n = (if n < 1000 then map dchr (digits 10 n)
     else dchr (n mod 10) # dchr (n div 10 mod 10) # dchr (n div 100 mod 10) # 0x2C # grouped (n div 1000))"
  by pat_completeness auto
termination by (relation "measure id") auto

declare grouped.simps [simp del]

lemma grouped_nonempty [simp]: "grouped n \<noteq> []"
  by (subst grouped.simps) simp

definition dec_text :: "bool \<Rightarrow> nat \<Rightarrow> byte list" where
  "dec_text grp n = (if grp then grouped n else map dchr (digits 10 n))"

lemma ucast_mod_10: "ucast (x mod 10 :: u64) = (of_nat (unat x mod 10) :: byte)"
proof -
  have "unat (x mod 10) = unat x mod 10" by (simp add: unat_mod)
  then show ?thesis by (metis of_nat_unat)
qed

lemma to_dec_plain:
  "length temp + length (digits 10 (unat x)) \<le> 32 \<Longrightarrow> to_dec_loop False temp sep x = Some (temp @ map dchr (digits 10 (unat x)))"
proof (induction "10 :: nat" "unat x" arbitrary: temp sep x rule: digits.induct)
  case 1
  have d: "unat (x div 10) = unat x div 10" by (simp add: unat_div)
  show ?case
  proof (cases "unat x < 10")
    case True
    then have "x div 10 = 0" using d by (metis div_less unat_eq_zero)
    then show ?thesis
      using 1(2) True by (subst to_dec_loop.simps) (simp add: digits_small ucast_mod_10)
  next
    case False
    then have nz: "x div 10 \<noteq> 0" using d by (metis div_eq_0_iff numeral_neq_zero unat_0)
    have len: "length (temp @ [dchr (unat x mod 10)]) + length (digits 10 (unat (x div 10))) \<le> 32"
      using 1(2) False d by (simp add: digits_step)
    have rec: "to_dec_loop False temp sep x = to_dec_loop False (temp @ [dchr (unat x mod 10)]) (if sep = 3 then 1 else sep + 1) (x div 10)"
      using len nz by (subst to_dec_loop.simps) (simp add: ucast_mod_10)
    show ?thesis unfolding rec using 1(1) [OF _ d [symmetric] len] False d by (simp add: digits_step)
  qed
qed

lemma to_dec_step:
  assumes "length temp < 32" "sep < 3"
  shows "to_dec_loop True temp sep x = (if unat x < 10 then Some (temp @ [dchr (unat x)])
    else to_dec_loop True (temp @ [dchr (unat x mod 10)]) (sep + 1) (x div 10))"
proof -
  have "unat (x div 10) = unat x div 10" by (simp add: unat_div)
  then have "x div 10 = 0 \<longleftrightarrow> unat x < 10" by (metis div_eq_0_iff numeral_neq_zero unat_0 unat_eq_zero)
  then show ?thesis using assms by (subst to_dec_loop.simps) (auto simp: ucast_mod_10)
qed

lemma to_dec_comma: "length temp + 1 < 32 \<Longrightarrow> to_dec_loop True temp 3 x = to_dec_loop True (temp @ [0x2C]) 0 x"
  by (subst to_dec_loop.simps, subst (2) to_dec_loop.simps) simp

lemma unat_div_10: "unat (x div 10 :: u64) = unat x div 10"
  by (simp add: unat_div)

lemma to_dec_grouped:
  "length temp + length (grouped (unat x)) \<le> 32 \<Longrightarrow> to_dec_loop True temp 0 x = Some (temp @ grouped (unat x))"
proof (induction "unat x" arbitrary: temp x rule: less_induct)
  case less
  consider "unat x < 10" | "10 \<le> unat x" "unat x < 100" | "100 \<le> unat x" "unat x < 1000" | "1000 \<le> unat x" by linarith
  then show ?case
  proof cases
    case 1
    then show ?thesis using less.prems by (simp add: to_dec_step grouped.simps [of "unat x"] digits_small)
  next
    case 2
    then have "unat x div 10 < 10" by linarith
    then show ?thesis using 2 less.prems
      by (simp add: to_dec_step unat_div_10 grouped.simps [of "unat x"] digits_small digits_step)
  next
    case 3
    then have "10 \<le> unat x div 10" "unat x div 10 div 10 < 10" by linarith+
    then show ?thesis using 3 less.prems
      by (simp add: to_dec_step unat_div_10 grouped.simps [of "unat x"] digits_small digits_step)
  next
    case 4
    let ?y = "x div 10 div 10 div 10"
    let ?t = "temp @ [dchr (unat x mod 10), dchr (unat x div 10 mod 10), dchr (unat x div 100 mod 10)]"
    have y: "unat ?y = unat x div 1000" by (simp add: unat_div_10 div_mult2_eq [symmetric])
    have big: "10 \<le> unat x" "10 \<le> unat x div 10" "10 \<le> unat x div 10 div 10" using 4 by linarith+
    have g: "grouped (unat x) = drop (length temp) ?t @ 0x2C # grouped (unat ?y)"
      unfolding y using 4 by (subst grouped.simps) simp
    have len: "length (?t @ [0x2C]) + length (grouped (unat ?y)) \<le> 32" using less.prems unfolding g by simp
    have "to_dec_loop True temp 0 x = to_dec_loop True ?t 3 ?y"
      using big len by (simp add: to_dec_step unat_div_10 div_mult2_eq [symmetric] numeral_3_eq_3)
    also have "\<dots> = to_dec_loop True (?t @ [0x2C]) 0 ?y"
      using len by (intro to_dec_comma) (cases "grouped (unat ?y)"; simp)
    also have "\<dots> = Some ((?t @ [0x2C]) @ grouped (unat ?y))"
      using less.hyps [OF _ len] 4 y by simp
    finally show ?thesis unfolding g by simp
  qed
qed

lemma length_grouped: "0 < m \<Longrightarrow> n < 1000 ^ m \<Longrightarrow> length (grouped n) \<le> 4 * m"
proof (induction n arbitrary: m rule: grouped.induct)
  case (1 n)
  show ?case
  proof (cases "n < 1000")
    case True
    then have "length (digits 10 n) \<le> 3" by (subst length_digits) simp_all
    then show ?thesis using True 1(2) by (subst grouped.simps) simp
  next
    case False
    obtain k where k: "m = Suc k" using 1(2) by (cases m) auto
    have pos: "0 < k" using k 1(3) False by (cases k) auto
    then have "length (grouped (n div 1000)) \<le> 4 * k"
      using 1(1) [OF False pos] 1(3) k by (simp add: div_less_iff_less_mult mult.commute)
    then show ?thesis using False k by (subst grouped.simps) simp
  qed
qed

lemma to_dec_text: "to_dec_loop grp [] 0 x = Some (dec_text grp (unat x))"
proof -
  have n: "unat x < 2 ^ 64" using unsigned_less [of x, where ?'a = nat] by simp
  have "length (digits 10 (unat x)) \<le> 20" using n by (subst length_digits) simp_all
  moreover have "length (grouped (unat x)) \<le> 4 * 7" using n by (intro length_grouped) simp_all
  ultimately show ?thesis using to_dec_plain [of "[]" x 0] to_dec_grouped [of "[]" x] by (cases grp) (simp_all add: dec_text_def)
qed

section \<open>Decimal: the parser\<close>

lemma dchr_digit: "d < 10 \<Longrightarrow> IS_DIGIT (dchr d)" "d < 10 \<Longrightarrow> dchr d \<noteq> 0" "d < 10 \<Longrightarrow> dchr d - 0x30 = of_nat d"
proof -
  have "list_all (\<lambda>d. IS_DIGIT (dchr d) \<and> dchr d \<noteq> 0) [0..<10]" by code_simp
  then show "d < 10 \<Longrightarrow> IS_DIGIT (dchr d)" "d < 10 \<Longrightarrow> dchr d \<noteq> 0" by (simp_all add: list_all_iff del: upt_Suc)
qed simp

text \<open>The parser hands out the digits of a text one by one: \<open>scans st c b st' c' b' ds\<close> says that from
  state \<open>st\<close> it returns the digits \<open>ds\<close> and is then in state \<open>st'\<close>.\<close>

inductive scans ::
  "digit_parse_state \<Rightarrow> 32 word \<Rightarrow> buffer_t \<Rightarrow> digit_parse_state \<Rightarrow> 32 word \<Rightarrow> buffer_t \<Rightarrow> nat list \<Rightarrow> bool" where
  scans_Nil: "scans st c b st c b []"
| scans_Cons: "parse_digits st b c = Some (dchr d, st1, c1, b1) \<Longrightarrow> d < 10 \<Longrightarrow> scans st1 c1 b1 st' c' b' ds \<Longrightarrow>
    scans st c b st' c' b' (d # ds)"

lemma scans_trans: "scans st c b st1 c1 b1 ds \<Longrightarrow> scans st1 c1 b1 st2 c2 b2 es \<Longrightarrow> scans st c b st2 c2 b2 (ds @ es)"
  by (induction rule: scans.induct) (auto intro: scans.intros)

lemma from_dec_scans:
  "scans st c b st' c' b' ds \<Longrightarrow> from_dec_loop st (of_nat v) c b
     = from_dec_loop st' (of_nat (foldl (\<lambda>v d. v * 10 + d) v ds)) c' b'"
proof (induction arbitrary: v rule: scans.induct)
  case (scans_Cons st b c d st1 c1 b1 st' c' b' ds)
  have "ucast (dchr d - 0x30) = (of_nat d :: u64)"
    using scans_Cons.hyps(2) by (simp add: unsigned_of_nat take_bit_nat_eq_self)
  then have "from_dec_loop st (of_nat v) c b = from_dec_loop st1 (of_nat (v * 10 + d)) c1 b1"
    using scans_Cons.hyps(1,2) dchr_digit(2) by (subst from_dec_loop.simps) simp
  then show ?case using scans_Cons.IH [of "v * 10 + d"] by simp
qed simp

lemma scan_digit:
  assumes "buf_inv b" "rest b = dchr d # xs" "d < 10" "\<not> (dp_grouping st \<and> dp_period st = 3)"
  shows "\<exists>b'. parse_digits st b c = Some (dchr d, st\<lparr>dp_period := dp_period st + 1\<rparr>, c + 1, b') \<and> buf_inv b' \<and> rest b' = xs"
proof -
  obtain b' where "readbyte b = Some (dchr d, b')" "buf_inv b'" "rest b' = xs" using readbyte_Cons [OF assms(1,2)] by blast
  then show ?thesis
    using assms dchr_digit [OF assms(3)] by (subst parse_digits.simps) (simp add: peekbyte_rest)
qed

text \<open>Digits alone: the number of digits in the group grows; with grouping at most three.\<close>

lemma scan_digits:
  assumes "buf_inv b" "rest b = map dchr ds @ xs" "\<forall>d \<in> set ds. d < 10" "dp_grouping st \<longrightarrow> unat (dp_period st) + length ds \<le> 3"
  shows "\<exists>b'. scans st c b (st\<lparr>dp_period := dp_period st + of_nat (length ds)\<rparr>) (c + of_nat (length ds)) b' ds \<and> buf_inv b' \<and> rest b' = xs"
  using assms
proof (induction ds arbitrary: st c b)
  case Nil
  then show ?case using scans_Nil [of st c b] by auto
next
  case (Cons d ds)
  have p: "\<not> (dp_grouping st \<and> dp_period st = 3)" using Cons.prems(4) by auto
  obtain b1 where 1: "parse_digits st b c = Some (dchr d, st\<lparr>dp_period := dp_period st + 1\<rparr>, c + 1, b1)" "buf_inv b1"
      "rest b1 = map dchr ds @ xs"
    using scan_digit [OF Cons.prems(1) _ _ p, of d "map dchr ds @ xs" c] Cons.prems(2,3) by auto
  have "dp_grouping st \<longrightarrow> unat (dp_period st + 1) + length ds \<le> 3"
    using Cons.prems(4) by (auto simp: unat_word_ariths)
  then obtain b' where "scans (st\<lparr>dp_period := dp_period st + 1\<rparr>) (c + 1) b1
      (st\<lparr>dp_period := dp_period st + 1 + of_nat (length ds)\<rparr>) (c + 1 + of_nat (length ds)) b' ds" "buf_inv b'" "rest b' = xs"
    using Cons.IH [OF 1(2,3), of "st\<lparr>dp_period := dp_period st + 1\<rparr>" "c + 1"] Cons.prems(3) by auto
  then show ?case using scans_Cons [OF 1(1)] Cons.prems(3) by (intro exI [of _ b']) (simp add: add.assoc)
qed

inductive_cases scans_ConsE: "scans st c b st' c' b' (d # ds)"

lemma scan_comma:
  assumes "buf_inv b" "rest b = 0x2C # map dchr [d1, d2, d3] @ xs" "d1 < 10" "d2 < 10" "d3 < 10"
    and st: "groups_digits st" "\<not> dp_fraction st" "if dp_grouping st then dp_period st = 3 else dp_period st \<le> 3"
  shows "\<exists>b'. scans st c b (st\<lparr>dp_grouping := True, dp_period := 3\<rparr>) (c + 4) b' [d1, d2, d3] \<and> buf_inv b' \<and> rest b' = xs"
proof -
  let ?st = "st\<lparr>dp_grouping := True, dp_period := 0\<rparr>"
  obtain b1 where b1: "readbyte b = Some (0x2C, b1)" "buf_inv b1" "rest b1 = map dchr [d1, d2, d3] @ xs"
    using readbyte_Cons [OF assms(1)] assms(2) by auto
  have peek: "peekbyte b 0 = Some 0x2C" "peekbyte b 1 = Some (dchr d1)" "peekbyte b 2 = Some (dchr d2)" "peekbyte b 3 = Some (dchr d3)"
    using assms(2) by (simp_all add: peekbyte_rest [OF assms(1)])
  have comma: "\<not> IS_DIGIT 0x2C" by (simp add: IS_DIGIT_def)
  have go: "parse_digits st b c = parse_digits ?st b1 (c + 1)"
    using peek b1(1) st dchr_digit [OF assms(3)] dchr_digit(1) [OF assms(4)] dchr_digit(1) [OF assms(5)]
      comma by (subst parse_digits.simps) (auto simp: not_less)
  obtain b' where b': "scans ?st (c + 1) b1 (?st\<lparr>dp_period := dp_period ?st + of_nat (length [d1, d2, d3])\<rparr>)
      (c + 1 + of_nat (length [d1, d2, d3])) b' [d1, d2, d3]" "buf_inv b'" "rest b' = xs"
    using scan_digits [OF b1(2,3), of ?st "c + 1"] assms(3-5) by auto
  have "scans st c b (?st\<lparr>dp_period := dp_period ?st + of_nat (length [d1, d2, d3])\<rparr>)
      (c + 1 + of_nat (length [d1, d2, d3])) b' [d1, d2, d3]"
    using b'(1) by (rule scans_ConsE) (simp add: scans_Cons go [symmetric])
  then show ?thesis using b'(2,3) by (intro exI [of _ b']) (simp add: add.commute)
qed

lemma three_digits: "((n div 1000 * 10 + n div 100 mod 10) * 10 + n div 10 mod 10) * 10 + n mod 10 = (n :: nat)"
proof -
  have "n div 1000 * 10 + n div 100 mod 10 = n div 100" using div_mult_mod_eq [of "n div 100" 10] by (simp add: div_mult2_eq [symmetric])
  moreover have "n div 100 * 10 + n div 10 mod 10 = n div 10" using div_mult_mod_eq [of "n div 10" 10] by (simp add: div_mult2_eq [symmetric])
  ultimately show ?thesis by simp
qed

lemma scan_grouped:
  assumes "buf_inv b" "rest b = rev (grouped n) @ xs" "groups_digits st" "\<not> dp_fraction st" "\<not> dp_grouping st" "dp_period st = 0"
  shows "\<exists>b' st' ds. scans st c b st' (c + of_nat (length (grouped n))) b' ds \<and> buf_inv b' \<and> rest b' = xs
    \<and> foldl (\<lambda>v d. v * 10 + d) 0 ds = n \<and> dp_flags st' = dp_flags st \<and> dp_fraction st' = dp_fraction st
    \<and> (if dp_grouping st' then dp_period st' = 3 else dp_period st' \<le> 3)"
  using assms
proof (induction n arbitrary: xs rule: grouped.induct)
  case (1 n)
  show ?case
  proof (cases "n < 1000")
    case True
    let ?ds = "rev (digits 10 n)"
    have g: "rev (grouped n) = map dchr ?ds" using True by (subst grouped.simps) (simp add: rev_map)
    have len: "length ?ds \<le> 3" using True length_digits [of 10 3 n] by simp
    obtain b' where "scans st c b (st\<lparr>dp_period := dp_period st + of_nat (length ?ds)\<rparr>) (c + of_nat (length ?ds)) b' ?ds"
        "buf_inv b'" "rest b' = xs"
      using scan_digits [OF 1(2), of ?ds xs st c] 1(3,6) g digits_less [of 10] by auto
    moreover have "(of_nat (length ?ds) :: 8 word) \<le> 3" using len by (simp add: word_le_nat_alt unsigned_of_nat take_bit_nat_eq_self)
    moreover have "length (grouped n) = length ?ds" using g by (metis length_map length_rev)
    ultimately show ?thesis using 1(6,7) digits_value [of 10 n]
      by (intro exI [of _ b'] exI [of _ "st\<lparr>dp_period := dp_period st + of_nat (length ?ds)\<rparr>"] exI [of _ ?ds]) simp
  next
    case False
    let ?ds = "[n div 100 mod 10, n div 10 mod 10, n mod 10]"
    have g: "rev (grouped n) = rev (grouped (n div 1000)) @ 0x2C # map dchr ?ds" using False by (subst grouped.simps) simp
    obtain b1 st1 ds1 where 1: "scans st c b st1 (c + of_nat (length (grouped (n div 1000)))) b1 ds1" "buf_inv b1"
        "rest b1 = 0x2C # map dchr ?ds @ xs" "foldl (\<lambda>v d. v * 10 + d) 0 ds1 = n div 1000" "dp_flags st1 = dp_flags st"
        "dp_fraction st1 = dp_fraction st" "if dp_grouping st1 then dp_period st1 = 3 else dp_period st1 \<le> 3"
      using 1(1) [OF False 1(2) _ 1(4-7), of "0x2C # map dchr ?ds @ xs"] 1(3) g by auto
    obtain b' where 2: "scans st1 (c + of_nat (length (grouped (n div 1000)))) b1 (st1\<lparr>dp_grouping := True, dp_period := 3\<rparr>)
        (c + of_nat (length (grouped (n div 1000))) + 4) b' ?ds" "buf_inv b'" "rest b' = xs"
      using scan_comma [OF 1(2,3) _ _ _ _ _ 1(7), of "c + of_nat (length (grouped (n div 1000)))"] 1(5,6) assms(3,4)
      by (auto simp: groups_digits_def)
    have len: "length (grouped n) = length (grouped (n div 1000)) + 4" using arg_cong [OF g, of length] by simp
    have val: "foldl (\<lambda>v d. v * 10 + d) 0 (ds1 @ ?ds) = n" using 1(4) three_digits [of n] by simp
    have "scans st c b (st1\<lparr>dp_grouping := True, dp_period := 3\<rparr>) (c + of_nat (length (grouped n))) b' (ds1 @ ?ds)"
      using scans_trans [OF 1(1) 2(1)] len by (simp add: add.assoc)
    then show ?thesis using 2(2,3) val 1(5,6)
      by (intro exI [of _ b'] exI [of _ "st1\<lparr>dp_grouping := True, dp_period := 3\<rparr>"] exI [of _ "ds1 @ ?ds"] conjI) simp_all
  qed
qed

lemma scan_text:
  assumes "buf_inv b" "rest b = rev (dec_text grp n) @ xs" "groups_digits st = grp" "\<not> dp_fraction st" "\<not> dp_grouping st" "dp_period st = 0"
  shows "\<exists>b' st' ds. scans st c b st' (c + of_nat (length (dec_text grp n))) b' ds \<and> buf_inv b' \<and> rest b' = xs
    \<and> foldl (\<lambda>v d. v * 10 + d) 0 ds = n"
proof (cases grp)
  case True
  then show ?thesis using scan_grouped [OF assms(1) _ _ assms(4-6), of n xs c] assms(2,3) by (auto simp: dec_text_def)
next
  case False
  let ?ds = "rev (digits 10 n)"
  have "rest b = map dchr ?ds @ xs" using False assms(2) by (simp add: dec_text_def rev_map)
  then obtain b' where "scans st c b (st\<lparr>dp_period := dp_period st + of_nat (length ?ds)\<rparr>) (c + of_nat (length ?ds)) b' ?ds"
      "buf_inv b'" "rest b' = xs"
    using scan_digits [OF assms(1), of ?ds xs st c] assms(5) digits_less [of 10] by auto
  then show ?thesis using False digits_value [of 10 n]
    by (intro exI [of _ b'] exI [of _ "st\<lparr>dp_period := dp_period st + of_nat (length ?ds)\<rparr>"] exI [of _ ?ds]) (simp add: dec_text_def)
qed

text \<open>What may follow a number in the input: nothing, a terminator, or a byte that is neither a digit
  nor, when digits may be grouped, a comma.\<close>

definition stops :: "bool \<Rightarrow> byte list \<Rightarrow> bool" where
  "stops grp xs \<longleftrightarrow> xs = [] \<or> hd xs = 0 \<or> (\<not> IS_DIGIT (hd xs) \<and> (grp \<longrightarrow> hd xs \<noteq> 0x2C))"

lemma parse_stops: "buf_inv b \<Longrightarrow> stops (groups_digits st) (rest b) \<Longrightarrow> parse_digits st b c = Some (0, st, c, b)"
proof -
  assume b: "buf_inv b" and stop: "stops (groups_digits st) (rest b)"
  obtain x where x: "peekbyte b 0 = Some x" "x = 0 \<or> (\<not> IS_DIGIT x \<and> (groups_digits st \<longrightarrow> x \<noteq> 0x2C))"
    using stop peekbyte_rest [OF b, of 0] by (cases "rest b") (auto simp: stops_def)
  show ?thesis unfolding parse_digits.simps [of st b c] x(1) using x(2) by auto
qed

lemma parse_digits_flags: "parse_digits st b c = Some (x, st', c', b') \<Longrightarrow> dp_flags st' = dp_flags st"
proof (induction "left b" arbitrary: st b c rule: less_induct)
  case less
  have again: "dp_flags st' = dp_flags st" if "parse_digits st1 b1 c1 = Some (x, st', c', b')" "left b1 < left b" "dp_flags st1 = dp_flags st"
    for st1 b1 c1 using less.hyps [OF that(2,1)] that(3) by simp
  have again1: "dp_flags st' = dp_flags st" if "parse_digits st1 b1 c1 = Some (x, st', c', b')" "peekbyte b 0 = Some y" "y \<noteq> 0"
      "readbyte b = Some (z, b1)" "dp_flags st1 = dp_flags st" for st1 b1 c1 y z
    using again [OF that(1) readbyte_left [OF that(2-4)] that(5)] .
  from less.prems show ?case
    by (subst (asm) parse_digits.simps) (auto split: option.splits if_splits dest: again1)
qed

lemma scans_groups: "scans st c b st' c' b' ds \<Longrightarrow> groups_digits st' = groups_digits st"
  by (induction rule: scans.induct) (auto simp: groups_digits_def dest: parse_digits_flags)

lemma dec_text_last: "\<exists>d < 10. last (dec_text grp n) = dchr d"
proof -
  have plain: "\<exists>d < 10. last (map dchr (digits 10 n)) = dchr d" for n
    using digits_less [of 10 "last (digits 10 n)" n] by (auto simp: last_map)
  have "\<exists>d < 10. last (grouped n) = dchr d"
  proof (induction n rule: grouped.induct)
    case (1 n)
    then show ?case using plain [of n] by (cases "n < 1000") (auto simp: grouped.simps [of n])
  qed
  then show ?thesis using plain by (simp add: dec_text_def)
qed

lemma groups_initial: "groups_digits (initial_state flags) \<longleftrightarrow> flags AND CONVERT_GROUP_DIGITS \<noteq> 0"
proof -
  have "(ucast flags :: 8 word) AND 2 ^ 6 = 0 \<longleftrightarrow> flags AND 2 ^ 6 = 0"
    using and_shifted_one_eq_0 [of "ucast flags :: 8 word" 6] and_shifted_one_eq_0 [of flags 6] by (simp add: bit_ucast_iff)
  then show ?thesis by (simp add: groups_digits_def initial_state_def CONVERT_GROUP_DIGITS_def)
qed

lemma from_dec_text:
  assumes "buf_inv b" "rest b = rev (dec_text (flags AND CONVERT_GROUP_DIGITS \<noteq> 0) n) @ xs" "stops (flags AND CONVERT_GROUP_DIGITS \<noteq> 0) xs"
  shows "\<exists>b'. from_dec_loop (initial_state flags) 0 c b
      = Some (c + of_nat (length (dec_text (flags AND CONVERT_GROUP_DIGITS \<noteq> 0) n)), of_nat n, b') \<and> buf_inv b' \<and> rest b' = xs"
proof -
  let ?t = "dec_text (flags AND CONVERT_GROUP_DIGITS \<noteq> 0) n"
  obtain b' st' ds where sc: "scans (initial_state flags) c b st' (c + of_nat (length ?t)) b' ds" "buf_inv b'" "rest b' = xs"
      "foldl (\<lambda>v d. v * 10 + d) 0 ds = n"
    using scan_text [OF assms(1,2) groups_initial, of c] by (auto simp: initial_state_def)
  have "from_dec_loop (initial_state flags) 0 c b = from_dec_loop st' (of_nat n) (c + of_nat (length ?t)) b'"
    using from_dec_scans [OF sc(1), of 0] sc(4) by simp
  also have "\<dots> = Some (c + of_nat (length ?t), of_nat n, b')"
    using parse_stops [OF sc(2)] sc(3) assms(3) scans_groups [OF sc(1)] by (subst from_dec_loop.simps) (simp add: groups_initial)
  finally show ?thesis using sc(2,3) by blast
qed

lemma foldl_dec_mono: "v \<le> foldl (\<lambda>v d. v * 10 + d) v (ds :: nat list)"
proof (induction ds arbitrary: v)
  case (Cons d ds)
  then show ?case using le_trans [OF _ Cons.IH [of "v * 10 + d"], of v] by simp
qed simp

lemma int_from_dec_scans:
  "scans st c b st' c' b' ds \<Longrightarrow> foldl (\<lambda>v d. v * 10 + d) v ds \<le> (if neg then 2 ^ 63 else 2 ^ 63 - 1) \<Longrightarrow>
     int_from_dec_loop neg st (if neg then - int v else int v) c b
     = int_from_dec_loop neg st' (if neg then - int (foldl (\<lambda>v d. v * 10 + d) v ds) else int (foldl (\<lambda>v d. v * 10 + d) v ds)) c' b'"
proof (induction arbitrary: v rule: scans.induct)
  case (scans_Cons st b c d st1 c1 b1 st' c' b' ds)
  have digit: "uint (dchr d - 0x30) = int d"
    using scans_Cons.hyps(2) by (simp add: unsigned_of_nat take_bit_nat_eq_self)
  have fits: "v * 10 + d \<le> (if neg then 2 ^ 63 else 2 ^ 63 - 1)"
    using le_trans [OF foldl_dec_mono] scans_Cons.prems by simp
  have "int_from_dec_loop neg st (if neg then - int v else int v) c b
      = int_from_dec_loop neg st1 (if neg then - int (v * 10 + d) else int (v * 10 + d)) c1 b1"
    using scans_Cons.hyps(1,2) dchr_digit(2) digit fits
    by (subst int_from_dec_loop.simps) (auto simp: in_imax_def Let_def)
  then show ?case using scans_Cons.IH [of "v * 10 + d"] scans_Cons.prems by simp
qed simp

lemma int_from_dec_scanned:
  assumes "scans (initial_state flags) c b st' c' b' ds" "buf_inv b'" "stops (flags AND CONVERT_GROUP_DIGITS \<noteq> 0) (rest b')" "foldl (\<lambda>v d. v * 10 + d) 0 ds = n"
    and "n \<le> (if neg then 2 ^ 63 else 2 ^ 63 - 1)"
  shows "int_from_dec_loop neg (initial_state flags) 0 c b = Some (c', if neg then - int n else int n, b')"
proof -
  have "int_from_dec_loop neg (initial_state flags) 0 c b = int_from_dec_loop neg st' (if neg then - int n else int n) c' b'"
    using int_from_dec_scans [OF assms(1), of 0 neg] assms(4,5) by (cases neg) simp_all
  also have "\<dots> = Some (c', if neg then - int n else int n, b')"
    using parse_stops [OF assms(2)] assms(3) scans_groups [OF assms(1)] by (subst int_from_dec_loop.simps) (simp add: groups_initial)
  finally show ?thesis .
qed

lemma int_from_dec_text:
  assumes "buf_inv b" "rest b = rev (dec_text (flags AND CONVERT_GROUP_DIGITS \<noteq> 0) n) @ xs
      \<or> rest b = rev (dec_text False n) @ xs" "stops (flags AND CONVERT_GROUP_DIGITS \<noteq> 0) xs"
    and "n \<le> (if neg then 2 ^ 63 else 2 ^ 63 - 1)"
  shows "\<exists>b'. int_from_dec_loop neg (initial_state flags) 0 c b
      = Some (c + of_nat (length (rest b) - length xs), if neg then - int n else int n, b') \<and> buf_inv b' \<and> rest b' = xs"
proof -
  have "\<exists>b' st' ds. scans (initial_state flags) c b st' (c + of_nat (length (rest b) - length xs)) b' ds \<and> buf_inv b' \<and> rest b' = xs
      \<and> foldl (\<lambda>v d. v * 10 + d) 0 ds = n"
    using assms(2)
  proof
    assume r: "rest b = rev (dec_text (flags AND CONVERT_GROUP_DIGITS \<noteq> 0) n) @ xs"
    show ?thesis using scan_text [OF assms(1) r groups_initial, of c] r by (simp add: initial_state_def)
  next
    let ?ds = "rev (digits 10 n)"
    assume r: "rest b = rev (dec_text False n) @ xs"
    then have "rest b = map dchr ?ds @ xs" by (simp add: dec_text_def rev_map)
    then obtain b' st' where "scans (initial_state flags) c b st' (c + of_nat (length ?ds)) b' ?ds" "buf_inv b'" "rest b' = xs"
      using scan_digits [OF assms(1), of ?ds xs "initial_state flags" c] digits_less [of 10] by (auto simp: initial_state_def)
    then show ?thesis using r digits_value [of 10 n] by (intro exI [of _ b'] exI [of _ st'] exI [of _ ?ds]) (simp add: dec_text_def)
  qed
  then show ?thesis using int_from_dec_scanned assms(3,4) by blast
qed

lemma dec_text_first:
  assumes "buf_inv b" "rest b = rev (dec_text grp n) @ xs"
  shows "\<exists>d < 10. peekbyte b 0 = Some (dchr d)"
proof -
  obtain d where "d < 10" "last (dec_text grp n) = dchr d" using dec_text_last by blast
  moreover have "dec_text grp n \<noteq> []" by (simp add: dec_text_def)
  then have "rest b \<noteq> []" "rest b ! 0 = last (dec_text grp n)" using assms(2) by (simp_all add: nth_append rev_nth last_conv_nth)
  ultimately show ?thesis using peekbyte_rest [OF assms(1), of 0] by auto
qed

lemma dchr_sign: "d < 10 \<Longrightarrow> dchr d \<noteq> 0x2B" "d < 10 \<Longrightarrow> dchr d \<noteq> 0x2D"
proof -
  have "\<not> IS_DIGIT 0x2B" "\<not> IS_DIGIT 0x2D" by (simp_all add: IS_DIGIT_def)
  then show "d < 10 \<Longrightarrow> dchr d \<noteq> 0x2B" "d < 10 \<Longrightarrow> dchr d \<noteq> 0x2D" using dchr_digit(1) [of d] by metis+
qed

lemma uint_to_dec_text: "uint_to_dec_common x flags = Some (rev (dec_text (flags AND CONVERT_GROUP_DIGITS \<noteq> 0) (unat x)))"
  by (simp add: uint_to_dec_common_def to_dec_text)

lemma int_to_dec_shape:
  assumes "- (2 ^ 63) \<le> x" "x < 2 ^ 63"
  shows "\<exists>sign body. int_to_dec_common x flags = Some (sign @ body) \<and> sign \<in> {[], [0x2B], [0x2D]} \<and> (x < 0 \<longleftrightarrow> sign = [0x2D])
    \<and> (body = rev (dec_text (flags AND CONVERT_GROUP_DIGITS \<noteq> 0) (nat \<bar>x\<bar>)) \<or> body = rev (dec_text False (nat \<bar>x\<bar>)))"
proof (cases "x = - (2 ^ 63)")
  case True
  have "rev (dec_text False (2 ^ 63)) = [0x39, 0x32, 0x32, 0x33, 0x33, 0x37, 0x32, 0x30, 0x33, 0x36, 0x38, 0x35, 0x34, 0x37,
        0x37, 0x35, 0x38, 0x30, 0x38]"
    by (simp add: dec_text_def digits_step digits_small)
  then show ?thesis using True by (intro exI [of _ "[0x2D]"] exI [of _ "rev (dec_text False (2 ^ 63))"]) (simp add: int_to_dec_common_def)
next
  case False
  define y where "y = (if x < 0 then - x else x)"
  have y: "0 \<le> y" "y < 2 ^ 63" "nat \<bar>x\<bar> = nat y" using assms False by (auto simp: y_def)
  then have "unat (word_of_int y :: u64) = nat y" by (simp add: unsigned_of_int take_bit_int_eq_self)
  then have "uint_to_dec_common (word_of_int y) flags = Some (rev (dec_text (flags AND CONVERT_GROUP_DIGITS \<noteq> 0) (nat \<bar>x\<bar>)))"
    unfolding uint_to_dec_text y(3) by simp
  then show ?thesis using False
    by (intro exI [of _ "if x < 0 then [0x2D] else if flags AND CONVERT_FORCE_SIGN \<noteq> 0 then [0x2B] else []"]
          exI [of _ "rev (dec_text (flags AND CONVERT_GROUP_DIGITS \<noteq> 0) (nat \<bar>x\<bar>))"])
      (auto simp: int_to_dec_common_def y_def split: if_splits)
qed

lemma uint_dec_reads:
  assumes "buf_inv b" "\<forall>t. uint_to_dec_common x flags = Some t \<longrightarrow> rest b = t @ xs" "stops (flags AND CONVERT_GROUP_DIGITS \<noteq> 0) xs"
  shows "\<exists>t b'. uint_to_dec_common x flags = Some t
    \<and> uint_from_dec_common b flags = Some (of_nat (length t), x, b') \<and> buf_inv b' \<and> rest b' = xs"
proof -
  let ?t = "dec_text (flags AND CONVERT_GROUP_DIGITS \<noteq> 0) (unat x)"
  have r: "rest b = rev ?t @ xs" using assms(2) by (simp add: uint_to_dec_text)
  obtain d where d: "d < 10" "peekbyte b 0 = Some (dchr d)" using dec_text_first [OF assms(1) r] by blast
  have "uint_from_dec_common b flags = from_dec_loop (initial_state flags) 0 0 b"
    using d dchr_sign by (simp add: uint_from_dec_common_def)
  then show ?thesis using from_dec_text [OF assms(1) r assms(3), of 0] by (auto simp: uint_to_dec_text)
qed

lemma int_dec_reads:
  assumes "buf_inv b" "- (2 ^ 63) \<le> x" "x < 2 ^ 63"
    and "\<forall>t. int_to_dec_common x flags = Some t \<longrightarrow> rest b = t @ xs" "stops (flags AND CONVERT_GROUP_DIGITS \<noteq> 0) xs"
  shows "\<exists>t b'. int_to_dec_common x flags = Some t
    \<and> int_from_dec_common b flags = Some (of_nat (length t), x, b') \<and> buf_inv b' \<and> rest b' = xs"
proof -
  let ?n = "nat \<bar>x\<bar>" and ?g = "flags AND CONVERT_GROUP_DIGITS \<noteq> 0"
  obtain sign body where t: "int_to_dec_common x flags = Some (sign @ body)" "sign \<in> {[], [0x2B], [0x2D]}" "x < 0 \<longleftrightarrow> sign = [0x2D]"
      "body = rev (dec_text ?g ?n) \<or> body = rev (dec_text False ?n)"
    using int_to_dec_shape [OF assms(2,3)] by blast
  have r: "rest b = sign @ body @ xs" using assms(4) t(1) by simp
  have fits: "?n \<le> (if x < 0 then 2 ^ 63 else 2 ^ 63 - 1)" using assms(2,3) by auto
  have val: "(if x < 0 then - int ?n else int ?n) = x" by simp
  show ?thesis
  proof (cases "sign = []")
    case True
    then obtain d where d: "d < 10" "peekbyte b 0 = Some (dchr d)"
      using dec_text_first [OF assms(1), of ?g ?n xs] dec_text_first [OF assms(1), of False ?n xs] r t(4) by auto
    have "int_from_dec_common b flags = int_from_dec_loop False (initial_state flags) 0 0 b"
      using d dchr_sign by (simp add: int_from_dec_common_def)
    moreover have "\<not> x < 0" using True t(3) by simp
    ultimately show ?thesis
      using int_from_dec_text [OF assms(1) _ assms(5), of ?n False 0] r True t(1,4) fits by auto
  next
    case False
    then obtain sg where sg: "sign = [sg]" "sg = 0x2B \<or> sg = 0x2D" using t(2) by auto
    obtain b1 where b1: "readbyte b = Some (sg, b1)" "buf_inv b1" "rest b1 = body @ xs"
      using readbyte_Cons [OF assms(1), of sg "body @ xs"] r sg(1) by auto
    have "peekbyte b 0 = Some sg" using r sg(1) by (simp add: peekbyte_rest [OF assms(1)])
    then have "int_from_dec_common b flags = int_from_dec_loop (x < 0) (initial_state flags) 0 1 b1"
      using sg b1(1) t(3) by (auto simp: int_from_dec_common_def)
    moreover obtain b' where "int_from_dec_loop (x < 0) (initial_state flags) 0 1 b1
        = Some (1 + of_nat (length (rest b1) - length xs), if x < 0 then - int ?n else int ?n, b')" "buf_inv b'" "rest b' = xs"
      using int_from_dec_text [OF b1(2) _ assms(5), of ?n "x < 0" 1] b1(3) t(4) fits by blast
    ultimately show ?thesis using b1(3) sg(1) t(1) val by auto
  qed
qed

section \<open>Properties\<close>

text \<open>C24: decimal text is read back as the number it was made from, for every 64-bit value, with and
  without digit grouping, whatever follows the number as long as it is not a digit (nor a comma, with
  grouping); the conversion never leaves its local array and the parser consumes exactly the text.\<close>

theorem uint_dec_round_trip:
  assumes "buf_inv b" "\<forall>t. uint_to_dec_common x flags = Some t \<longrightarrow> rest b = t @ xs" "stops (flags AND CONVERT_GROUP_DIGITS \<noteq> 0) xs"
  shows "\<exists>t b'. uint_to_dec_common x flags = Some t
    \<and> uint_from_dec_common b flags = Some (of_nat (length t), x, b') \<and> rest b' = xs"
  using uint_dec_reads [OF assms] by blast

definition text_buffer :: "byte list \<Rightarrow> buffer_t" where
  "text_buffer xs = \<lparr>b_data = Some xs, b_pos = 0, b_size = length xs, b_write = WRITE_NULL, b_error = False\<rparr>"

lemma text_buffer [simp]: "length xs < 2 ^ 64 \<Longrightarrow> buf_inv (text_buffer xs)" "rest (text_buffer xs) = xs"
  by (simp_all add: text_buffer_def buf_inv_def rest_def)

theorem uint_dec_round_trip_witness:
  "\<exists>t b'. uint_to_dec_common 1234567 CONVERT_GROUP_DIGITS = Some t
    \<and> uint_from_dec_common (text_buffer [0x31, 0x2C, 0x32, 0x33, 0x34, 0x2C, 0x35, 0x36, 0x37, 0x20]) CONVERT_GROUP_DIGITS
      = Some (of_nat (length t), 1234567, b') \<and> rest b' = [0x20]"
proof -
  have "uint_to_dec_common 1234567 CONVERT_GROUP_DIGITS = Some [0x31, 0x2C, 0x32, 0x33, 0x34, 0x2C, 0x35, 0x36, 0x37]"
    by code_simp
  moreover have "stops grp [0x20]" for grp by (simp add: stops_def IS_DIGIT_def)
  ultimately show ?thesis
    by (intro uint_dec_round_trip) simp_all
qed

text \<open>Signed decimal text is read back as the number it was made from, for every 64-bit signed value
  including the most negative one (whose text never has commas), with every combination of the
  grouping and forced-sign flags; the parser's signed arithmetic does not overflow.\<close>

theorem int_dec_round_trip:
  assumes "buf_inv b" "- (2 ^ 63) \<le> x" "x < 2 ^ 63"
    and "\<forall>t. int_to_dec_common x flags = Some t \<longrightarrow> rest b = t @ xs" "stops (flags AND CONVERT_GROUP_DIGITS \<noteq> 0) xs"
  shows "\<exists>t b'. int_to_dec_common x flags = Some t
    \<and> int_from_dec_common b flags = Some (of_nat (length t), x, b') \<and> rest b' = xs"
  using int_dec_reads [OF assms] by blast

theorem int_dec_round_trip_witness:
  "\<exists>t b'. int_to_dec_common (- 1234) 0 = Some t
    \<and> int_from_dec_common (text_buffer [0x2D, 0x31, 0x32, 0x33, 0x34]) 0 = Some (of_nat (length t), - 1234, b') \<and> rest b' = []"
proof -
  have "int_to_dec_common (- 1234) 0 = Some [0x2D, 0x31, 0x32, 0x33, 0x34]"
    by code_simp
  then show ?thesis by (intro int_dec_round_trip) (simp_all add: stops_def)
qed

text \<open>Hexadecimal and octal text, of either letter case, is read back as the number it was made
  from; the encoders stay within their array for every 64-bit value, and the decoder stops at the
  first byte that is not a digit of the base.\<close>

theorem hex_oct_round_trip:
  assumes "buf_inv b" "to = uint_to_hex_common upper \<and> from = uint_from_hex_common \<and> (xs = [] \<or> hex_to_nibble_table (hd xs) = 255)
      \<or> to = uint_to_oct_common \<and> from = uint_from_oct_common \<and> (xs = [] \<or> hd xs < 0x30 \<or> 0x37 < hd xs)"
    and "\<forall>t. to x = Some t \<longrightarrow> rest b = t @ xs"
  shows "\<exists>t b'. to x = Some t \<and> from b = Some (of_nat (length t), x, b') \<and> rest b' = xs"
proof -
  have n: "unat x < 2 ^ 64" using unsigned_less [of x, where ?'a = nat] by simp
  have h: "length (digits (2 ^ 4) (unat x)) \<le> 32" "length (digits (2 ^ 3) (unat x)) \<le> 32"
    using n by (simp_all add: length_digits)
  consider (lower) "to = uint_to_hex_common False" "from = uint_from_hex_common" "xs = [] \<or> hex_to_nibble_table (hd xs) = 255"
    | (upper) "to = uint_to_hex_common True" "from = uint_from_hex_common" "xs = [] \<or> hex_to_nibble_table (hd xs) = 255"
    | (octal) "to = uint_to_oct_common" "from = uint_from_oct_common" "xs = [] \<or> hd xs < 0x30 \<or> 0x37 < hd xs"
    using assms(2) by (cases upper) auto
  then show ?thesis
  proof cases
    case lower
    obtain t where t: "to_hex_loop hex_lower_table [] x = Some t" using hexl.enc_digits [of "[]" x] h(1) by simp
    have "rest b = rev t @ xs" using assms(3) t lower(1) by (simp add: uint_to_hex_common_def)
    then show ?thesis
      using hexl.round_trip [OF t assms(1)] t lower by (auto simp: uint_to_hex_common_def uint_from_hex_common_def hex_val_def)
  next
    case upper
    obtain t where t: "to_hex_loop hex_upper_table [] x = Some t" using hexu.enc_digits [of "[]" x] h(1) by simp
    have "rest b = rev t @ xs" using assms(3) t upper(1) by (simp add: uint_to_hex_common_def)
    then show ?thesis
      using hexu.round_trip [OF t assms(1)] t upper by (auto simp: uint_to_hex_common_def uint_from_hex_common_def hex_val_def)
  next
    case octal
    obtain t where t: "to_oct_loop [] x = Some t" using oct.enc_digits [of "[]" x] h(2) by simp
    have "rest b = rev t @ xs" using assms(3) t octal(1) by (simp add: uint_to_oct_common_def)
    moreover have "xs = [] \<or> oct_val (hd xs) = None" using octal(3) by (auto simp: oct_val_def)
    ultimately show ?thesis
      using oct.round_trip [OF t assms(1)] t octal by (auto simp: uint_to_oct_common_def uint_from_oct_common_def)
  qed
qed

theorem hex_oct_round_trip_witness:
  "\<exists>t b'. uint_to_hex_common True 0xBEEF = Some t
    \<and> uint_from_hex_common (text_buffer [0x42, 0x45, 0x45, 0x46, 0x67]) = Some (of_nat (length t), 0xBEEF, b') \<and> rest b' = [0x67]"
proof -
  have "uint_to_hex_common True 0xBEEF = Some [0x42, 0x45, 0x45, 0x46]" by code_simp
  then show ?thesis
    by (intro hex_oct_round_trip [where upper = True]) (simp_all add: hex_to_nibble_table_def)
qed

text \<open>Binary text of a value below \<open>2 ^ 32\<close> is read back as that value; for every larger value the
  encoder stores past the end of its 32-byte array.\<close>

theorem bin_round_trip_or_overrun:
  assumes "buf_inv b" "\<forall>t. uint_to_bin_common x = Some t \<longrightarrow> rest b = t @ xs" "xs = [] \<or> hd xs \<noteq> 0x30 \<and> hd xs \<noteq> 0x31"
  shows "if 2 ^ 32 \<le> unat x then uint_to_bin_common x = None
    else \<exists>t b'. uint_to_bin_common x = Some t \<and> uint_from_bin_common b = Some (of_nat (length t), x, b') \<and> rest b' = xs"
proof (cases "2 ^ 32 \<le> unat x")
  case True
  then show ?thesis using bin.enc_digits [of "[]" x] by (simp add: uint_to_bin_common_def length_digits)
next
  case False
  then obtain t where t: "to_bin_loop [] x = Some t" using bin.enc_digits [of "[]" x] by (simp add: length_digits)
  have "rest b = rev t @ xs" using assms(2) t by (simp add: uint_to_bin_common_def)
  then show ?thesis
    using bin.round_trip [OF t assms(1)] t assms(3) False by (auto simp: uint_to_bin_common_def uint_from_bin_common_def bin_val_def)
qed

theorem bin_round_trip_or_overrun_witness:
  "(\<exists>t b'. uint_to_bin_common 5 = Some t \<and> uint_from_bin_common (text_buffer [0x31, 0x30, 0x31]) = Some (of_nat (length t), 5, b') \<and> rest b' = [])
    \<and> uint_to_bin_common 0x100000000 = None"
proof
  have "uint_to_bin_common 5 = Some [0x31, 0x30, 0x31]" by code_simp
  then show "\<exists>t b'. uint_to_bin_common 5 = Some t \<and> uint_from_bin_common (text_buffer [0x31, 0x30, 0x31]) = Some (of_nat (length t), 5, b') \<and> rest b' = []"
    using bin_round_trip_or_overrun [of "text_buffer [0x31, 0x30, 0x31]" 5 "[]"] by simp
  have "uint_to_bin_common 0x100000000 = None" by code_simp
  then show "uint_to_bin_common 0x100000000 = None"
    using bin_round_trip_or_overrun [of "text_buffer []" "0x100000000" "[]"] by simp
qed

lemma foldl_nibbles:
  "foldl (\<lambda>v d. v * 2 ^ 4 + d) v (concat (map (\<lambda>x. [unat x div 16, unat x mod 16]) (rev bs))) = v * 256 ^ length bs + le_val bs"
proof (induction bs arbitrary: v)
  case (Cons x bs)
  have "unat x = unat x div 16 * 16 + unat x mod 16" by simp
  then show ?case using Cons by (simp add: algebra_simps)
qed simp

lemma length_pointer_encode: "length (pointer_encode p) = 18"
  by (simp add: pointer_encode_def length_concat comp_def sum_list_triv)

lemma pointer_reads:
  assumes "buf_inv b" "rest b = pointer_encode p @ xs" "xs = [] \<or> hex_to_nibble_table (hd xs) = 255"
  shows "\<exists>b'. pointer_decode b = Some (18, p, b') \<and> buf_inv b' \<and> rest b' = xs"
proof -
  let ?ds = "concat (map (\<lambda>x. [unat x div 16, unat x mod 16]) (rev (le_bytes 8 (unat p))))"
  have enc: "pointer_encode p = [0x30, 0x78] @ map (\<lambda>d. hex_lower_table ! d) ?ds"
    by (simp add: pointer_encode_def map_concat comp_def)
  have small: "\<forall>d \<in> set ?ds. d < 2 ^ 4"
  proof -
    have "unat (x :: byte) div 16 < 2 ^ 4" for x using unsigned_less [of x, where ?'a = nat] by simp
    then show ?thesis by auto
  qed
  have len: "length ?ds = 16" by (simp add: length_concat comp_def sum_list_triv)
  have val: "foldl (\<lambda>v d. v * 2 ^ 4 + d) 0 ?ds = unat p"
    using foldl_nibbles [of 0 "le_bytes 8 (unat p)"] le_val_le_bytes [of 8 "unat p"] unsigned_less [of p, where ?'a = nat] by simp
  obtain b1 where b1: "readbyte b = Some (0x30, b1)" "buf_inv b1" "rest b1 = 0x78 # map (\<lambda>d. hex_lower_table ! d) ?ds @ xs"
    using readbyte_Cons [OF assms(1)] assms(2) enc by auto
  obtain b2 where b2: "readbyte b1 = Some (0x78, b2)" "buf_inv b2" "rest b2 = map (\<lambda>d. hex_lower_table ! d) ?ds @ xs"
    using readbyte_Cons [OF b1(2,3)] by auto
  have stop: "xs = [] \<or> hex_val (hd xs) = None" using assms(3) by (auto simp: hex_val_def)
  obtain b3 where b3: "from_hex_loop 0 0 b2 = Some (16, p, b3)" "buf_inv b3" "rest b3 = xs"
    using hexl.dec_digits [OF b2(2,3) small stop, of 0 0] len val by auto
  have "peekbyte b 0 = Some 0x30" "peekbyte b1 0 = Some 0x78" "TO_LOWER 0x78 = 0x78"
    using assms(2) b1(3) enc by (simp_all add: peekbyte_rest assms(1) b1(2) TO_LOWER_def)
  then show ?thesis using b1(1) b2(1) b3 by (simp add: pointer_decode_def uint_from_hex_common_def)
qed

text \<open>A pointer is printed as \<open>0x\<close> and sixteen hexadecimal digits and read back as itself.\<close>

theorem pointer_round_trip:
  assumes "buf_inv b" "rest b = pointer_encode p @ xs" "xs = [] \<or> hex_to_nibble_table (hd xs) = 255"
  shows "length (pointer_encode p) = 18 \<and> (\<exists>b'. pointer_decode b = Some (18, p, b') \<and> rest b' = xs)"
  using pointer_reads [OF assms] length_pointer_encode by blast

theorem pointer_round_trip_witness:
  "\<exists>b'. pointer_decode (text_buffer (pointer_encode 0x7FF612340000)) = Some (18, 0x7FF612340000, b') \<and> rest b' = []"
  using pointer_round_trip [of "text_buffer (pointer_encode 0x7FF612340000)" "0x7FF612340000" "[]"]
  by (simp add: length_pointer_encode)

end
