(* ===== verification/Unicode.thy ===== *)
theory Unicode
  imports Prelude
begin

unbundle bit_operations_syntax

text \<open>
  UTF-8 and UTF-16 (src/internal/convert.c, \<open>utf8_octets\<close> to \<open>utf16_decode\<close>). An encoder returns the
  octets it stores, the empty list for a code point it refuses. A decoder gets the block of
  \<open>size\<close> bytes it may read and returns the number of bytes consumed, 0 for an illegal sequence,
  and the value left in \<open>*codepoint\<close>.
\<close>

section \<open>UTF-8\<close>

definition utf8_octets :: "32 word \<Rightarrow> nat" where
  "utf8_octets cp =
     (if cp \<le> 0x7F then 1
      else if cp \<ge> 0x80 \<and> cp \<le> 0x07FF then 2
      else if cp \<ge> 0x800 \<and> cp \<le> 0xFFFF then 3
      else if cp \<ge> 0x10000 \<and> cp \<le> 0x10FFFF then 4
      else 0)"

definition utf8_encode :: "32 word \<Rightarrow> byte list" where
  "utf8_encode cp =
     (if cp \<le> 0x7F then [ucast (cp AND 0x7F)]
      else if cp \<ge> 0x80 \<and> cp \<le> 0x07FF then
        [ucast (0xC0 OR (drop_bit 6 cp AND 0x1F)), ucast (0x80 OR (cp AND 0x3F))]
      else if cp \<ge> 0x800 \<and> cp \<le> 0xFFFF then
        [ucast (0xE0 OR (drop_bit 12 cp AND 0x0F)), ucast (0x80 OR (drop_bit 6 cp AND 0x3F)), ucast (0x80 OR (cp AND 0x3F))]
      else if cp \<ge> 0x10000 \<and> cp \<le> 0x10FFFF then
        [ucast (0xF0 OR (drop_bit 18 cp AND 0x07)), ucast (0x80 OR (drop_bit 12 cp AND 0x3F)),
         ucast (0x80 OR (drop_bit 6 cp AND 0x3F)), ucast (0x80 OR (cp AND 0x3F))]
      else [])"

text \<open>\<open>*codepoint |= (byte & mask) << shift\<close>.\<close>

definition add_bits :: "nat \<Rightarrow> byte \<Rightarrow> byte \<Rightarrow> 32 word \<Rightarrow> 32 word" where
  "add_bits shift msk b cp = cp OR push_bit shift (ucast (b AND msk))"

definition continuation :: "byte \<Rightarrow> bool" where
  "continuation b \<longleftrightarrow> b AND 0xC0 = 0x80"

definition utf8_decode :: "byte list \<Rightarrow> nat \<times> 32 word" where
  "utf8_decode buf =
     (if length buf = 0 then (0, 0)
      else if buf ! 0 \<le> 0x7F then (1, ucast (buf ! 0))
      else if buf ! 0 AND 0xE0 = 0xC0 then
        (if length buf < 2 then (0, 0)
         else let c1 = add_bits 6 0x1F (buf ! 0) 0 in
           if \<not> continuation (buf ! 1) then (0, c1)
           else let c2 = add_bits 0 0x3F (buf ! 1) c1 in
             if c2 < 0x80 then (0, c2) else (2, c2))
      else if buf ! 0 AND 0xF0 = 0xE0 then
        (if length buf < 3 then (0, 0)
         else let c1 = add_bits 12 0x0F (buf ! 0) 0 in
           if \<not> continuation (buf ! 1) then (0, c1)
           else let c2 = add_bits 6 0x3F (buf ! 1) c1 in
             if \<not> continuation (buf ! 2) then (0, c2)
             else let c3 = add_bits 0 0x3F (buf ! 2) c2 in
               if c3 \<ge> 0xD800 \<and> c3 \<le> 0xDFFF then (0, c3)
               else if c3 < 0x800 then (0, c3) else (3, c3))
      else if buf ! 0 AND 0xF8 = 0xF0 then
        (if length buf < 4 then (0, 0)
         else let c1 = add_bits 18 0x07 (buf ! 0) 0 in
           if \<not> continuation (buf ! 1) then (0, c1)
           else let c2 = add_bits 12 0x3F (buf ! 1) c1 in
             if \<not> continuation (buf ! 2) then (0, c2)
             else let c3 = add_bits 6 0x3F (buf ! 2) c2 in
               if \<not> continuation (buf ! 3) then (0, c3)
               else let c4 = add_bits 0 0x3F (buf ! 3) c3 in
                 if c4 < 0x10000 then (0, c4) else (4, c4))
      else (0, 0))"

section \<open>UTF-16\<close>

definition utf16_octets :: "32 word \<Rightarrow> nat" where
  "utf16_octets cp = (if cp \<le> 0xFFFF then 2 else if cp \<le> 0x10FFFF then 4 else 0)"

text \<open>The units are 16-bit words; the count returned is in bytes.\<close>

definition utf16_encode :: "32 word \<Rightarrow> 16 word list" where
  "utf16_encode cp =
     (if cp > 0x10FFFF then []
      else if cp \<le> 0xFFFF then [ucast cp]
      else let v = cp - 0x10000 in
        [0xD800 OR ucast (drop_bit 10 v AND 0x3FF), 0xDC00 OR ucast (v AND 0x3FF)])"

definition utf16_decode :: "16 word list \<Rightarrow> nat \<times> 32 word" where
  "utf16_decode buf =
     (if length buf < 1 then (0, 0)
      else if buf ! 0 < 0xD800 \<or> buf ! 0 > 0xDFFF then (2, ucast (buf ! 0))
      else if buf ! 0 \<ge> 0xD800 \<and> buf ! 0 \<le> 0xDBFF then
        (if length buf < 2 then (0, 0)
         else if buf ! 1 \<ge> 0xDC00 \<and> buf ! 1 \<le> 0xDFFF then
           (4, (push_bit 10 (ucast (buf ! 0 AND 0x3FF)) OR ucast (buf ! 1 AND 0x3FF)) + 0x10000)
         else (0, 0))
      else (0, 0))"

section \<open>Bits of the constants\<close>

lemma below_8: "n < 8 \<Longrightarrow> n = 0 \<or> n = 1 \<or> n = 2 \<or> n = 3 \<or> n = 4 \<or> n = 5 \<or> n = 6 \<or> n = (7 :: nat)"
  by presburger

lemma byte_const_bits:
  "n < 8 \<Longrightarrow> bit (0x80 :: int) n \<longleftrightarrow> n = 7" "n < 8 \<Longrightarrow> bit (0xC0 :: int) n \<longleftrightarrow> n = 6 \<or> n = 7"
  "n < 8 \<Longrightarrow> bit (0xE0 :: int) n \<longleftrightarrow> n = 5 \<or> n = 6 \<or> n = 7"
  "n < 8 \<Longrightarrow> bit (0xF0 :: int) n \<longleftrightarrow> n = 4 \<or> n = 5 \<or> n = 6 \<or> n = 7"
  "n < 8 \<Longrightarrow> bit (0xF8 :: int) n \<longleftrightarrow> n = 3 \<or> n = 4 \<or> n = 5 \<or> n = 6 \<or> n = 7"
  by (auto dest!: below_8)

lemma int_mask_bits: "c = mask k \<Longrightarrow> bit (c :: int) n \<longleftrightarrow> n < k"
  by (simp add: bit_mask_iff)

lemma mask_const_bits:
  "bit (0x7F :: int) n \<longleftrightarrow> n < 7" "bit (0x3F :: int) n \<longleftrightarrow> n < 6" "bit (0x1F :: int) n \<longleftrightarrow> n < 5"
  "bit (0x0F :: int) n \<longleftrightarrow> n < 4" "bit (0x07 :: int) n \<longleftrightarrow> n < 3" "bit (0x3FF :: int) n \<longleftrightarrow> n < 10"
  by (rule int_mask_bits, simp add: mask_eq_exp_minus_1)+

lemmas utf_bits = byte_const_bits mask_const_bits bit_and_iff bit_or_iff bit_ucast_iff bit_push_bit_iff bit_drop_bit_eq

text \<open>A value below a power of two has no bit beyond it.\<close>

lemma bit_bound: "unat w < 2 ^ k \<Longrightarrow> bit w n \<Longrightarrow> n < k"
proof -
  assume w: "unat w < 2 ^ k" "bit w n"
  then have "take_bit k (unat w) = unat w" by (simp add: take_bit_nat_eq_self)
  then have "bit (unat w) n \<longrightarrow> n < k" by (metis bit_take_bit_iff)
  then show "n < k" using w(2) by (simp add: bit_unsigned_iff bit_imp_le_length)
qed

section \<open>Lead and continuation bytes\<close>

lemma lead_bytes:
  "ucast (0xC0 OR (x AND 0x1F) :: 32 word) AND (0xE0 :: byte) = 0xC0" "ucast (0xE0 OR (x AND 0x0F) :: 32 word) AND (0xF0 :: byte) = 0xE0"
  "ucast (0xF0 OR (x AND 0x07) :: 32 word) AND (0xF8 :: byte) = 0xF0"
  by (rule bit_word_eqI; auto simp: utf_bits)+

lemma lead_distinct:
  "b AND (0xE0 :: byte) = 0xC0 \<Longrightarrow> \<not> b \<le> 0x7F" "b AND (0xF0 :: byte) = 0xE0 \<Longrightarrow> \<not> b \<le> 0x7F \<and> b AND 0xE0 \<noteq> 0xC0"
  "b AND (0xF8 :: byte) = 0xF0 \<Longrightarrow> \<not> b \<le> 0x7F \<and> b AND 0xE0 \<noteq> 0xC0 \<and> b AND 0xF0 \<noteq> 0xE0"
proof -
  have top: "bit b 7 \<Longrightarrow> \<not> b \<le> 0x7F"
    using bit_bound [of b 7 7] by (auto simp: word_le_nat_alt)
  have bits: "bit (b AND m) n \<longleftrightarrow> bit b n \<and> bit m n" for m n by (simp add: bit_and_iff)
  show "b AND 0xE0 = 0xC0 \<Longrightarrow> \<not> b \<le> 0x7F"
    using bits [of "0xE0" 7] top by (simp add: byte_const_bits)
  show "b AND 0xF0 = 0xE0 \<Longrightarrow> \<not> b \<le> 0x7F \<and> b AND 0xE0 \<noteq> 0xC0"
    using bits [of "0xF0" 7] bits [of "0xF0" 5] bits [of "0xE0" 5] top by (auto simp: byte_const_bits)
  show "b AND 0xF8 = 0xF0 \<Longrightarrow> \<not> b \<le> 0x7F \<and> b AND 0xE0 \<noteq> 0xC0 \<and> b AND 0xF0 \<noteq> 0xE0"
    using bits [of "0xF8" 7] bits [of "0xF8" 5] bits [of "0xF8" 4] bits [of "0xE0" 5] bits [of "0xF0" 4] top by (auto simp: byte_const_bits)
qed

lemma continuation_byte [simp]: "continuation (ucast (0x80 OR (x AND 0x3F) :: 32 word))"
  unfolding continuation_def by (rule bit_word_eqI) (auto simp: utf_bits)

text \<open>What the decoder takes out of a byte is what the encoder put into it.\<close>

lemma payload:
  "add_bits k 0x1F (ucast (0xC0 OR (x AND 0x1F) :: 32 word)) c = c OR push_bit k (x AND 0x1F)"
  "add_bits k 0x0F (ucast (0xE0 OR (x AND 0x0F) :: 32 word)) c = c OR push_bit k (x AND 0x0F)"
  "add_bits k 0x07 (ucast (0xF0 OR (x AND 0x07) :: 32 word)) c = c OR push_bit k (x AND 0x07)"
  "add_bits k 0x3F (ucast (0x80 OR (x AND 0x3F) :: 32 word)) c = c OR push_bit k (x AND 0x3F)"
proof -
  have "ucast (ucast (0xC0 OR (x AND 0x1F) :: 32 word) AND 0x1F :: byte) = x AND 0x1F"
    "ucast (ucast (0xE0 OR (x AND 0x0F) :: 32 word) AND 0x0F :: byte) = x AND 0x0F"
    "ucast (ucast (0xF0 OR (x AND 0x07) :: 32 word) AND 0x07 :: byte) = x AND 0x07"
    "ucast (ucast (0x80 OR (x AND 0x3F) :: 32 word) AND 0x3F :: byte) = x AND 0x3F"
    by (rule bit_word_eqI; auto simp: utf_bits)+
  then show "add_bits k 0x1F (ucast (0xC0 OR (x AND 0x1F) :: 32 word)) c = c OR push_bit k (x AND 0x1F)"
    "add_bits k 0x0F (ucast (0xE0 OR (x AND 0x0F) :: 32 word)) c = c OR push_bit k (x AND 0x0F)"
    "add_bits k 0x07 (ucast (0xF0 OR (x AND 0x07) :: 32 word)) c = c OR push_bit k (x AND 0x07)"
    "add_bits k 0x3F (ucast (0x80 OR (x AND 0x3F) :: 32 word)) c = c OR push_bit k (x AND 0x3F)"
    by (simp_all add: add_bits_def)
qed

lemma reassemble:
  "cp \<le> 0x7FF \<Longrightarrow> push_bit 6 (drop_bit 6 cp AND 0x1F) OR (cp AND 0x3F) = (cp :: 32 word)"
  "cp \<le> 0xFFFF \<Longrightarrow> push_bit 12 (drop_bit 12 cp AND 0x0F) OR push_bit 6 (drop_bit 6 cp AND 0x3F) OR (cp AND 0x3F) = (cp :: 32 word)"
  "cp \<le> 0x10FFFF \<Longrightarrow> push_bit 18 (drop_bit 18 cp AND 0x07) OR push_bit 12 (drop_bit 12 cp AND 0x3F) OR push_bit 6 (drop_bit 6 cp AND 0x3F)
     OR (cp AND 0x3F) = (cp :: 32 word)"
proof -
  have b: "cp \<le> 0x7FF \<Longrightarrow> bit cp n \<Longrightarrow> n < 11" "cp \<le> 0xFFFF \<Longrightarrow> bit cp n \<Longrightarrow> n < 16" "cp \<le> 0x10FFFF \<Longrightarrow> bit cp n \<Longrightarrow> n < 21" for n
    using bit_bound [of cp 11 n] bit_bound [of cp 16 n] bit_bound [of cp 21 n] by (simp_all add: word_le_nat_alt)
  show "cp \<le> 0x7FF \<Longrightarrow> push_bit 6 (drop_bit 6 cp AND 0x1F) OR (cp AND 0x3F) = cp"
    by (rule bit_word_eqI) (auto simp: utf_bits simp del: push_bit_and push_bit_numeral dest: b(1))
  show "cp \<le> 0xFFFF \<Longrightarrow> push_bit 12 (drop_bit 12 cp AND 0x0F) OR push_bit 6 (drop_bit 6 cp AND 0x3F) OR (cp AND 0x3F) = cp"
    by (rule bit_word_eqI) (auto simp: utf_bits simp del: push_bit_and push_bit_numeral dest: b(2))
  show "cp \<le> 0x10FFFF \<Longrightarrow> push_bit 18 (drop_bit 18 cp AND 0x07) OR push_bit 12 (drop_bit 12 cp AND 0x3F)
     OR push_bit 6 (drop_bit 6 cp AND 0x3F) OR (cp AND 0x3F) = cp"
    by (rule bit_word_eqI) (auto simp: utf_bits simp del: push_bit_and push_bit_numeral dest: b(3))
qed

section \<open>Properties of UTF-8\<close>

lemma single_byte: "cp \<le> 0x7F \<Longrightarrow> ucast (cp AND 0x7F :: 32 word) \<le> (0x7F :: byte) \<and> ucast (ucast (cp AND 0x7F) :: byte) = cp"
proof -
  assume cp: "cp \<le> 0x7F"
  have low: "bit cp n \<Longrightarrow> n < 7" for n using bit_bound [of cp 7 n] cp by (simp add: word_le_nat_alt)
  have same: "ucast (ucast (cp AND 0x7F) :: byte) = cp" by (rule bit_word_eqI) (auto simp: utf_bits dest: low)
  have up: "unat (ucast w :: 32 word) = unat w" for w :: byte
    using unsigned_less [of w, where ?'a = nat] by (simp add: unsigned_ucast_eq take_bit_nat_eq_self)
  have "unat (ucast (cp AND 0x7F) :: byte) = unat cp" using up [of "ucast (cp AND 0x7F)"] unfolding same by (rule sym)
  with same cp show ?thesis by (simp only: word_le_nat_alt) simp
qed

lemma assembled:
  "cp \<le> 0x7FF \<Longrightarrow> add_bits 0 0x3F (ucast (0x80 OR (cp AND 0x3F) :: 32 word)) (add_bits 6 0x1F (ucast (0xC0 OR (drop_bit 6 cp AND 0x1F))) 0) = cp"
  "cp \<le> 0xFFFF \<Longrightarrow> add_bits 0 0x3F (ucast (0x80 OR (cp AND 0x3F) :: 32 word)) (add_bits 6 0x3F (ucast (0x80 OR (drop_bit 6 cp AND 0x3F)))
     (add_bits 12 0x0F (ucast (0xE0 OR (drop_bit 12 cp AND 0x0F))) 0)) = cp"
  "cp \<le> 0x10FFFF \<Longrightarrow> add_bits 0 0x3F (ucast (0x80 OR (cp AND 0x3F) :: 32 word)) (add_bits 6 0x3F (ucast (0x80 OR (drop_bit 6 cp AND 0x3F)))
     (add_bits 12 0x3F (ucast (0x80 OR (drop_bit 12 cp AND 0x3F))) (add_bits 18 0x07 (ucast (0xF0 OR (drop_bit 18 cp AND 0x07))) 0))) = cp"
  by (simp_all only: payload or.left_neutral push_bit_0_id id_apply or.assoc reassemble)

lemma decode_bytes:
  "b0 AND 0xE0 = 0xC0 \<Longrightarrow> continuation b1 \<Longrightarrow> 0x80 \<le> add_bits 0 0x3F b1 (add_bits 6 0x1F b0 0) \<Longrightarrow>
     utf8_decode (b0 # b1 # more) = (2, add_bits 0 0x3F b1 (add_bits 6 0x1F b0 0))"
  "b0 AND 0xF0 = 0xE0 \<Longrightarrow> continuation b1 \<Longrightarrow> continuation b2 \<Longrightarrow>
     c = add_bits 0 0x3F b2 (add_bits 6 0x3F b1 (add_bits 12 0x0F b0 0)) \<Longrightarrow> 0x800 \<le> c \<Longrightarrow> \<not> (0xD800 \<le> c \<and> c \<le> 0xDFFF) \<Longrightarrow>
     utf8_decode (b0 # b1 # b2 # more) = (3, c)"
  "b0 AND 0xF8 = 0xF0 \<Longrightarrow> continuation b1 \<Longrightarrow> continuation b2 \<Longrightarrow> continuation b3 \<Longrightarrow>
     c = add_bits 0 0x3F b3 (add_bits 6 0x3F b2 (add_bits 12 0x3F b1 (add_bits 18 0x07 b0 0))) \<Longrightarrow> 0x10000 \<le> c \<Longrightarrow>
     utf8_decode (b0 # b1 # b2 # b3 # more) = (4, c)"
  using lead_distinct [of b0] by (auto simp: utf8_decode_def Let_def not_less)

text \<open>C25: UTF-8 round trip. Every code point up to 0x10FFFF that is not a surrogate is encoded in as
  many octets as \<open>utf8_octets\<close> says, and decoding them, whatever follows, gives the code point back.\<close>

theorem utf8_round_trip:
  assumes "cp \<le> 0x10FFFF" "\<not> (0xD800 \<le> cp \<and> cp \<le> 0xDFFF)"
  shows "length (utf8_encode cp) = utf8_octets cp \<and> utf8_decode (utf8_encode cp @ more) = (utf8_octets cp, cp)"
proof -
  consider "cp \<le> 0x7F" | "0x80 \<le> cp" "cp \<le> 0x7FF" | "0x800 \<le> cp" "cp \<le> 0xFFFF" | "0x10000 \<le> cp" "cp \<le> 0x10FFFF"
    using assms(1) by (auto simp: word_le_nat_alt) linarith
  then show ?thesis
  proof cases
    case 1
    then show ?thesis using single_byte [of cp] by (simp add: utf8_encode_def utf8_octets_def utf8_decode_def)
  next
    case 2
    then have n: "\<not> cp \<le> 0x7F" by (auto simp: word_le_nat_alt)
    have "utf8_encode cp = [ucast (0xC0 OR (drop_bit 6 cp AND 0x1F)), ucast (0x80 OR (cp AND 0x3F))]" "utf8_octets cp = 2"
      using 2 n by (simp_all add: utf8_encode_def utf8_octets_def)
    then show ?thesis
      using decode_bytes(1) [OF lead_bytes(1) continuation_byte, of cp "drop_bit 6 cp" more] assembled(1) [OF 2(2)] 2(1) by simp
  next
    case 3
    then have n: "\<not> cp \<le> 0x7F" "\<not> cp \<le> 0x7FF" by (auto simp: word_le_nat_alt)
    have "utf8_encode cp = [ucast (0xE0 OR (drop_bit 12 cp AND 0x0F)), ucast (0x80 OR (drop_bit 6 cp AND 0x3F)), ucast (0x80 OR (cp AND 0x3F))]"
        "utf8_octets cp = 3"
      using 3 n by (simp_all add: utf8_encode_def utf8_octets_def)
    then show ?thesis
      using decode_bytes(2) [OF lead_bytes(2) continuation_byte continuation_byte assembled(2) [OF 3(2), symmetric] 3(1) assms(2), of more]
      by simp
  next
    case 4
    then have n: "\<not> cp \<le> 0x7F" "\<not> cp \<le> 0x7FF" "\<not> cp \<le> 0xFFFF" by (auto simp: word_le_nat_alt)
    have "utf8_encode cp = [ucast (0xF0 OR (drop_bit 18 cp AND 0x07)), ucast (0x80 OR (drop_bit 12 cp AND 0x3F)),
        ucast (0x80 OR (drop_bit 6 cp AND 0x3F)), ucast (0x80 OR (cp AND 0x3F))]" "utf8_octets cp = 4"
      using 4 n by (simp_all add: utf8_encode_def utf8_octets_def)
    then show ?thesis
      using decode_bytes(3) [OF lead_bytes(3) continuation_byte continuation_byte continuation_byte assembled(3) [OF 4(2), symmetric] 4(1), of more]
      by simp
  qed
qed

theorem utf8_round_trip_witness:
  "length (utf8_encode 0x20AC) = 3 \<and> utf8_decode (utf8_encode 0x20AC @ [0x41]) = (3, 0x20AC)"
  using utf8_round_trip [of "0x20AC" "[0x41]"] by (simp add: utf8_octets_def)

text \<open>The other direction: a byte with a lead or continuation mark is determined by its payload.\<close>

lemma byte_from_payload:
  "b AND 0xE0 = 0xC0 \<Longrightarrow> b = 0xC0 OR (b AND 0x1F)" "b AND 0xF0 = 0xE0 \<Longrightarrow> b = 0xE0 OR (b AND 0x0F)"
  "b AND 0xF8 = 0xF0 \<Longrightarrow> b = 0xF0 OR (b AND 0x07)" "continuation b \<Longrightarrow> b = 0x80 OR (b AND 0x3F)" for b :: byte
proof -
  have split: "m OR m' = - 1 \<Longrightarrow> b = (b AND m) OR (b AND m')" for m m' :: byte by (simp flip: bit.conj_disj_distrib)
  have full: "0xE0 OR 0x1F = (- 1 :: byte)" "0xF0 OR 0x0F = (- 1 :: byte)" "0xF8 OR 0x07 = (- 1 :: byte)" "0xC0 OR 0x3F = (- 1 :: byte)"
    by simp_all
  show "b AND 0xE0 = 0xC0 \<Longrightarrow> b = 0xC0 OR (b AND 0x1F)" using split [OF full(1)] by simp
  show "b AND 0xF0 = 0xE0 \<Longrightarrow> b = 0xE0 OR (b AND 0x0F)" using split [OF full(2)] by simp
  show "b AND 0xF8 = 0xF0 \<Longrightarrow> b = 0xF0 OR (b AND 0x07)" using split [OF full(3)] by simp
  show "continuation b \<Longrightarrow> b = 0x80 OR (b AND 0x3F)" using split [OF full(4)] by (simp add: continuation_def)
qed

lemma bits_bound: "(\<And>n. bit w n \<Longrightarrow> n < k) \<Longrightarrow> unat w < 2 ^ k"
proof -
  assume "\<And>n. bit w n \<Longrightarrow> n < k"
  then have "take_bit k w = w" by (intro bit_word_eqI) (auto simp: bit_take_bit_iff)
  then have "unat w = take_bit k (unat w)" by (metis unsigned_take_bit_eq)
  then show ?thesis by (metis take_bit_nat_less_exp)
qed

definition joined2 :: "byte \<Rightarrow> byte \<Rightarrow> 32 word" where
  "joined2 b0 b1 = add_bits 0 0x3F b1 (add_bits 6 0x1F b0 0)"

definition joined3 :: "byte \<Rightarrow> byte \<Rightarrow> byte \<Rightarrow> 32 word" where
  "joined3 b0 b1 b2 = add_bits 0 0x3F b2 (add_bits 6 0x3F b1 (add_bits 12 0x0F b0 0))"

definition joined4 :: "byte \<Rightarrow> byte \<Rightarrow> byte \<Rightarrow> byte \<Rightarrow> 32 word" where
  "joined4 b0 b1 b2 b3 = add_bits 0 0x3F b3 (add_bits 6 0x3F b2 (add_bits 12 0x3F b1 (add_bits 18 0x07 b0 0)))"

lemmas joined_bits = joined2_def joined3_def joined4_def add_bits_def utf_bits

lemma joined2_split:
  "unat (joined2 b0 b1) < 2 ^ 11" "drop_bit 6 (joined2 b0 b1) AND 0x1F = ucast (b0 AND 0x1F)" "joined2 b0 b1 AND 0x3F = ucast (b1 AND 0x3F)"
proof -
  show "unat (joined2 b0 b1) < 2 ^ 11" by (rule bits_bound) (auto simp: joined_bits simp del: push_bit_and push_bit_numeral)
  show "drop_bit 6 (joined2 b0 b1) AND 0x1F = ucast (b0 AND 0x1F)" "joined2 b0 b1 AND 0x3F = ucast (b1 AND 0x3F)"
    by (rule bit_word_eqI; auto simp: joined_bits simp del: push_bit_and push_bit_numeral)+
qed

lemma joined3_split:
  "unat (joined3 b0 b1 b2) < 2 ^ 16" "drop_bit 12 (joined3 b0 b1 b2) AND 0x0F = ucast (b0 AND 0x0F)"
  "drop_bit 6 (joined3 b0 b1 b2) AND 0x3F = ucast (b1 AND 0x3F)" "joined3 b0 b1 b2 AND 0x3F = ucast (b2 AND 0x3F)"
proof -
  show "unat (joined3 b0 b1 b2) < 2 ^ 16" by (rule bits_bound) (auto simp: joined_bits simp del: push_bit_and push_bit_numeral)
  show "drop_bit 12 (joined3 b0 b1 b2) AND 0x0F = ucast (b0 AND 0x0F)"
    "drop_bit 6 (joined3 b0 b1 b2) AND 0x3F = ucast (b1 AND 0x3F)" "joined3 b0 b1 b2 AND 0x3F = ucast (b2 AND 0x3F)"
    by (rule bit_word_eqI; auto simp: joined_bits simp del: push_bit_and push_bit_numeral)+
qed

lemma joined4_split:
  "drop_bit 18 (joined4 b0 b1 b2 b3) AND 0x07 = ucast (b0 AND 0x07)" "drop_bit 12 (joined4 b0 b1 b2 b3) AND 0x3F = ucast (b1 AND 0x3F)"
  "drop_bit 6 (joined4 b0 b1 b2 b3) AND 0x3F = ucast (b2 AND 0x3F)" "joined4 b0 b1 b2 b3 AND 0x3F = ucast (b3 AND 0x3F)"
  by (rule bit_word_eqI; auto simp: joined_bits simp del: push_bit_and push_bit_numeral)+

lemma ucast_marked:
  "ucast (0xC0 OR ucast (b AND 0x1F) :: 32 word) = (0xC0 OR (b AND 0x1F) :: byte)" "ucast (0xE0 OR ucast (b AND 0x0F) :: 32 word) = (0xE0 OR (b AND 0x0F) :: byte)"
  "ucast (0xF0 OR ucast (b AND 0x07) :: 32 word) = (0xF0 OR (b AND 0x07) :: byte)" "ucast (0x80 OR ucast (b AND 0x3F) :: 32 word) = (0x80 OR (b AND 0x3F) :: byte)"
  by (rule bit_word_eqI; auto simp: utf_bits)+

text \<open>What the decoder accepts, branch by branch.\<close>

lemma utf8_decode_cases:
  assumes "utf8_decode buf = (n, cp)" "0 < n"
  obtains (one) b0 more where "buf = b0 # more" "n = 1" "b0 \<le> 0x7F" "cp = ucast b0"
  | (two) b0 b1 more where "buf = b0 # b1 # more" "n = 2" "b0 AND 0xE0 = 0xC0" "continuation b1" "cp = joined2 b0 b1" "0x80 \<le> cp"
  | (three) b0 b1 b2 more where "buf = b0 # b1 # b2 # more" "n = 3" "b0 AND 0xF0 = 0xE0" "continuation b1" "continuation b2"
      "cp = joined3 b0 b1 b2" "0x800 \<le> cp" "\<not> (0xD800 \<le> cp \<and> cp \<le> 0xDFFF)"
  | (four) b0 b1 b2 b3 more where "buf = b0 # b1 # b2 # b3 # more" "n = 4" "b0 AND 0xF8 = 0xF0" "continuation b1" "continuation b2"
      "continuation b3" "cp = joined4 b0 b1 b2 b3" "0x10000 \<le> cp"
proof -
  obtain b0 rest0 where b0: "buf = b0 # rest0" using assms by (cases buf) (auto simp: utf8_decode_def)
  note dec = assms[unfolded utf8_decode_def Let_def b0]
  consider "b0 \<le> 0x7F" | "\<not> b0 \<le> 0x7F" "b0 AND 0xE0 = 0xC0" | "\<not> b0 \<le> 0x7F" "b0 AND 0xE0 \<noteq> 0xC0" "b0 AND 0xF0 = 0xE0"
    | "\<not> b0 \<le> 0x7F" "b0 AND 0xE0 \<noteq> 0xC0" "b0 AND 0xF0 \<noteq> 0xE0" "b0 AND 0xF8 = 0xF0"
    using dec by (auto split: if_splits)
  then show thesis
  proof cases
    case 1
    then show thesis using dec b0 by (intro one [of b0 rest0]) auto
  next
    case 2
    then obtain b1 more where b1: "rest0 = b1 # more" using dec by (cases rest0) auto
    show thesis using 2 dec b0 b1 by (intro two [of b0 b1 more]) (auto simp: joined2_def not_less split: if_splits)
  next
    case 3
    then obtain b1 b2 more where b1: "rest0 = b1 # b2 # more" using dec by (cases rest0; cases "tl rest0") (auto split: if_splits)
    show thesis using 3 dec b0 b1
      by (intro three [of b0 b1 b2 more]) (auto simp: joined3_def not_less numeral_2_eq_2 split: if_splits)
  next
    case 4
    then obtain b1 b2 b3 more where b1: "rest0 = b1 # b2 # b3 # more"
      using dec by (cases rest0; cases "tl rest0"; cases "tl (tl rest0)") (auto split: if_splits)
    show thesis using 4 dec b0 b1
      by (intro four [of b0 b1 b2 b3 more]) (auto simp: joined4_def not_less numeral_2_eq_2 numeral_3_eq_3 split: if_splits)
  qed
qed

text \<open>C26: the decoder accepts only what the encoder produces. A sequence that is decoded to a code point
  up to 0x10FFFF is that code point's encoding, so no overlong form and no surrogate is accepted.\<close>

theorem utf8_decode_canonical:
  assumes "utf8_decode buf = (n, cp)" "0 < n" "cp \<le> 0x10FFFF"
  shows "take n buf = utf8_encode cp \<and> \<not> (0xD800 \<le> cp \<and> cp \<le> 0xDFFF)"
  using assms(1,2)
proof (cases rule: utf8_decode_cases)
  case (one b0 more)
  have "unat cp = unat b0" using one(4) unsigned_less [of b0, where ?'a = nat] by (simp add: unsigned_ucast_eq take_bit_nat_eq_self)
  then have small: "unat cp \<le> 0x7F" using one(3) by (simp add: word_le_nat_alt)
  have "bit b0 k \<Longrightarrow> k < 7" for k using bit_bound [of b0 7 k] one(3) by (simp add: word_le_nat_alt)
  then have "ucast (cp AND 0x7F) = b0" unfolding one(4) by (intro bit_word_eqI) (auto simp: utf_bits)
  then show ?thesis using one small by (simp add: utf8_encode_def word_le_nat_alt)
next
  case (two b0 b1 more)
  have r: "unat cp < 2 ^ 11" "\<not> cp \<le> 0x7F" using joined2_split(1) [of b0 b1] two(5,6) by (auto simp: word_le_nat_alt)
  have "utf8_encode cp = [ucast (0xC0 OR (drop_bit 6 cp AND 0x1F)), ucast (0x80 OR (cp AND 0x3F))]"
    using r two(6) by (simp add: utf8_encode_def word_le_nat_alt)
  also have "\<dots> = [b0, b1]"
    unfolding two(5) joined2_split ucast_marked using byte_from_payload(1) [OF two(3)] byte_from_payload(4) [OF two(4)] by simp
  finally show ?thesis using two(1,2) r by (simp add: word_le_nat_alt)
next
  case (three b0 b1 b2 more)
  have r: "unat cp < 2 ^ 16" "\<not> cp \<le> 0x7F" "\<not> cp \<le> 0x7FF" using joined3_split(1) [of b0 b1 b2] three(6,7) by (auto simp: word_le_nat_alt)
  have "utf8_encode cp = [ucast (0xE0 OR (drop_bit 12 cp AND 0x0F)), ucast (0x80 OR (drop_bit 6 cp AND 0x3F)), ucast (0x80 OR (cp AND 0x3F))]"
    using r three(7) by (simp add: utf8_encode_def word_le_nat_alt)
  also have "\<dots> = [b0, b1, b2]"
    unfolding three(6) joined3_split ucast_marked
    using byte_from_payload(2) [OF three(3)] byte_from_payload(4) [OF three(4)] byte_from_payload(4) [OF three(5)] by simp
  finally show ?thesis using three(1,2,8) by simp
next
  case (four b0 b1 b2 b3 more)
  have r: "\<not> cp \<le> 0x7F" "\<not> cp \<le> 0x7FF" "\<not> cp \<le> 0xFFFF" "\<not> cp \<le> 0xDFFF" using four(8) by (auto simp: word_le_nat_alt)
  have "utf8_encode cp = [ucast (0xF0 OR (drop_bit 18 cp AND 0x07)), ucast (0x80 OR (drop_bit 12 cp AND 0x3F)),
      ucast (0x80 OR (drop_bit 6 cp AND 0x3F)), ucast (0x80 OR (cp AND 0x3F))]"
    using r four(8) assms(3) by (simp add: utf8_encode_def)
  also have "\<dots> = [b0, b1, b2, b3]"
    unfolding four(7) joined4_split ucast_marked
    using byte_from_payload(3) [OF four(3)] byte_from_payload(4) [OF four(4)] byte_from_payload(4) [OF four(5)]
      byte_from_payload(4) [OF four(6)] by simp
  finally show ?thesis using four(1,2) r by simp
qed

theorem utf8_decode_canonical_witness:
  "take 2 [0xC3, 0xA9, 0x41] = utf8_encode 0xE9"
proof -
  have "utf8_decode [0xC3, 0xA9, 0x41] = (2, 0xE9)" by code_simp
  then show ?thesis using utf8_decode_canonical [of "[0xC3, 0xA9, 0x41]" 2 "0xE9"] by simp
qed

text \<open>The two directions disagree outside that range. The decoder accepts four-octet sequences beyond
  0x10FFFF, which the encoder refuses, and the encoder produces octets for a surrogate, which the
  decoder refuses.\<close>

theorem utf8_range_disagreement:
  "utf8_decode [0xF4, 0x90, 0x80, 0x80] = (4, 0x110000) \<and> utf8_encode 0x110000 = []
   \<and> utf8_encode 0xD800 = [0xED, 0xA0, 0x80] \<and> fst (utf8_decode [0xED, 0xA0, 0x80]) = 0"
  by code_simp

section \<open>Properties of UTF-16\<close>

lemma below_16: "n < 16 \<Longrightarrow> n < 10 \<or> n = 10 \<or> n = 11 \<or> n = 12 \<or> n = 13 \<or> n = 14 \<or> n = (15 :: nat)"
  by presburger

lemma low_ten: "unat (ucast (x AND 0x3FF :: 32 word) :: 16 word) < 2 ^ 10"
  by (rule bits_bound) (auto simp: utf_bits)

lemma unit_disjoint:
  assumes "unat (y :: 16 word) < 2 ^ 10"
  shows "unat (0xD800 OR y) = 0xD800 + unat y" "unat (0xDC00 OR y) = 0xDC00 + unat y" "(0xD800 OR y) AND 0x3FF = y" "(0xDC00 OR y) AND 0x3FF = y"
proof -
  have y: "bit y n \<Longrightarrow> n < 10" for n using bit_bound [OF assms] .
  have c: "n < 10 \<Longrightarrow> \<not> bit (0xD800 :: int) n" "n < 10 \<Longrightarrow> \<not> bit (0xDC00 :: int) n" for n :: nat
  proof -
    have *: "n < 10 \<Longrightarrow> n = 0 \<or> n = 1 \<or> n = 2 \<or> n = 3 \<or> n = 4 \<or> n = 5 \<or> n = 6 \<or> n = 7 \<or> n = 8 \<or> n = 9" by presburger
    show "n < 10 \<Longrightarrow> \<not> bit (0xD800 :: int) n" "n < 10 \<Longrightarrow> \<not> bit (0xDC00 :: int) n" by (auto dest!: *)
  qed
  have d: "0xD800 AND y = 0" "0xDC00 AND y = 0" by (rule bit_word_eqI; auto simp: bit_and_iff c dest!: y)+
  show "unat (0xD800 OR y) = 0xD800 + unat y" "unat (0xDC00 OR y) = 0xDC00 + unat y"
    using disjunctive_add_eq_or [OF d(1)] disjunctive_add_eq_or [OF d(2)] assms
      unat_plus_if' [of "0xD800" y] unat_plus_if' [of "0xDC00" y] by simp_all
  have m: "y AND 0x3FF = y" by (rule bit_word_eqI) (auto simp: bit_and_iff mask_const_bits dest: y)
  show "(0xD800 OR y) AND 0x3FF = y" "(0xDC00 OR y) AND 0x3FF = y"
    using m by (simp_all add: bit.conj_disj_distrib2)
qed

lemma twenty_bits:
  assumes "unat v < 2 ^ 20"
  shows "push_bit 10 (ucast (ucast (drop_bit 10 v AND 0x3FF) :: 16 word)) OR ucast (ucast (v AND 0x3FF) :: 16 word) = (v :: 32 word)"
proof -
  have v: "bit v n \<Longrightarrow> n < 20" for n using bit_bound [OF assms] .
  show ?thesis by (rule bit_word_eqI) (auto simp: utf_bits simp del: push_bit_and push_bit_numeral dest: v)
qed

text \<open>UTF-16 round trip. Every code point up to 0x10FFFF that is not a surrogate is encoded in
  one or two units, as many bytes as \<open>utf16_octets\<close> says, and decoded back to itself.\<close>

theorem utf16_round_trip:
  assumes "cp \<le> 0x10FFFF" "\<not> (0xD800 \<le> cp \<and> cp \<le> 0xDFFF)"
  shows "2 * length (utf16_encode cp) = utf16_octets cp \<and> utf16_decode (utf16_encode cp @ more) = (utf16_octets cp, cp)"
proof (cases "cp \<le> 0xFFFF")
  case True
  have small: "unat cp < 2 ^ 16" using True by (simp add: word_le_nat_alt)
  have u: "unat (ucast cp :: 16 word) = unat cp" using small by (simp add: unsigned_ucast_eq take_bit_nat_eq_self)
  have ident: "ucast (ucast cp :: 16 word) = cp"
  proof (rule bit_word_eqI)
    show "bit (ucast (ucast cp :: 16 word) :: 32 word) n = bit cp n" if "n < LENGTH(32)" for n
      using that bit_bound [OF small, of n] by (auto simp: bit_ucast_iff)
  qed
  have "ucast cp < (0xD800 :: 16 word) \<or> (0xDFFF :: 16 word) < ucast cp"
    using assms(2) by (auto simp: word_le_nat_alt word_less_nat_alt u)
  then show ?thesis using True ident assms(1) by (simp add: utf16_encode_def utf16_octets_def utf16_decode_def not_less)
next
  case False
  let ?v = "cp - 0x10000"
  have cp: "0x10000 \<le> unat cp" "unat cp \<le> 0x10FFFF" using False assms(1) by (auto simp: word_le_nat_alt)
  then have v: "unat ?v < 2 ^ 20" by (simp add: unat_sub word_le_nat_alt)
  let ?h = "ucast (drop_bit 10 ?v AND 0x3FF) :: 16 word" and ?l = "ucast (?v AND 0x3FF) :: 16 word"
  have enc: "utf16_encode cp = [0xD800 OR ?h, 0xDC00 OR ?l]" "utf16_octets cp = 4"
    using False assms(1) by (simp_all add: utf16_encode_def utf16_octets_def Let_def not_less)
  have h: "unat (0xD800 OR ?h) = 0xD800 + unat ?h" "(0xD800 OR ?h) AND 0x3FF = ?h" "unat ?h < 2 ^ 10"
    using unit_disjoint [OF low_ten] low_ten by blast+
  have l: "unat (0xDC00 OR ?l) = 0xDC00 + unat ?l" "(0xDC00 OR ?l) AND 0x3FF = ?l" "unat ?l < 2 ^ 10"
    using unit_disjoint [OF low_ten] low_ten by blast+
  have "utf16_decode ([0xD800 OR ?h, 0xDC00 OR ?l] @ more) = (4, (push_bit 10 (ucast ?h) OR ucast ?l) + 0x10000)"
    using h l unfolding utf16_decode_def by (simp add: word_le_nat_alt word_less_nat_alt del: unsigned_or_eq)
  also have "(push_bit 10 (ucast ?h) OR ucast ?l) + 0x10000 = cp" using twenty_bits [OF v] by simp
  finally show ?thesis using enc by simp
qed

theorem utf16_round_trip_witness:
  "utf16_decode (utf16_encode 0x1F600 @ []) = (4, 0x1F600)"
  using utf16_round_trip [of "0x1F600" "[]"] by (simp add: utf16_octets_def)

end
