(* ===== verification/TimeSpec.thy ===== *)
theory TimeSpec
  imports Prelude "HOL-Library.Signed_Division"
begin

text \<open>
  Kernel times (src/internal/convert.c). A kernel time counts intervals of 100 nanoseconds since
  1601; \<open>struct timespec\<close> counts seconds and nanoseconds since 1970. Both are signed 64-bit values,
  whose overflow is undefined, and C division truncates.
\<close>

record timespec =
  tv_sec :: int
  tv_nsec :: int

definition LARGE_INTEGER_to_timespec :: "int \<Rightarrow> timespec ub" where
  "LARGE_INTEGER_to_timespec LT = (let epoch = LT - 116444736000000000 in
     if in_imax epoch then Some \<lparr>tv_sec = epoch sdiv 10000000, tv_nsec = (epoch smod 10000000) * 100\<rparr> else None)"

definition timespec_to_LARGE_INTEGER :: "timespec \<Rightarrow> int ub" where
  "timespec_to_LARGE_INTEGER time = (let a = tv_sec time * 10000000; b = a + tv_nsec time sdiv 100 in
     if in_imax a \<and> in_imax b \<and> in_imax (b + 116444736000000000) then Some (b + 116444736000000000) else None)"

lemma sdiv_nonneg: "0 \<le> x \<Longrightarrow> 0 < k \<Longrightarrow> x sdiv k = x div (k :: int)"
  by (simp add: signed_divide_int_def sgn_if)

lemma smod_nonneg: "0 \<le> x \<Longrightarrow> 0 < k \<Longrightarrow> x smod k = x mod (k :: int)"
  by (simp add: signed_modulo_int_def sgn_if)

lemma sdiv_neg: "x < 0 \<Longrightarrow> 0 < k \<Longrightarrow> x sdiv k = - ((- x) div (k :: int))"
  by (simp add: signed_divide_int_def sgn_if)

lemma smod_neg: "x < 0 \<Longrightarrow> 0 < k \<Longrightarrow> x smod k = - ((- x) mod (k :: int))"
  by (simp add: signed_modulo_int_def sgn_if)

lemma smod_bounds:
  assumes "0 < (k :: int)"
  shows "- k < x smod k" "x smod k < k" "0 \<le> x \<Longrightarrow> 0 \<le> x smod k" "x < 0 \<Longrightarrow> x smod k \<le> 0"
proof -
  have "0 \<le> y mod k \<and> y mod k < k" for y using assms by simp
  then show "- k < x smod k" "x smod k < k" "0 \<le> x \<Longrightarrow> 0 \<le> x smod k" "x < 0 \<Longrightarrow> x smod k \<le> 0"
    using assms by (cases "0 \<le> x"; simp add: smod_nonneg smod_neg; smt (verit))+
qed

lemma sdiv_mult_smod: "(x sdiv k) * k + x smod k = (x :: int)"
  by (rule sdiv_mult_smod_eq)

lemma times_100_sdiv_100: "(x * 100) sdiv 100 = (x :: int)"
  by (cases "0 \<le> x") (simp_all add: sdiv_nonneg sdiv_neg)

text \<open>A kernel time converted to a timespec and back is the same time, before 1970 too; the
  nanoseconds of the timespec are less than a second in size, and they are not negative exactly for
  the times that do not precede 1970 by a fraction of a second.\<close>

theorem kernel_time_round_trip:
  assumes "in_imax LT" and "- (2 ^ 63) + 116444736000000000 \<le> LT"
  shows "\<exists>ts. LARGE_INTEGER_to_timespec LT = Some ts \<and> timespec_to_LARGE_INTEGER ts = Some LT
    \<and> \<bar>tv_nsec ts\<bar> < 1000000000 \<and> (116444736000000000 \<le> LT \<longrightarrow> 0 \<le> tv_sec ts \<and> 0 \<le> tv_nsec ts)
    \<and> (LT < 116444736000000000 \<longrightarrow> tv_nsec ts \<le> 0)"
proof -
  define e where "e = LT - 116444736000000000"
  define ts where "ts = \<lparr>tv_sec = e sdiv 10000000, tv_nsec = (e smod 10000000) * 100\<rparr>"
  have e: "in_imax e" "LT = e + 116444736000000000" using assms by (auto simp: e_def in_imax_def)
  have split: "(e sdiv 10000000) * 10000000 + e smod 10000000 = e" by (rule sdiv_mult_smod)
  note b = smod_bounds [of 10000000 e]
  have "in_imax ((e sdiv 10000000) * 10000000)"
    using split b e by (cases "0 \<le> e") (auto simp: in_imax_def)
  then have "timespec_to_LARGE_INTEGER ts = Some LT"
    using split e assms(1) by (simp add: timespec_to_LARGE_INTEGER_def ts_def times_100_sdiv_100)
  moreover have "LARGE_INTEGER_to_timespec LT = Some ts"
    using e by (simp add: LARGE_INTEGER_to_timespec_def ts_def)
  moreover have "0 \<le> e sdiv 10000000" if "0 \<le> e" using that by (simp add: sdiv_nonneg)
  ultimately show ?thesis using b e(2) by (auto simp: ts_def)
qed

theorem kernel_time_round_trip_witness:
  "\<exists>ts. LARGE_INTEGER_to_timespec 116444735999999999 = Some ts
    \<and> timespec_to_LARGE_INTEGER ts = Some 116444735999999999 \<and> tv_nsec ts \<le> 0"
  using kernel_time_round_trip [of 116444735999999999] by (auto simp: in_imax_def)

end
