(* ===== verification/Threads.thy ===== *)
theory Threads
  imports FdTable TimeSpec
begin

unbundle bit_operations_syntax

text \<open>
  Threads (src/thread/thread.c, src/thread/internal.c, src/thread/key.c, include/internal/thread.h).

  \<open>process\<close> holds the globals of the component: the bitmap and the destructors of the
  thread-specific keys, and an explicit heap of \<open>threadinfo\<close> structures, indexed by their address,
  together with the address that the running thread keeps in its slot \<open>_wlibc_threadinfo_index\<close>.
  A dereference of an address with no structure is undefined (\<open>None\<close>). User callbacks (cleanup
  routines, key destructors, thread routines) are a parameter \<open>call\<close>: a function of the callback's
  address and argument on the whole state, so that they may call back into the library. The state
  is an extensible record: whatever else callbacks act on is its extension. Kernel calls are the
  fields of \<open>thread_nt\<close>, functions of an abstract kernel state.
\<close>

type_synonym ptr = "64 word"

section \<open>State\<close>

record threadinfo =
  t_handle :: HANDLE
  t_id :: "32 word"
  t_sigmask :: "32 word"
  t_pending :: "32 word"
  t_cancelstate :: "32 word"
  t_canceltype :: "32 word"
  t_routine :: ptr
  t_args :: ptr
  t_result :: ptr
  t_cleanup_allocated :: nat
  t_cleanup_used :: nat
  t_cleanup_entries :: "(ptr \<times> ptr) list option"
  t_slots :: "ptr list"

record process =
  tls_bitmap :: "64 word"
  tls_destructors :: "ptr list"
  threads :: "ptr \<Rightarrow> threadinfo option"
  self :: ptr

definition zero_threadinfo :: threadinfo where
  "zero_threadinfo = \<lparr>t_handle = 0, t_id = 0, t_sigmask = 0, t_pending = 0, t_cancelstate = 0, t_canceltype = 0,
     t_routine = 0, t_args = 0, t_result = 0, t_cleanup_allocated = 0, t_cleanup_used = 0,
     t_cleanup_entries = None, t_slots = replicate 64 0\<rparr>"

definition deref :: "ptr \<Rightarrow> ('z process_scheme) \<Rightarrow> threadinfo ub" where
  "deref a s = (if a = 0 then None else threads s a)"

definition put_thread :: "ptr \<Rightarrow> threadinfo \<Rightarrow> 'z process_scheme \<Rightarrow> 'z process_scheme" where
  "put_thread a t s = s\<lparr>threads := (threads s)(a \<mapsto> t)\<rparr>"

lemma deref_put [simp]: "a \<noteq> 0 \<Longrightarrow> deref a (put_thread a t s) = Some t"
  by (simp add: deref_def put_thread_def)

lemma put_thread_sels [simp]:
  "self (put_thread a t s) = self s" "tls_bitmap (put_thread a t s) = tls_bitmap s"
  "tls_destructors (put_thread a t s) = tls_destructors s"
  "put_thread a u (put_thread a t s) = put_thread a u s"
  by (simp_all add: put_thread_def)

lemma deref_nonzero: "deref a s = Some t \<Longrightarrow> a \<noteq> 0"
  by (simp add: deref_def split: if_splits)

lemma put_thread_same: "deref a s = Some t \<Longrightarrow> put_thread a t s = s"
  by (auto simp: put_thread_def deref_def fun_upd_idem split: if_splits)

type_synonym 'z callback = "ptr \<Rightarrow> ptr \<Rightarrow> 'z process_scheme \<Rightarrow> 'z process_scheme ub"

section \<open>Thread-specific keys\<close>

definition wlibc_tss_create :: "ptr \<Rightarrow> 'z process_scheme \<Rightarrow> (nat res \<times> 'z process_scheme) ub" where
  "wlibc_tss_create destructor s = (case bit_scan_forward (NOT (tls_bitmap s)) of
       Some index \<Rightarrow> do {
         ds \<leftarrow> store index destructor (tls_destructors s);
         Some (Inr index, s\<lparr>tls_bitmap := tls_bitmap s OR push_bit index 1, tls_destructors := ds\<rparr>) }
     | None \<Rightarrow> Some (fail_silent, s))"

text \<open>\<open>VALIDATE_TLS_ENTRY\<close>: a shift by 64 or more is undefined.\<close>

definition tls_entry_valid :: "nat \<Rightarrow> 'z process_scheme \<Rightarrow> bool ub" where
  "tls_entry_valid index s = (if index < 64 then Some (tls_bitmap s AND push_bit index 1 \<noteq> 0) else None)"

definition wlibc_tss_get :: "nat \<Rightarrow> 'z process_scheme \<Rightarrow> ptr ub" where
  "wlibc_tss_get index s = do {
     ok \<leftarrow> tls_entry_valid index s;
     if \<not> ok then Some 0
     else do { t \<leftarrow> deref (self s) s; load (t_slots t) index } }"

definition wlibc_tss_set :: "nat \<Rightarrow> ptr \<Rightarrow> 'z process_scheme \<Rightarrow> (unit res \<times> 'z process_scheme) ub" where
  "wlibc_tss_set index data s = do {
     ok \<leftarrow> tls_entry_valid index s;
     if \<not> ok then Some (fail_silent, s)
     else do {
       t \<leftarrow> deref (self s) s;
       vs \<leftarrow> store index data (t_slots t);
       Some (Inr (), put_thread (self s) (t\<lparr>t_slots := vs\<rparr>) s) } }"

definition wlibc_tss_delete :: "nat \<Rightarrow> 'z process_scheme \<Rightarrow> (unit res \<times> 'z process_scheme) ub" where
  "wlibc_tss_delete index s = do {
     ok \<leftarrow> tls_entry_valid index s;
     if \<not> ok then Some (fail_silent, s)
     else do {
       ds \<leftarrow> store index 0 (tls_destructors s);
       Some (Inr (), s\<lparr>tls_bitmap := tls_bitmap s AND NOT (push_bit index 1), tls_destructors := ds\<rparr>) } }"

text \<open>The body of the loop over the 64 slots.\<close>

definition cleanup_slot :: "'z callback \<Rightarrow> ptr \<Rightarrow> nat \<Rightarrow> 'z process_scheme \<Rightarrow> 'z process_scheme ub" where
  "cleanup_slot call a i s =
     (if tls_bitmap s AND push_bit i 1 \<noteq> 0 then do {
        t \<leftarrow> deref a s;
        v \<leftarrow> load (t_slots t) i;
        if v \<noteq> 0 then do {
          d \<leftarrow> load (tls_destructors s) i;
          if d \<noteq> 0 then do {
            vs \<leftarrow> store i 0 (t_slots t);
            call d v (put_thread a (t\<lparr>t_slots := vs\<rparr>) s) }
          else Some s }
        else Some s }
      else Some s)"

definition cleanup_tls :: "'z callback \<Rightarrow> ptr \<Rightarrow> 'z process_scheme \<Rightarrow> 'z process_scheme ub" where
  "cleanup_tls call a s = (if tls_bitmap s = 0 then Some s else for_from 0 64 (cleanup_slot call a) s)"

section \<open>Cleanup routines\<close>

text \<open>\<open>heap\<close> says whether a block of that many entries is granted, \<open>junk\<close> is what a fresh block
  holds. The counters are DWORDs.\<close>

definition cleanup_room ::
  "(nat \<Rightarrow> bool) \<Rightarrow> (nat \<Rightarrow> ptr \<times> ptr) \<Rightarrow> threadinfo \<Rightarrow> (bool \<times> threadinfo) ub" where
  "cleanup_room heap junk t =
     (if t_cleanup_allocated t = 0 \<and> \<not> heap 8 then Some (False, t\<lparr>t_cleanup_entries := None\<rparr>)
      else let t1 = (if t_cleanup_allocated t = 0
                     then t\<lparr>t_cleanup_entries := Some (map junk [0..<8]), t_cleanup_allocated := 8\<rparr> else t) in
        if t_cleanup_allocated t1 = t_cleanup_used t1 then do {
          es \<leftarrow> t_cleanup_entries t1;
          let n = t_cleanup_allocated t1 * 2 in
          if heap n
          then Some (True, t1\<lparr>t_cleanup_entries := Some (es @ map junk [length es..<n]),
            t_cleanup_allocated := n mod 2 ^ 32\<rparr>)
          else Some (False, t1) }
        else Some (True, t1))"

definition wlibc_thread_cleanup_push ::
  "(nat \<Rightarrow> bool) \<Rightarrow> (nat \<Rightarrow> ptr \<times> ptr) \<Rightarrow> ptr \<Rightarrow> ptr \<Rightarrow> 'z process_scheme \<Rightarrow> (unit res \<times> 'z process_scheme) ub" where
  "wlibc_thread_cleanup_push heap junk routine arg s = do {
     t \<leftarrow> deref (self s) s;
     (ok, t1) \<leftarrow> cleanup_room heap junk t;
     if \<not> ok then Some (fail_with ENOMEM, put_thread (self s) t1 s)
     else do {
       es \<leftarrow> t_cleanup_entries t1;
       es' \<leftarrow> store (t_cleanup_used t1) (routine, arg) es;
       Some (Inr (), put_thread (self s) (t1\<lparr>t_cleanup_entries := Some es',
         t_cleanup_used := (t_cleanup_used t1 + 1) mod 2 ^ 32\<rparr>) s) } }"

text \<open>The newest routine, run unless it is NULL, then the decrement of the counter in the structure
  the routine left.\<close>

definition top_entry :: "threadinfo \<Rightarrow> (ptr \<times> ptr) ub" where
  "top_entry t = Option.bind (t_cleanup_entries t) (\<lambda>es. load es (t_cleanup_used t - 1))"

definition run_entry :: "'z callback \<Rightarrow> ptr \<times> ptr \<Rightarrow> 'z process_scheme \<Rightarrow> 'z process_scheme ub" where
  "run_entry call e s = (if fst e \<noteq> 0 then call (fst e) (snd e) s else Some s)"

definition drop_entry :: "ptr \<Rightarrow> 'z process_scheme \<Rightarrow> 'z process_scheme ub" where
  "drop_entry a s = do {
     t \<leftarrow> deref a s;
     Some (put_thread a (t\<lparr>t_cleanup_used := (t_cleanup_used t + 2 ^ 32 - 1) mod 2 ^ 32\<rparr>) s) }"

definition wlibc_thread_cleanup_pop :: "'z callback \<Rightarrow> bool \<Rightarrow> 'z process_scheme \<Rightarrow> 'z process_scheme ub" where
  "wlibc_thread_cleanup_pop call execute s = do {
     t \<leftarrow> deref (self s) s;
     if t_cleanup_used t = 0 then Some s
     else do {
       s1 \<leftarrow> (if execute then do { e \<leftarrow> top_entry t; run_entry call e s } else Some s);
       drop_entry (self s) s1 } }"

text \<open>A routine may push others, so the loop need not end.\<close>

partial_function (option) execute_cleanup_loop :: "'z callback \<Rightarrow> ptr \<Rightarrow> 'z process_scheme \<Rightarrow> 'z process_scheme ub" where
  "execute_cleanup_loop call a s = do {
     t \<leftarrow> deref a s;
     if t_cleanup_used t \<noteq> 0 then do {
       e \<leftarrow> top_entry t;
       s1 \<leftarrow> run_entry call e s;
       s2 \<leftarrow> drop_entry a s1;
       execute_cleanup_loop call a s2 }
     else Some s }"

definition execute_cleanup :: "'z callback \<Rightarrow> ptr \<Rightarrow> 'z process_scheme \<Rightarrow> 'z process_scheme ub" where
  "execute_cleanup call a s = do {
     s1 \<leftarrow> execute_cleanup_loop call a s;
     t \<leftarrow> deref a s1;
     Some (put_thread a (t\<lparr>t_cleanup_entries := None\<rparr>) s1) }"

section \<open>Exit and cancellation\<close>

definition WLIBC_THREAD_CANCEL_ENABLE :: "32 word" where "WLIBC_THREAD_CANCEL_ENABLE = 0"
definition WLIBC_THREAD_CANCEL_DISABLE :: "32 word" where "WLIBC_THREAD_CANCEL_DISABLE = 1"
definition WLIBC_THREAD_CANCEL_ASYNCHRONOUS :: "32 word" where "WLIBC_THREAD_CANCEL_ASYNCHRONOUS = 0"
definition WLIBC_THREAD_CANCEL_DEFERRED :: "32 word" where "WLIBC_THREAD_CANCEL_DEFERRED = 1"
definition WLIBC_THREAD_CANCELED :: ptr where "WLIBC_THREAD_CANCELED = - 1"

text \<open>The state in which the thread ends; the exit status is its result, truncated to 32 bits.\<close>

definition wlibc_thread_exit :: "'z callback \<Rightarrow> ptr \<Rightarrow> 'z process_scheme \<Rightarrow> (32 word \<times> 'z process_scheme) ub" where
  "wlibc_thread_exit call retval s = do {
     t \<leftarrow> deref (self s) s;
     s1 \<leftarrow> execute_cleanup call (self s) (put_thread (self s) (t\<lparr>t_result := retval\<rparr>) s);
     s2 \<leftarrow> cleanup_tls call (self s) s1;
     Some (ucast retval, s2) }"

definition wlibc_thread_entry ::
  "(ptr \<Rightarrow> ptr \<Rightarrow> 'z process_scheme \<Rightarrow> (ptr \<times> 'z process_scheme) ub) \<Rightarrow> 'z callback \<Rightarrow> ptr \<Rightarrow> 'z process_scheme
     \<Rightarrow> (32 word \<times> 'z process_scheme) ub" where
  "wlibc_thread_entry start call arg s = do {
     let s1 = s\<lparr>self := arg\<rparr>;
     t \<leftarrow> deref arg s1;
     (result, s2) \<leftarrow> start (t_routine t) (t_args t) s1;
     t2 \<leftarrow> deref arg s2;
     s3 \<leftarrow> execute_cleanup call arg (put_thread arg (t2\<lparr>t_result := result\<rparr>) s2);
     s4 \<leftarrow> cleanup_tls call arg s3;
     Some (ucast result, s4) }"

definition wlibc_thread_setcancelstate :: "32 word \<Rightarrow> 'z process_scheme \<Rightarrow> ((32 word) res \<times> 'z process_scheme) ub" where
  "wlibc_thread_setcancelstate state s =
     (if state \<noteq> WLIBC_THREAD_CANCEL_ENABLE \<and> state \<noteq> WLIBC_THREAD_CANCEL_DISABLE then Some (fail_with EINVAL, s)
      else do {
        t \<leftarrow> deref (self s) s;
        Some (Inr (t_cancelstate t), put_thread (self s) (t\<lparr>t_cancelstate := state\<rparr>) s) })"

definition wlibc_thread_setcanceltype :: "32 word \<Rightarrow> 'z process_scheme \<Rightarrow> ((32 word) res \<times> 'z process_scheme) ub" where
  "wlibc_thread_setcanceltype type s =
     (if type \<noteq> WLIBC_THREAD_CANCEL_ASYNCHRONOUS \<and> type \<noteq> WLIBC_THREAD_CANCEL_DEFERRED then Some (fail_with EINVAL, s)
      else do {
        t \<leftarrow> deref (self s) s;
        Some (Inr (t_canceltype t), put_thread (self s) (t\<lparr>t_cancelstate := type\<rparr>) s) })"

text \<open>The flag of the result: the thread ended.\<close>

definition execute_thread_cancellation :: "'z callback \<Rightarrow> ptr \<Rightarrow> 'z process_scheme \<Rightarrow> (bool \<times> 'z process_scheme) ub" where
  "execute_thread_cancellation call a s = do {
     t \<leftarrow> deref a s;
     if t_cancelstate t = WLIBC_THREAD_CANCEL_DISABLE then Some (False, s)
     else do {
       s1 \<leftarrow> execute_cleanup call a s;
       s2 \<leftarrow> cleanup_tls call a s1;
       t2 \<leftarrow> deref a s2;
       Some (True, put_thread a (t2\<lparr>t_result := WLIBC_THREAD_CANCELED\<rparr>) s2) } }"

definition wlibc_thread_testcancel :: "'z callback \<Rightarrow> 'z process_scheme \<Rightarrow> (bool \<times> 'z process_scheme) ub" where
  "wlibc_thread_testcancel call s = execute_thread_cancellation call (self s) s"

section \<open>Creation, join and detach\<close>

record 'k thread_nt =
  CreateRemoteThreadEx :: "'k \<Rightarrow> nat \<Rightarrow> ptr \<Rightarrow> (doserror + HANDLE \<times> 32 word) \<times> 'k"
    \<comment> \<open>a thread that starts suspended in \<open>wlibc_thread_entry\<close> with the given argument\<close>
  NtWait :: "'k \<Rightarrow> HANDLE \<Rightarrow> int option \<Rightarrow> ntstatus \<times> 'k"
  NtCloseThread :: "'k \<Rightarrow> HANDLE \<Rightarrow> ntstatus \<times> 'k"
  NtResumeThread :: "'k \<Rightarrow> HANDLE \<Rightarrow> ntstatus \<times> 'k"
  NtSuspendThread :: "'k \<Rightarrow> HANDLE \<Rightarrow> ntstatus \<times> 'k"
  NtQueueCancel :: "'k \<Rightarrow> HANDLE \<Rightarrow> ptr \<Rightarrow> ntstatus \<times> 'k"
  NtQueueKill :: "'k \<Rightarrow> HANDLE \<Rightarrow> int \<Rightarrow> ntstatus \<times> 'k"
  NtQueryPriority :: "'k \<Rightarrow> HANDLE \<Rightarrow> ntstatus \<times> int"
  NtSetPriority :: "'k \<Rightarrow> HANDLE \<Rightarrow> int \<Rightarrow> ntstatus \<times> 'k"
  NtChangePriority :: "'k \<Rightarrow> HANDLE \<Rightarrow> int \<Rightarrow> ntstatus \<times> 'k"
  NtQueryCpuSets :: "'k \<Rightarrow> HANDLE \<Rightarrow> ntstatus \<times> 64 word"
  NtSetCpuSets :: "'k \<Rightarrow> HANDLE \<Rightarrow> 64 word \<Rightarrow> ntstatus \<times> 'k"

text \<open>The error of a call whose status is reported through errno.\<close>

definition status_result :: "ntstatus \<Rightarrow> 'a \<Rightarrow> 'a res" where
  "status_result status v = (if status = STATUS_SUCCESS then Inr v else Inl (map_ntstatus_to_errno status))"

definition wlibc_thread_detach :: "'k thread_nt \<Rightarrow> ptr \<Rightarrow> 'z process_scheme \<Rightarrow> 'k \<Rightarrow> (unit res \<times> 'z process_scheme \<times> 'k) ub" where
  "wlibc_thread_detach nt thread s k =
     (if thread = 0 then Some (fail_with EINVAL, s, k)
      else do {
        t \<leftarrow> deref thread s;
        if t_handle t \<noteq> 0 then
          (let (status, k1) = NtCloseThread nt k (t_handle t) in
           if status \<noteq> STATUS_SUCCESS then Some (Inl (map_ntstatus_to_errno status), s, k1)
           else Some (Inr (), put_thread thread (t\<lparr>t_handle := 0\<rparr>) s, k1))
        else Some (fail_with EINVAL, s, k) })"

text \<open>The timeout of a join or a lock: an absolute time is used only when both of its fields are
  not zero, otherwise the call polls.\<close>

definition wait_timeout :: "timespec option \<Rightarrow> int ub" where
  "wait_timeout abstime = (case abstime of
       Some ts \<Rightarrow> if tv_sec ts \<noteq> 0 \<and> tv_nsec ts \<noteq> 0 then timespec_to_LARGE_INTEGER ts else Some 0
     | None \<Rightarrow> Some 0)"

text \<open>The errno of a wait that failed; \<open>e0\<close> is its value before the call, which an unknown status
  leaves.\<close>

definition wait_errno :: "errno option \<Rightarrow> int \<Rightarrow> ntstatus \<Rightarrow> errno option" where
  "wait_errno e0 timeout status = (let e = map_ntstatus_to_errno status in
     if timeout = 0 \<and> (if e = None then e0 else e) = Some ETIMEDOUT then Some EBUSY else e)"

definition wlibc_common_thread_join ::
  "'k thread_nt \<Rightarrow> errno option \<Rightarrow> ptr \<Rightarrow> timespec option \<Rightarrow> 'z process_scheme \<Rightarrow> 'k \<Rightarrow> (ptr res \<times> 'z process_scheme \<times> 'k) ub" where
  "wlibc_common_thread_join nt e0 thread abstime s k =
     (if thread = 0 then Some (fail_with EINVAL, s, k)
      else do {
        timeout \<leftarrow> wait_timeout abstime;
        t \<leftarrow> deref thread s;
        let (status, k1) = NtWait nt k (t_handle t) (if abstime = None then None else Some timeout);
        if status \<noteq> STATUS_SUCCESS then Some (Inl (wait_errno e0 timeout status), s, k1)
        else let (status, k2) = NtCloseThread nt k1 (t_handle t) in
          if status \<noteq> STATUS_SUCCESS then Some (Inl (map_ntstatus_to_errno status), s, k2)
          else Some (Inr (t_result t), s\<lparr>threads := (threads s)(thread := None)\<rparr>, k2) })"

definition wlibc_thread_join where
  "wlibc_thread_join nt e0 thread s k = wlibc_common_thread_join nt e0 thread None s k"

definition wlibc_thread_tryjoin where
  "wlibc_thread_tryjoin nt e0 thread s k =
     wlibc_common_thread_join nt e0 thread (Some \<lparr>tv_sec = 0, tv_nsec = 0\<rparr>) s k"

definition wlibc_thread_timedjoin where
  "wlibc_thread_timedjoin nt e0 thread abstime s k =
     (if abstime = None then Some (fail_with EINVAL, s, k)
      else wlibc_common_thread_join nt e0 thread abstime s k)"

definition wlibc_thread_equal :: "ptr \<Rightarrow> ptr \<Rightarrow> 'z process_scheme \<Rightarrow> bool ub" where
  "wlibc_thread_equal a b s = do { t \<leftarrow> deref a s; u \<leftarrow> deref b s; Some (t_id t = t_id u) }"

definition wlibc_thread_self :: "'z process_scheme \<Rightarrow> ptr" where
  "wlibc_thread_self s = self s"

definition wlibc_threadid :: "ptr \<Rightarrow> 'z process_scheme \<Rightarrow> (32 word) res ub" where
  "wlibc_threadid thread s =
     (if thread = 0 then Some (fail_with EINVAL) else do { t \<leftarrow> deref thread s; Some (Inr (t_id t)) })"

text \<open>\<open>cancel\<close>, \<open>kill\<close>, \<open>resume\<close> and \<open>suspend\<close> are one kernel call on the thread's handle.\<close>

definition on_thread_handle ::
  "('k \<Rightarrow> HANDLE \<Rightarrow> ntstatus \<times> 'k) \<Rightarrow> ptr \<Rightarrow> 'z process_scheme \<Rightarrow> 'k \<Rightarrow> (unit res \<times> 'k) ub" where
  "on_thread_handle f thread s k =
     (if thread = 0 then Some (fail_with EINVAL, k)
      else do {
        t \<leftarrow> deref thread s;
        let (status, k1) = f k (t_handle t);
        Some (status_result status (), k1) })"

definition wlibc_thread_cancel where
  "wlibc_thread_cancel nt thread = on_thread_handle (\<lambda>k h. NtQueueCancel nt k h thread) thread"

definition wlibc_thread_kill where
  "wlibc_thread_kill nt thread sig = on_thread_handle (\<lambda>k h. NtQueueKill nt k h sig) thread"

definition wlibc_thread_resume where
  "wlibc_thread_resume nt thread = on_thread_handle (NtResumeThread nt) thread"

definition wlibc_thread_suspend where
  "wlibc_thread_suspend nt thread = on_thread_handle (NtSuspendThread nt) thread"

end
