(* ===== verification/Sched.thy ===== *)
theory Sched
  imports Threads BitSets
begin

text \<open>
  Scheduling (src/sched/param.c, scheduler.c, affinity.c, open.c and the scheduling and attribute
  functions of src/thread/thread.c). A policy with a priority between -2 and 2 stands for an
  absolute kernel priority: the base of the policy plus the priority. The first part is about threads
  and the attributes they are created with, the second about processes, whose kernel calls are the
  fields of \<open>proc_nt\<close>.
\<close>

definition SCHED_IDLE :: int where "SCHED_IDLE = 1"
definition SCHED_RR :: int where "SCHED_RR = 2"
definition SCHED_FIFO :: int where "SCHED_FIFO = 3"
definition SCHED_BATCH :: int where "SCHED_BATCH = 5"
definition SCHED_SPORADIC :: int where "SCHED_SPORADIC = 6"
definition SCHED_MAX_PRIORITY :: int where "SCHED_MAX_PRIORITY = 2"
definition SCHED_MIN_PRIORITY :: int where "SCHED_MIN_PRIORITY = - 2"

lemmas sched_consts = SCHED_IDLE_def SCHED_RR_def SCHED_FIFO_def SCHED_BATCH_def SCHED_SPORADIC_def
  SCHED_MAX_PRIORITY_def SCHED_MIN_PRIORITY_def

definition sched_policy_valid :: "int \<Rightarrow> bool" where
  "sched_policy_valid policy \<longleftrightarrow> \<not> (policy \<noteq> SCHED_IDLE \<and> policy \<noteq> SCHED_RR \<and> policy \<noteq> SCHED_FIFO
     \<and> policy \<noteq> SCHED_BATCH \<and> policy \<noteq> SCHED_SPORADIC)"

definition sched_priority_valid :: "int \<Rightarrow> bool" where
  "sched_priority_valid p \<longleftrightarrow> \<not> (p > SCHED_MAX_PRIORITY \<or> p < SCHED_MIN_PRIORITY)"

section \<open>Priorities of threads\<close>

text \<open>The policy and priority that \<open>wlibc_thread_getschedparam\<close> reads off a kernel priority.\<close>

definition policy_of :: "int \<Rightarrow> int \<times> int" where
  "policy_of priority =
     (if priority \<le> 4 then (SCHED_IDLE, priority - 4)
      else if priority \<le> 6 then (SCHED_BATCH, priority - 6)
      else if priority \<le> 8 then (SCHED_RR, priority - 8)
      else if priority \<le> 10 then (SCHED_SPORADIC, priority - 10)
      else (SCHED_FIFO, priority - 13))"

definition bound_policy :: "int \<Rightarrow> int \<times> int \<Rightarrow> int \<times> int" where
  "bound_policy priority pp = (let (policy, p0) = pp; p = (if p0 > 2 then 2 else p0) in
     if p < - 2 then
       (if policy = SCHED_IDLE then (policy, - 2)
        else if policy = SCHED_BATCH then (SCHED_IDLE, priority - 4)
        else if policy = SCHED_RR then (SCHED_BATCH, priority - 6)
        else if policy = SCHED_SPORADIC then (SCHED_RR, priority - 8)
        else if policy = SCHED_FIFO then (SCHED_SPORADIC, priority - 10)
        else (policy, p))
     else (policy, p))"

definition wlibc_thread_getschedparam ::
  "'k thread_nt \<Rightarrow> ptr \<Rightarrow> 'z process_scheme \<Rightarrow> 'k \<Rightarrow> (int \<times> int) res ub" where
  "wlibc_thread_getschedparam nt thread s k =
     (if thread = 0 then Some (fail_with EINVAL)
      else do {
        t \<leftarrow> deref thread s;
        let (status, priority) = NtQueryPriority nt k (t_handle t);
        if status \<noteq> STATUS_SUCCESS then Some (Inl (map_ntstatus_to_errno status))
        else Some (Inr (bound_policy priority (policy_of priority))) })"

definition base_priority :: "int \<Rightarrow> int" where
  "base_priority policy =
     (if policy = SCHED_IDLE then 4 else if policy = SCHED_RR then 8 else if policy = SCHED_FIFO then 13
      else if policy = SCHED_BATCH then 6 else if policy = SCHED_SPORADIC then 10 else SCHED_RR)"

definition wlibc_thread_setschedparam ::
  "'k thread_nt \<Rightarrow> ptr \<Rightarrow> int \<Rightarrow> int option \<Rightarrow> 'z process_scheme \<Rightarrow> 'k \<Rightarrow> (unit res \<times> 'k) ub" where
  "wlibc_thread_setschedparam nt thread policy param s k =
     (case (thread = 0, param) of
       (True, _) \<Rightarrow> Some (fail_with EINVAL, k)
     | (_, None) \<Rightarrow> Some (fail_with EINVAL, k)
     | (_, Some p) \<Rightarrow>
         if \<not> sched_priority_valid p \<or> \<not> sched_policy_valid policy then Some (fail_with EINVAL, k)
         else do {
           t \<leftarrow> deref thread s;
           let (status, k1) = NtSetPriority nt k (t_handle t) (base_priority policy + p);
           Some (status_result status (), k1) })"

definition wlibc_thread_getschedpriority ::
  "'k thread_nt \<Rightarrow> ptr \<Rightarrow> 'z process_scheme \<Rightarrow> 'k \<Rightarrow> int res ub" where
  "wlibc_thread_getschedpriority nt thread s k =
     (if thread = 0 then Some (fail_with EINVAL)
      else map_option (\<lambda>r. case r of Inl e \<Rightarrow> Inl e | Inr (policy, p) \<Rightarrow> Inr p) (wlibc_thread_getschedparam nt thread s k))"

definition wlibc_thread_setschedpriority ::
  "'k thread_nt \<Rightarrow> ptr \<Rightarrow> int \<Rightarrow> 'z process_scheme \<Rightarrow> 'k \<Rightarrow> (unit res \<times> 'k) ub" where
  "wlibc_thread_setschedpriority nt thread priority s k =
     (if thread = 0 then Some (fail_with EINVAL, k)
      else if priority > SCHED_MAX_PRIORITY \<or> priority < SCHED_MIN_PRIORITY then Some (fail_with EINVAL, k)
      else on_thread_handle (\<lambda>k h. NtChangePriority nt k h priority) thread s k)"

definition wlibc_thread_getaffinity ::
  "'k thread_nt \<Rightarrow> ptr \<Rightarrow> cpu_set option \<Rightarrow> 'z process_scheme \<Rightarrow> 'k \<Rightarrow> cpu_set res ub" where
  "wlibc_thread_getaffinity nt thread cpuset s k =
     (if thread = 0 then Some (fail_with EINVAL)
      else (case cpuset of None \<Rightarrow> Some (fail_with EINVAL) | Some c \<Rightarrow>
        if num_groups c = 0 then Some (fail_with EINVAL)
        else do {
          t \<leftarrow> deref thread s;
          let (status, cpus) = NtQueryCpuSets nt k (t_handle t);
          if status \<noteq> STATUS_SUCCESS then Some (Inl (map_ntstatus_to_errno status))
          else do { m \<leftarrow> store 0 cpus (group_mask c); Some (Inr (c\<lparr>group_mask := m\<rparr>)) } }))"

definition wlibc_thread_setaffinity ::
  "'k thread_nt \<Rightarrow> ptr \<Rightarrow> cpu_set option \<Rightarrow> 'z process_scheme \<Rightarrow> 'k \<Rightarrow> (unit res \<times> 'k) ub" where
  "wlibc_thread_setaffinity nt thread cpuset s k =
     (if thread = 0 then Some (fail_with EINVAL, k)
      else (case cpuset of None \<Rightarrow> Some (fail_with EINVAL, k) | Some c \<Rightarrow>
        if num_groups c = 0 then Some (fail_with EINVAL, k)
        else do {
          cpus \<leftarrow> load (group_mask c) 0;
          t \<leftarrow> deref thread s;
          let (status, k1) = NtSetCpuSets nt k (t_handle t) cpus;
          Some (status_result status (), k1) }))"

section \<open>Thread attributes\<close>

record thread_attr_t =
  ta_detachstate :: int
  ta_suspendstate :: int
  ta_inherit :: int
  ta_policy :: int
  ta_priority :: int
  ta_stacksize :: nat
  ta_set_ptr :: "cpu_set option"

definition WLIBC_THREAD_JOINABLE :: int where "WLIBC_THREAD_JOINABLE = 0"
definition WLIBC_THREAD_DETACHED :: int where "WLIBC_THREAD_DETACHED = 1"
definition WLIBC_THREAD_RUNNING :: int where "WLIBC_THREAD_RUNNING = 0"
definition WLIBC_THREAD_SUSPENDED :: int where "WLIBC_THREAD_SUSPENDED = 1"
definition WLIBC_THREAD_INHERIT_SCHED :: int where "WLIBC_THREAD_INHERIT_SCHED = 0"
definition WLIBC_THREAD_EXPLICIT_SCHED :: int where "WLIBC_THREAD_EXPLICIT_SCHED = 1"
definition WLIBC_THREAD_SCOPE_SYSTEM :: int where "WLIBC_THREAD_SCOPE_SYSTEM = 0"
definition WLIBC_THREAD_SCOPE_PROCESS :: int where "WLIBC_THREAD_SCOPE_PROCESS = 1"

lemmas attr_consts = WLIBC_THREAD_JOINABLE_def WLIBC_THREAD_DETACHED_def WLIBC_THREAD_RUNNING_def
  WLIBC_THREAD_SUSPENDED_def WLIBC_THREAD_INHERIT_SCHED_def WLIBC_THREAD_EXPLICIT_SCHED_def
  WLIBC_THREAD_SCOPE_SYSTEM_def WLIBC_THREAD_SCOPE_PROCESS_def

definition wlibc_threadattr_init :: "thread_attr_t \<Rightarrow> thread_attr_t" where
  "wlibc_threadattr_init a = \<lparr>ta_detachstate = WLIBC_THREAD_JOINABLE, ta_suspendstate = WLIBC_THREAD_RUNNING,
     ta_inherit = WLIBC_THREAD_INHERIT_SCHED, ta_policy = SCHED_RR, ta_priority = 0, ta_stacksize = 0, ta_set_ptr = None\<rparr>"

text \<open>A getter fails for a NULL structure or a NULL result pointer (\<open>out = False\<close>).\<close>

definition attr_get :: "('a \<Rightarrow> 'b) \<Rightarrow> 'a option \<Rightarrow> bool \<Rightarrow> 'b res" where
  "attr_get f a out = (case a of None \<Rightarrow> fail_with EINVAL | Some x \<Rightarrow> if \<not> out then fail_with EINVAL else Inr (f x))"

definition wlibc_threadattr_getdetachstate where "wlibc_threadattr_getdetachstate = attr_get ta_detachstate"
definition wlibc_threadattr_getsuspendstate where "wlibc_threadattr_getsuspendstate = attr_get ta_suspendstate"
definition wlibc_threadattr_getstacksize where "wlibc_threadattr_getstacksize = attr_get ta_stacksize"
definition wlibc_threadattr_getinheritsched where "wlibc_threadattr_getinheritsched = attr_get ta_inherit"
definition wlibc_threadattr_getschedparam where "wlibc_threadattr_getschedparam = attr_get ta_priority"
definition wlibc_threadattr_getschedpolicy where "wlibc_threadattr_getschedpolicy = attr_get ta_policy"

definition wlibc_threadattr_getscope :: "thread_attr_t option \<Rightarrow> bool \<Rightarrow> int res" where
  "wlibc_threadattr_getscope = attr_get (\<lambda>_. WLIBC_THREAD_SCOPE_SYSTEM)"

definition wlibc_threadattr_setdetachstate :: "thread_attr_t option \<Rightarrow> int \<Rightarrow> thread_attr_t res" where
  "wlibc_threadattr_setdetachstate a v = (case a of None \<Rightarrow> fail_with EINVAL | Some x \<Rightarrow>
     if v \<noteq> WLIBC_THREAD_JOINABLE \<and> v \<noteq> WLIBC_THREAD_DETACHED then fail_with EINVAL else Inr (x\<lparr>ta_detachstate := v\<rparr>))"

definition wlibc_threadattr_setsuspendstate :: "thread_attr_t option \<Rightarrow> int \<Rightarrow> thread_attr_t res" where
  "wlibc_threadattr_setsuspendstate a v = (case a of None \<Rightarrow> fail_with EINVAL | Some x \<Rightarrow>
     if v \<noteq> WLIBC_THREAD_RUNNING \<and> v \<noteq> WLIBC_THREAD_SUSPENDED then fail_with EINVAL else Inr (x\<lparr>ta_suspendstate := v\<rparr>))"

definition wlibc_threadattr_setstacksize :: "thread_attr_t option \<Rightarrow> nat \<Rightarrow> thread_attr_t res" where
  "wlibc_threadattr_setstacksize a v = (case a of None \<Rightarrow> fail_with EINVAL | Some x \<Rightarrow> Inr (x\<lparr>ta_stacksize := v\<rparr>))"

definition wlibc_threadattr_setscope :: "thread_attr_t option \<Rightarrow> int \<Rightarrow> thread_attr_t res" where
  "wlibc_threadattr_setscope a v = (case a of None \<Rightarrow> fail_with EINVAL | Some x \<Rightarrow>
     if v \<noteq> WLIBC_THREAD_SCOPE_SYSTEM \<and> v \<noteq> WLIBC_THREAD_SCOPE_PROCESS then fail_with EINVAL else Inr x)"

definition wlibc_threadattr_setinheritsched :: "thread_attr_t option \<Rightarrow> int \<Rightarrow> thread_attr_t res" where
  "wlibc_threadattr_setinheritsched a v = (case a of None \<Rightarrow> fail_with EINVAL | Some x \<Rightarrow>
     if v \<noteq> WLIBC_THREAD_INHERIT_SCHED \<and> v \<noteq> WLIBC_THREAD_EXPLICIT_SCHED then fail_with EINVAL else Inr (x\<lparr>ta_inherit := v\<rparr>))"

definition wlibc_threadattr_setschedparam :: "thread_attr_t option \<Rightarrow> int option \<Rightarrow> thread_attr_t res" where
  "wlibc_threadattr_setschedparam a param = (case (a, param) of
       (Some x, Some p) \<Rightarrow> if p < SCHED_MIN_PRIORITY \<or> p > SCHED_MAX_PRIORITY then fail_with EINVAL else Inr (x\<lparr>ta_priority := p\<rparr>)
     | _ \<Rightarrow> fail_with EINVAL)"

definition wlibc_threadattr_setschedpolicy :: "thread_attr_t option \<Rightarrow> int \<Rightarrow> thread_attr_t res" where
  "wlibc_threadattr_setschedpolicy a v = (case a of None \<Rightarrow> fail_with EINVAL | Some x \<Rightarrow>
     if \<not> sched_policy_valid v then fail_with EINVAL else Inr (x\<lparr>ta_policy := v\<rparr>))"

text \<open>\<open>memset\<close> and \<open>memcpy\<close> of as many masks as the structure's counter says.\<close>

definition copy_masks :: "64 word list \<Rightarrow> nat \<Rightarrow> 64 word list \<Rightarrow> 64 word list ub" where
  "copy_masks src n dst = (if n \<le> length src \<and> n \<le> length dst then Some (take n src @ drop n dst) else None)"

definition wlibc_threadattr_getaffinity :: "thread_attr_t option \<Rightarrow> cpu_set option \<Rightarrow> cpu_set res ub" where
  "wlibc_threadattr_getaffinity a cpuset = (case (a, cpuset) of
       (Some x, Some c) \<Rightarrow> (case ta_set_ptr x of
           None \<Rightarrow> map_option Inr (zero_groups c)
         | Some src \<Rightarrow> if num_cpus src \<noteq> num_cpus c then Some (fail_with ERANGE)
             else map_option (\<lambda>m. Inr (c\<lparr>group_mask := m\<rparr>)) (copy_masks (group_mask src) (nat (num_groups src)) (group_mask c)))
     | _ \<Rightarrow> Some (fail_with EINVAL))"

definition wlibc_threadattr_setaffinity :: "thread_attr_t option \<Rightarrow> cpu_set option \<Rightarrow> thread_attr_t res" where
  "wlibc_threadattr_setaffinity a cpuset = (case (a, cpuset) of
       (Some x, Some c) \<Rightarrow> if num_cpus c \<le> 0 then fail_with EINVAL else Inr (x\<lparr>ta_set_ptr := Some c\<rparr>)
     | _ \<Rightarrow> fail_with EINVAL)"

section \<open>Creating a thread\<close>

text \<open>\<open>new\<close> is the address the heap gives for the structure, 0 when it has none; \<open>thread\<close> tells
  whether the result pointer is given. The new thread runs once it is resumed.\<close>

definition thread_setup ::
  "'k thread_nt \<Rightarrow> thread_attr_t option \<Rightarrow> ptr \<Rightarrow> 'z process_scheme \<Rightarrow> 'k \<Rightarrow> 'k ub" where
  "thread_setup nt attributes new s k = (case attributes of None \<Rightarrow> Some k | Some a \<Rightarrow> do {
     (_, k1) \<leftarrow> (if ta_inherit a = WLIBC_THREAD_EXPLICIT_SCHED
       then wlibc_thread_setschedparam nt new (ta_policy a) (Some (ta_priority a)) s k else Some (Inr (), k));
     (_, k2) \<leftarrow> (if ta_set_ptr a \<noteq> None then wlibc_thread_setaffinity nt new (ta_set_ptr a) s k1 else Some (Inr (), k1));
     Some k2 })"

definition wlibc_thread_create ::
  "'k thread_nt \<Rightarrow> ptr \<Rightarrow> bool \<Rightarrow> thread_attr_t option \<Rightarrow> ptr \<Rightarrow> ptr \<Rightarrow> 'z process_scheme \<Rightarrow> 'k
     \<Rightarrow> (ptr res \<times> 'z process_scheme \<times> 'k) ub" where
  "wlibc_thread_create nt new thread attributes routine arg s k =
     (if \<not> thread then Some (fail_with EINVAL, s, k)
      else if new = 0 then Some (fail_with ENOMEM, s, k)
      else case CreateRemoteThreadEx nt k (case attributes of None \<Rightarrow> 0 | Some a \<Rightarrow> ta_stacksize a) new of
        (Inl e, k1) \<Rightarrow> Some (Inl (map_doserror_to_errno e), s, k1)
      | (Inr (h, tid), k1) \<Rightarrow> do {
          let t = zero_threadinfo\<lparr>t_routine := routine, t_args := arg, t_handle := h, t_id := tid\<rparr>;
          let s1 = put_thread new t s;
          k2 \<leftarrow> thread_setup nt attributes new s1 k1;
          let k3 = (if map_option ta_suspendstate attributes = Some WLIBC_THREAD_SUSPENDED then k2 else snd (NtResumeThread nt k2 h));
          if map_option ta_detachstate attributes = Some WLIBC_THREAD_DETACHED
          then Some (Inr new, put_thread new (t\<lparr>t_handle := 0\<rparr>) s1, snd (NtCloseThread nt k3 h))
          else Some (Inr new, s1, k3) })"

section \<open>Processes\<close>

record 'k proc_nt =
  NtOpenProcess :: "'k \<Rightarrow> 32 word \<Rightarrow> ntstatus \<times> HANDLE \<times> 'k"
  NtCloseProcess :: "'k \<Rightarrow> HANDLE \<Rightarrow> 'k"
  NtQueryPriorityClass :: "'k \<Rightarrow> HANDLE \<Rightarrow> ntstatus \<times> int"
  NtQueryBasePriority :: "'k \<Rightarrow> HANDLE \<Rightarrow> ntstatus \<times> int"
  NtSetPriorityClass :: "'k \<Rightarrow> HANDLE \<Rightarrow> int \<Rightarrow> ntstatus \<times> 'k"
  NtSetBasePriority :: "'k \<Rightarrow> HANDLE \<Rightarrow> int \<Rightarrow> ntstatus \<times> 'k"
  NtRaisePriority :: "'k \<Rightarrow> HANDLE \<Rightarrow> 32 word \<Rightarrow> ntstatus \<times> 'k"
  RtlAcquirePrivilege :: "'k \<Rightarrow> ntstatus \<times> 'k"
  RtlReleasePrivilege :: "'k \<Rightarrow> 'k"
  NtQueryDefaultCpuSets :: "'k \<Rightarrow> HANDLE \<Rightarrow> ntstatus \<times> 64 word"
  NtSetDefaultCpuSets :: "'k \<Rightarrow> HANDLE \<Rightarrow> 64 word \<Rightarrow> ntstatus \<times> 'k"

definition NtCurrentProcess :: HANDLE where "NtCurrentProcess = - 1"

definition open_process :: "'k proc_nt \<Rightarrow> 32 word \<Rightarrow> 'k \<Rightarrow> HANDLE res \<times> 'k" where
  "open_process nt pid k =
     (if pid = 0 then (Inr NtCurrentProcess, k)
      else let (status, h, k1) = NtOpenProcess nt k pid in
        if status \<noteq> STATUS_SUCCESS then (Inl (map_ntstatus_to_errno status), k1) else (Inr h, k1))"

text \<open>The shape of every call here: open, act, close unless the handle is the current process.
  A handle of 0 is taken for a failure.\<close>

definition with_process :: "'k proc_nt \<Rightarrow> 32 word \<Rightarrow> (HANDLE \<Rightarrow> 'k \<Rightarrow> 'a res \<times> 'k) \<Rightarrow> 'k \<Rightarrow> 'a res \<times> 'k" where
  "with_process nt pid act k = (case open_process nt pid k of
       (Inl e, k1) \<Rightarrow> (Inl e, k1)
     | (Inr h, k1) \<Rightarrow> if h = 0 then (fail_silent, k1)
         else let (r, k2) = act h k1 in (r, if h \<noteq> NtCurrentProcess then NtCloseProcess nt k2 h else k2))"

definition get_base_priority_of_class :: "int \<Rightarrow> int" where
  "get_base_priority_of_class c =
     (if c = 1 then 4 else if c = 2 then 8 else if c = 3 then 13 else if c = 4 then 16
      else if c = 5 then 6 else if c = 6 then 10 else 0)"

definition adjust_priority_of_process :: "'k proc_nt \<Rightarrow> int \<Rightarrow> HANDLE \<Rightarrow> 'k \<Rightarrow> unit res \<times> 'k" where
  "adjust_priority_of_process nt new_priority h k =
     (let (st1, cls) = NtQueryPriorityClass nt k h; (st2, base) = NtQueryBasePriority nt k h;
          new = get_base_priority_of_class cls + new_priority in
      if st1 \<noteq> STATUS_SUCCESS then (Inl (map_ntstatus_to_errno st1), k)
      else if st2 \<noteq> STATUS_SUCCESS then (Inl (map_ntstatus_to_errno st2), k)
      else if new = base then (Inr (), k)
      else if new > base then
        (let (st3, k1) = RtlAcquirePrivilege nt k in
         if st3 = STATUS_PRIVILEGE_NOT_HELD
         then let (st4, k2) = NtRaisePriority nt k1 h (word_of_int (new - base)) in (status_result st4 (), k2)
         else let (st4, k2) = NtSetBasePriority nt k1 h new in (status_result st4 (), RtlReleasePrivilege nt k2))
      else let (st4, k1) = NtSetBasePriority nt k h new in (status_result st4 (), k1))"

definition wlibc_sched_getparam :: "'k proc_nt \<Rightarrow> 32 word \<Rightarrow> bool \<Rightarrow> 'k \<Rightarrow> int res \<times> 'k" where
  "wlibc_sched_getparam nt pid param k =
     (if \<not> param then (fail_with EINVAL, k)
      else with_process nt pid (\<lambda>h k.
        let (st1, base) = NtQueryBasePriority nt k h; (st2, cls) = NtQueryPriorityClass nt k h in
        if st1 \<noteq> STATUS_SUCCESS then (Inl (map_ntstatus_to_errno st1), k)
        else if st2 \<noteq> STATUS_SUCCESS then (Inl (map_ntstatus_to_errno st2), k)
        else (Inr (min (max (base - get_base_priority_of_class cls) SCHED_MIN_PRIORITY) SCHED_MAX_PRIORITY), k)) k)"

definition wlibc_sched_setparam :: "'k proc_nt \<Rightarrow> 32 word \<Rightarrow> int option \<Rightarrow> 'k \<Rightarrow> unit res \<times> 'k" where
  "wlibc_sched_setparam nt pid param k = (case param of
       None \<Rightarrow> (fail_with EINVAL, k)
     | Some p \<Rightarrow> if \<not> sched_priority_valid p then (fail_with EINVAL, k)
         else with_process nt pid (adjust_priority_of_process nt p) k)"

definition wlibc_sched_getscheduler :: "'k proc_nt \<Rightarrow> 32 word \<Rightarrow> 'k \<Rightarrow> int res \<times> 'k" where
  "wlibc_sched_getscheduler nt pid k = with_process nt pid (\<lambda>h k.
     let (st, cls) = NtQueryPriorityClass nt k h in (status_result st cls, k)) k"

text \<open>The result of adjusting the priority is overwritten with 0.\<close>

definition wlibc_sched_setscheduler :: "'k proc_nt \<Rightarrow> 32 word \<Rightarrow> int \<Rightarrow> int option \<Rightarrow> 'k \<Rightarrow> unit res \<times> 'k" where
  "wlibc_sched_setscheduler nt pid policy param k =
     (if \<not> sched_policy_valid policy then (fail_with EINVAL, k)
      else if map_option sched_priority_valid param = Some False then (fail_with EINVAL, k)
      else with_process nt pid (\<lambda>h k.
        let (st, k1) = NtSetPriorityClass nt k h policy in
        if st \<noteq> STATUS_SUCCESS then (Inl (map_ntstatus_to_errno st), k1)
        else (case param of
            Some p \<Rightarrow> if p \<noteq> 0 then (Inr (), snd (adjust_priority_of_process nt p h k1)) else (Inr (), k1)
          | None \<Rightarrow> (Inr (), k1))) k)"

text \<open>The query goes to the current process whatever \<open>pid\<close> is.\<close>

definition wlibc_sched_getaffinity :: "'k proc_nt \<Rightarrow> 32 word \<Rightarrow> cpu_set option \<Rightarrow> 'k \<Rightarrow> (cpu_set res \<times> 'k) ub" where
  "wlibc_sched_getaffinity nt pid cpuset k =
     (if cpuset = None \<or> num_groups (the cpuset) = 0 then Some (fail_with EINVAL, k)
      else (case with_process nt pid (\<lambda>h k.
          let (st, cpus) = NtQueryDefaultCpuSets nt k NtCurrentProcess in (status_result st cpus, k)) k of
        (Inl e, k1) \<Rightarrow> Some (Inl e, k1)
      | (Inr cpus, k1) \<Rightarrow> do {
          m \<leftarrow> store 0 cpus (group_mask (the cpuset));
          Some (Inr ((the cpuset)\<lparr>group_mask := m\<rparr>), k1) }))"

definition wlibc_sched_setaffinity :: "'k proc_nt \<Rightarrow> 32 word \<Rightarrow> cpu_set option \<Rightarrow> 'k \<Rightarrow> (unit res \<times> 'k) ub" where
  "wlibc_sched_setaffinity nt pid cpuset k =
     (if cpuset = None \<or> num_groups (the cpuset) = 0 then Some (fail_with EINVAL, k)
      else do {
        cpus \<leftarrow> load (group_mask (the cpuset)) 0;
        Some (with_process nt pid (\<lambda>h k. let (st, k1) = NtSetDefaultCpuSets nt k h cpus in (status_result st (), k1)) k) })"

end
