(* ===== verification/ThreadProps.thy ===== *)
theory ThreadProps
  imports Sched
begin

unbundle bit_operations_syntax

text \<open>
  Properties of threads: the order in which a thread's cleanup routines and key destructors run when
  it ends and the result its joiner gets, thread-specific keys, cancellation, scheduling parameters
  and attributes. For the order, callbacks only act on what the state is extended by (\<open>quiet\<close>): the
  effect of the callback at an address on an argument is a function \<open>g\<close> of that extension.
\<close>

section \<open>Quiet callbacks\<close>

definition effect :: "('z \<Rightarrow> 'z) \<Rightarrow> 'z process_scheme \<Rightarrow> 'z process_scheme" where
  "effect f s = process.more_update f s"

definition quiet :: "(ptr \<Rightarrow> ptr \<Rightarrow> 'z \<Rightarrow> 'z) \<Rightarrow> 'z callback" where
  "quiet g r x s = Some (effect (g r x) s)"

fun runs :: "(ptr \<Rightarrow> ptr \<Rightarrow> 'z \<Rightarrow> 'z) \<Rightarrow> (ptr \<times> ptr) list \<Rightarrow> 'z \<Rightarrow> 'z" where
  "runs g [] z = z"
| "runs g (e # es) z = runs g es (if fst e \<noteq> 0 then g (fst e) (snd e) z else z)"

lemma runs_Nil_fun [simp]: "runs g [] = (\<lambda>z. z)"
  by (rule ext) simp

lemma runs_single: "runs g [e] = (if fst e \<noteq> 0 then g (fst e) (snd e) else (\<lambda>z. z))"
  by (rule ext) simp

lemma runs_append: "runs g (xs @ ys) = runs g ys \<circ> runs g xs"
  by (rule ext, induction xs) (auto simp: comp_def)

lemma effect_sels [simp]:
  "deref a (effect f s) = deref a s" "put_thread a t (effect f s) = effect f (put_thread a t s)"
  "effect f (effect h s) = effect (f \<circ> h) s" "self (effect f s) = self s"
  "tls_bitmap (effect f s) = tls_bitmap s" "tls_destructors (effect f s) = tls_destructors s"
  by (simp_all add: effect_def deref_def put_thread_def comp_def)

lemma effect_id [simp]: "effect (\<lambda>z. z) s = s"
  by (simp add: effect_def)

lemma run_entry_quiet: "run_entry (quiet g) e s = Some (effect (runs g [e]) s)"
  by (simp add: run_entry_def quiet_def runs_single)

section \<open>Cleanup routines\<close>

definition cleanup_ok :: "threadinfo \<Rightarrow> bool" where
  "cleanup_ok t \<longleftrightarrow> (case t_cleanup_entries t of
       None \<Rightarrow> t_cleanup_allocated t = 0 \<and> t_cleanup_used t = 0
     | Some es \<Rightarrow> length es = t_cleanup_allocated t \<and> 0 < t_cleanup_allocated t \<and> t_cleanup_used t \<le> t_cleanup_allocated t)"

definition cleanup_stack :: "threadinfo \<Rightarrow> (ptr \<times> ptr) list" where
  "cleanup_stack t = (case t_cleanup_entries t of None \<Rightarrow> [] | Some es \<Rightarrow> take (t_cleanup_used t) es)"

lemma cleanup_result [simp]:
  "cleanup_ok (t\<lparr>t_result := r\<rparr>) = cleanup_ok t" "cleanup_stack (t\<lparr>t_result := r\<rparr>) = cleanup_stack t"
  by (simp_all add: cleanup_ok_def cleanup_stack_def split: option.split)

lemma push_appends:
  assumes "deref (self s) s = Some t" "cleanup_ok t" "t_cleanup_used t < 2 ^ 31"
  shows "\<exists>t'. wlibc_thread_cleanup_push (\<lambda>n. True) junk r x s = Some (Inr (), put_thread (self s) t' s)
    \<and> cleanup_ok t' \<and> cleanup_stack t' = cleanup_stack t @ [(r, x)] \<and> t_cleanup_used t' = Suc (t_cleanup_used t)
    \<and> t_slots t' = t_slots t \<and> t_handle t' = t_handle t"
proof -
  have "\<exists>t1 es. cleanup_room (\<lambda>n. True) junk t = Some (True, t1) \<and> t_cleanup_entries t1 = Some es
      \<and> length es = t_cleanup_allocated t1 \<and> t_cleanup_used t1 = t_cleanup_used t \<and> t_cleanup_used t < length es
      \<and> take (t_cleanup_used t) es = cleanup_stack t \<and> t_slots t1 = t_slots t \<and> t_handle t1 = t_handle t"
    using assms(2,3)
    by (auto simp: cleanup_room_def cleanup_ok_def cleanup_stack_def Let_def split: option.splits)
  then obtain t1 es where t1: "cleanup_room (\<lambda>n. True) junk t = Some (True, t1)" "t_cleanup_entries t1 = Some es"
    "length es = t_cleanup_allocated t1" "t_cleanup_used t1 = t_cleanup_used t" "t_cleanup_used t < length es"
    "take (t_cleanup_used t) es = cleanup_stack t" "t_slots t1 = t_slots t" "t_handle t1 = t_handle t"
    by blast
  have "wlibc_thread_cleanup_push (\<lambda>n. True) junk r x s = Some (Inr (), put_thread (self s)
      (t1\<lparr>t_cleanup_entries := Some (es[t_cleanup_used t := (r, x)]), t_cleanup_used := Suc (t_cleanup_used t)\<rparr>) s)"
    using t1 assms by (simp add: wlibc_thread_cleanup_push_def)
  then show ?thesis
    using t1 by (auto simp: cleanup_ok_def cleanup_stack_def take_Suc_conv_app_nth)
qed

fun push_all :: "(nat \<Rightarrow> ptr \<times> ptr) \<Rightarrow> (ptr \<times> ptr) list \<Rightarrow> 'z process_scheme \<Rightarrow> 'z process_scheme ub" where
  "push_all junk [] s = Some s"
| "push_all junk (e # es) s = do {
     (_, s1) \<leftarrow> wlibc_thread_cleanup_push (\<lambda>n. True) junk (fst e) (snd e) s;
     push_all junk es s1 }"

lemma push_all_appends:
  "deref (self s) s = Some t \<Longrightarrow> cleanup_ok t \<Longrightarrow> t_cleanup_used t + length es < 2 ^ 31 \<Longrightarrow>
   \<exists>t'. push_all junk es s = Some (put_thread (self s) t' s) \<and> cleanup_ok t'
     \<and> cleanup_stack t' = cleanup_stack t @ es \<and> t_slots t' = t_slots t \<and> t_handle t' = t_handle t
     \<and> t_cleanup_used t' < 2 ^ 31"
proof (induction es arbitrary: s t)
  case Nil
  then have "put_thread (self s) t s = s" by (auto simp: put_thread_def deref_def fun_upd_idem split: if_splits)
  then show ?case using Nil by (intro exI [of _ t]) simp
next
  case (Cons e es)
  have a: "self s \<noteq> 0" using Cons.prems(1) by (rule deref_nonzero)
  obtain t1 where t1: "wlibc_thread_cleanup_push (\<lambda>n. True) junk (fst e) (snd e) s = Some (Inr (), put_thread (self s) t1 s)"
    "cleanup_ok t1" "cleanup_stack t1 = cleanup_stack t @ [e]" "t_cleanup_used t1 = Suc (t_cleanup_used t)"
    "t_slots t1 = t_slots t" "t_handle t1 = t_handle t"
    using push_appends [OF Cons.prems(1,2), of junk "fst e" "snd e"] Cons.prems(3) by auto
  show ?case using Cons.IH [of "put_thread (self s) t1 s" t1] t1 a Cons.prems(3) by auto
qed

lemma drop_entry_eq:
  "deref a s = Some t \<Longrightarrow> 0 < t_cleanup_used t \<Longrightarrow> t_cleanup_used t < 2 ^ 32 \<Longrightarrow>
     drop_entry a s = Some (put_thread a (t\<lparr>t_cleanup_used := t_cleanup_used t - 1\<rparr>) s)"
  by (simp add: drop_entry_def mod_if)

lemma cleanup_loop_runs:
  assumes "deref a s = Some t" "t_cleanup_entries t = Some es" "t_cleanup_used t \<le> length es" "t_cleanup_used t < 2 ^ 32"
  shows "execute_cleanup_loop (quiet g) a s
    = Some (effect (runs g (rev (take (t_cleanup_used t) es))) (put_thread a (t\<lparr>t_cleanup_used := 0\<rparr>) s))"
  using assms
proof (induction "t_cleanup_used t" arbitrary: s t)
  case 0
  then have same: "t\<lparr>t_cleanup_used := 0\<rparr> = t" "put_thread a t s = s"
    by (auto simp: put_thread_def deref_def fun_upd_idem split: if_splits)
  show ?case using 0 by (subst execute_cleanup_loop.simps) (simp add: same)
next
  case (Suc u)
  have a: "a \<noteq> 0" using Suc.prems(1) by (rule deref_nonzero)
  have u: "t_cleanup_used t = Suc u" using Suc.hyps(2) by simp
  have len: "u < length es" "u < 2 ^ 32" using Suc.prems(3,4) u by simp_all
  let ?t = "t\<lparr>t_cleanup_used := u\<rparr>"
  let ?s = "effect (runs g [es ! u]) (put_thread a ?t s)"
  have top: "top_entry t = Some (es ! u)" using len by (simp add: top_entry_def u Suc.prems(2))
  have drop: "drop_entry a (effect (runs g [es ! u]) s) = Some ?s"
    using drop_entry_eq [of a "effect (runs g [es ! u]) s" t] Suc.prems(1,4) by (simp add: u del: runs.simps)
  have "execute_cleanup_loop (quiet g) a s = execute_cleanup_loop (quiet g) a ?s"
    unfolding execute_cleanup_loop.simps [of "quiet g" a s]
    by (simp add: Suc.prems(1) top u run_entry_quiet drop del: runs.simps effect_sels)
  also have "\<dots> = Some (effect (runs g (rev (take u es))) (put_thread a (?t\<lparr>t_cleanup_used := 0\<rparr>) ?s))"
    using Suc.hyps(1) [of ?t ?s] Suc.prems(2) len a by (simp del: runs.simps)
  also have "\<dots> = Some (effect (runs g (rev (take (Suc u) es))) (put_thread a (t\<lparr>t_cleanup_used := 0\<rparr>) s))"
    using len runs_append [of g "[es ! u]" "rev (take u es)"]
    by (simp add: take_Suc_conv_app_nth del: runs.simps)
  finally show ?case by (simp add: u)
qed

lemma execute_cleanup_quiet:
  assumes "deref a s = Some t" "cleanup_ok t" "t_cleanup_used t < 2 ^ 32"
  shows "execute_cleanup (quiet g) a s = Some (effect (runs g (rev (cleanup_stack t)))
    (put_thread a (t\<lparr>t_cleanup_used := 0, t_cleanup_entries := None\<rparr>) s))"
proof (cases "t_cleanup_entries t")
  case None
  have a: "a \<noteq> 0" using assms(1) by (rule deref_nonzero)
  have "t\<lparr>t_cleanup_used := 0\<rparr> = t" using assms(2) None by (simp add: cleanup_ok_def)
  moreover have "execute_cleanup_loop (quiet g) a s = Some s"
    using assms None by (subst execute_cleanup_loop.simps) (simp add: cleanup_ok_def)
  ultimately show ?thesis using assms(1) None by (simp add: execute_cleanup_def cleanup_stack_def)
next
  case (Some es)
  have a: "a \<noteq> 0" using assms(1) by (rule deref_nonzero)
  show ?thesis
    using cleanup_loop_runs [OF assms(1) Some _ assms(3), of g] assms(2) Some a
    by (simp add: execute_cleanup_def cleanup_ok_def cleanup_stack_def)
qed

section \<open>Destructors of keys\<close>

definition fires :: "'z process_scheme \<Rightarrow> ptr list \<Rightarrow> nat \<Rightarrow> bool" where
  "fires s slots i \<longleftrightarrow> bit (tls_bitmap s) i \<and> slots ! i \<noteq> 0 \<and> tls_destructors s ! i \<noteq> 0"

definition dtor_calls :: "'z process_scheme \<Rightarrow> ptr list \<Rightarrow> nat list \<Rightarrow> (ptr \<times> ptr) list" where
  "dtor_calls s slots is = map (\<lambda>i. (tls_destructors s ! i, slots ! i)) (filter (fires s slots) is)"

lemma cleanup_slot_quiet:
  assumes "deref a s = Some t" "length (t_slots t) = 64" "length (tls_destructors s) = 64" "i < 64"
  shows "cleanup_slot (quiet g) a i s = Some (if fires s (t_slots t) i
    then effect (runs g [(tls_destructors s ! i, t_slots t ! i)]) (put_thread a (t\<lparr>t_slots := (t_slots t)[i := 0]\<rparr>) s) else s)"
proof -
  have "tls_bitmap s AND push_bit i 1 = 0 \<longleftrightarrow> \<not> bit (tls_bitmap s) i"
    using and_shifted_one_eq_0 [of "tls_bitmap s" i] assms(4) by simp
  then show ?thesis using assms by (simp add: cleanup_slot_def fires_def quiet_def runs_single del: runs.simps)
qed

lemma cleanup_slots_quiet:
  "deref a s = Some t \<Longrightarrow> length (t_slots t) = 64 \<Longrightarrow> length (tls_destructors s) = 64 \<Longrightarrow> i + k \<le> 64 \<Longrightarrow>
   \<exists>t'. for_from i k (cleanup_slot (quiet g) a) s
       = Some (effect (runs g (dtor_calls s (t_slots t) [i..<i + k])) (put_thread a t' s))
     \<and> t_result t' = t_result t \<and> t_handle t' = t_handle t"
proof (induction k arbitrary: i s t)
  case 0
  then have "put_thread a t s = s" by (auto simp: put_thread_def deref_def fun_upd_idem split: if_splits)
  then show ?case by (intro exI [of _ t]) (simp add: dtor_calls_def)
next
  case (Suc k)
  have a: "a \<noteq> 0" using Suc.prems(1) by (rule deref_nonzero)
  have upt: "[i..<Suc (i + k)] = i # [Suc i..<Suc (i + k)]" by (simp add: upt_conv_Cons del: upt_Suc)
  note slot = cleanup_slot_quiet [OF Suc.prems(1-3), of i g]
  show ?case
  proof (cases "fires s (t_slots t) i")
    case False
    then show ?thesis using Suc.IH [OF Suc.prems(1-3), of "Suc i"] slot Suc.prems(4)
      by (simp add: upt dtor_calls_def del: upt_Suc)
  next
    case True
    let ?t = "t\<lparr>t_slots := (t_slots t)[i := 0]\<rparr>"
    let ?e = "(tls_destructors s ! i, t_slots t ! i)"
    let ?s = "effect (runs g [?e]) (put_thread a ?t s)"
    have rest: "dtor_calls ?s (t_slots ?t) [Suc i..<Suc i + k] = dtor_calls s (t_slots t) [Suc i..<Suc i + k]"
      unfolding dtor_calls_def by (intro map_cong filter_cong refl) (auto simp: fires_def)
    obtain t' where t': "for_from (Suc i) k (cleanup_slot (quiet g) a) ?s
        = Some (effect (runs g (dtor_calls s (t_slots t) [Suc i..<Suc i + k])) (put_thread a t' ?s))"
      "t_result t' = t_result t" "t_handle t' = t_handle t"
      using Suc.IH [of ?s ?t "Suc i"] Suc.prems a rest by (auto simp del: upt_Suc runs.simps effect_sels(2))
    let ?es = "dtor_calls s (t_slots t) [Suc i..<Suc i + k]"
    have "dtor_calls s (t_slots t) [i..<i + Suc k] = [?e] @ ?es" using True by (simp add: upt dtor_calls_def del: upt_Suc)
    then have both: "effect (runs g (dtor_calls s (t_slots t) [i..<i + Suc k])) (put_thread a t' s)
        = effect (runs g ?es) (put_thread a t' ?s)"
      by (simp only: runs_append effect_sels put_thread_sels)
    have "for_from i (Suc k) (cleanup_slot (quiet g) a) s = for_from (Suc i) k (cleanup_slot (quiet g) a) ?s"
      using slot True Suc.prems(4) by (simp del: runs.simps)
    then show ?thesis using t' by (intro exI [of _ t']) (simp only: both)
  qed
qed

lemma cleanup_tls_quiet:
  assumes "deref a s = Some t" "length (t_slots t) = 64" "length (tls_destructors s) = 64"
  shows "\<exists>t'. cleanup_tls (quiet g) a s = Some (effect (runs g (dtor_calls s (t_slots t) [0..<64])) (put_thread a t' s))
     \<and> t_result t' = t_result t \<and> t_handle t' = t_handle t"
proof (cases "tls_bitmap s = 0")
  case True
  have "put_thread a t s = s" using assms(1) by (auto simp: put_thread_def deref_def fun_upd_idem split: if_splits)
  then show ?thesis using True by (intro exI [of _ t]) (simp add: cleanup_tls_def dtor_calls_def fires_def)
next
  case False
  then show ?thesis using cleanup_slots_quiet [OF assms, of 0 64 g] by (simp add: cleanup_tls_def del: upt_Suc)
qed

section \<open>Exit and join\<close>

text \<open>C20: when a thread ends with \<open>wlibc_thread_exit\<close>, the cleanup routines it pushed run in the
  opposite order of their pushes, then the destructors of its keys in ascending order of the keys,
  each with the value the thread stored; a thread that joins it afterwards gets the value passed to
  exit, and the structure is freed.\<close>

theorem exit_runs_cleanup_and_join_returns:
  assumes "deref (self s) s = Some t" and "cleanup_ok t" and "cleanup_stack t = []"
    and "length (t_slots t) = 64" and "length (tls_destructors s) = 64"
    and "t_cleanup_used t + length es < 2 ^ 31"
    and "push_all junk es s = Some s1"
    and "\<forall>k. fst (NtWait nt k (t_handle t) None) = STATUS_SUCCESS \<and> fst (NtCloseThread nt k (t_handle t)) = STATUS_SUCCESS"
  shows "\<exists>s2 s3 k'. wlibc_thread_exit (quiet g) retval s1 = Some (ucast retval, s2)
    \<and> process.more s2 = runs g (rev es @ dtor_calls s (t_slots t) [0..<64]) (process.more s)
    \<and> wlibc_thread_join nt e0 (self s) (s2\<lparr>self := b\<rparr>) k = Some (Inr retval, s3, k') \<and> deref (self s) s3 = None"
proof -
  let ?a = "self s"
  have a: "?a \<noteq> 0" using assms(1) by (rule deref_nonzero)
  obtain t1 where t1: "s1 = put_thread ?a t1 s" "cleanup_ok t1" "cleanup_stack t1 = es" "t_slots t1 = t_slots t"
    "t_handle t1 = t_handle t" "t_cleanup_used t1 < 2 ^ 31"
    using push_all_appends [OF assms(1,2,6), of junk] assms(3,7) by auto
  let ?t2 = "t1\<lparr>t_result := retval\<rparr>"
  let ?t3 = "?t2\<lparr>t_cleanup_used := 0, t_cleanup_entries := None\<rparr>"
  have t2: "cleanup_ok ?t2" "cleanup_stack ?t2 = es" using t1 by simp_all
  have exec: "execute_cleanup (quiet g) ?a (put_thread ?a ?t2 s) = Some (effect (runs g (rev es)) (put_thread ?a ?t3 s))"
    using execute_cleanup_quiet [of ?a "put_thread ?a ?t2 s" ?t2 g] a t1(6) t2 by simp
  let ?s3 = "effect (runs g (rev es)) (put_thread ?a ?t3 s)"
  have calls: "dtor_calls ?s3 (t_slots t) is = dtor_calls s (t_slots t) is" for "is"
    by (simp add: dtor_calls_def fires_def [abs_def])
  obtain t4 where t4: "cleanup_tls (quiet g) ?a ?s3
      = Some (effect (runs g (dtor_calls s (t_slots t) [0..<64])) (put_thread ?a t4 ?s3))"
    "t_result t4 = retval" "t_handle t4 = t_handle t"
    using cleanup_tls_quiet [of ?a ?s3 ?t3 g] a t1 assms(4,5) calls by (auto simp del: upt_rec_numeral upt_Suc effect_sels(2))
  define s2 where "s2 = effect (runs g (dtor_calls s (t_slots t) [0..<64])) (put_thread ?a t4 ?s3)"
  have exit: "wlibc_thread_exit (quiet g) retval s1 = Some (ucast retval, s2)"
    using t1(1) exec t4(1) a by (simp add: wlibc_thread_exit_def s2_def del: effect_sels(2))
  have more: "process.more s2 = runs g (rev es @ dtor_calls s (t_slots t) [0..<64]) (process.more s)"
    by (simp add: s2_def runs_append effect_def put_thread_def del: upt_rec_numeral)
  have d: "deref ?a (s2\<lparr>self := b\<rparr>) = Some t4"
    using a by (simp add: s2_def deref_def effect_def put_thread_def)
  have "\<exists>s3 k'. wlibc_thread_join nt e0 ?a (s2\<lparr>self := b\<rparr>) k = Some (Inr retval, s3, k') \<and> deref ?a s3 = None"
    unfolding wlibc_thread_join_def wlibc_common_thread_join_def wait_timeout_def
    using a d t4 assms(8) by (simp add: case_prod_beta Let_def deref_def)
  then show ?thesis using exit more by blast
qed

definition demo :: "(ptr \<times> ptr) list process_scheme" where
  "demo = \<lparr>tls_bitmap = 1, tls_destructors = 5 # replicate 63 0,
     threads = [1 \<mapsto> zero_threadinfo\<lparr>t_slots := 9 # replicate 63 0\<rparr>], self = 1, \<dots> = []\<rparr>"

definition demo_nt :: "unit thread_nt" where
  "demo_nt = \<lparr>CreateRemoteThreadEx = (\<lambda>k n a. (Inr (1, 1), k)), NtWait = (\<lambda>k h t. (STATUS_SUCCESS, k)),
     NtCloseThread = (\<lambda>k h. (STATUS_SUCCESS, k)), NtResumeThread = (\<lambda>k h. (STATUS_SUCCESS, k)),
     NtSuspendThread = (\<lambda>k h. (STATUS_SUCCESS, k)), NtQueueCancel = (\<lambda>k h a. (STATUS_SUCCESS, k)),
     NtQueueKill = (\<lambda>k h sig. (STATUS_SUCCESS, k)), NtQueryPriority = (\<lambda>k h. (STATUS_SUCCESS, 8)),
     NtSetPriority = (\<lambda>k h p. (STATUS_SUCCESS, k)), NtChangePriority = (\<lambda>k h p. (STATUS_SUCCESS, k)),
     NtQueryCpuSets = (\<lambda>k h. (STATUS_SUCCESS, 1)), NtSetCpuSets = (\<lambda>k h m. (STATUS_SUCCESS, k))\<rparr>"

theorem exit_runs_cleanup_and_join_returns_witness:
  "\<exists>s1 s2 s3 k'. push_all (\<lambda>i. (0, 0)) [(3, 30), (4, 40)] demo = Some s1
    \<and> wlibc_thread_exit (quiet (\<lambda>r x z. z @ [(r, x)])) 77 s1 = Some (77, s2)
    \<and> process.more s2 = [(4, 40), (3, 30), (5, 9)]
    \<and> wlibc_thread_join demo_nt None 1 (s2\<lparr>self := 2\<rparr>) () = Some (Inr 77, s3, k')"
proof -
  have d: "deref (self demo) demo = Some (zero_threadinfo\<lparr>t_slots := 9 # replicate 63 0\<rparr>)" "self demo = 1"
    by (simp_all add: demo_def deref_def)
  let ?t = "zero_threadinfo\<lparr>t_slots := 9 # replicate 63 0\<rparr>"
  have ok: "cleanup_ok ?t" "cleanup_stack ?t = []" "length (t_slots ?t) = 64" "length (tls_destructors demo) = 64"
    "t_cleanup_used ?t = 0"
    by (simp_all add: cleanup_ok_def cleanup_stack_def zero_threadinfo_def demo_def)
  obtain s1 where s1: "push_all (\<lambda>i. (0, 0)) [(3, 30), (4, 40)] demo = Some s1"
    using push_all_appends [OF d(1) ok(1), of "[(3, 30), (4, 40)]"] ok(5) by auto
  have calls: "runs (\<lambda>r x z. z @ [(r, x)]) (rev [(3, 30), (4, 40)] @ dtor_calls demo (t_slots ?t) [0..<64]) (process.more demo)
      = [(4, 40), (3, 30), (5, 9)]"
    by code_simp
  have nt: "\<forall>k. fst (NtWait demo_nt k (t_handle ?t) None) = STATUS_SUCCESS \<and> fst (NtCloseThread demo_nt k (t_handle ?t)) = STATUS_SUCCESS"
    by (simp add: demo_nt_def)
  have "t_cleanup_used ?t + length [(3, 30), (4, 40)] < 2 ^ 31" by (simp add: ok(5))
  from exit_runs_cleanup_and_join_returns [OF d(1) ok(1-4) this s1 nt, of "\<lambda>r x z. z @ [(r, x)]" 77 None 2 "()"]
  show ?thesis using s1 unfolding calls d(2) by auto
qed

section \<open>Keys\<close>

text \<open>C38: thread-specific keys. A new key is the lowest one that is not in use, and creation fails
  only when all 64 are in use; a thread reads back the value it stored under a key, storing under one
  key does not change another, and a key that was deleted reads as NULL.\<close>

theorem keys_store_values:
  assumes "deref (self s) s = Some t" and "length (t_slots t) = 64" and "length (tls_destructors s) = 64" and "i < 64"
  shows "(\<not> bit (tls_bitmap s) i \<and> (\<forall>j < i. bit (tls_bitmap s) j) \<longrightarrow>
        (\<exists>s1. wlibc_tss_create d s = Some (Inr i, s1) \<and> (\<forall>j. bit (tls_bitmap s1) j \<longleftrightarrow> j = i \<or> bit (tls_bitmap s) j)))
    \<and> ((\<forall>j < 64. bit (tls_bitmap s) j) \<longrightarrow> wlibc_tss_create d s = Some (fail_silent, s))
    \<and> (bit (tls_bitmap s) i \<longrightarrow> (\<exists>s1. wlibc_tss_set i v s = Some (Inr (), s1) \<and> wlibc_tss_get i s1 = Some v
        \<and> (\<forall>j < 64. j \<noteq> i \<longrightarrow> wlibc_tss_get j s1 = wlibc_tss_get j s)))
    \<and> (bit (tls_bitmap s) i \<longrightarrow> (\<exists>s1. wlibc_tss_delete i s = Some (Inr (), s1) \<and> wlibc_tss_get i s1 = Some 0
        \<and> (\<forall>j < 64. j \<noteq> i \<longrightarrow> wlibc_tss_get j s1 = wlibc_tss_get j s)))"
proof (intro conjI impI)
  have a: "self s \<noteq> 0" using assms(1) by (rule deref_nonzero)
  have valid: "tls_entry_valid j s' = Some (bit (tls_bitmap s') j)" if "j < 64" for j and s' :: "'a process_scheme"
    using and_shifted_one_eq_0 [of "tls_bitmap s'" j] that by (simp add: tls_entry_valid_def)
  {
    assume low: "\<not> bit (tls_bitmap s) i \<and> (\<forall>j < i. bit (tls_bitmap s) j)"
    then have "bit_scan_forward (NOT (tls_bitmap s)) = Some i"
      using assms(4) by (auto simp: bit_scan_forward_Some bit_simps)
    then show "\<exists>s1. wlibc_tss_create d s = Some (Inr i, s1) \<and> (\<forall>j. bit (tls_bitmap s1) j \<longleftrightarrow> j = i \<or> bit (tls_bitmap s) j)"
      using assms(3,4) by (auto simp: wlibc_tss_create_def bit_or_iff bit_shifted_one)
  next
    assume "\<forall>j < 64. bit (tls_bitmap s) j"
    then have "NOT (tls_bitmap s) = 0" by (intro bit_word_eqI) (auto simp: bit_simps)
    then show "wlibc_tss_create d s = Some (fail_silent, s)"
      by (simp add: wlibc_tss_create_def bit_scan_forward_None [THEN iffD2])
  next
    assume "bit (tls_bitmap s) i"
    then show "\<exists>s1. wlibc_tss_set i v s = Some (Inr (), s1) \<and> wlibc_tss_get i s1 = Some v
        \<and> (\<forall>j < 64. j \<noteq> i \<longrightarrow> wlibc_tss_get j s1 = wlibc_tss_get j s)"
      using assms a by (auto simp: wlibc_tss_set_def wlibc_tss_get_def valid)
  next
    assume "bit (tls_bitmap s) i"
    then show "\<exists>s1. wlibc_tss_delete i s = Some (Inr (), s1) \<and> wlibc_tss_get i s1 = Some 0
        \<and> (\<forall>j < 64. j \<noteq> i \<longrightarrow> wlibc_tss_get j s1 = wlibc_tss_get j s)"
      using assms by (auto simp: wlibc_tss_delete_def wlibc_tss_get_def valid bit_simps bit_shifted_one deref_def)
  }
qed

theorem keys_store_values_witness:
  "\<exists>s1. wlibc_tss_set 0 6 demo = Some (Inr (), s1) \<and> wlibc_tss_get 0 s1 = Some 6"
proof -
  have "deref (self demo) demo = Some (zero_threadinfo\<lparr>t_slots := 9 # replicate 63 0\<rparr>)"
    "length (t_slots (zero_threadinfo\<lparr>t_slots := 9 # replicate 63 0\<rparr>)) = 64" "length (tls_destructors demo) = 64"
    "bit (tls_bitmap demo) 0"
    by (simp_all add: demo_def deref_def)
  from keys_store_values [OF this(1-3), of 0 0 6] this(4) show ?thesis by auto
qed

text \<open>A key that is deleted and created again is the same key and still holds the value stored
  before: creation does not reset the slots.\<close>

theorem recreated_key_keeps_value:
  assumes "deref (self s) s = Some t" and "length (t_slots t) = 64" and "length (tls_destructors s) = 64"
    and "wlibc_tss_create d s = Some (Inr i, s1)" and "wlibc_tss_set i v s1 = Some (r, s2)"
    and "wlibc_tss_delete i s2 = Some (r', s3)"
  shows "\<exists>s4. wlibc_tss_create d' s3 = Some (Inr i, s4) \<and> wlibc_tss_get i s4 = Some v"
proof -
  have a: "self s \<noteq> 0" using assms(1) by (rule deref_nonzero)
  from assms(4) have scan: "bit_scan_forward (NOT (tls_bitmap s)) = Some i"
    and s1: "s1 = s\<lparr>tls_bitmap := tls_bitmap s OR 2 ^ i, tls_destructors := (tls_destructors s)[i := d]\<rparr>"
    using assms(3) by (auto simp: wlibc_tss_create_def store_eq_Some_iff split: option.splits bind_splits)
  from scan have i: "i < 64" "\<not> bit (tls_bitmap s) i" by (auto simp: bit_scan_forward_Some bit_simps)
  have valid: "tls_entry_valid i s' = Some (bit (tls_bitmap s') i)" for s' :: "'a process_scheme"
    using and_shifted_one_eq_0 [of "tls_bitmap s'" i] i by (simp add: tls_entry_valid_def)
  have "deref (self s) s1 = Some t" using assms(1) a by (simp add: s1 deref_def)
  then have s2: "s2 = put_thread (self s) (t\<lparr>t_slots := (t_slots t)[i := v]\<rparr>) s1"
    using assms(2,5) i valid [of s1] by (auto simp: wlibc_tss_set_def s1 bit_simps bit_shifted_one)
  have "(tls_bitmap s OR 2 ^ i) AND NOT (2 ^ i) = tls_bitmap s"
    using i by (intro bit_word_eqI) (auto simp: bit_simps bit_shifted_one)
  then have s3: "tls_bitmap s3 = tls_bitmap s" "length (tls_destructors s3) = 64" "self s3 = self s"
      "deref (self s3) s3 = Some (t\<lparr>t_slots := (t_slots t)[i := v]\<rparr>)"
    using assms(3,6) i a valid [of s2] by (auto simp: wlibc_tss_delete_def s2 s1 bit_simps bit_shifted_one deref_def put_thread_def)
  then show ?thesis
    using scan i assms(2) valid
    by (auto simp: wlibc_tss_create_def wlibc_tss_get_def bit_simps bit_shifted_one deref_def)
qed

theorem recreated_key_keeps_value_witness:
  "\<exists>s1 s2 s3 s4. wlibc_tss_create 0 demo = Some (Inr 1, s1) \<and> wlibc_tss_set 1 6 s1 = Some (Inr (), s2)
    \<and> wlibc_tss_delete 1 s2 = Some (Inr (), s3) \<and> wlibc_tss_create 0 s3 = Some (Inr 1, s4) \<and> wlibc_tss_get 1 s4 = Some 6"
proof -
  have "do { (r1, s1) \<leftarrow> wlibc_tss_create 0 demo; (r2, s2) \<leftarrow> wlibc_tss_set 1 6 s1; (r3, s3) \<leftarrow> wlibc_tss_delete 1 s2;
      Some (r1, r2, r3) } = Some (Inr 1, Inr (), Inr ())"
    by code_simp
  then obtain s1 s2 s3 where s: "wlibc_tss_create 0 demo = Some (Inr 1, s1)" "wlibc_tss_set 1 6 s1 = Some (Inr (), s2)"
    "wlibc_tss_delete 1 s2 = Some (Inr (), s3)"
    by (auto simp: bind_eq_Some_conv)
  have "deref (self demo) demo = Some (zero_threadinfo\<lparr>t_slots := 9 # replicate 63 0\<rparr>)"
    "length (t_slots (zero_threadinfo\<lparr>t_slots := 9 # replicate 63 0\<rparr>)) = 64" "length (tls_destructors demo) = 64"
    by (simp_all add: demo_def deref_def)
  from recreated_key_keeps_value [OF this s, of 0] s show ?thesis by blast
qed

section \<open>Cancellation\<close>

text \<open>Selecting deferred cancellation disables cancellation: \<open>wlibc_thread_setcanceltype\<close> stores
  the type in the cancel state, so a thread that asks for the deferred type keeps its old type and
  its cancellation points return.\<close>

theorem deferred_type_disables_cancellation:
  assumes "deref (self s) s = Some t"
  shows "\<exists>s1. wlibc_thread_setcanceltype WLIBC_THREAD_CANCEL_DEFERRED s = Some (Inr (t_canceltype t), s1)
    \<and> map_option t_canceltype (deref (self s1) s1) = Some (t_canceltype t)
    \<and> wlibc_thread_testcancel call s1 = Some (False, s1)"
proof -
  have "self s \<noteq> 0" using assms by (rule deref_nonzero)
  then show ?thesis
    using assms
    by (simp add: wlibc_thread_setcanceltype_def wlibc_thread_testcancel_def execute_thread_cancellation_def
        WLIBC_THREAD_CANCEL_DEFERRED_def WLIBC_THREAD_CANCEL_ASYNCHRONOUS_def WLIBC_THREAD_CANCEL_DISABLE_def)
qed

theorem deferred_type_disables_cancellation_witness:
  "\<exists>s1. wlibc_thread_setcanceltype WLIBC_THREAD_CANCEL_DEFERRED demo = Some (Inr 0, s1)
    \<and> wlibc_thread_testcancel (quiet (\<lambda>r x z. z @ [(r, x)])) s1 = Some (False, s1)"
proof -
  have "deref (self demo) demo = Some (zero_threadinfo\<lparr>t_slots := 9 # replicate 63 0\<rparr>)" by (simp add: demo_def deref_def)
  from deferred_type_disables_cancellation [OF this, of "quiet (\<lambda>r x z. z @ [(r, x)])"] show ?thesis
    by (auto simp: zero_threadinfo_def)
qed

section \<open>Scheduling parameters\<close>

definition valid_sched :: "int \<times> int \<Rightarrow> bool" where
  "valid_sched pp \<longleftrightarrow> sched_policy_valid (fst pp) \<and> sched_priority_valid (snd pp)"

lemma bound_policy_of:
  "bound_policy k (policy_of k) =
     (if k \<le> 4 then (SCHED_IDLE, max (k - 4) (- 2)) else if k \<le> 6 then (SCHED_BATCH, k - 6)
      else if k \<le> 8 then (SCHED_RR, k - 8) else if k \<le> 10 then (SCHED_SPORADIC, k - 10)
      else (SCHED_FIFO, min (k - 13) 2))"
  by (auto simp: bound_policy_def policy_of_def sched_consts Let_def)

text \<open>The policy and priority read from a thread are valid and stand for its kernel priority when
  that is between 2 and 15, so setting them again asks the kernel for the priority the thread has. A
  pair that was set is read back unchanged only for the first-in first-out policy, for the idle policy
  with a priority of at most 0, and for the others with a priority of -1 or 0.\<close>

theorem sched_parameters_read_back:
  assumes "deref thread s = Some t" and "NtQueryPriority nt k (t_handle t) = (STATUS_SUCCESS, prio)"
  shows "\<exists>pp. wlibc_thread_getschedparam nt thread s k = Some (Inr pp) \<and> valid_sched pp
    \<and> (2 \<le> prio \<and> prio \<le> 15 \<longrightarrow> base_priority (fst pp) + snd pp = prio
        \<and> wlibc_thread_setschedparam nt thread (fst pp) (Some (snd pp)) s k
            = Some (status_result (fst (NtSetPriority nt k (t_handle t) prio)) (), snd (NtSetPriority nt k (t_handle t) prio)))
    \<and> (\<forall>policy p. valid_sched (policy, p) \<and> prio = base_priority policy + p \<longrightarrow>
        (pp = (policy, p) \<longleftrightarrow> policy = SCHED_FIFO \<or> p \<in> {- 1, 0} \<or> policy = SCHED_IDLE \<and> p = - 2))"
proof -
  have thread: "thread \<noteq> 0" using assms(1) by (rule deref_nonzero)
  define pp where "pp = bound_policy prio (policy_of prio)"
  have get: "wlibc_thread_getschedparam nt thread s k = Some (Inr pp)"
    using thread assms by (simp add: wlibc_thread_getschedparam_def pp_def)
  have valid: "valid_sched pp"
    by (auto simp: pp_def bound_policy_of valid_sched_def sched_policy_valid_def sched_priority_valid_def SCHED_MAX_PRIORITY_def
        SCHED_MIN_PRIORITY_def)
  have sum: "base_priority (fst pp) + snd pp = prio" if "2 \<le> prio" "prio \<le> 15"
    using that by (simp add: pp_def bound_policy_of base_priority_def sched_consts)
  have set: "wlibc_thread_setschedparam nt thread (fst pp) (Some (snd pp)) s k
      = Some (status_result (fst (NtSetPriority nt k (t_handle t) prio)) (), snd (NtSetPriority nt k (t_handle t) prio))"
    if "2 \<le> prio" "prio \<le> 15"
    using thread assms(1) valid sum [OF that]
    by (simp add: wlibc_thread_setschedparam_def valid_sched_def case_prod_beta)
  have again: "pp = (policy, p) \<longleftrightarrow> policy = SCHED_FIFO \<or> p \<in> {- 1, 0} \<or> policy = SCHED_IDLE \<and> p = - 2"
    if "valid_sched (policy, p)" "prio = base_priority policy + p" for policy p
    using that unfolding pp_def bound_policy_of
    by (auto simp: valid_sched_def sched_policy_valid_def sched_priority_valid_def base_priority_def sched_consts)
  show ?thesis using get valid sum set again by blast
qed

theorem sched_parameters_read_back_witness:
  "\<exists>pp. wlibc_thread_getschedparam demo_nt 1 demo () = Some (Inr pp) \<and> base_priority (fst pp) + snd pp = 8"
proof -
  have "deref 1 demo = Some (zero_threadinfo\<lparr>t_slots := 9 # replicate 63 0\<rparr>)" by (simp add: demo_def deref_def)
  from sched_parameters_read_back [OF this, of demo_nt "()" 8] show ?thesis by (auto simp: demo_nt_def)
qed

section \<open>Attributes\<close>

datatype attr_op =
    SetDetachState int | SetSuspendState int | SetStackSize nat | SetScope int | SetInheritSched int
  | SetSchedParam int | SetSchedPolicy int | SetAffinity cpu_set

definition kept :: "'a \<Rightarrow> 'a res \<Rightarrow> 'a" where
  "kept a r = (case r of Inl _ \<Rightarrow> a | Inr b \<Rightarrow> b)"

fun attr_apply :: "attr_op \<Rightarrow> thread_attr_t \<Rightarrow> thread_attr_t" where
  "attr_apply (SetDetachState v) a = kept a (wlibc_threadattr_setdetachstate (Some a) v)"
| "attr_apply (SetSuspendState v) a = kept a (wlibc_threadattr_setsuspendstate (Some a) v)"
| "attr_apply (SetStackSize v) a = kept a (wlibc_threadattr_setstacksize (Some a) v)"
| "attr_apply (SetScope v) a = kept a (wlibc_threadattr_setscope (Some a) v)"
| "attr_apply (SetInheritSched v) a = kept a (wlibc_threadattr_setinheritsched (Some a) v)"
| "attr_apply (SetSchedParam v) a = kept a (wlibc_threadattr_setschedparam (Some a) (Some v))"
| "attr_apply (SetSchedPolicy v) a = kept a (wlibc_threadattr_setschedpolicy (Some a) v)"
| "attr_apply (SetAffinity c) a = kept a (wlibc_threadattr_setaffinity (Some a) (Some c))"

definition attr_valid :: "thread_attr_t \<Rightarrow> bool" where
  "attr_valid a \<longleftrightarrow> ta_detachstate a \<in> {WLIBC_THREAD_JOINABLE, WLIBC_THREAD_DETACHED}
     \<and> ta_suspendstate a \<in> {WLIBC_THREAD_RUNNING, WLIBC_THREAD_SUSPENDED}
     \<and> ta_inherit a \<in> {WLIBC_THREAD_INHERIT_SCHED, WLIBC_THREAD_EXPLICIT_SCHED}
     \<and> valid_sched (ta_policy a, ta_priority a)
     \<and> (case ta_set_ptr a of None \<Rightarrow> True | Some c \<Rightarrow> num_cpus c > 0)"

lemmas attr_setters = wlibc_threadattr_setdetachstate_def wlibc_threadattr_setsuspendstate_def
  wlibc_threadattr_setstacksize_def wlibc_threadattr_setscope_def wlibc_threadattr_setinheritsched_def
  wlibc_threadattr_setschedparam_def wlibc_threadattr_setschedpolicy_def wlibc_threadattr_setaffinity_def

lemma attr_valid_init: "attr_valid (wlibc_threadattr_init a)"
  by (simp add: attr_valid_def wlibc_threadattr_init_def valid_sched_def sched_policy_valid_def sched_priority_valid_def
      SCHED_MAX_PRIORITY_def SCHED_MIN_PRIORITY_def)

lemma attr_valid_apply: "attr_valid a \<Longrightarrow> attr_valid (attr_apply op a)"
  by (cases op) (auto simp: attr_setters attr_valid_def kept_def valid_sched_def sched_priority_valid_def)

lemma attr_valid_fold: "attr_valid a \<Longrightarrow> attr_valid (fold attr_apply ops a)"
  by (induction ops arbitrary: a) (auto intro: attr_valid_apply)

text \<open>C39: whatever sequence of setters is applied to initialised thread attributes, every field holds
  a value the library accepts, the getters return those fields, and creating a thread with explicit
  scheduling passes its policy and priority on to the kernel: they are never rejected there.\<close>

theorem attributes_stay_valid:
  fixes ops a0
  defines "a \<equiv> fold attr_apply ops (wlibc_threadattr_init a0)"
  shows "attr_valid a \<and> wlibc_threadattr_getschedpolicy (Some a) True = Inr (ta_policy a)
    \<and> wlibc_threadattr_getschedparam (Some a) True = Inr (ta_priority a)
    \<and> (deref thread s = Some t \<longrightarrow> wlibc_thread_setschedparam nt thread (ta_policy a) (Some (ta_priority a)) s k
        = Some (let (status, k1) = NtSetPriority nt k (t_handle t) (base_priority (ta_policy a) + ta_priority a)
                in (status_result status (), k1)))"
proof -
  have v: "attr_valid a" unfolding a_def by (rule attr_valid_fold [OF attr_valid_init])
  then have "sched_policy_valid (ta_policy a)" "sched_priority_valid (ta_priority a)"
    by (simp_all add: attr_valid_def valid_sched_def)
  then show ?thesis
    using v deref_nonzero [of thread s t]
    by (cases "thread = 0") (auto simp: wlibc_threadattr_getschedpolicy_def wlibc_threadattr_getschedparam_def attr_get_def
        wlibc_thread_setschedparam_def case_prod_beta)
qed

theorem attributes_stay_valid_witness:
  "\<exists>a. a = fold attr_apply [SetSchedPolicy 3, SetSchedPolicy 4, SetDetachState 1, SetSchedParam 5]
      (wlibc_threadattr_init \<lparr>ta_detachstate = 7, ta_suspendstate = 7, ta_inherit = 7, ta_policy = 7, ta_priority = 7,
         ta_stacksize = 7, ta_set_ptr = None\<rparr>)
    \<and> wlibc_thread_setschedparam demo_nt 1 (ta_policy a) (Some (ta_priority a)) demo () = Some (Inr (), ())"
  (is "\<exists>a. a = fold attr_apply ?ops (wlibc_threadattr_init ?a0) \<and> _")
proof -
  have "deref 1 demo = Some (zero_threadinfo\<lparr>t_slots := 9 # replicate 63 0\<rparr>)" by (simp add: demo_def deref_def)
  moreover note attributes_stay_valid [where ops = ?ops and ?a0.0 = ?a0 and thread = 1 and s = demo and nt = demo_nt
      and k = "()" and t = "zero_threadinfo\<lparr>t_slots := 9 # replicate 63 0\<rparr>"]
  ultimately show ?thesis by (auto simp: demo_nt_def status_result_def)
qed

end
