(* ===== verification/Signals.thy ===== *)
theory Signals
  imports Threads BitSets
begin

unbundle bit_operations_syntax

text \<open>
  Signals (src/signal/internal.c, raise.c, sigaction.c, signal.c, sigprocmask.c).

  The process state is that of the threads extended by the signal table. The mask and the pending
  set are those of the running thread. User handlers are a parameter: a handler is called with the
  signal number on the whole state, so it may call every function of this theory. A call either
  returns (\<open>Running\<close>) or ends the process with an exit status (\<open>Exited\<close>); suspending the process
  is an effect on the rest of the state, given by \<open>NtSuspendProcess\<close>. Calling an address that is not
  a function, and the use of a thread structure that does not exist, are undefined (\<open>None\<close>).
\<close>

section \<open>State\<close>

datatype signal_t = SIG_ERR | SIG_DFL | SIG_IGN | SIG_GET | HANDLER ptr

record siginfo =
  si_action :: signal_t
  si_flags :: "32 word"
  si_mask :: sigset

record sigprocess = process +
  signal_table :: "siginfo list"

record sigaction_t =
  sa_handler :: signal_t
  sa_mask :: sigset
  sa_flags :: "32 word"

datatype 'a run = Exited int | Running 'a

record 'z sig_env =
  run_handler :: "ptr \<Rightarrow> int \<Rightarrow> 'z sigprocess_scheme \<Rightarrow> 'z sigprocess_scheme run ub"
  NtSuspendProcess :: "'z sigprocess_scheme \<Rightarrow> 'z sigprocess_scheme"

definition SIGHUP :: int where "SIGHUP = 1"
definition SIGINT :: int where "SIGINT = 2"
definition SIGQUIT :: int where "SIGQUIT = 3"
definition SIGILL :: int where "SIGILL = 4"
definition SIGTRAP :: int where "SIGTRAP = 5"
definition SIGABRT :: int where "SIGABRT = 6"
definition SIGBUS :: int where "SIGBUS = 7"
definition SIGFPE :: int where "SIGFPE = 8"
definition SIGKILL :: int where "SIGKILL = 9"
definition SIGUSR1 :: int where "SIGUSR1 = 10"
definition SIGSEGV :: int where "SIGSEGV = 11"
definition SIGUSR2 :: int where "SIGUSR2 = 12"
definition SIGPIPE :: int where "SIGPIPE = 13"
definition SIGALRM :: int where "SIGALRM = 14"
definition SIGTERM :: int where "SIGTERM = 15"
definition SIGSTKFLT :: int where "SIGSTKFLT = 16"
definition SIGCHLD :: int where "SIGCHLD = 17"
definition SIGCONT :: int where "SIGCONT = 18"
definition SIGTTIN :: int where "SIGTTIN = 19"
definition SIGTTOU :: int where "SIGTTOU = 20"
definition SIGTSTP :: int where "SIGTSTP = 21"
definition SIGSTOP :: int where "SIGSTOP = 22"
definition SIGURG :: int where "SIGURG = 23"
definition SIGXCPU :: int where "SIGXCPU = 24"
definition SIGXFSZ :: int where "SIGXFSZ = 25"
definition SIGVTALRM :: int where "SIGVTALRM = 26"
definition SIGPROF :: int where "SIGPROF = 27"
definition SIGWINCH :: int where "SIGWINCH = 28"
definition SIGPOLL :: int where "SIGPOLL = 29"
definition SIGPWR :: int where "SIGPWR = 30"
definition SIGSYS :: int where "SIGSYS = 31"

lemmas signal_numbers = SIGHUP_def SIGINT_def SIGQUIT_def SIGILL_def SIGTRAP_def SIGABRT_def SIGBUS_def
  SIGFPE_def SIGKILL_def SIGUSR1_def SIGSEGV_def SIGUSR2_def SIGPIPE_def SIGALRM_def SIGTERM_def
  SIGSTKFLT_def SIGCHLD_def SIGCONT_def SIGTTIN_def SIGTTOU_def SIGTSTP_def SIGSTOP_def SIGURG_def
  SIGXCPU_def SIGXFSZ_def SIGVTALRM_def SIGPROF_def SIGWINCH_def SIGPOLL_def SIGPWR_def SIGSYS_def

definition SA_NODEFER :: "32 word" where "SA_NODEFER = 0x04"
definition SA_RESETHAND :: "32 word" where "SA_RESETHAND = 0x10"
definition SIG_BLOCK :: int where "SIG_BLOCK = 0"
definition SIG_UNBLOCK :: int where "SIG_UNBLOCK = 1"
definition SIG_SETMASK :: int where "SIG_SETMASK = 2"

section \<open>The signal table\<close>

definition signal_init :: "'z sigprocess_scheme \<Rightarrow> 'z sigprocess_scheme" where
  "signal_init s = s\<lparr>signal_table := replicate (nat NSIG) \<lparr>si_action = SIG_DFL, si_flags = 0, si_mask = 0\<rparr>\<rparr>"

definition get_siginfo :: "int \<Rightarrow> 'z sigprocess_scheme \<Rightarrow> siginfo ub" where
  "get_siginfo sig s = (if sig < 0 then None else load (signal_table s) (nat sig))"

definition set_siginfo :: "int \<Rightarrow> siginfo \<Rightarrow> 'z sigprocess_scheme \<Rightarrow> 'z sigprocess_scheme ub" where
  "set_siginfo sig i s =
     (if sig < 0 then None else map_option (\<lambda>tb. s\<lparr>signal_table := tb\<rparr>) (store (nat sig) i (signal_table s)))"

section \<open>raise\<close>

text \<open>The cases of the default action, in the order of the source.\<close>

definition default_action :: "'z sig_env \<Rightarrow> int \<Rightarrow> 'z sigprocess_scheme \<Rightarrow> 'z sigprocess_scheme run" where
  "default_action env sig s =
     (if sig \<in> {SIGCHLD, SIGURG, SIGWINCH} then Running s
      else if sig \<in> {SIGHUP, SIGINT, SIGKILL, SIGUSR1, SIGUSR2, SIGPIPE, SIGALRM, SIGTERM, SIGSTKFLT, SIGVTALRM,
          SIGPROF, SIGPOLL, SIGPWR} then Exited (128 + sig)
      else if sig \<in> {SIGQUIT, SIGILL, SIGTRAP, SIGABRT, SIGBUS, SIGFPE, SIGSEGV, SIGXCPU, SIGXFSZ, SIGSYS}
        then Exited (128 + sig)
      else if sig = SIGCONT then Running s
      else if sig \<in> {SIGTTIN, SIGTTOU, SIGTSTP, SIGSTOP} then Running (NtSuspendProcess env s)
      else Running s)"

definition execute_signal_handler ::
  "'z sig_env \<Rightarrow> siginfo \<Rightarrow> int \<Rightarrow> 'z sigprocess_scheme \<Rightarrow> 'z sigprocess_scheme run ub" where
  "execute_signal_handler env i sig s = (case si_action i of
       SIG_DFL \<Rightarrow> Some (default_action env sig s)
     | HANDLER f \<Rightarrow> run_handler env f sig s
     | _ \<Rightarrow> None)"

definition sig_bit :: "int \<Rightarrow> sigset" where
  "sig_bit sig = push_bit (nat sig) 1"

text \<open>What \<open>wlibc_raise\<close> does before it runs the handler: the mask of the thread grows, and a
  one-shot action goes back to the default.\<close>

definition enter_handler :: "siginfo \<Rightarrow> int \<Rightarrow> threadinfo \<Rightarrow> 'z sigprocess_scheme \<Rightarrow> 'z sigprocess_scheme ub" where
  "enter_handler i sig t s = (let
     m1 = t_sigmask t OR si_mask i;
     m2 = (if si_flags i AND SA_NODEFER = 0 then m1 OR sig_bit sig else m1);
     s1 = put_thread (self s) (t\<lparr>t_sigmask := m2\<rparr>) s in
     if si_flags i AND SA_RESETHAND \<noteq> 0
     then do { j \<leftarrow> get_siginfo sig s1; set_siginfo sig (j\<lparr>si_action := SIG_DFL\<rparr>) s1 }
     else Some s1)"

definition wlibc_raise ::
  "'z sig_env \<Rightarrow> int \<Rightarrow> 'z sigprocess_scheme \<Rightarrow> (unit res \<times> 'z sigprocess_scheme) run ub" where
  "wlibc_raise env sig s =
     (if \<not> validate_signal sig then Some (Running (fail_with EINVAL, s))
      else do {
        i \<leftarrow> get_siginfo sig s;
        if self s = 0 then
          (if si_action i = SIG_IGN then Some (Running (Inr (), s))
           else map_option (map_run (Pair (Inr ()))) (execute_signal_handler env i sig s))
        else do {
          t \<leftarrow> deref (self s) s;
          if t_sigmask t AND sig_bit sig \<noteq> 0
          then Some (Running (Inr (), put_thread (self s) (t\<lparr>t_pending := t_pending t OR sig_bit sig\<rparr>) s))
          else if si_action i = SIG_IGN then Some (Running (Inr (), s))
          else do {
            s1 \<leftarrow> enter_handler i sig t s;
            r \<leftarrow> execute_signal_handler env i sig s1;
            case r of
              Exited c \<Rightarrow> Some (Exited c)
            | Running s2 \<Rightarrow> do {
                t2 \<leftarrow> deref (self s) s2;
                Some (Running (Inr (), put_thread (self s) (t2\<lparr>t_sigmask := t_sigmask t\<rparr>) s2)) } } } })"

section \<open>sigaction and signal\<close>

text \<open>The second component is what is stored in \<open>old_action\<close>, when it is given.\<close>

definition do_sigaction ::
  "int \<Rightarrow> sigaction_t option \<Rightarrow> bool \<Rightarrow> 'z sigprocess_scheme \<Rightarrow> (unit res \<times> sigaction_t option \<times> 'z sigprocess_scheme) ub" where
  "do_sigaction sig new_action old_action s = do {
     old \<leftarrow> (if old_action then do {
         i \<leftarrow> get_siginfo sig s;
         Some (Some \<lparr>sa_handler = si_action i, sa_mask = si_mask i, sa_flags = si_flags i\<rparr>) }
       else Some None);
     case new_action of
       None \<Rightarrow> Some (Inr (), old, s)
     | Some a \<Rightarrow>
         if sig = SIGKILL \<or> sig = SIGSTOP then Some (fail_with EINVAL, old, s)
         else do {
           s1 \<leftarrow> set_siginfo sig \<lparr>si_action = sa_handler a, si_flags = sa_flags a, si_mask = sa_mask a\<rparr> s;
           Some (Inr (), old, s1) } }"

definition wlibc_sigaction ::
  "int \<Rightarrow> sigaction_t option \<Rightarrow> bool \<Rightarrow> 'z sigprocess_scheme \<Rightarrow> (unit res \<times> sigaction_t option \<times> 'z sigprocess_scheme) ub" where
  "wlibc_sigaction sig new_action old_action s =
     (if \<not> validate_signal sig then Some (fail_with EINVAL, None, s) else do_sigaction sig new_action old_action s)"

definition wlibc_signal :: "int \<Rightarrow> signal_t \<Rightarrow> 'z sigprocess_scheme \<Rightarrow> (signal_t res \<times> 'z sigprocess_scheme) ub" where
  "wlibc_signal sig handler s =
     (if sig \<le> 0 \<or> sig \<ge> NSIG then Some (fail_with EINVAL, s)
      else if handler = SIG_ERR then Some (fail_with EINVAL, s)
      else if handler = SIG_GET then do {
        (_, old, _) \<leftarrow> do_sigaction sig None True s;
        a \<leftarrow> old;
        Some (Inr (sa_handler a), s) }
      else do {
        (status, old, s1) \<leftarrow> do_sigaction sig (Some \<lparr>sa_handler = handler, sa_mask = sig_bit sig, sa_flags = 0\<rparr>) True s;
        case status of
          Inl e \<Rightarrow> Some (Inl e, s1)
        | Inr _ \<Rightarrow> do { a \<leftarrow> old; Some (Inr (sa_handler a), s1) } })"

section \<open>sigpending and sigprocmask\<close>

definition wlibc_sigpending :: "bool \<Rightarrow> 'z sigprocess_scheme \<Rightarrow> sigset res ub" where
  "wlibc_sigpending given s =
     (if \<not> given then Some (fail_with EINVAL) else map_option (\<lambda>t. Inr (t_pending t)) (deref (self s) s))"

text \<open>The delivery loop, for the numbers from \<open>i\<close> on, \<open>k\<close> of them.\<close>

fun raise_pending ::
  "'z sig_env \<Rightarrow> sigset \<Rightarrow> nat \<Rightarrow> nat \<Rightarrow> 'z sigprocess_scheme \<Rightarrow> 'z sigprocess_scheme run ub" where
  "raise_pending env p i 0 s = Some (Running s)"
| "raise_pending env p i (Suc k) s =
     (if p AND sig_bit (int i) \<noteq> 0 then do {
        t \<leftarrow> deref (self s) s;
        r \<leftarrow> wlibc_raise env (int i) (put_thread (self s) (t\<lparr>t_pending := t_pending t AND NOT (sig_bit (int i))\<rparr>) s);
        case r of Exited c \<Rightarrow> Some (Exited c) | Running (_, s1) \<Rightarrow> raise_pending env p (Suc i) k s1 }
      else raise_pending env p (Suc i) k s)"

definition new_mask :: "int \<Rightarrow> sigset \<Rightarrow> sigset \<Rightarrow> sigset" where
  "new_mask how new old =
     (if how = SIG_BLOCK then old OR new else if how = SIG_UNBLOCK then old AND NOT new else new)"

definition wlibc_sigprocmask ::
  "'z sig_env \<Rightarrow> int \<Rightarrow> sigset option \<Rightarrow> bool \<Rightarrow> 'z sigprocess_scheme
     \<Rightarrow> (unit res \<times> sigset option \<times> 'z sigprocess_scheme) run ub" where
  "wlibc_sigprocmask env how newset oldset s = do {
     t \<leftarrow> deref (self s) s;
     if how \<noteq> SIG_BLOCK \<and> how \<noteq> SIG_UNBLOCK \<and> how \<noteq> SIG_SETMASK then Some (Running (fail_with EINVAL, None, s))
     else let old = (if oldset then Some (t_sigmask t) else None) in
       case newset of
         None \<Rightarrow> Some (Running (Inr (), old, s))
       | Some new \<Rightarrow>
           if new > push_bit (nat (NSIG - 1)) 2 - 1 \<or> new AND sig_bit SIGKILL \<noteq> 0 \<or> new AND sig_bit SIGSTOP \<noteq> 0
           then Some (Running (fail_with EINVAL, old, s))
           else do {
             let m = new_mask how new (t_sigmask t);
             let s1 = put_thread (self s) (t\<lparr>t_sigmask := m\<rparr>) s;
             let p = t_pending t AND (t_sigmask t AND NOT m);
             r \<leftarrow> (if p \<noteq> 0 then raise_pending env p 1 (nat (NSIG - 2)) s1 else Some (Running s1));
             Some (map_run (\<lambda>s2. (Inr (), old, s2)) r) } }"

end
