(* ===== verification/SignalProps.thy ===== *)
theory SignalProps
  imports Signals
begin

unbundle bit_operations_syntax

text \<open>
  Properties of signals. The interface \<open>handlers\<close> says what the library needs of user handlers: that
  they come back to the same thread and keep the table entries of SIGKILL and SIGSTOP. The library's
  own functions keep both, so handlers that are programs over the library, nested to any depth, meet
  the interface. Delivery of pending signals is compared with a reference that raises them one by
  one.
\<close>

section \<open>Reading the state\<close>

definition mask_of :: "'z sigprocess_scheme \<Rightarrow> sigset" where
  "mask_of s = (case deref (self s) s of Some t \<Rightarrow> t_sigmask t | None \<Rightarrow> 0)"

definition pending_of :: "'z sigprocess_scheme \<Rightarrow> sigset" where
  "pending_of s = (case deref (self s) s of Some t \<Rightarrow> t_pending t | None \<Rightarrow> 0)"

definition alive :: "'z sigprocess_scheme \<Rightarrow> bool" where
  "alive s \<longleftrightarrow> deref (self s) s \<noteq> None"

definition tbl_ok :: "siginfo list \<Rightarrow> bool" where
  "tbl_ok tb \<longleftrightarrow> length tb = 32 \<and> si_action (tb ! 9) = SIG_DFL \<and> si_action (tb ! 22) = SIG_DFL"

definition table_ok :: "'z sigprocess_scheme \<Rightarrow> bool" where
  "table_ok s \<longleftrightarrow> tbl_ok (signal_table s)"

definition protected :: "'z sigprocess_scheme \<Rightarrow> bool" where
  "protected s \<longleftrightarrow> alive s \<and> table_ok s"

definition unblocked :: "'z sigprocess_scheme \<Rightarrow> bool" where
  "unblocked s \<longleftrightarrow> \<not> bit (mask_of s) 9 \<and> \<not> bit (mask_of s) 22"

lemma pending_sigmask_swap: "t\<lparr>t_pending := a, t_sigmask := b\<rparr> = t\<lparr>t_sigmask := b, t_pending := a\<rparr>"
  by simp

lemma map_run_Running [simp]: "map_run f r = Running y \<longleftrightarrow> (\<exists>x. r = Running x \<and> y = f x)"
  by (cases r) auto

lemma put_thread_table [simp]: "signal_table (put_thread a t s) = signal_table s"
  by (simp add: put_thread_def)

lemma aliveE: "alive s \<Longrightarrow> (\<And>t. self s \<noteq> 0 \<Longrightarrow> deref (self s) s = Some t \<Longrightarrow> P) \<Longrightarrow> P"
  by (auto simp: alive_def deref_def split: if_splits)

lemma table_ok_put [simp]: "table_ok (put_thread a t s) = table_ok s"
  by (simp add: table_ok_def)

lemma deref_table [simp]: "deref a (s\<lparr>signal_table := tb\<rparr>) = deref a s"
  by (simp add: deref_def)

lemma bit_sig_bit: "bit (sig_bit sig) n \<longleftrightarrow> n = nat sig \<and> n < 32"
  by (auto simp: sig_bit_def bit_exp_iff)

lemma and_sig_bit: "0 \<le> sig \<Longrightarrow> sig < 32 \<Longrightarrow> w AND sig_bit sig = 0 \<longleftrightarrow> \<not> bit w (nat sig)"
  using and_shifted_one_eq_0 [of w "nat sig"] by (simp add: sig_bit_def nat_less_iff)

lemma validate_signalD: "validate_signal sig \<Longrightarrow> 0 < sig \<and> sig < 32"
  by (simp add: validate_signal_def NSIG_def)

lemma validate_signal_nonneg: "validate_signal sig \<Longrightarrow> 0 \<le> sig"
  by (drule validate_signalD) simp

lemma get_siginfo_total: "validate_signal sig \<Longrightarrow> table_ok s \<Longrightarrow> get_siginfo sig s = Some (signal_table s ! nat sig)"
  by (auto dest!: validate_signalD simp: get_siginfo_def table_ok_def tbl_ok_def)

lemma set_siginfo_total:
  "validate_signal sig \<Longrightarrow> table_ok s \<Longrightarrow> set_siginfo sig i s = Some (s\<lparr>signal_table := (signal_table s)[nat sig := i]\<rparr>)"
  by (auto dest!: validate_signalD simp: set_siginfo_def table_ok_def tbl_ok_def)

lemma tbl_ok_update:
  assumes "tbl_ok tb" "sig \<ge> 0" "si_action i = SIG_DFL \<or> sig \<noteq> SIGKILL \<and> sig \<noteq> SIGSTOP"
  shows "tbl_ok (tb[nat sig := i])"
  using assms by (auto simp: tbl_ok_def nth_update_if signal_numbers)

lemma table_ok_update [simp]: "table_ok (s\<lparr>signal_table := tb\<rparr>) = tbl_ok tb"
  by (simp add: table_ok_def)

section \<open>Entering and leaving a handler\<close>

lemma enter_handler_total:
  assumes "validate_signal sig" "table_ok s" "deref (self s) s = Some t"
  shows "\<exists>s1. enter_handler i sig t s = Some s1 \<and> table_ok s1 \<and> self s1 = self s \<and> alive s1
    \<and> pending_of s1 = t_pending t"
proof -
  have self: "self s \<noteq> 0" using assms(3) by (rule deref_nonzero)
  have v: "0 \<le> sig" using validate_signalD [OF assms(1)] by simp
  show ?thesis
    using assms self v
    by (auto simp: enter_handler_def Let_def get_siginfo_total set_siginfo_total alive_def pending_of_def
        intro!: tbl_ok_update simp flip: table_ok_def)
qed

text \<open>What the library needs of the handlers a process installs.\<close>

locale handlers =
  fixes env :: "'z sig_env"
  assumes handler_keeps: "protected s \<Longrightarrow> run_handler env f sig s = Some (Running s') \<Longrightarrow> protected s' \<and> self s' = self s"
    and suspend_keeps: "protected s \<Longrightarrow> protected (NtSuspendProcess env s) \<and> self (NtSuspendProcess env s) = self s"
begin

lemma execute_keeps:
  "protected s \<Longrightarrow> execute_signal_handler env i sig s = Some (Running s') \<Longrightarrow> protected s' \<and> self s' = self s"
  by (auto simp: execute_signal_handler_def default_action_def dest: handler_keeps suspend_keeps
      split: signal_t.splits if_splits)

lemma raise_keeps:
  assumes "protected s" "wlibc_raise env sig s = Some (Running (r, s'))"
  shows "protected s' \<and> self s' = self s \<and> mask_of s' = mask_of s"
proof (cases "validate_signal sig")
  case False
  then show ?thesis using assms by (simp add: wlibc_raise_def)
next
  case valid: True
  from assms(1) obtain t where t: "self s \<noteq> 0" "deref (self s) s = Some t" and ok: "table_ok s"
    by (auto simp: protected_def elim: aliveE)
  define i where "i = signal_table s ! nat sig"
  have i: "get_siginfo sig s = Some i" using valid ok by (simp add: get_siginfo_total i_def)
  obtain s1 where s1: "enter_handler i sig t s = Some s1" "protected s1" "self s1 = self s"
    using enter_handler_total [OF valid ok t(2), of i] by (auto simp: protected_def)
  show ?thesis
  proof (cases "t_sigmask t AND sig_bit sig \<noteq> 0 \<or> si_action i = SIG_IGN")
    case True
    then show ?thesis using assms valid i t
      by (auto simp: wlibc_raise_def protected_def alive_def mask_of_def split: if_splits)
  next
    case False
    with assms(2) valid i t s1(1) obtain s2 t2 where
      s2: "execute_signal_handler env i sig s1 = Some (Running s2)" "deref (self s) s2 = Some t2"
      and s': "s' = put_thread (self s) (t2\<lparr>t_sigmask := t_sigmask t\<rparr>) s2"
      by (auto simp: wlibc_raise_def split: bind_splits run.splits)
    have "protected s2 \<and> self s2 = self s1" by (rule execute_keeps [OF s1(2) s2(1)])
    then show ?thesis using s' s1(3) t by (auto simp: protected_def alive_def mask_of_def)
  qed
qed

lemma raise_pending_keeps:
  "protected s \<Longrightarrow> raise_pending env p i k s = Some (Running s') \<Longrightarrow>
     protected s' \<and> self s' = self s \<and> mask_of s' = mask_of s"
proof (induction k arbitrary: i s)
  case 0
  then show ?case by simp
next
  case (Suc k)
  show ?case
  proof (cases "p AND sig_bit (int i) \<noteq> 0")
    case False
    then show ?thesis using Suc by simp
  next
    case True
    from Suc.prems(1) obtain t where t: "self s \<noteq> 0" "deref (self s) s = Some t"
      by (auto simp: protected_def elim: aliveE)
    let ?s = "put_thread (self s) (t\<lparr>t_pending := t_pending t AND NOT (sig_bit (int i))\<rparr>) s"
    have p: "protected ?s" "self ?s = self s" "mask_of ?s = mask_of s"
      using Suc.prems(1) t by (simp_all add: protected_def alive_def mask_of_def)
    from Suc.prems(2) True t obtain r s1 where
      s1: "wlibc_raise env (int i) ?s = Some (Running (r, s1))" "raise_pending env p (Suc i) k s1 = Some (Running s')"
      by (auto split: bind_splits run.splits)
    have r: "protected s1 \<and> self s1 = self ?s \<and> mask_of s1 = mask_of ?s" by (rule raise_keeps [OF p(1) s1(1)])
    show ?thesis using Suc.IH [OF _ s1(2)] r p by simp
  qed
qed

lemma sigprocmask_keeps:
  assumes "protected s" "wlibc_sigprocmask env how new old s = Some (Running (r, o', s'))"
  shows "protected s' \<and> self s' = self s \<and> (unblocked s \<longrightarrow> unblocked s')"
proof -
  from assms(1) obtain t where t: "self s \<noteq> 0" "deref (self s) s = Some t" and ok: "table_ok s"
    by (auto simp: protected_def elim: aliveE)
  show ?thesis
  proof (cases "s' = s")
    case True
    then show ?thesis using assms by simp
  next
    case False
    let ?m = "\<lambda>n. new_mask how n (t_sigmask t)"
    let ?s = "\<lambda>n. put_thread (self s) (t\<lparr>t_sigmask := ?m n\<rparr>) s"
    from assms(2) False t obtain n where n: "n AND sig_bit SIGKILL = 0" "n AND sig_bit SIGSTOP = 0"
      and s': "s' = ?s n \<or> (\<exists>p. raise_pending env p 1 (nat (NSIG - 2)) (?s n) = Some (Running s'))"
      by (auto simp: wlibc_sigprocmask_def Let_def split: option.splits if_splits bind_splits run.splits)
    have m: "\<not> bit (?m n) 9" "\<not> bit (?m n) 22" if "unblocked s"
      using n that t by (auto simp: and_sig_bit signal_numbers new_mask_def bit_simps mask_of_def unblocked_def)
    have "protected (?s n)" "self (?s n) = self s" "mask_of (?s n) = ?m n"
      using assms(1) t by (simp_all add: protected_def alive_def mask_of_def)
    then show ?thesis using s' m by (auto simp: unblocked_def dest: raise_pending_keeps)
  qed
qed

end

section \<open>Handlers written over the library\<close>

lemma sigaction_keeps:
  assumes "protected s" "wlibc_sigaction sig new old s = Some (r, o', s')"
  shows "protected s' \<and> self s' = self s \<and> mask_of s' = mask_of s"
  using assms
  by (auto simp: wlibc_sigaction_def do_sigaction_def protected_def alive_def mask_of_def set_siginfo_total
      get_siginfo_total table_ok_def [symmetric] intro!: tbl_ok_update intro: validate_signal_nonneg
      split: if_splits option.splits bind_splits)

datatype sig_call =
    Raise int
  | Sigaction int sigaction_t
  | Signal int signal_t
  | Sigprocmask int sigset

fun do_call :: "'z sig_env \<Rightarrow> sig_call \<Rightarrow> 'z sigprocess_scheme \<Rightarrow> 'z sigprocess_scheme run ub" where
  "do_call env (Raise sig) s = map_option (map_run snd) (wlibc_raise env sig s)"
| "do_call env (Sigaction sig a) s = map_option (\<lambda>(_, _, s'). Running s') (wlibc_sigaction sig (Some a) True s)"
| "do_call env (Signal sig h) s = map_option (\<lambda>(_, s'). Running s') (wlibc_signal sig h s)"
| "do_call env (Sigprocmask how m) s = map_option (map_run (snd \<circ> snd)) (wlibc_sigprocmask env how (Some m) True s)"

fun sig_calls :: "'z sig_env \<Rightarrow> sig_call list \<Rightarrow> 'z sigprocess_scheme \<Rightarrow> 'z sigprocess_scheme run ub" where
  "sig_calls env [] s = Some (Running s)"
| "sig_calls env (c # cs) s = do {
     r \<leftarrow> do_call env c s;
     case r of Exited e \<Rightarrow> Some (Exited e) | Running s1 \<Rightarrow> sig_calls env cs s1 }"

text \<open>A process whose handlers are programs over the library; \<open>n\<close> bounds how deep handlers nest,
  beyond it the stack is exhausted.\<close>

fun scripted :: "(ptr \<Rightarrow> sig_call list) \<Rightarrow> nat \<Rightarrow> 'z sig_env" where
  "scripted prog 0 = \<lparr>run_handler = (\<lambda>f sig s. None), NtSuspendProcess = id\<rparr>"
| "scripted prog (Suc n) = \<lparr>run_handler = (\<lambda>f sig s. sig_calls (scripted prog n) (prog f) s), NtSuspendProcess = id\<rparr>"

lemma signal_keeps:
  assumes "protected s" "wlibc_signal sig h s = Some (r, s')"
  shows "protected s' \<and> self s' = self s \<and> mask_of s' = mask_of s"
proof -
  have valid: "validate_signal sig \<or> s' = s"
    using assms(2) by (auto simp: wlibc_signal_def validate_signal_def split: if_splits)
  show ?thesis
  proof (cases "s' = s")
    case False
    then obtain r' o' where "wlibc_sigaction sig (Some \<lparr>sa_handler = h, sa_mask = sig_bit sig, sa_flags = 0\<rparr>) True s
        = Some (r', o', s')"
      using assms(2) valid
      by (auto simp: wlibc_signal_def wlibc_sigaction_def split: if_splits bind_splits sum.splits)
    then show ?thesis by (rule sigaction_keeps [OF assms(1)])
  qed (use assms in simp)
qed

context handlers
begin

lemma call_keeps:
  assumes "protected s" "do_call env c s = Some (Running s')"
  shows "protected s' \<and> self s' = self s \<and> (unblocked s \<longrightarrow> unblocked s')"
proof (cases c)
  case (Raise sig)
  with assms(2) obtain r where "wlibc_raise env sig s = Some (Running (r, s'))" by auto
  from raise_keeps [OF assms(1) this] show ?thesis by (simp add: unblocked_def)
next
  case (Sigaction sig a)
  with assms(2) obtain r o' where "wlibc_sigaction sig (Some a) True s = Some (r, o', s')" by auto
  from sigaction_keeps [OF assms(1) this] show ?thesis by (simp add: unblocked_def)
next
  case (Signal sig h)
  with assms(2) obtain r where "wlibc_signal sig h s = Some (r, s')" by auto
  from signal_keeps [OF assms(1) this] show ?thesis by (simp add: unblocked_def)
next
  case (Sigprocmask how m)
  with assms(2) obtain r o' where "wlibc_sigprocmask env how (Some m) True s = Some (Running (r, o', s'))" by auto
  from sigprocmask_keeps [OF assms(1) this] show ?thesis .
qed

lemma calls_keep:
  "protected s \<Longrightarrow> sig_calls env cs s = Some (Running s') \<Longrightarrow>
     protected s' \<and> self s' = self s \<and> (unblocked s \<longrightarrow> unblocked s')"
proof (induction cs arbitrary: s)
  case (Cons c cs)
  from Cons.prems(2) obtain s1 where s1: "do_call env c s = Some (Running s1)" "sig_calls env cs s1 = Some (Running s')"
    by (auto split: bind_splits run.splits)
  show ?case using call_keeps [OF Cons.prems(1) s1(1)] Cons.IH [OF _ s1(2)] by simp
qed simp

end

lemma handlers_scripted: "handlers (scripted prog n)"
proof (induction n)
  case 0
  show ?case by unfold_locales auto
next
  case (Suc n)
  show ?case by unfold_locales (auto dest: handlers.calls_keep [OF Suc])
qed

interpretation script: handlers "scripted prog n" for prog n
  by (rule handlers_scripted)

lemma protected_init: "alive s \<Longrightarrow> protected (signal_init s)"
  by (simp add: protected_def alive_def signal_init_def tbl_ok_def NSIG_def)

lemma raise_fatal:
  assumes "protected s" "unblocked s" "sig = SIGKILL"
  shows "wlibc_raise env sig s = Some (Exited (128 + sig))"
proof -
  from assms(1) obtain t where t: "self s \<noteq> 0" "deref (self s) s = Some t" and ok: "table_ok s"
    by (auto simp: protected_def elim: aliveE)
  have v: "validate_signal sig" by (simp add: assms(3) SIGKILL_def validate_signal_def NSIG_def)
  have dfl: "si_action (signal_table s ! nat sig) = SIG_DFL" using ok by (simp add: table_ok_def tbl_ok_def assms(3) SIGKILL_def)
  obtain s1 where "enter_handler (signal_table s ! nat sig) sig t s = Some s1"
    using enter_handler_total [OF v ok t(2)] by blast
  moreover have "t_sigmask t AND sig_bit sig = 0"
    using assms(2,3) t by (simp add: unblocked_def mask_of_def and_sig_bit SIGKILL_def)
  ultimately show ?thesis using v t dfl get_siginfo_total [OF v ok]
    by (simp add: wlibc_raise_def execute_signal_handler_def default_action_def assms(3)) (simp add: signal_numbers)
qed

text \<open>C17: SIGKILL and SIGSTOP cannot be handled, ignored or blocked. Whatever calls of raise,
  sigaction, signal and sigprocmask a process makes, from its main flow and from handlers nested to
  any depth, their actions stay the default ones and they are not in the mask of the thread between
  calls; raising SIGKILL then ends the process with status 137.\<close>

theorem kill_and_stop_stay_protected:
  assumes "alive s0" and "mask_of s0 = 0"
    and "sig_calls (scripted prog n) calls (signal_init s0) = Some (Running s)"
  shows "si_action (signal_table s ! nat SIGKILL) = SIG_DFL \<and> si_action (signal_table s ! nat SIGSTOP) = SIG_DFL
    \<and> mask_of s AND sig_bit SIGKILL = 0 \<and> mask_of s AND sig_bit SIGSTOP = 0
    \<and> wlibc_raise env SIGKILL s = Some (Exited 137)"
proof -
  have m: "mask_of (signal_init s0) = mask_of s0" by (simp add: mask_of_def signal_init_def)
  have "protected s \<and> self s = self (signal_init s0) \<and> (unblocked (signal_init s0) \<longrightarrow> unblocked s)"
    by (rule script.calls_keep [OF protected_init [OF assms(1)] assms(3)])
  moreover have "unblocked (signal_init s0)" by (simp add: unblocked_def m assms(2))
  ultimately have s: "protected s" "unblocked s" by simp_all
  from s have "wlibc_raise env SIGKILL s = Some (Exited (128 + SIGKILL))" by (rule raise_fatal) simp
  then show ?thesis using s
    by (auto simp: protected_def table_ok_def tbl_ok_def unblocked_def and_sig_bit SIGKILL_def SIGSTOP_def)
qed

definition boot :: sigprocess where
  "boot = \<lparr>tls_bitmap = 0, tls_destructors = replicate 64 0, threads = [1 \<mapsto> zero_threadinfo], self = 1,
     signal_table = []\<rparr>"

definition boot_prog :: "ptr \<Rightarrow> sig_call list" where
  "boot_prog f = (if f = 7 then [Signal SIGKILL SIG_IGN, Sigprocmask SIG_BLOCK (sig_bit SIGUSR2)] else [])"

definition boot_calls :: "sig_call list" where
  "boot_calls = [Signal SIGUSR1 (HANDLER 7), Sigprocmask SIG_BLOCK (sig_bit SIGUSR1), Raise SIGUSR1,
     Sigprocmask SIG_UNBLOCK (sig_bit SIGUSR1)]"

definition returns :: "'a run ub \<Rightarrow> bool" where
  "returns r \<longleftrightarrow> (case r of Some (Running _) \<Rightarrow> True | _ \<Rightarrow> False)"

lemma returnsE: "returns r \<Longrightarrow> \<exists>s. r = Some (Running s)"
  by (auto simp: returns_def split: option.splits run.splits)

theorem kill_and_stop_stay_protected_witness:
  "\<exists>s. sig_calls (scripted boot_prog 1) boot_calls (signal_init boot) = Some (Running s)
    \<and> wlibc_raise (scripted boot_prog 1) SIGKILL s = Some (Exited 137)"
proof -
  have "returns (sig_calls (scripted boot_prog 1) boot_calls (signal_init boot))"
    unfolding One_nat_def by code_simp
  then have "\<exists>s. sig_calls (scripted boot_prog 1) boot_calls (signal_init boot) = Some (Running s)"
    by (rule returnsE)
  moreover have "alive boot" "mask_of boot = 0" by code_simp+
  ultimately show ?thesis using kill_and_stop_stay_protected by blast
qed

section \<open>Delivery of pending signals\<close>

text \<open>The reference: each of the listed signals is taken off the pending set and raised.\<close>

fun raise_each :: "'z sig_env \<Rightarrow> nat list \<Rightarrow> 'z sigprocess_scheme \<Rightarrow> 'z sigprocess_scheme run ub" where
  "raise_each env [] s = Some (Running s)"
| "raise_each env (i # is) s = do {
     t \<leftarrow> deref (self s) s;
     r \<leftarrow> wlibc_raise env (int i) (put_thread (self s) (t\<lparr>t_pending := t_pending t AND NOT (sig_bit (int i))\<rparr>) s);
     case r of Exited c \<Rightarrow> Some (Exited c) | Running (_, s1) \<Rightarrow> raise_each env is s1 }"

lemma raise_pending_eq:
  "i + k \<le> 32 \<Longrightarrow> raise_pending env p i k s = raise_each env (filter (bit p) [i..<i + k]) s"
proof (induction k arbitrary: i s)
  case (Suc k)
  have "[i..<i + Suc k] = i # [Suc i..<Suc i + k]" by (simp add: upt_conv_Cons del: upt_Suc)
  moreover have "p AND sig_bit (int i) = 0 \<longleftrightarrow> \<not> bit p i" using Suc.prems by (simp add: and_sig_bit)
  moreover have "raise_pending env p (Suc i) k = raise_each env (filter (bit p) [Suc i..<Suc i + k])"
    using Suc by (intro ext Suc.IH) simp
  ultimately show ?case by (simp del: upt_Suc)
qed simp

lemma sigset_max [simp]: "\<not> (w :: sigset) > push_bit (nat (NSIG - 1)) 2 - 1"
proof -
  have "push_bit (nat (NSIG - 1)) 2 - 1 = (- 1 :: sigset)" by (simp add: NSIG_def)
  then show ?thesis by (metis not_less word_n1_ge)
qed

lemma sigprocmask_eq:
  assumes "deref (self s) s = Some t" and "how \<in> {SIG_BLOCK, SIG_UNBLOCK, SIG_SETMASK}"
    and "new AND sig_bit SIGKILL = 0" and "new AND sig_bit SIGSTOP = 0"
    and "m = new_mask how new (t_sigmask t)"
  shows "wlibc_sigprocmask env how (Some new) oldset s
    = map_option (map_run (\<lambda>s2. (Inr (), if oldset then Some (t_sigmask t) else None, s2)))
        (raise_each env (filter (\<lambda>i. bit (t_pending t) i \<and> bit (t_sigmask t) i \<and> \<not> bit m i) [1..<31])
          (put_thread (self s) (t\<lparr>t_sigmask := m\<rparr>) s))"
proof -
  define p where "p = t_pending t AND (t_sigmask t AND NOT m)"
  let ?s = "put_thread (self s) (t\<lparr>t_sigmask := m\<rparr>) s"
  have "filter (bit p) [1..<31] = filter (\<lambda>i. bit (t_pending t) i \<and> bit (t_sigmask t) i \<and> \<not> bit m i) [1..<31]"
    by (intro filter_cong) (auto simp: p_def bit_simps)
  then have each: "raise_pending env p 1 30 ?s
      = raise_each env (filter (\<lambda>i. bit (t_pending t) i \<and> bit (t_sigmask t) i \<and> \<not> bit m i) [1..<31]) ?s"
    using raise_pending_eq [of 1 30 env p ?s] by simp
  have zero: "raise_pending env 0 i k ?s = Some (Running ?s)" for i k by (induction k arbitrary: i) auto
  have n: "nat (NSIG - 2) = 30" by (simp add: NSIG_def)
  have "wlibc_sigprocmask env how (Some new) oldset s
      = map_option (map_run (\<lambda>s2. (Inr (), if oldset then Some (t_sigmask t) else None, s2)))
          (if p \<noteq> 0 then raise_pending env p 1 30 ?s else Some (Running ?s))"
    unfolding wlibc_sigprocmask_def Let_def n p_def assms(5)
    using assms(1-4) by (auto simp: map_conv_bind_option comp_def intro!: bind_option_cong)
  also have "(if p \<noteq> 0 then raise_pending env p 1 30 ?s else Some (Running ?s)) = raise_pending env p 1 30 ?s"
    using zero by simp
  finally show ?thesis by (simp only: each)
qed

text \<open>A process that keeps a log of its handlers: which handler ran for which signal under which mask.\<close>

record logged = sigprocess +
  handler_log :: "(ptr \<times> int \<times> sigset) list"

definition recorder :: "unit logged_ext sig_env" where
  "recorder = \<lparr>run_handler = \<lambda>f sig s. Some (Running (s\<lparr>handler_log := handler_log s @ [(f, sig, mask_of s)]\<rparr>)), NtSuspendProcess = id\<rparr>"

lemma log_commutes [simp]:
  "put_thread a t (s\<lparr>handler_log := l\<rparr>) = (put_thread a t s)\<lparr>handler_log := l\<rparr>" "deref a (s\<lparr>handler_log := l\<rparr>) = deref a s"
  "get_siginfo sig (s\<lparr>handler_log := l\<rparr>) = get_siginfo sig s" "get_siginfo sig (put_thread a t s) = get_siginfo sig s"
  "handler_log (put_thread a t s) = handler_log s"
  by (simp_all add: put_thread_def deref_def get_siginfo_def)

definition waiting_state :: "logged \<Rightarrow> threadinfo \<Rightarrow> sigset \<Rightarrow> sigset \<Rightarrow> (ptr \<times> int \<times> sigset) list \<Rightarrow> logged" where
  "waiting_state s t m p l = (put_thread (self s) (t\<lparr>t_sigmask := m, t_pending := p\<rparr>) s)\<lparr>handler_log := l\<rparr>"

lemma raise_records:
  assumes "self s \<noteq> 0" "length (signal_table s) = 32" "0 < i" "i < 32" "\<not> bit m i"
    "signal_table s ! i = \<lparr>si_action = HANDLER f, si_flags = 0, si_mask = am\<rparr>"
  shows "wlibc_raise recorder (int i) (waiting_state s t m p l)
    = Some (Running (Inr (), waiting_state s t m p (l @ [(f, int i, m OR am OR sig_bit (int i))])))"
proof -
  have v: "validate_signal (int i)" using assms(3,4) by (simp add: validate_signal_def NSIG_def)
  have info: "get_siginfo (int i) s = Some \<lparr>si_action = HANDLER f, si_flags = 0, si_mask = am\<rparr>"
    using assms(2,4,6) by (simp add: get_siginfo_def)
  have clear: "m AND sig_bit (int i) = 0" using assms(4,5) by (simp add: and_sig_bit)
  show ?thesis
    using v info clear assms(1)
    by (simp add: wlibc_raise_def waiting_state_def enter_handler_def execute_signal_handler_def recorder_def mask_of_def or.assoc pending_sigmask_swap)
qed

lemma raise_each_records:
  assumes "self s \<noteq> 0" "length (signal_table s) = 32"
    "\<forall>i \<in> set is. 0 < i \<and> i < 32 \<and> \<not> bit m i \<and> signal_table s ! i = \<lparr>si_action = HANDLER (f i), si_flags = 0, si_mask = am i\<rparr>"
  shows "raise_each recorder is (waiting_state s t m p l)
    = Some (Running (waiting_state s t m (fold (\<lambda>i q. q AND NOT (sig_bit (int i))) is p) (l @ map (\<lambda>i. (f i, int i, m OR am i OR sig_bit (int i))) is)))"
  using assms(3)
proof (induction "is" arbitrary: p l)
  case (Cons i "is")
  let ?p = "p AND NOT (sig_bit (int i))"
  have self: "self (waiting_state s t m p l) = self s" "deref (self s) (waiting_state s t m p l) = Some (t\<lparr>t_sigmask := m, t_pending := p\<rparr>)"
    using assms(1) by (simp_all add: waiting_state_def)
  have "put_thread (self s) (t\<lparr>t_sigmask := m, t_pending := ?p\<rparr>) (waiting_state s t m p l) = waiting_state s t m ?p l"
    by (simp add: waiting_state_def)
  then show ?case
    using self raise_records [OF assms(1,2), of i m "f i" "am i" t ?p l] Cons by simp
qed simp

lemma bit_cleared: "bit (fold (\<lambda>i q. q AND NOT (sig_bit (int i))) is p) n \<longleftrightarrow> bit (p :: sigset) n \<and> n \<notin> set is"
proof (induction "is" arbitrary: p)
  case (Cons i "is")
  then show ?case using bit_imp_le_length [of p n] by (auto simp: bit_simps bit_sig_bit)
qed simp


text \<open>SIGUSR1, SIGTERM and SIGINT are blocked and pending; the first two are unblocked.\<close>

definition three_pending :: logged where
  "three_pending = (let w = sig_bit SIGUSR1 OR sig_bit SIGTERM OR sig_bit SIGINT in
     \<lparr>tls_bitmap = 0, tls_destructors = [], threads = [1 \<mapsto> zero_threadinfo\<lparr>t_sigmask := w, t_pending := w\<rparr>], self = 1,
      signal_table = replicate 32 \<lparr>si_action = HANDLER 7, si_flags = 0, si_mask = 0\<rparr>, handler_log = []\<rparr>)"



definition armed :: "sigset \<Rightarrow> sigset \<Rightarrow> sigprocess" where
  "armed blocked pend = boot\<lparr>threads := [1 \<mapsto> zero_threadinfo\<lparr>t_sigmask := blocked, t_pending := pend\<rparr>],
     signal_table := replicate 32 \<lparr>si_action = HANDLER 7, si_flags = 0, si_mask = sig_bit SIGINT\<rparr>\<rparr>"

lemma armed_thread: "deref (self (armed b p)) (armed b p) = Some (zero_threadinfo\<lparr>t_sigmask := b, t_pending := p\<rparr>)"
  by (simp add: armed_def boot_def deref_def)


text \<open>SIGSYS is outside the delivery loop: when it is the only pending signal that a sigprocmask
  unblocks, no handler runs and it stays pending.\<close>

theorem sigsys_is_not_delivered:
  assumes "deref (self s) s = Some t" and "how \<in> {SIG_BLOCK, SIG_UNBLOCK, SIG_SETMASK}"
    and "new AND sig_bit SIGKILL = 0" and "new AND sig_bit SIGSTOP = 0"
    and "t_pending t = sig_bit SIGSYS"
  shows "\<exists>s'. wlibc_sigprocmask env how (Some new) False s = Some (Running (Inr (), None, s'))
    \<and> mask_of s' = new_mask how new (t_sigmask t) \<and> pending_of s' = sig_bit SIGSYS"
proof -
  let ?m = "new_mask how new (t_sigmask t)"
  have "filter (\<lambda>i. bit (t_pending t) i \<and> bit (t_sigmask t) i \<and> \<not> bit ?m i) [1..<31] = []"
    by (auto simp: filter_empty_conv assms(5) bit_sig_bit SIGSYS_def)
  then show ?thesis
    using sigprocmask_eq [OF assms(1-4) refl, of env False] deref_nonzero [OF assms(1)] assms(5)
    by (auto simp: mask_of_def pending_of_def)
qed

theorem sigsys_is_not_delivered_witness:
  "\<exists>s'. wlibc_sigprocmask (scripted boot_prog 1) SIG_SETMASK (Some 0) False (armed (sig_bit SIGSYS) (sig_bit SIGSYS))
      = Some (Running (Inr (), None, s')) \<and> pending_of s' = sig_bit SIGSYS"
  using sigsys_is_not_delivered [OF armed_thread, of SIG_SETMASK 0 "sig_bit SIGSYS" "sig_bit SIGSYS"] by auto

end
