(* ===== verification/Mutex.thy ===== *)
theory Mutex
  imports Threads
begin

unbundle bit_operations_syntax

text \<open>
  Mutexes (src/thread/mutex.c). A mutex wraps a kernel mutant and keeps the owner and the lock count
  beside it. The kernel calls are the fields of \<open>mutant_nt\<close>, functions of an abstract kernel state
  and of the calling thread; the locale \<open>mutant\<close> states what the kernel documents of one mutant
  object. The calls are modelled twice: as functions, one call at a time, and as a step relation in
  which the atomic accesses of several threads interleave.
\<close>

section \<open>State and kernel\<close>

type_synonym tid = "32 word"

record mutex_t =
  m_owner :: tid
  m_count :: "32 word"
  m_type :: "32 word"
  m_handle :: HANDLE

record mutex_attr_t =
  ma_shared :: int
  ma_type :: int

record 'k mutant_nt =
  NtCreateMutant :: "'k \<Rightarrow> ntstatus \<times> HANDLE \<times> 'k"
  NtCloseMutant :: "'k \<Rightarrow> HANDLE \<Rightarrow> ntstatus \<times> 'k"
  NtWaitMutant :: "'k \<Rightarrow> tid \<Rightarrow> HANDLE \<Rightarrow> int option \<Rightarrow> ntstatus \<times> 'k"
  NtReleaseMutant :: "'k \<Rightarrow> tid \<Rightarrow> HANDLE \<Rightarrow> ntstatus \<times> 'k"

definition WLIBC_PROCESS_PRIVATE :: int where "WLIBC_PROCESS_PRIVATE = 0"
definition WLIBC_PROCESS_SHARED :: int where "WLIBC_PROCESS_SHARED = 1"
definition WLIBC_MUTEX_NORMAL :: "32 word" where "WLIBC_MUTEX_NORMAL = 0"
definition WLIBC_MUTEX_RECURSIVE :: "32 word" where "WLIBC_MUTEX_RECURSIVE = 1"
definition WLIBC_MUTEX_TIMED :: "32 word" where "WLIBC_MUTEX_TIMED = 2"

lemmas mutex_consts = WLIBC_PROCESS_PRIVATE_def WLIBC_PROCESS_SHARED_def WLIBC_MUTEX_NORMAL_def
  WLIBC_MUTEX_RECURSIVE_def WLIBC_MUTEX_TIMED_def

section \<open>The calls\<close>

definition shared_valid :: "int \<Rightarrow> bool" where
  "shared_valid v \<longleftrightarrow> \<not> (v \<noteq> WLIBC_PROCESS_PRIVATE \<and> v \<noteq> WLIBC_PROCESS_SHARED)"

definition type_valid :: "int \<Rightarrow> bool" where
  "type_valid v \<longleftrightarrow> \<not> (v < 0 \<or> v > uint (WLIBC_MUTEX_NORMAL OR WLIBC_MUTEX_RECURSIVE OR WLIBC_MUTEX_TIMED))"

definition mutex_valid :: "mutex_t option \<Rightarrow> bool" where
  "mutex_valid mutex \<longleftrightarrow> (case mutex of None \<Rightarrow> False | Some m \<Rightarrow> m_handle m \<noteq> 0)"

definition wlibc_mutex_init ::
  "'k mutant_nt \<Rightarrow> mutex_t option \<Rightarrow> mutex_attr_t option \<Rightarrow> 'k \<Rightarrow> mutex_t res \<times> 'k" where
  "wlibc_mutex_init nt mutex attributes k = (case mutex of None \<Rightarrow> (fail_with EINVAL, k) | Some m \<Rightarrow>
     if map_option (shared_valid \<circ> ma_shared) attributes = Some False then (fail_with EINVAL, k)
     else if map_option (type_valid \<circ> ma_type) attributes = Some False then (fail_with EINVAL, k)
     else let (status, h, k1) = NtCreateMutant nt k in
       if status \<noteq> STATUS_SUCCESS then (Inl (map_ntstatus_to_errno status), k1)
       else (Inr \<lparr>m_owner = 0, m_count = 0,
         m_type = (case attributes of None \<Rightarrow> WLIBC_MUTEX_TIMED | Some a \<Rightarrow> word_of_int (ma_type a)), m_handle = h\<rparr>, k1))"

definition wlibc_mutex_destroy :: "'k mutant_nt \<Rightarrow> mutex_t option \<Rightarrow> 'k \<Rightarrow> mutex_t res \<times> 'k" where
  "wlibc_mutex_destroy nt mutex k =
     (if \<not> mutex_valid mutex then (fail_with EINVAL, k)
      else let m = the mutex; (status, k1) = NtCloseMutant nt k (m_handle m) in
        if status \<noteq> STATUS_SUCCESS then (Inl (map_ntstatus_to_errno status), k1)
        else (Inr (m\<lparr>m_handle := 0, m_owner := 0, m_count := 0\<rparr>), k1))"

definition recursive :: "mutex_t \<Rightarrow> bool" where
  "recursive m \<longleftrightarrow> m_type m AND WLIBC_MUTEX_RECURSIVE = WLIBC_MUTEX_RECURSIVE"

definition wlibc_mutex_common_lock ::
  "'k mutant_nt \<Rightarrow> errno option \<Rightarrow> tid \<Rightarrow> timespec option \<Rightarrow> mutex_t \<Rightarrow> 'k \<Rightarrow> (unit res \<times> mutex_t \<times> 'k) ub" where
  "wlibc_mutex_common_lock nt e0 me abstime m k =
     (if \<not> recursive m \<and> m_owner m = me then Some (fail_with EDEADLK, m, k)
      else do {
        let abstime = (if m_type m AND WLIBC_MUTEX_TIMED = 0 then None else abstime);
        timeout \<leftarrow> wait_timeout abstime;
        let (status, k1) = NtWaitMutant nt k me (m_handle m) (if abstime = None then None else Some timeout);
        if status \<noteq> STATUS_SUCCESS then Some (Inl (wait_errno e0 timeout status), m, k1)
        else Some (Inr (), m\<lparr>m_owner := me, m_count := m_count m + 1\<rparr>, k1) })"

definition wlibc_mutex_lock ::
  "'k mutant_nt \<Rightarrow> errno option \<Rightarrow> tid \<Rightarrow> mutex_t \<Rightarrow> 'k \<Rightarrow> (unit res \<times> mutex_t \<times> 'k) ub" where
  "wlibc_mutex_lock nt e0 me m k =
     (if \<not> mutex_valid (Some m) then Some (fail_with EINVAL, m, k) else wlibc_mutex_common_lock nt e0 me None m k)"

definition wlibc_mutex_trylock ::
  "'k mutant_nt \<Rightarrow> errno option \<Rightarrow> tid \<Rightarrow> mutex_t \<Rightarrow> 'k \<Rightarrow> (unit res \<times> mutex_t \<times> 'k) ub" where
  "wlibc_mutex_trylock nt e0 me m k =
     (if \<not> mutex_valid (Some m) then Some (fail_with EINVAL, m, k)
      else wlibc_mutex_common_lock nt e0 me (Some \<lparr>tv_sec = 0, tv_nsec = 0\<rparr>) m k)"

definition wlibc_mutex_timedlock ::
  "'k mutant_nt \<Rightarrow> errno option \<Rightarrow> tid \<Rightarrow> timespec option \<Rightarrow> mutex_t \<Rightarrow> 'k \<Rightarrow> (unit res \<times> mutex_t \<times> 'k) ub" where
  "wlibc_mutex_timedlock nt e0 me abstime m k =
     (if \<not> mutex_valid (Some m) \<or> abstime = None then Some (fail_with EINVAL, m, k)
      else wlibc_mutex_common_lock nt e0 me abstime m k)"

definition wlibc_mutex_unlock :: "'k mutant_nt \<Rightarrow> tid \<Rightarrow> mutex_t \<Rightarrow> 'k \<Rightarrow> unit res \<times> mutex_t \<times> 'k" where
  "wlibc_mutex_unlock nt me m k =
     (if \<not> mutex_valid (Some m) then (fail_with EINVAL, m, k)
      else let (status, k1) = NtReleaseMutant nt k me (m_handle m) in
        if status \<noteq> STATUS_SUCCESS then (Inl (map_ntstatus_to_errno status), m, k1)
        else let c = m_count m - 1 in
          (Inr (), if c = 0 then m\<lparr>m_count := c, m_owner := 0\<rparr> else m\<lparr>m_count := c\<rparr>, k1))"

section \<open>Attributes\<close>

definition wlibc_mutexattr_init :: "mutex_attr_t option \<Rightarrow> mutex_attr_t res" where
  "wlibc_mutexattr_init a = (case a of None \<Rightarrow> fail_with EINVAL
     | Some x \<Rightarrow> Inr \<lparr>ma_shared = WLIBC_PROCESS_PRIVATE, ma_type = uint WLIBC_MUTEX_TIMED\<rparr>)"

definition wlibc_mutexattr_getpshared :: "mutex_attr_t option \<Rightarrow> bool \<Rightarrow> int res" where
  "wlibc_mutexattr_getpshared a out = (case a of None \<Rightarrow> fail_with EINVAL
     | Some x \<Rightarrow> if \<not> out then fail_with EINVAL else Inr (ma_shared x))"

definition wlibc_mutexattr_setpshared :: "mutex_attr_t option \<Rightarrow> int \<Rightarrow> mutex_attr_t res" where
  "wlibc_mutexattr_setpshared a v = (case a of None \<Rightarrow> fail_with EINVAL
     | Some x \<Rightarrow> if \<not> shared_valid v then fail_with EINVAL else Inr (x\<lparr>ma_shared := v\<rparr>))"

definition wlibc_mutexattr_gettype :: "mutex_attr_t option \<Rightarrow> bool \<Rightarrow> int res" where
  "wlibc_mutexattr_gettype a out = (case a of None \<Rightarrow> fail_with EINVAL
     | Some x \<Rightarrow> if \<not> out then fail_with EINVAL else Inr (ma_type x))"

definition wlibc_mutexattr_settype :: "mutex_attr_t option \<Rightarrow> int \<Rightarrow> mutex_attr_t res" where
  "wlibc_mutexattr_settype a v = (case a of None \<Rightarrow> fail_with EINVAL
     | Some x \<Rightarrow> if \<not> type_valid v then fail_with EINVAL else Inr (x\<lparr>ma_type := v\<rparr>))"

section \<open>Interleaved steps\<close>

text \<open>Where a thread is inside \<open>lock\<close> or \<open>unlock\<close>: about to compare the owner, about to wait, about
  to store the owner, about to increment the count; about to decrement the count, about to clear the
  owner. Every step is one atomic access.\<close>

datatype pc = Idle | LockCheck | LockWait | LockOwner | LockCount | UnlockCount | UnlockOwner

record 'k msys =
  mtx :: mutex_t
  kernel :: 'k
  pcs :: "tid \<Rightarrow> pc"

definition goto :: "tid \<Rightarrow> pc \<Rightarrow> 'k msys \<Rightarrow> 'k msys" where
  "goto t p s = s\<lparr>pcs := (pcs s)(t := p)\<rparr>"

datatype step_label = Begin | Deadlock | Pass | Acquired | OwnerSet | Counted | Released | Dropped | Cleared

text \<open>What thread \<open>t\<close> does next under the label, \<open>None\<close> when it cannot.\<close>

definition mutex_step :: "'k mutant_nt \<Rightarrow> tid \<Rightarrow> step_label \<Rightarrow> 'k msys \<Rightarrow> 'k msys option" where
  "mutex_step nt t l s = (let m = mtx s in case (pcs s t, l) of
       (Idle, Begin) \<Rightarrow> Some (goto t (if recursive m then LockWait else LockCheck) s)
     | (LockCheck, Deadlock) \<Rightarrow> if m_owner m = t then Some (goto t Idle s) else None
     | (LockCheck, Pass) \<Rightarrow> if m_owner m \<noteq> t then Some (goto t LockWait s) else None
     | (LockWait, Acquired) \<Rightarrow> (case NtWaitMutant nt (kernel s) t (m_handle m) None of
           (status, k) \<Rightarrow> if status = STATUS_SUCCESS then Some (goto t LockOwner (s\<lparr>kernel := k\<rparr>)) else None)
     | (LockOwner, OwnerSet) \<Rightarrow> Some (goto t LockCount (s\<lparr>mtx := m\<lparr>m_owner := t\<rparr>\<rparr>))
     | (LockCount, Counted) \<Rightarrow> Some (goto t Idle (s\<lparr>mtx := m\<lparr>m_count := m_count m + 1\<rparr>\<rparr>))
     | (Idle, Released) \<Rightarrow> (case NtReleaseMutant nt (kernel s) t (m_handle m) of
           (status, k) \<Rightarrow> if status = STATUS_SUCCESS then Some (goto t UnlockCount (s\<lparr>kernel := k\<rparr>)) else None)
     | (UnlockCount, Dropped) \<Rightarrow> Some (goto t (if m_count m - 1 = 0 then UnlockOwner else Idle)
           (s\<lparr>mtx := m\<lparr>m_count := m_count m - 1\<rparr>\<rparr>))
     | (UnlockOwner, Cleared) \<Rightarrow> Some (goto t Idle (s\<lparr>mtx := m\<lparr>m_owner := 0\<rparr>\<rparr>))
     | _ \<Rightarrow> None)"

fun mutex_trace :: "'k mutant_nt \<Rightarrow> (tid \<times> step_label) list \<Rightarrow> 'k msys \<Rightarrow> 'k msys option" where
  "mutex_trace nt [] s = Some s"
| "mutex_trace nt ((t, l) # ls) s = Option.bind (mutex_step nt t l s) (mutex_trace nt ls)"

inductive mutex_reaches :: "'k mutant_nt \<Rightarrow> 'k msys \<Rightarrow> 'k msys \<Rightarrow> bool" for nt s0 where
  start: "mutex_reaches nt s0 s0"
| step: "mutex_reaches nt s0 s \<Longrightarrow> mutex_step nt t l s = Some s' \<Longrightarrow> mutex_reaches nt s0 s'"

end
