(* ===== verification/MutexProps.thy ===== *)
theory MutexProps
  imports Mutex
begin

unbundle bit_operations_syntax

text \<open>
  Properties of mutexes. \<open>mutant\<close> is the contract of the kernel object: \<open>held\<close> reads its holder and
  recursion depth off the kernel state. Under it the calls, taken one at a time, refine an abstract
  lock, and the interleaved steps keep the count equal to the depth, up to the accesses that threads
  still have to make. The owner field has no such invariant: two traces show what goes wrong.
\<close>

section \<open>The kernel's contract\<close>

locale mutant =
  fixes nt :: "'k mutant_nt" and h :: HANDLE and held :: "'k \<Rightarrow> (tid \<times> nat) option"
  assumes held_pos: "held k = Some (t, n) \<Longrightarrow> 0 < n \<and> n \<le> 2 ^ 31"
    and wait_free: "held k = None \<Longrightarrow> \<exists>k'. NtWaitMutant nt k t h q = (STATUS_SUCCESS, k') \<and> held k' = Some (t, 1)"
    and wait_own: "held k = Some (t, n) \<Longrightarrow> n < 2 ^ 31 \<Longrightarrow>
      \<exists>k'. NtWaitMutant nt k t h q = (STATUS_SUCCESS, k') \<and> held k' = Some (t, Suc n)"
    and wait_limit: "held k = Some (t, 2 ^ 31) \<Longrightarrow> fst (NtWaitMutant nt k t h q) \<noteq> STATUS_SUCCESS"
    and wait_other: "held k = Some (u, n) \<Longrightarrow> u \<noteq> t \<Longrightarrow>
      \<exists>k'. NtWaitMutant nt k t h (Some z) = (STATUS_TIMEOUT, k') \<and> held k' = held k"
    and wait_blocked: "held k = Some (u, n) \<Longrightarrow> u \<noteq> t \<Longrightarrow> fst (NtWaitMutant nt k t h None) \<noteq> STATUS_SUCCESS"
    and release_own: "held k = Some (t, n) \<Longrightarrow>
      \<exists>k'. NtReleaseMutant nt k t h = (STATUS_SUCCESS, k') \<and> held k' = (if n = 1 then None else Some (t, n - 1))"
    and release_other: "(\<forall>n. held k \<noteq> Some (t, n)) \<Longrightarrow>
      \<exists>k'. NtReleaseMutant nt k t h = (STATUS_MUTANT_NOT_OWNED, k') \<and> held k' = held k"
begin

definition lock_rel :: "mutex_t \<Rightarrow> 'k \<Rightarrow> bool" where
  "lock_rel m k \<longleftrightarrow> h \<noteq> 0 \<and> m_handle m = h \<and> (case held k of
       None \<Rightarrow> m_owner m = 0 \<and> m_count m = 0
     | Some (t, n) \<Rightarrow> t \<noteq> 0 \<and> m_owner m = t \<and> m_count m = of_nat n)"

end

section \<open>The abstract lock\<close>

datatype mcall = Lock | TryLock | Unlock

type_synonym lockstate = "(tid \<times> nat) option"

text \<open>\<open>None\<close> when the call would wait for another thread or the recursion limit is reached.\<close>

definition lock_spec :: "bool \<Rightarrow> bool \<Rightarrow> tid \<Rightarrow> mcall \<Rightarrow> lockstate \<Rightarrow> (unit res \<times> lockstate) option" where
  "lock_spec recur timed t c l = (case (c, l) of
       (Unlock, None) \<Rightarrow> Some (fail_with EPERM, l)
     | (Unlock, Some (u, n)) \<Rightarrow>
         Some (if u \<noteq> t then (fail_with EPERM, l) else (Inr (), if n = 1 then None else Some (t, n - 1)))
     | (_, None) \<Rightarrow> Some (Inr (), Some (t, 1))
     | (_, Some (u, n)) \<Rightarrow>
         if u \<noteq> t then (if c = TryLock \<and> timed then Some (fail_with EBUSY, l) else None)
         else if \<not> recur then Some (fail_with EDEADLK, l)
         else if n < 2 ^ 31 then Some (Inr (), Some (t, Suc n)) else None)"

fun spec_run :: "bool \<Rightarrow> bool \<Rightarrow> (tid \<times> mcall) list \<Rightarrow> lockstate \<Rightarrow> (unit res list \<times> lockstate) option" where
  "spec_run recur timed [] l = Some ([], l)"
| "spec_run recur timed ((t, c) # cs) l = do {
     (r, l1) \<leftarrow> lock_spec recur timed t c l;
     (rs, l2) \<leftarrow> spec_run recur timed cs l1;
     Some (r # rs, l2) }"

fun mutex_call :: "'k mutant_nt \<Rightarrow> errno option \<Rightarrow> tid \<Rightarrow> mcall \<Rightarrow> mutex_t \<Rightarrow> 'k \<Rightarrow> (unit res \<times> mutex_t \<times> 'k) ub" where
  "mutex_call nt e0 t Lock m k = wlibc_mutex_lock nt e0 t m k"
| "mutex_call nt e0 t TryLock m k = wlibc_mutex_trylock nt e0 t m k"
| "mutex_call nt e0 t Unlock m k = Some (wlibc_mutex_unlock nt t m k)"

fun mutex_run :: "'k mutant_nt \<Rightarrow> errno option \<Rightarrow> (tid \<times> mcall) list \<Rightarrow> mutex_t \<Rightarrow> 'k \<Rightarrow> (unit res list \<times> mutex_t \<times> 'k) ub" where
  "mutex_run nt e0 [] m k = Some ([], m, k)"
| "mutex_run nt e0 ((t, c) # cs) m k = do {
     (r, m1, k1) \<leftarrow> mutex_call nt e0 t c m k;
     (rs, m2, k2) \<leftarrow> mutex_run nt e0 cs m1 k1;
     Some (r # rs, m2, k2) }"

definition timed :: "mutex_t \<Rightarrow> bool" where
  "timed m \<longleftrightarrow> m_type m AND WLIBC_MUTEX_TIMED \<noteq> 0"

lemma word_count_minus: "0 < n \<Longrightarrow> (of_nat n :: 32 word) - 1 = of_nat (n - 1)"
  by (simp add: of_nat_diff)

lemma word_count_zero: "n \<le> 2 ^ 31 \<Longrightarrow> (of_nat n :: 32 word) = 0 \<longleftrightarrow> n = 0"
proof -
  assume "n \<le> 2 ^ 31"
  then have "unat (of_nat n :: 32 word) = n" by (simp add: unat_of_nat)
  then show ?thesis by (metis unat_eq_zero of_nat_0)
qed

context mutant
begin

lemma common_lock_refines:
  assumes "lock_rel m k" "t \<noteq> 0" "c \<in> {Lock, TryLock}"
    and "lock_spec (recursive m) (timed m) t c (held k) = Some (r, l)"
    and "abstime = (if c = Lock then None else Some \<lparr>tv_sec = 0, tv_nsec = 0\<rparr>)"
  shows "\<exists>m' k'. wlibc_mutex_common_lock nt e0 t abstime m k = Some (r, m', k') \<and> lock_rel m' k' \<and> held k' = l
    \<and> m_type m' = m_type m"
proof -
  have h: "m_handle m = h" "h \<noteq> 0" using assms(1) by (simp_all add: lock_rel_def)
  let ?q = "if m_type m AND WLIBC_MUTEX_TIMED = 0 then None else abstime"
  define z where "z = (if ?q = None then None else Some (0 :: int))"
  have to: "wait_timeout ?q = Some 0" using assms(5) by (simp add: wait_timeout_def)
  have lock: "wlibc_mutex_common_lock nt e0 t abstime m k =
      (if \<not> recursive m \<and> m_owner m = t then Some (fail_with EDEADLK, m, k)
       else let (status, k1) = NtWaitMutant nt k t h z in
         if status \<noteq> STATUS_SUCCESS then Some (Inl (wait_errno e0 0 status), m, k1)
         else Some (Inr (), m\<lparr>m_owner := t, m_count := m_count m + 1\<rparr>, k1))"
    by (simp add: wlibc_mutex_common_lock_def Let_def to h z_def)
  show ?thesis
  proof (cases "held k")
    case None
    obtain k' where k': "NtWaitMutant nt k t h z = (STATUS_SUCCESS, k')" "held k' = Some (t, 1)"
      using wait_free [OF None, of t z] by blast
    then show ?thesis using assms(1-4) None h
      by (auto simp: lock k' lock_rel_def lock_spec_def split: mcall.splits)
  next
    case (Some un)
    obtain u n where un: "un = (u, n)" by (cases un)
    have owner: "m_owner m = u" "m_count m = of_nat n" using assms(1) Some un by (auto simp: lock_rel_def)
    show ?thesis
    proof (cases "u = t")
      case False
      then have busy: "c = TryLock" "timed m" "r = fail_with EBUSY" "l = held k"
        using assms(3,4) Some un by (auto simp: lock_spec_def split: mcall.splits if_splits)
      have "z = Some 0" using busy assms(5) by (simp add: timed_def z_def)
      moreover obtain k' where "NtWaitMutant nt k t h (Some 0) = (STATUS_TIMEOUT, k')" "held k' = held k"
        using wait_other [of k u n t] Some un False by blast
      ultimately show ?thesis using False owner assms(1) busy
        by (simp add: lock wait_errno_def map_ntstatus_to_errno_def lock_rel_def)
    next
      case own: True
      show ?thesis
      proof (cases "recursive m")
        case False
        then show ?thesis using assms(1,3,4) own owner Some un
          by (auto simp: lock lock_spec_def split: mcall.splits)
      next
        case True
        then have n: "n < 2 ^ 31" "r = Inr ()" "l = Some (t, Suc n)"
          using assms(3,4) own Some un by (auto simp: lock_spec_def split: mcall.splits if_splits)
        obtain k' where "NtWaitMutant nt k t h z = (STATUS_SUCCESS, k')" "held k' = Some (t, Suc n)"
          using wait_own [of k t n z] Some un own n(1) by blast
        then show ?thesis using True n h owner assms(2) by (auto simp: lock lock_rel_def add.commute)
      qed
    qed
  qed
qed

lemma unlock_refines:
  assumes "lock_rel m k" "lock_spec (recursive m) (timed m) t Unlock (held k) = Some (r, l)"
  shows "\<exists>m' k'. wlibc_mutex_unlock nt t m k = (r, m', k') \<and> lock_rel m' k' \<and> held k' = l \<and> m_type m' = m_type m"
proof -
  have h: "m_handle m = h" "h \<noteq> 0" using assms(1) by (simp_all add: lock_rel_def)
  show ?thesis
  proof (cases "\<exists>n. held k = Some (t, n)")
    case False
    then obtain k' where "NtReleaseMutant nt k t h = (STATUS_MUTANT_NOT_OWNED, k')" "held k' = held k"
      using release_other [of k t] by blast
    then show ?thesis using False assms h
      by (auto simp: wlibc_mutex_unlock_def mutex_valid_def map_ntstatus_to_errno_def lock_spec_def lock_rel_def
          split: option.splits prod.splits if_splits)
  next
    case True
    then obtain n where n: "held k = Some (t, n)" by blast
    obtain k' where k': "NtReleaseMutant nt k t h = (STATUS_SUCCESS, k')" "held k' = (if n = 1 then None else Some (t, n - 1))"
      using release_own [OF n] by blast
    have pos: "0 < n" "n - 1 \<le> 2 ^ 31" using held_pos [OF n] by linarith+
    have m: "m_count m = of_nat n" "m_owner m = t" "t \<noteq> 0" using assms(1) n by (simp_all add: lock_rel_def)
    define c where "c = m_count m - 1"
    have c: "c = of_nat (n - 1)" "c = 0 \<longleftrightarrow> n = 1"
      using pos word_count_minus [OF pos(1)] word_count_zero [OF pos(2)] by (auto simp: c_def m)
    have "wlibc_mutex_unlock nt t m k = (Inr (), if c = 0 then m\<lparr>m_count := c, m_owner := 0\<rparr> else m\<lparr>m_count := c\<rparr>, k')"
      using h by (simp add: wlibc_mutex_unlock_def mutex_valid_def k' c_def)
    moreover have "r = Inr ()" "l = held k'" using assms(2) n k'(2) by (simp_all add: lock_spec_def)
    ultimately show ?thesis using h m c k'(2) by (cases "n = 1") (simp_all add: lock_rel_def)
  qed
qed

lemma lock_call_refines:
  assumes "lock_rel m k" "t \<noteq> 0" "lock_spec (recursive m) (timed m) t c (held k) = Some (r, l)"
  shows "\<exists>m' k'. mutex_call nt e0 t c m k = Some (r, m', k') \<and> lock_rel m' k' \<and> held k' = l \<and> m_type m' = m_type m"
proof -
  have v: "mutex_valid (Some m)" using assms(1) by (simp add: lock_rel_def mutex_valid_def)
  show ?thesis
  proof (cases c)
    case Lock
    then show ?thesis using common_lock_refines [OF assms(1,2) _ assms(3), of None e0] v by (simp add: wlibc_mutex_lock_def)
  next
    case TryLock
    then show ?thesis using common_lock_refines [OF assms(1,2) _ assms(3), of "Some \<lparr>tv_sec = 0, tv_nsec = 0\<rparr>" e0] v
      by (simp add: wlibc_mutex_trylock_def)
  next
    case Unlock
    then show ?thesis using unlock_refines [OF assms(1)] assms(3) by simp
  qed
qed

lemma runs_refine:
  "lock_rel m k \<Longrightarrow> 0 \<notin> fst ` set cs \<Longrightarrow> spec_run (recursive m) (timed m) cs (held k) = Some (rs, l) \<Longrightarrow>
   \<exists>m' k'. mutex_run nt e0 cs m k = Some (rs, m', k') \<and> lock_rel m' k' \<and> held k' = l"
proof (induction cs arbitrary: m k rs)
  case Nil
  then show ?case by auto
next
  case (Cons tc cs)
  obtain t c where tc: "tc = (t, c)" by (cases tc)
  from Cons.prems(3) tc obtain r l1 rs1 where
    s: "lock_spec (recursive m) (timed m) t c (held k) = Some (r, l1)"
    "spec_run (recursive m) (timed m) cs l1 = Some (rs1, l)" "rs = r # rs1"
    by (auto split: bind_splits)
  have "t \<noteq> 0" using Cons.prems(2) tc by auto
  then obtain m1 k1 where m1: "mutex_call nt e0 t c m k = Some (r, m1, k1)" "lock_rel m1 k1" "held k1 = l1"
    "m_type m1 = m_type m"
    using lock_call_refines [OF Cons.prems(1) _ s(1)] by blast
  have "recursive m1 = recursive m" "timed m1 = timed m" using m1(4) by (simp_all add: recursive_def timed_def)
  then show ?case using Cons.IH [OF m1(2), of rs1] Cons.prems(2) s m1 tc by auto
qed

end

section \<open>Interleaved accesses\<close>

definition taking :: "'k msys \<Rightarrow> tid set" where
  "taking s = {t. pcs s t = LockOwner \<or> pcs s t = LockCount}"

definition dropping :: "'k msys \<Rightarrow> tid set" where
  "dropping s = {t. pcs s t = UnlockCount}"

lemma goto_simps [simp]:
  "mtx (goto t p s) = mtx s" "kernel (goto t p s) = kernel s" "pcs (goto t p s) = (pcs s)(t := p)"
  "dropping (s\<lparr>mtx := m\<rparr>) = dropping s" "taking (s\<lparr>mtx := m\<rparr>) = taking s"
  "dropping (s\<lparr>kernel := k\<rparr>) = dropping s" "taking (s\<lparr>kernel := k\<rparr>) = taking s"
  by (simp_all add: goto_def dropping_def taking_def)

lemma dropping_goto: "dropping (goto t p s) = (if p = UnlockCount then insert t (dropping s) else dropping s - {t})"
  by (auto simp: dropping_def)

lemma taking_goto: "taking (goto t p s) = (if p \<in> {LockOwner, LockCount} then insert t (taking s) else taking s - {t})"
  by (auto simp: taking_def)

context mutant
begin

definition depth :: "'k \<Rightarrow> nat" where
  "depth k = (case held k of None \<Rightarrow> 0 | Some (t, n) \<Rightarrow> n)"

definition minv :: "'k msys \<Rightarrow> bool" where
  "minv s \<longleftrightarrow> m_handle (mtx s) = h \<and> finite (dropping s) \<and> (\<forall>t \<in> taking s. \<exists>n. held (kernel s) = Some (t, n))
     \<and> m_count (mtx s) + of_nat (card (taking s)) = of_nat (depth (kernel s) + card (dropping s))"

lemma taking_single:
  assumes "minv s" "t \<in> taking s"
  shows "taking s = {t}"
proof -
  have "u = t" if "u \<in> taking s" for u
  proof -
    from assms that obtain n n' where "held (kernel s) = Some (t, n)" "held (kernel s) = Some (u, n')"
      unfolding minv_def by blast
    then show ?thesis by simp
  qed
  then show ?thesis using assms(2) by blast
qed

lemma neutral_keeps:
  assumes "minv s" "pcs s t \<notin> {LockOwner, LockCount, UnlockCount}" "p \<notin> {LockOwner, LockCount, UnlockCount}"
  shows "minv (goto t p s)"
proof -
  have "t \<notin> taking s" "t \<notin> dropping s" using assms(2) by (auto simp: taking_def dropping_def)
  then have "taking (goto t p s) = taking s" "dropping (goto t p s) = dropping s"
    using assms(3) by (auto simp: taking_goto dropping_goto)
  then show ?thesis using assms(1) by (simp add: minv_def)
qed

lemma acquired_keeps:
  assumes "minv s" "pcs s t = LockWait" "NtWaitMutant nt (kernel s) t h None = (STATUS_SUCCESS, k)"
  shows "minv (goto t LockOwner (s\<lparr>kernel := k\<rparr>))"
proof -
  have free: "held (kernel s) = None \<or> (\<exists>n. held (kernel s) = Some (t, n) \<and> n < 2 ^ 31)"
  proof (cases "held (kernel s)")
    case (Some un)
    then show ?thesis
      using assms(3) wait_blocked [of "kernel s" "fst un" "snd un" t] wait_limit [of "kernel s" t None] held_pos [of "kernel s" t "snd un"]
      by (cases un) (force simp: order_le_less)
  qed simp
  have k: "held k = Some (t, Suc (depth (kernel s)))"
    using free wait_free [of "kernel s" t None] wait_own [of "kernel s" t _ None] assms(3) by (auto simp: depth_def)
  have "t \<notin> taking s" "t \<notin> dropping s" using assms(2) by (simp_all add: taking_def dropping_def)
  moreover have "taking s = {}" using assms(1) free \<open>t \<notin> taking s\<close> by (auto simp: minv_def)
  ultimately show ?thesis using assms(1) k by (simp add: minv_def taking_goto dropping_goto depth_def algebra_simps)
qed

lemma released_keeps:
  assumes "minv s" "pcs s t = Idle" "NtReleaseMutant nt (kernel s) t h = (STATUS_SUCCESS, k)"
  shows "minv (goto t UnlockCount (s\<lparr>kernel := k\<rparr>))"
proof -
  obtain n where n: "held (kernel s) = Some (t, n)"
    using release_other [of "kernel s" t] assms(3) by fastforce
  have k: "held k = (if n = 1 then None else Some (t, n - 1))" using release_own [OF n] assms(3) by simp
  have t: "t \<notin> taking s" "t \<notin> dropping s" using assms(2) by (simp_all add: taking_def dropping_def)
  have none: "taking s = {}" using assms(1) n t by (auto simp: minv_def)
  have "depth k = depth (kernel s) - 1" "0 < depth (kernel s)" using n k held_pos [OF n] by (auto simp: depth_def)
  then show ?thesis using assms(1) t none by (simp add: minv_def taking_goto dropping_goto card_insert_if)
qed

lemma step_keeps:
  assumes "minv s" "mutex_step nt t l s = Some s'"
  shows "minv s'"
proof -
  have h: "m_handle (mtx s) = h" "finite (dropping s)" using assms(1) by (simp_all add: minv_def)
  show ?thesis
  proof (cases "pcs s t")
    case Idle
    from Idle assms(2) h consider
        p where "s' = goto t p s" "p = LockWait \<or> p = LockCheck"
      | k where "s' = goto t UnlockCount (s\<lparr>kernel := k\<rparr>)" "NtReleaseMutant nt (kernel s) t h = (STATUS_SUCCESS, k)"
      by (cases l) (auto simp: mutex_step_def Let_def split: prod.splits if_splits)
    then show ?thesis
    proof cases
      case 1
      then show ?thesis using neutral_keeps [OF assms(1), of t p] Idle by auto
    next
      case 2
      then show ?thesis using released_keeps [OF assms(1) Idle] by simp
    qed
  next
    case LockCheck
    with assms(2) obtain p where "s' = goto t p s" "p = Idle \<or> p = LockWait"
      by (cases l) (auto simp: mutex_step_def Let_def split: if_splits)
    then show ?thesis using neutral_keeps [OF assms(1), of t p] LockCheck by auto
  next
    case LockWait
    from LockWait assms(2) h obtain k where "s' = goto t LockOwner (s\<lparr>kernel := k\<rparr>)"
        "NtWaitMutant nt (kernel s) t h None = (STATUS_SUCCESS, k)"
      by (cases l) (auto simp: mutex_step_def Let_def split: prod.splits if_splits)
    then show ?thesis using acquired_keeps [OF assms(1) LockWait] by simp
  next
    case LockOwner
    then have t: "t \<in> taking s" "t \<notin> dropping s" by (simp_all add: taking_def dropping_def)
    from LockOwner assms show ?thesis
      by (cases l) (auto simp: mutex_step_def minv_def taking_goto dropping_goto t insert_absorb Let_def)
  next
    case LockCount
    then have t: "t \<in> taking s" "t \<notin> dropping s" by (simp_all add: taking_def dropping_def)
    note taking_single [OF assms(1) t(1)]
    with LockCount assms t show ?thesis
      by (cases l) (auto simp: mutex_step_def minv_def taking_goto dropping_goto Let_def algebra_simps)
  next
    case UnlockCount
    then have t: "t \<notin> taking s" "t \<in> dropping s" by (simp_all add: taking_def dropping_def)
    define c where "c = card (dropping s - {t})"
    have c: "card (dropping s) = Suc c" unfolding c_def using h(2) t(2) by (rule card.remove)
    from UnlockCount assms(2) obtain p where
      s': "s' = goto t p (s\<lparr>mtx := (mtx s)\<lparr>m_count := m_count (mtx s) - 1\<rparr>\<rparr>)" "p = Idle \<or> p = UnlockOwner"
      by (cases l) (auto simp: mutex_step_def Let_def)
    have "dropping s' = dropping s - {t}" "taking s' = taking s" using s' t by (auto simp: dropping_goto taking_goto)
    then show ?thesis using assms(1) s' c by (auto simp: minv_def algebra_simps simp flip: c_def)
  next
    case UnlockOwner
    then have t: "t \<notin> taking s" "t \<notin> dropping s" by (simp_all add: taking_def dropping_def)
    from UnlockOwner assms t show ?thesis
      by (cases l) (auto simp: mutex_step_def minv_def taking_goto dropping_goto Let_def)
  qed
qed

lemma reaches_keeps: "mutex_reaches nt s0 s \<Longrightarrow> minv s0 \<Longrightarrow> minv s"
  by (induction rule: mutex_reaches.induct) (auto intro: step_keeps)

end

section \<open>A mutant in memory\<close>

definition ram_depth :: "int \<Rightarrow> int" where
  "ram_depth d = max 1 (min d (2 ^ 31))"

definition ram_held :: "(tid \<times> int) option \<Rightarrow> (tid \<times> nat) option" where
  "ram_held k = map_option (\<lambda>(t, d). (t, nat (ram_depth d))) k"

definition ram_mutant :: "(tid \<times> int) option mutant_nt" where
  "ram_mutant = \<lparr>NtCreateMutant = (\<lambda>k. (STATUS_SUCCESS, 4, None)), NtCloseMutant = (\<lambda>k h. (STATUS_SUCCESS, k)),
     NtWaitMutant = (\<lambda>k t h q. case k of
         None \<Rightarrow> (STATUS_SUCCESS, Some (t, 1))
       | Some (u, d) \<Rightarrow> if u \<noteq> t then (STATUS_TIMEOUT, k)
           else if ram_depth d < 2 ^ 31 then (STATUS_SUCCESS, Some (t, ram_depth d + 1)) else (STATUS_OTHER 0, k)),
     NtReleaseMutant = (\<lambda>k t h. case k of
         None \<Rightarrow> (STATUS_MUTANT_NOT_OWNED, k)
       | Some (u, d) \<Rightarrow> if u \<noteq> t then (STATUS_MUTANT_NOT_OWNED, k)
           else (STATUS_SUCCESS, if ram_depth d = 1 then None else Some (t, ram_depth d - 1)))\<rparr>"

lemma ram_depth_bounds: "1 \<le> ram_depth d \<and> ram_depth d \<le> 2 ^ 31"
  by (simp add: ram_depth_def)

lemma ram_depth_id: "1 \<le> d \<Longrightarrow> d \<le> 2 ^ 31 \<Longrightarrow> ram_depth d = d"
  by (simp add: ram_depth_def)

interpretation ram: mutant ram_mutant h ram_held for h
proof unfold_locales
  fix k :: "(tid \<times> int) option" and t n
  assume "ram_held k = Some (t, n)"
  then obtain d where "n = nat (ram_depth d)" by (auto simp: ram_held_def)
  then show "0 < n \<and> n \<le> 2 ^ 31" using ram_depth_bounds [of d] by (simp add: nat_le_iff)
next
  fix k :: "(tid \<times> int) option" and t n
  assume "ram_held k = Some (t, n)"
  then obtain d where d: "k = Some (t, d)" "n = nat (ram_depth d)" by (auto simp: ram_held_def)
  then show "\<exists>k'. NtReleaseMutant ram_mutant k t h = (STATUS_SUCCESS, k') \<and> ram_held k' = (if n = 1 then None else Some (t, n - 1))"
    using ram_depth_bounds [of d] ram_depth_id [of "ram_depth d - 1"]
    by (auto simp: ram_mutant_def ram_held_def nat_diff_distrib)
next
  fix k :: "(tid \<times> int) option" and t n q
  assume "ram_held k = Some (t, n)" "n < 2 ^ 31"
  then obtain d where d: "k = Some (t, d)" "n = nat (ram_depth d)" by (auto simp: ram_held_def)
  then have "ram_depth d < 2 ^ 31" using \<open>n < 2 ^ 31\<close> by (simp add: nat_less_iff ram_depth_bounds order_trans)
  then show "\<exists>k'. NtWaitMutant ram_mutant k t h q = (STATUS_SUCCESS, k') \<and> ram_held k' = Some (t, Suc n)"
    using d ram_depth_bounds [of d] ram_depth_id [of "ram_depth d + 1"] by (auto simp: ram_mutant_def ram_held_def)
qed (auto simp: ram_mutant_def ram_held_def ram_depth_id split: option.splits)

section \<open>Theorems\<close>

definition fresh_mutex :: "32 word \<Rightarrow> HANDLE \<Rightarrow> mutex_t" where
  "fresh_mutex ty h = \<lparr>m_owner = 0, m_count = 0, m_type = ty, m_handle = h\<rparr>"

text \<open>C15: calls of lock, trylock and unlock by any threads, each running undisturbed, give the results
  of a lock with one holder and a recursion depth: EDEADLK for a second lock of a mutex that is not
  recursive, EBUSY for a trylock of a timed mutex another thread holds, EPERM for an unlock by a thread
  that does not hold it.\<close>

theorem mutex_calls_refine_lock:
  assumes "mutant nt h held" and "h \<noteq> 0" and "held k = None" and "0 \<notin> fst ` set calls"
    and "m = fresh_mutex ty h" and "spec_run (recursive m) (timed m) calls None = Some (results, l)"
  shows "\<exists>m' k'. mutex_run nt e0 calls m k = Some (results, m', k') \<and> held k' = l"
proof -
  have "mutant.lock_rel h held m k"
    using assms by (simp add: mutant.lock_rel_def [OF assms(1)] fresh_mutex_def)
  then show ?thesis using mutant.runs_refine [OF assms(1), of m k calls results l e0] assms(3,4,6) by auto
qed

theorem mutex_calls_refine_lock_witness:
  "\<exists>m' k'. mutex_run ram_mutant None [(1, Lock), (2, TryLock), (1, Lock), (2, Unlock), (1, Unlock), (2, TryLock)]
      (fresh_mutex WLIBC_MUTEX_TIMED 4) None
    = Some ([Inr (), fail_with EBUSY, fail_with EDEADLK, fail_with EPERM, Inr (), Inr ()], m', k') \<and> ram_held k' = Some (2, 1)"
proof -
  have "\<not> recursive (fresh_mutex WLIBC_MUTEX_TIMED 4)" "timed (fresh_mutex WLIBC_MUTEX_TIMED 4)" by code_simp+
  then show ?thesis
    using mutex_calls_refine_lock [OF ram.mutant_axioms, of 4 None
        "[(1, Lock), (2, TryLock), (1, Lock), (2, Unlock), (1, Unlock), (2, TryLock)]"
        "fresh_mutex WLIBC_MUTEX_TIMED 4" WLIBC_MUTEX_TIMED]
    by (simp add: ram_held_def lock_spec_def)
qed

text \<open>C16: in every interleaving of the atomic accesses of lock and unlock, at most one thread is
  between acquiring the mutant and finishing its lock, and it is the holder of the mutant; whenever no
  call is in progress the count is the recursion depth of the mutant.\<close>

theorem mutex_count_is_depth:
  assumes "mutant nt h held" and "held k = None"
    and "mutex_reaches nt \<lparr>mtx = fresh_mutex ty h, kernel = k, pcs = (\<lambda>t. Idle)\<rparr> s"
  shows "(\<forall>t u. pcs s t \<in> {LockOwner, LockCount} \<and> pcs s u \<in> {LockOwner, LockCount} \<longrightarrow> t = u)
    \<and> (\<forall>t. pcs s t \<in> {LockOwner, LockCount} \<longrightarrow> (\<exists>n. held (kernel s) = Some (t, n)))
    \<and> ((\<forall>t. pcs s t = Idle) \<longrightarrow> m_count (mtx s) = of_nat (case held (kernel s) of None \<Rightarrow> 0 | Some (t, n) \<Rightarrow> n))"
proof -
  note defs = mutant.minv_def [OF assms(1)] mutant.depth_def [OF assms(1)]
  have "mutant.minv h held \<lparr>mtx = fresh_mutex ty h, kernel = k, pcs = (\<lambda>t. Idle)\<rparr>"
    using assms(2) by (simp add: defs fresh_mutex_def taking_def dropping_def)
  then have inv: "mutant.minv h held s" by (rule mutant.reaches_keeps [OF assms(1,3)])
  have one: "t = u" if "t \<in> taking s" "u \<in> taking s" for t u
    using mutant.taking_single [OF assms(1) inv that(1)] that(2) by simp
  have "taking s = {} \<and> dropping s = {}" if "\<forall>t. pcs s t = Idle" using that by (simp add: taking_def dropping_def)
  then show ?thesis using inv one unfolding defs by (auto simp: taking_def)
qed

lemma trace_reaches_from: "mutex_trace nt ls s = Some s' \<Longrightarrow> mutex_reaches nt s0 s \<Longrightarrow> mutex_reaches nt s0 s'"
proof (induction ls arbitrary: s)
  case (Cons tl ls)
  then obtain s1 where s1: "mutex_step nt (fst tl) (snd tl) s = Some s1" "mutex_trace nt ls s1 = Some s'"
    by (cases tl) (auto split: bind_splits)
  show ?case by (rule Cons.IH [OF s1(2) mutex_reaches.step [OF Cons.prems(2) s1(1)]])
qed simp

lemma trace_reaches: "mutex_trace nt ls s = Some s' \<Longrightarrow> mutex_reaches nt s s'"
  by (rule trace_reaches_from [OF _ mutex_reaches.start])

lemma step_other: "mutex_step nt t l s = Some s' \<Longrightarrow> u \<noteq> t \<Longrightarrow> pcs s' u = pcs s u"
  by (auto simp: mutex_step_def Let_def goto_def split: pc.splits step_label.splits if_splits prod.splits)

lemma trace_other: "mutex_trace nt ls s = Some s' \<Longrightarrow> u \<notin> fst ` set ls \<Longrightarrow> pcs s' u = pcs s u"
  by (induction ls arbitrary: s) (auto split: bind_splits dest: step_other)

lemma trace_append: "mutex_trace nt (xs @ ys) s = Option.bind (mutex_trace nt xs s) (mutex_trace nt ys)"
  by (induction xs arbitrary: s) (auto split: bind_splits)

definition mutex_start :: "(tid \<times> int) option msys" where
  "mutex_start = \<lparr>mtx = fresh_mutex WLIBC_MUTEX_TIMED 4, kernel = None, pcs = (\<lambda>t. Idle)\<rparr>"

definition locking :: "tid \<Rightarrow> (tid \<times> step_label) list" where
  "locking t = [(t, Begin), (t, Pass), (t, Acquired), (t, OwnerSet), (t, Counted)]"

definition summary :: "(tid \<times> int) option msys \<Rightarrow> (tid \<times> int) option \<times> tid \<times> 32 word \<times> pc \<times> pc" where
  "summary s = (kernel s, m_owner (mtx s), m_count (mtx s), pcs s 1, pcs s 2)"

lemma trace_summary:
  assumes "map_option summary (mutex_trace nt ls s) = Some x"
  shows "\<exists>s'. mutex_trace nt ls s = Some s' \<and> mutex_reaches nt s s' \<and> summary s' = x"
  using assms trace_reaches by (cases "mutex_trace nt ls s") auto

theorem mutex_count_is_depth_witness:
  "\<exists>s. mutex_reaches ram_mutant mutex_start s
    \<and> (\<forall>t u. pcs s t \<in> {LockOwner, LockCount} \<and> pcs s u \<in> {LockOwner, LockCount} \<longrightarrow> t = u) \<and> pcs s 2 = LockCount"
proof -
  have "map_option summary (mutex_trace ram_mutant (locking 1 @ [(1, Released), (2, Begin), (2, Pass), (2, Acquired), (2, OwnerSet)]) mutex_start)
      = Some (Some (2, 1), 2, 1, UnlockCount, LockCount)"
    by code_simp
  from trace_summary [OF this] obtain s where s: "mutex_reaches ram_mutant mutex_start s" "pcs s 2 = LockCount"
    by (auto simp: summary_def)
  have k: "ram_held None = None" by (simp add: ram_held_def)
  from mutex_count_is_depth [OF ram.mutant_axioms k s(1) [unfolded mutex_start_def]] s show ?thesis by blast
qed


text \<open>The owner can also be stale: thread 1 unlocks while thread 2 has not yet counted down its own
  unlock, so the count does not reach 0 and the owner stays thread 1; its next lock of the free mutex
  fails with EDEADLK.\<close>

theorem free_mutex_can_report_deadlock:
  "\<exists>s s'. mutex_reaches ram_mutant mutex_start s \<and> ram_held (kernel s) = None \<and> pcs s 1 = LockCheck
    \<and> mutex_step ram_mutant 1 Deadlock s = Some s'"
proof -
  let ?ls = "locking 2 @ [(2, Released)] @ locking 1 @ [(1, Released), (1, Dropped), (1, Begin)]"
  have "map_option summary (mutex_trace ram_mutant ?ls mutex_start) = Some (None, 1, 1, LockCheck, UnlockCount)"
    by code_simp
  from trace_summary [OF this] obtain s where "mutex_reaches ram_mutant mutex_start s" "kernel s = None" "m_owner (mtx s) = 1" "pcs s 1 = LockCheck"
    by (auto simp: summary_def)
  then show ?thesis by (auto simp: ram_held_def mutex_step_def)
qed

end
