(* ===== verification/CondVar.thy ===== *)
theory CondVar
  imports MutexProps
begin

unbundle bit_operations_syntax

text \<open>
  Condition variables (src/thread/cond.c) and read-write locks (src/thread/rwlock.c).

  A condition variable is an array of 64 thread ids with two indices and a counter. Every access to
  it is made under its spin lock, so each is one step here; \<open>wlibc_cond_common_wait\<close> is two steps,
  what it does before it sleeps and what it does after, since other threads run in between. Alerting a
  thread is a kernel call (\<open>alert\<close>), a function of the kernel state and the thread id.
\<close>

section \<open>Condition variables\<close>

record cond_t =
  c_ptr :: "tid list option"
  c_waiting :: int
  c_size :: nat
  c_begin :: nat
  c_end :: nat

text \<open>\<open>junk\<close> is what a fresh block holds, \<open>heap\<close> whether it is granted.\<close>

definition wlibc_cond_init :: "bool \<Rightarrow> (nat \<Rightarrow> tid) \<Rightarrow> cond_t option \<Rightarrow> cond_t res \<times> cond_t option" where
  "wlibc_cond_init heap junk cond = (case cond of None \<Rightarrow> (fail_with EINVAL, None) | Some c \<Rightarrow>
     let c1 = \<lparr>c_ptr = (if heap then Some (map junk [0..<64]) else None), c_waiting = 0, c_size = 64, c_begin = 0, c_end = 0\<rparr> in
     (if heap then Inr c1 else fail_with ENOMEM, Some c1))"

definition cond_valid :: "cond_t option \<Rightarrow> bool" where
  "cond_valid cond \<longleftrightarrow> (case cond of None \<Rightarrow> False | Some c \<Rightarrow> c_ptr c \<noteq> None)"

definition wlibc_cond_destroy :: "cond_t option \<Rightarrow> cond_t res" where
  "wlibc_cond_destroy cond =
     (if \<not> cond_valid cond then fail_with EINVAL
      else Inr \<lparr>c_ptr = None, c_waiting = 0, c_size = 0, c_begin = 0, c_end = 0\<rparr>)"

text \<open>The id at the front of the queue, and the queue without it.\<close>

definition take_front :: "cond_t \<Rightarrow> (tid \<times> cond_t) ub" where
  "take_front c = do {
     q \<leftarrow> c_ptr c;
     t \<leftarrow> load q (c_begin c);
     q' \<leftarrow> store (c_begin c) 0 q;
     Some (t, c\<lparr>c_ptr := Some q'\<rparr>) }"

definition wlibc_cond_signal ::
  "('k \<Rightarrow> tid \<Rightarrow> ntstatus \<times> 'k) \<Rightarrow> cond_t \<Rightarrow> 'k \<Rightarrow> (unit res \<times> cond_t \<times> 'k) ub" where
  "wlibc_cond_signal alert c k =
     (if \<not> cond_valid (Some c) then Some (fail_with EINVAL, c, k)
      else do {
        (t, c1) \<leftarrow> (if c_waiting c > 0 then do {
            (t, c1) \<leftarrow> take_front c;
            let c2 = (if c_begin c1 + 1 = c_end c1 then c1\<lparr>c_begin := 0, c_end := 0\<rparr> else c1);
            Some (t, c2\<lparr>c_waiting := c_waiting c2 - 1\<rparr>) }
          else Some (0, c));
        if t \<noteq> 0 then
          (let (status, k1) = alert k t in
           if status \<noteq> STATUS_SUCCESS then Some (Inl (map_ntstatus_to_errno status), c1, k1)
           else Some (Inr (), c1, k1))
        else Some (Inr (), c1, k) })"

text \<open>The loop of broadcast runs until the counter is 0, which a negative counter never is.\<close>

partial_function (option) broadcast_loop ::
  "('k \<Rightarrow> tid \<Rightarrow> ntstatus \<times> 'k) \<Rightarrow> cond_t \<Rightarrow> 'k \<Rightarrow> (cond_t \<times> 'k) ub" where
  "broadcast_loop alert c k =
     (if c_waiting c \<noteq> 0 then do {
        (t, c1) \<leftarrow> take_front c;
        let c2 = c1\<lparr>c_begin := c_begin c1 + 1, c_waiting := c_waiting c1 - 1\<rparr>;
        let c3 = (if c_begin c2 = c_size c2 then c2\<lparr>c_begin := 0\<rparr> else c2);
        broadcast_loop alert c3 (if t \<noteq> 0 then snd (alert k t) else k) }
      else Some (c, k))"

definition wlibc_cond_broadcast ::
  "('k \<Rightarrow> tid \<Rightarrow> ntstatus \<times> 'k) \<Rightarrow> cond_t \<Rightarrow> 'k \<Rightarrow> (unit res \<times> cond_t \<times> 'k) ub" where
  "wlibc_cond_broadcast alert c k =
     (if \<not> cond_valid (Some c) then Some (fail_with EINVAL, c, k)
      else do {
        (c1, k1) \<leftarrow> broadcast_loop alert c k;
        Some (Inr (), c1\<lparr>c_begin := 0, c_end := 0\<rparr>, k1) })"

text \<open>Entering the queue; the result is the slot taken.\<close>

definition cond_enqueue :: "tid \<Rightarrow> cond_t \<Rightarrow> (nat \<times> cond_t) ub" where
  "cond_enqueue me c = (let c1 = (if c_end c = c_size c then c\<lparr>c_end := 0\<rparr> else c) in do {
     q \<leftarrow> c_ptr c1;
     q' \<leftarrow> store (c_end c1) me q;
     Some (c_end c1, c1\<lparr>c_ptr := Some q', c_end := c_end c1 + 1, c_waiting := c_waiting c1 + 1\<rparr>) })"

definition cond_wait_begin ::
  "'k mutant_nt \<Rightarrow> tid \<Rightarrow> timespec option \<Rightarrow> cond_t \<Rightarrow> mutex_t \<Rightarrow> 'k
     \<Rightarrow> ((nat \<times> int option) res \<times> cond_t \<times> mutex_t \<times> 'k) ub" where
  "cond_wait_begin nt me abstime c m k = (case wlibc_mutex_unlock nt me m k of
       (Inl e, m1, k1) \<Rightarrow> Some (Inl e, c, m1, k1)
     | (Inr _, m1, k1) \<Rightarrow> do {
         timeout \<leftarrow> (case abstime of None \<Rightarrow> Some None | Some ts \<Rightarrow> map_option Some (timespec_to_LARGE_INTEGER ts));
         (index, c1) \<leftarrow> cond_enqueue me c;
         Some (Inr (index, timeout), c1, m1, k1) })"

text \<open>After the sleep, with the status of \<open>NtWaitForAlertByThreadId\<close>: a timeout takes the thread off
  its slot; an error returns without the mutex.\<close>

definition cond_wait_end ::
  "'k mutant_nt \<Rightarrow> errno option \<Rightarrow> tid \<Rightarrow> nat \<Rightarrow> ntstatus \<Rightarrow> cond_t \<Rightarrow> mutex_t \<Rightarrow> 'k
     \<Rightarrow> (unit res \<times> cond_t \<times> mutex_t \<times> 'k) ub" where
  "cond_wait_end nt e0 me index status c m k =
     (if status \<noteq> STATUS_SUCCESS then do {
        c1 \<leftarrow> (if status = STATUS_TIMEOUT then do {
            q \<leftarrow> c_ptr c;
            q' \<leftarrow> store index 0 q;
            Some (c\<lparr>c_ptr := Some q', c_waiting := c_waiting c - 1\<rparr>) }
          else Some c);
        Some (Inl (map_ntstatus_to_errno status), c1, m, k) }
      else do {
        (r, m1, k1) \<leftarrow> wlibc_mutex_lock nt e0 me m k;
        Some (r, c, m1, k1) })"

section \<open>Waking waiters\<close>

fun enqueue_all :: "tid list \<Rightarrow> cond_t \<Rightarrow> cond_t ub" where
  "enqueue_all [] c = Some c"
| "enqueue_all (t # ts) c = do { (_, c1) \<leftarrow> cond_enqueue t c; enqueue_all ts c1 }"

definition fresh_cond :: "(nat \<Rightarrow> tid) \<Rightarrow> cond_t" where
  "fresh_cond junk = \<lparr>c_ptr = Some (map junk [0..<64]), c_waiting = 0, c_size = 64, c_begin = 0, c_end = 0\<rparr>"

text \<open>A queue with \<open>ts\<close> waiting from slot 0 on.\<close>

definition queued :: "tid list \<Rightarrow> tid list \<Rightarrow> cond_t" where
  "queued ts rest = \<lparr>c_ptr = Some (ts @ rest), c_waiting = int (length ts), c_size = 64, c_begin = 0, c_end = length ts\<rparr>"

lemma enqueue_one: "r # rest = tail \<Longrightarrow> length ts < 64 \<Longrightarrow> cond_enqueue t (queued ts tail) = Some (length ts, queued (ts @ [t]) rest)"
  by (auto simp: cond_enqueue_def queued_def Let_def)

lemma enqueue_all_queued:
  "length ts + length us + length rest = 64 \<Longrightarrow> length junk = length us \<Longrightarrow>
     enqueue_all us (queued ts (junk @ rest)) = Some (queued (ts @ us) rest)"
proof (induction us arbitrary: ts junk)
  case (Cons u us)
  then obtain j junk' where j: "junk = j # junk'" by (cases junk) auto
  have "cond_enqueue u (queued ts (junk @ rest)) = Some (length ts, queued (ts @ [u]) (junk' @ rest))"
    using Cons.prems j by (intro enqueue_one [of j]) auto
  then show ?case using Cons.IH [of "ts @ [u]" junk'] Cons.prems j by simp
qed (simp add: queued_def)

lemma fresh_queued: "fresh_cond junk = queued [] (map junk [0..<64])"
  by (simp add: fresh_cond_def queued_def)

lemma enqueue_empty:
  assumes "length ts \<le> 64" "length q = 64"
  shows "enqueue_all ts (queued [] q) = Some (queued ts (drop (length ts) q))"
  using enqueue_all_queued [of "[]" ts "drop (length ts) q" "take (length ts) q"] assms by simp

lemma enqueue_fresh:
  assumes "length ts \<le> 64"
  shows "\<exists>rest. length rest = 64 - length ts \<and> enqueue_all ts (fresh_cond junk) = Some (queued ts rest)"
  using enqueue_empty [OF assms, of "map junk [0..<64]"] by (intro exI [of _ "drop (length ts) (map junk [0..<64])"]) (simp add: fresh_queued)

text \<open>The alerts a broadcast sends, as a fold over the waiting threads.\<close>

definition alerts :: "('k \<Rightarrow> tid \<Rightarrow> ntstatus \<times> 'k) \<Rightarrow> tid list \<Rightarrow> 'k \<Rightarrow> 'k" where
  "alerts alert ts k = foldl (\<lambda>k t. if t \<noteq> 0 then snd (alert k t) else k) k ts"

lemma broadcast_loop_alerts:
  "i + length ts \<le> 64 \<Longrightarrow> length zs = i \<Longrightarrow> length (zs @ ts @ rest) = 64 \<Longrightarrow>
   \<exists>c. broadcast_loop alert \<lparr>c_ptr = Some (zs @ ts @ rest), c_waiting = int (length ts), c_size = 64, c_begin = i mod 64, c_end = e\<rparr> k
       = Some (c, alerts alert ts k) \<and> (\<exists>q. c_ptr c = Some q \<and> length q = 64) \<and> c_waiting c = 0 \<and> c_size c = 64"
proof (induction ts arbitrary: i zs k)
  case Nil
  then show ?case by (subst broadcast_loop.simps) (simp add: alerts_def)
next
  case (Cons t ts)
  let ?c = "\<lparr>c_ptr = Some ((zs @ [0]) @ ts @ rest), c_waiting = int (length ts), c_size = 64, c_begin = Suc i mod 64, c_end = e\<rparr>"
  have i: "i < 64" using Cons.prems by simp
  have "take_front \<lparr>c_ptr = Some (zs @ (t # ts) @ rest), c_waiting = int (length (t # ts)), c_size = 64, c_begin = i mod 64, c_end = e\<rparr>
      = Some (t, \<lparr>c_ptr = Some (zs @ 0 # ts @ rest), c_waiting = int (length (t # ts)), c_size = 64, c_begin = i mod 64, c_end = e\<rparr>)"
    using Cons.prems i by (simp add: take_front_def nth_append list_update_append)
  then have "broadcast_loop alert \<lparr>c_ptr = Some (zs @ (t # ts) @ rest), c_waiting = int (length (t # ts)), c_size = 64,
        c_begin = i mod 64, c_end = e\<rparr> k
      = broadcast_loop alert ?c (if t \<noteq> 0 then snd (alert k t) else k)"
    using i by (subst broadcast_loop.simps) (auto simp: Let_def)
  then show ?case using Cons.IH [of "Suc i" "zs @ [0]" "if t \<noteq> 0 then snd (alert k t) else k"] Cons.prems
    by (simp add: alerts_def)
qed

text \<open>Rounds of waiting and broadcasting: the threads of a round enter the queue one after the other.\<close>

fun broadcast_rounds :: "('k \<Rightarrow> tid \<Rightarrow> ntstatus \<times> 'k) \<Rightarrow> tid list list \<Rightarrow> cond_t \<Rightarrow> 'k \<Rightarrow> (cond_t \<times> 'k) ub" where
  "broadcast_rounds alert [] c k = Some (c, k)"
| "broadcast_rounds alert (ts # rounds) c k = do {
     c1 \<leftarrow> enqueue_all ts c;
     (r, c2, k1) \<leftarrow> wlibc_cond_broadcast alert c1 k;
     if r = Inr () then broadcast_rounds alert rounds c2 k1 else None }"

lemma broadcast_round:
  assumes "length ts \<le> 64" "length q = 64"
  shows "\<exists>q'. length q' = 64 \<and> wlibc_cond_broadcast alert (queued ts (drop (length ts) q)) k = Some (Inr (), queued [] q', alerts alert ts k)"
proof -
  let ?c = "queued ts (drop (length ts) q)"
  obtain c q' where c: "broadcast_loop alert ?c k = Some (c, alerts alert ts k)" "c_ptr c = Some q'" "length q' = 64" "c_waiting c = 0" "c_size c = 64"
    using broadcast_loop_alerts [of 0 ts "[]" "drop (length ts) q" alert "length ts" k] assms by (auto simp: queued_def)
  then have "c\<lparr>c_begin := 0, c_end := 0\<rparr> = queued [] q'" by (simp add: queued_def)
  moreover have "cond_valid (Some ?c)" by (simp add: cond_valid_def queued_def)
  ultimately show ?thesis using c by (intro exI [of _ q']) (simp add: wlibc_cond_broadcast_def)
qed

lemma broadcast_rounds_alert:
  "\<forall>ts \<in> set rounds. length ts \<le> 64 \<Longrightarrow> length q = 64 \<Longrightarrow>
     \<exists>q'. length q' = 64 \<and> broadcast_rounds alert rounds (queued [] q) k = Some (queued [] q', alerts alert (concat rounds) k)"
proof (induction rounds arbitrary: q k)
  case (Cons ts rounds)
  obtain q1 where q1: "length q1 = 64"
      "wlibc_cond_broadcast alert (queued ts (drop (length ts) q)) k = Some (Inr (), queued [] q1, alerts alert ts k)"
    using broadcast_round [of ts q alert k] Cons.prems by auto
  then show ?case using Cons.IH [OF _ q1(1), of "alerts alert ts k"] Cons.prems enqueue_empty [of ts q]
    by (simp add: alerts_def)
qed (auto simp: alerts_def)



text \<open>Signal does not advance the queue unless it empties it: of two waiting threads the first signal
  wakes the first, the second signal wakes none, and the condition variable then counts no waiters, so
  a broadcast does not wake the second thread either.\<close>

theorem second_waiter_is_lost:
  assumes "t \<noteq> 0" and "fst (alert k t) = STATUS_SUCCESS"
  shows "\<exists>c1 c2 c3 c4. enqueue_all [t, u] (fresh_cond junk) = Some c1
    \<and> wlibc_cond_signal alert c1 k = Some (Inr (), c2, snd (alert k t))
    \<and> wlibc_cond_signal alert c2 (snd (alert k t)) = Some (Inr (), c3, snd (alert k t)) \<and> c_waiting c3 = 0
    \<and> wlibc_cond_broadcast alert c3 (snd (alert k t)) = Some (Inr (), c4, snd (alert k t))"
proof -
  obtain rest where r: "length rest = 62" "enqueue_all [t, u] (fresh_cond junk) = Some (queued [t, u] rest)"
    using enqueue_fresh [of "[t, u]" junk] by auto
  let ?c2 = "\<lparr>c_ptr = Some (0 # u # rest), c_waiting = 1, c_size = 64, c_begin = 0, c_end = 2\<rparr>"
  let ?c3 = "?c2\<lparr>c_waiting := 0\<rparr>"
  have one: "wlibc_cond_signal alert (queued [t, u] rest) k = Some (Inr (), ?c2, snd (alert k t))"
    using assms by (auto simp: wlibc_cond_signal_def cond_valid_def queued_def take_front_def Let_def split: prod.splits)
  have two: "wlibc_cond_signal alert ?c2 k' = Some (Inr (), ?c3, k')" for k'
    by (simp add: wlibc_cond_signal_def cond_valid_def take_front_def Let_def)
  have "broadcast_loop alert ?c3 k' = Some (?c3, k')" for k' by (subst broadcast_loop.simps) simp
  then have "\<exists>c4. wlibc_cond_broadcast alert ?c3 k' = Some (Inr (), c4, k')" for k'
    by (simp add: wlibc_cond_broadcast_def cond_valid_def)
  then show ?thesis using one two r(2) by fastforce
qed

theorem second_waiter_is_lost_witness:
  "\<exists>c1 c2 c3. enqueue_all [5, 6] (fresh_cond (\<lambda>i. 0)) = Some c1
    \<and> wlibc_cond_signal (\<lambda>k t. (STATUS_SUCCESS, k @ [t])) c1 [] = Some (Inr (), c2, [5])
    \<and> wlibc_cond_signal (\<lambda>k t. (STATUS_SUCCESS, k @ [t])) c2 [5] = Some (Inr (), c3, [5])"
  using second_waiter_is_lost [of 5 "\<lambda>k t. (STATUS_SUCCESS, k @ [t])" "[]" 6 "\<lambda>i. 0"] by auto

end
