(* ===== verification/RwLock.thy ===== *)
theory RwLock
  imports Threads
begin

text \<open>
  Read-write locks (src/thread/rwlock.c). The lock is a slim reader-writer lock of the system beside a
  field that records the mode it was last taken in; unlock releases in that mode. The system lock is a
  parameter \<open>srw\<close>, whose contract is the locale \<open>srw_lock\<close>: it is free, shared by some readers or
  exclusive. An acquisition that would wait is \<open>None\<close>. The timed variants poll; the \<open>i\<close>-th poll sees
  the lock as the other threads left it (\<open>others i\<close>) and reads the clock \<open>clock i\<close>.
\<close>

section \<open>The calls\<close>

record 'r srw =
  TryShared :: "'r \<Rightarrow> 'r option"
  TryExclusive :: "'r \<Rightarrow> 'r option"
  ReleaseShared :: "'r \<Rightarrow> 'r"
  ReleaseExclusive :: "'r \<Rightarrow> 'r"
  NotHeld :: "'r \<Rightarrow> bool"
  SrwInit :: 'r

record 'r rwlock_t =
  rw_ptr :: 'r
  rw_lock :: int

definition RWLOCK_NOT_LOCKED :: int where "RWLOCK_NOT_LOCKED = 0"
definition RWLOCK_SHARED_LOCK :: int where "RWLOCK_SHARED_LOCK = 1"
definition RWLOCK_EXCLUSIVE_LOCK :: int where "RWLOCK_EXCLUSIVE_LOCK = 2"
definition RWLOCK_DESTROYED :: int where "RWLOCK_DESTROYED = - 1"

lemmas rw_consts = RWLOCK_NOT_LOCKED_def RWLOCK_SHARED_LOCK_def RWLOCK_EXCLUSIVE_LOCK_def RWLOCK_DESTROYED_def

definition wlibc_rwlock_init :: "'r srw \<Rightarrow> 'r rwlock_t \<Rightarrow> 'r rwlock_t" where
  "wlibc_rwlock_init os l = \<lparr>rw_ptr = SrwInit os, rw_lock = RWLOCK_NOT_LOCKED\<rparr>"

definition wlibc_rwlock_destroy :: "'r rwlock_t \<Rightarrow> unit res \<times> 'r rwlock_t" where
  "wlibc_rwlock_destroy l =
     (if rw_lock l = RWLOCK_DESTROYED then (fail_with EINVAL, l) else (Inr (), l\<lparr>rw_lock := RWLOCK_DESTROYED\<rparr>))"

text \<open>\<open>rdlock\<close> and \<open>wrlock\<close>; \<open>None\<close> while the lock is not available.\<close>

definition wlibc_rwlock_rdlock :: "'r srw \<Rightarrow> 'r rwlock_t \<Rightarrow> (unit res \<times> 'r rwlock_t) option" where
  "wlibc_rwlock_rdlock os l =
     (if rw_lock l = RWLOCK_DESTROYED then Some (fail_with EINVAL, l)
      else map_option (\<lambda>r. (Inr (), \<lparr>rw_ptr = r, rw_lock = RWLOCK_SHARED_LOCK\<rparr>)) (TryShared os (rw_ptr l)))"

definition wlibc_rwlock_wrlock :: "'r srw \<Rightarrow> 'r rwlock_t \<Rightarrow> (unit res \<times> 'r rwlock_t) option" where
  "wlibc_rwlock_wrlock os l =
     (if rw_lock l = RWLOCK_DESTROYED then Some (fail_with EINVAL, l)
      else map_option (\<lambda>r. (Inr (), \<lparr>rw_ptr = r, rw_lock = RWLOCK_EXCLUSIVE_LOCK\<rparr>)) (TryExclusive os (rw_ptr l)))"

definition wlibc_rwlock_tryrdlock :: "'r srw \<Rightarrow> 'r rwlock_t \<Rightarrow> unit res \<times> 'r rwlock_t" where
  "wlibc_rwlock_tryrdlock os l =
     (if rw_lock l = RWLOCK_DESTROYED then (fail_with EINVAL, l)
      else case TryShared os (rw_ptr l) of
        Some r \<Rightarrow> (Inr (), \<lparr>rw_ptr = r, rw_lock = RWLOCK_SHARED_LOCK\<rparr>)
      | None \<Rightarrow> (fail_with EBUSY, l))"

definition wlibc_rwlock_trywrlock :: "'r srw \<Rightarrow> 'r rwlock_t \<Rightarrow> unit res \<times> 'r rwlock_t" where
  "wlibc_rwlock_trywrlock os l =
     (if rw_lock l = RWLOCK_DESTROYED then (fail_with EINVAL, l)
      else case TryExclusive os (rw_ptr l) of
        Some r \<Rightarrow> (Inr (), \<lparr>rw_ptr = r, rw_lock = RWLOCK_EXCLUSIVE_LOCK\<rparr>)
      | None \<Rightarrow> (fail_with EBUSY, l))"

partial_function (option) poll_lock ::
  "('r \<Rightarrow> 'r option) \<Rightarrow> (nat \<Rightarrow> 'r \<Rightarrow> 'r) \<Rightarrow> (nat \<Rightarrow> int) \<Rightarrow> int \<Rightarrow> nat \<Rightarrow> 'r \<Rightarrow> (bool \<times> 'r) ub" where
  "poll_lock acquire others clock duetime i r = (case acquire (others i r) of
       Some r1 \<Rightarrow> Some (True, r1)
     | None \<Rightarrow> if clock i \<le> duetime then poll_lock acquire others clock duetime (Suc i) (others i r)
               else Some (False, others i r))"

definition timed_lock ::
  "('r \<Rightarrow> 'r option) \<Rightarrow> int \<Rightarrow> (nat \<Rightarrow> 'r \<Rightarrow> 'r) \<Rightarrow> (nat \<Rightarrow> int) \<Rightarrow> timespec option \<Rightarrow> 'r rwlock_t \<Rightarrow> (unit res \<times> 'r rwlock_t) ub" where
  "timed_lock acquire mode others clock abstime l =
     (if rw_lock l = RWLOCK_DESTROYED then Some (fail_with EINVAL, l)
      else case abstime of None \<Rightarrow> Some (fail_with EINVAL, l) | Some ts \<Rightarrow> do {
        duetime \<leftarrow> timespec_to_LARGE_INTEGER ts;
        (got, r) \<leftarrow> poll_lock acquire others clock duetime 0 (rw_ptr l);
        if got then Some (Inr (), \<lparr>rw_ptr = r, rw_lock = mode\<rparr>) else Some (fail_with ETIMEDOUT, l\<lparr>rw_ptr := r\<rparr>) })"

definition wlibc_rwlock_timedrdlock where
  "wlibc_rwlock_timedrdlock os = timed_lock (TryShared os) RWLOCK_SHARED_LOCK"

definition wlibc_rwlock_timedwrlock where
  "wlibc_rwlock_timedwrlock os = timed_lock (TryExclusive os) RWLOCK_EXCLUSIVE_LOCK"

text \<open>Unlock in two parts: up to the release, and the last test and store; the test and the store are
  separate accesses.\<close>

definition unlock_release :: "'r srw \<Rightarrow> 'r rwlock_t \<Rightarrow> (unit res \<times> 'r rwlock_t)" where
  "unlock_release os l =
     (if rw_lock l = RWLOCK_DESTROYED then (fail_with EINVAL, l)
      else if NotHeld os (rw_ptr l) then (fail_with EPERM, l\<lparr>rw_lock := RWLOCK_NOT_LOCKED\<rparr>)
      else if rw_lock l = RWLOCK_SHARED_LOCK then (Inr (), l\<lparr>rw_ptr := ReleaseShared os (rw_ptr l)\<rparr>)
      else if rw_lock l = RWLOCK_EXCLUSIVE_LOCK then (Inr (), l\<lparr>rw_ptr := ReleaseExclusive os (rw_ptr l)\<rparr>)
      else (fail_with EPERM, l))"

definition unlock_store :: "bool \<Rightarrow> 'r rwlock_t \<Rightarrow> 'r rwlock_t" where
  "unlock_store became_free l = (if became_free then l\<lparr>rw_lock := RWLOCK_NOT_LOCKED\<rparr> else l)"

definition wlibc_rwlock_unlock :: "'r srw \<Rightarrow> 'r rwlock_t \<Rightarrow> unit res \<times> 'r rwlock_t" where
  "wlibc_rwlock_unlock os l = (case unlock_release os l of
       (Inl e, l1) \<Rightarrow> (Inl e, l1)
     | (Inr _, l1) \<Rightarrow> (Inr (), unlock_store (NotHeld os (rw_ptr l1)) l1))"

section \<open>The contract of the system lock\<close>

datatype srw_state = Free | Shared nat | Exclusive

fun share :: "srw_state \<Rightarrow> srw_state option" where
  "share Free = Some (Shared 1)"
| "share (Shared n) = Some (Shared (Suc n))"
| "share Exclusive = None"

fun unshare :: "srw_state \<Rightarrow> srw_state" where
  "unshare (Shared n) = (if n \<le> 1 then Free else Shared (n - 1))"
| "unshare s = s"

locale srw_lock =
  fixes os :: "'r srw" and view :: "'r \<Rightarrow> srw_state"
  assumes init_free: "view (SrwInit os) = Free"
    and not_held: "NotHeld os r \<longleftrightarrow> view r = Free"
    and try_shared: "map_option view (TryShared os r) = share (view r)"
    and try_exclusive: "map_option view (TryExclusive os r) = (if view r = Free then Some Exclusive else None)"
    and release_shared: "view r = Shared n \<Longrightarrow> view (ReleaseShared os r) = unshare (view r)"
    and release_exclusive: "view r = Exclusive \<Longrightarrow> view (ReleaseExclusive os r) = Free"

text \<open>The abstract lock, with the same results.\<close>

datatype rwcall = RdLock | WrLock | TryRdLock | TryWrLock | RwUnlock

definition rw_spec :: "rwcall \<Rightarrow> srw_state \<Rightarrow> (unit res \<times> srw_state) option" where
  "rw_spec c s = (case c of
       RdLock \<Rightarrow> map_option (Pair (Inr ())) (share s)
     | WrLock \<Rightarrow> if s = Free then Some (Inr (), Exclusive) else None
     | TryRdLock \<Rightarrow> Some (case share s of None \<Rightarrow> (fail_with EBUSY, s) | Some s' \<Rightarrow> (Inr (), s'))
     | TryWrLock \<Rightarrow> Some (if s = Free then (Inr (), Exclusive) else (fail_with EBUSY, s))
     | RwUnlock \<Rightarrow> Some (case s of Free \<Rightarrow> (fail_with EPERM, s) | Shared n \<Rightarrow> (Inr (), unshare s) | Exclusive \<Rightarrow> (Inr (), Free)))"

fun rw_spec_run :: "rwcall list \<Rightarrow> srw_state \<Rightarrow> (unit res list \<times> srw_state) option" where
  "rw_spec_run [] s = Some ([], s)"
| "rw_spec_run (c # cs) s = do { (r, s1) \<leftarrow> rw_spec c s; (rs, s2) \<leftarrow> rw_spec_run cs s1; Some (r # rs, s2) }"

fun rw_call :: "'r srw \<Rightarrow> rwcall \<Rightarrow> 'r rwlock_t \<Rightarrow> (unit res \<times> 'r rwlock_t) option" where
  "rw_call os RdLock l = wlibc_rwlock_rdlock os l"
| "rw_call os WrLock l = wlibc_rwlock_wrlock os l"
| "rw_call os TryRdLock l = Some (wlibc_rwlock_tryrdlock os l)"
| "rw_call os TryWrLock l = Some (wlibc_rwlock_trywrlock os l)"
| "rw_call os RwUnlock l = Some (wlibc_rwlock_unlock os l)"

fun rw_run :: "'r srw \<Rightarrow> rwcall list \<Rightarrow> 'r rwlock_t \<Rightarrow> (unit res list \<times> 'r rwlock_t) option" where
  "rw_run os [] l = Some ([], l)"
| "rw_run os (c # cs) l = do { (r, l1) \<leftarrow> rw_call os c l; (rs, l2) \<leftarrow> rw_run os cs l1; Some (r # rs, l2) }"

fun mode_of :: "srw_state \<Rightarrow> int" where
  "mode_of Free = RWLOCK_NOT_LOCKED"
| "mode_of (Shared n) = RWLOCK_SHARED_LOCK"
| "mode_of Exclusive = RWLOCK_EXCLUSIVE_LOCK"

lemma mode_valid [simp]: "mode_of s \<noteq> RWLOCK_DESTROYED"
  by (cases s) (simp_all add: rw_consts)

context srw_lock
begin

definition rw_rel :: "'r rwlock_t \<Rightarrow> bool" where
  "rw_rel l \<longleftrightarrow> rw_lock l = mode_of (view (rw_ptr l))"

lemma shared_cases:
  "case TryShared os r of None \<Rightarrow> share (view r) = None | Some r' \<Rightarrow> share (view r) = Some (view r')"
  using try_shared [of r] by (cases "TryShared os r") auto

lemma exclusive_cases:
  "case TryExclusive os r of None \<Rightarrow> view r \<noteq> Free | Some r' \<Rightarrow> view r = Free \<and> view r' = Exclusive"
  using try_exclusive [of r] by (cases "TryExclusive os r") (auto split: if_splits)

lemma shared_mode: "TryShared os r = Some r' \<Longrightarrow> mode_of (view r') = RWLOCK_SHARED_LOCK"
  using shared_cases [of r] by (cases "view r"; cases "view r'") auto

lemma call_refines:
  assumes "rw_rel l"
  shows "(case rw_spec c (view (rw_ptr l)) of None \<Rightarrow> rw_call os c l = None
    | Some (r, s) \<Rightarrow> \<exists>l'. rw_call os c l = Some (r, l') \<and> view (rw_ptr l') = s \<and> rw_rel l')"
proof -
  have m: "rw_lock l = mode_of (view (rw_ptr l))" using assms by (simp add: rw_rel_def)
  have nd: "rw_lock l \<noteq> RWLOCK_DESTROYED" using m by simp
  note sh = shared_cases [of "rw_ptr l"] and ex = exclusive_cases [of "rw_ptr l"]
  show ?thesis
  proof (cases c)
    case RdLock
    then show ?thesis using nd sh shared_mode [of "rw_ptr l"]
      by (auto simp: rw_spec_def wlibc_rwlock_rdlock_def rw_rel_def split: option.splits)
  next
    case WrLock
    then show ?thesis using nd ex by (auto simp: rw_spec_def wlibc_rwlock_wrlock_def rw_rel_def split: option.splits)
  next
    case TryRdLock
    then show ?thesis using m nd sh shared_mode [of "rw_ptr l"]
      by (auto simp: rw_spec_def wlibc_rwlock_tryrdlock_def rw_rel_def split: option.splits)
  next
    case TryWrLock
    then show ?thesis using m nd ex by (auto simp: rw_spec_def wlibc_rwlock_trywrlock_def rw_rel_def split: option.splits)
  next
    case RwUnlock
    then show ?thesis using m
      by (cases "view (rw_ptr l)")
        (auto simp: rw_spec_def wlibc_rwlock_unlock_def unlock_release_def unlock_store_def not_held release_shared
          release_exclusive rw_rel_def rw_consts)
  qed
qed

lemma run_refines:
  "rw_rel l \<Longrightarrow> rw_spec_run cs (view (rw_ptr l)) = Some (rs, s) \<Longrightarrow>
     \<exists>l'. rw_run os cs l = Some (rs, l') \<and> view (rw_ptr l') = s"
proof (induction cs arbitrary: l rs)
  case (Cons c cs)
  then obtain r s1 rs1 where s: "rw_spec c (view (rw_ptr l)) = Some (r, s1)" "rw_spec_run cs s1 = Some (rs1, s)" "rs = r # rs1"
    by (auto split: bind_splits)
  obtain l1 where "rw_call os c l = Some (r, l1)" "view (rw_ptr l1) = s1" "rw_rel l1"
    using call_refines [OF Cons.prems(1), of c] s(1) by auto
  then show ?case using Cons.IH [of l1 rs1] s by auto
qed simp

end

section \<open>A system lock in memory\<close>

definition ram_srw :: "srw_state srw" where
  "ram_srw = \<lparr>TryShared = share, TryExclusive = (\<lambda>s. if s = Free then Some Exclusive else None), ReleaseShared = unshare,
     ReleaseExclusive = (\<lambda>s. Free), NotHeld = (\<lambda>s. s = Free), SrwInit = Free\<rparr>"

interpretation ram_srw: srw_lock ram_srw id
  by unfold_locales (auto simp: ram_srw_def option.map_id)

text \<open>C21: calls on an initialised read-write lock, each running undisturbed, give the results of a lock
  that many readers or one writer hold: unlock releases in the mode the lock is held in, fails with EPERM
  when it is free, and the try variants fail with EBUSY.\<close>

theorem rwlock_calls_refine_lock:
  assumes "srw_lock os view" and "rw_spec_run calls Free = Some (results, s)"
  shows "\<exists>l. rw_run os calls (wlibc_rwlock_init os l0) = Some (results, l) \<and> view (rw_ptr l) = s"
proof -
  have "srw_lock.rw_rel view (wlibc_rwlock_init os l0)" "view (rw_ptr (wlibc_rwlock_init os l0)) = Free"
    using srw_lock.init_free [OF assms(1)] by (simp_all add: srw_lock.rw_rel_def [OF assms(1)] wlibc_rwlock_init_def)
  then show ?thesis using srw_lock.run_refines [OF assms(1)] assms(2) by metis
qed

theorem rwlock_calls_refine_lock_witness:
  "\<exists>l. rw_run ram_srw [RdLock, RdLock, TryWrLock, RwUnlock, RwUnlock, RwUnlock, WrLock]
      (wlibc_rwlock_init ram_srw \<lparr>rw_ptr = Exclusive, rw_lock = 7\<rparr>)
    = Some ([Inr (), Inr (), fail_with EBUSY, Inr (), Inr (), fail_with EPERM, Inr ()], l) \<and> rw_ptr l = Exclusive"
  using rwlock_calls_refine_lock [OF ram_srw.srw_lock_axioms, of "[RdLock, RdLock, TryWrLock, RwUnlock, RwUnlock, RwUnlock, WrLock]"]
  by (auto simp: rw_spec_def)

section \<open>Timed acquisition\<close>

text \<open>What poll \<open>j\<close> finds when no earlier one took the lock.\<close>

fun found :: "(nat \<Rightarrow> 'r \<Rightarrow> 'r) \<Rightarrow> nat \<Rightarrow> 'r \<Rightarrow> nat \<Rightarrow> 'r" where
  "found others i r 0 = others i r"
| "found others i r (Suc j) = found others (Suc i) (others i r) j"

lemma poll_lock_ends:
  assumes "duetime < clock (i + n)"
  shows "\<exists>j. (\<forall>m < j. acquire (found others i r m) = None \<and> clock (i + m) \<le> duetime)
    \<and> (case acquire (found others i r j) of
         Some r1 \<Rightarrow> poll_lock acquire others clock duetime i r = Some (True, r1)
       | None \<Rightarrow> duetime < clock (i + j) \<and> poll_lock acquire others clock duetime i r = Some (False, found others i r j))"
  using assms
proof (induction n arbitrary: i r)
  case 0
  then show ?case unfolding poll_lock.simps [of acquire others clock duetime i r]
    by (intro exI [of _ 0]) (auto split: option.split)
next
  case (Suc n)
  show ?case
  proof (cases "acquire (others i r) = None \<and> clock i \<le> duetime")
    case True
    obtain j where j: "\<forall>m < j. acquire (found others (Suc i) (others i r) m) = None \<and> clock (Suc i + m) \<le> duetime"
        "case acquire (found others (Suc i) (others i r) j) of
           Some r1 \<Rightarrow> poll_lock acquire others clock duetime (Suc i) (others i r) = Some (True, r1)
         | None \<Rightarrow> duetime < clock (Suc i + j)
             \<and> poll_lock acquire others clock duetime (Suc i) (others i r) = Some (False, found others (Suc i) (others i r) j)"
      using Suc.IH [of "Suc i" "others i r"] Suc.prems by auto
    have "\<forall>m < Suc j. acquire (found others i r m) = None \<and> clock (i + m) \<le> duetime"
      using j(1) True by (auto simp: less_Suc_eq_0_disj)
    then show ?thesis unfolding poll_lock.simps [of acquire others clock duetime i r]
      using j(2) True by (intro exI [of _ "Suc j"]) (auto split: option.splits)
  next
    case False
    then show ?thesis unfolding poll_lock.simps [of acquire others clock duetime i r]
      by (intro exI [of _ 0]) (auto simp: not_le split: option.split)
  qed
qed

text \<open>C37: a timed acquisition returns as soon as the clock passes the due time, if not before. It polls until
  it finds the lock free, and then holds it exclusively, or until the due time has passed, and then fails
  with ETIMEDOUT and leaves the lock as the other threads made it; at every earlier poll the lock
  was held and the time had not come.\<close>

theorem timed_lock_returns:
  assumes "srw_lock os view" and "rw_lock l \<noteq> RWLOCK_DESTROYED" and "timespec_to_LARGE_INTEGER ts = Some duetime" and "duetime < clock n"
  shows "\<exists>j. (\<forall>i < j. view (found others 0 (rw_ptr l) i) \<noteq> Free \<and> clock i \<le> duetime)
    \<and> (view (found others 0 (rw_ptr l) j) = Free
        \<and> (\<exists>l'. wlibc_rwlock_timedwrlock os others clock (Some ts) l = Some (Inr (), l')
             \<and> view (rw_ptr l') = Exclusive \<and> rw_lock l' = RWLOCK_EXCLUSIVE_LOCK)
      \<or> view (found others 0 (rw_ptr l) j) \<noteq> Free \<and> duetime < clock j
        \<and> wlibc_rwlock_timedwrlock os others clock (Some ts) l = Some (fail_with ETIMEDOUT, l\<lparr>rw_ptr := found others 0 (rw_ptr l) j\<rparr>))"
proof -
  let ?f = "found others 0 (rw_ptr l)"
  note ex = srw_lock.exclusive_cases [OF assms(1)]
  obtain j where j: "\<forall>m < j. TryExclusive os (?f m) = None \<and> clock m \<le> duetime"
      "case TryExclusive os (?f j) of
         Some r1 \<Rightarrow> poll_lock (TryExclusive os) others clock duetime 0 (rw_ptr l) = Some (True, r1)
       | None \<Rightarrow> duetime < clock j \<and> poll_lock (TryExclusive os) others clock duetime 0 (rw_ptr l) = Some (False, ?f j)"
    using poll_lock_ends [of duetime clock 0 n "TryExclusive os" others "rw_ptr l", unfolded add_0] assms(4) by blast
  have "view r \<noteq> Free" if "TryExclusive os r = None" for r using ex [of r] that by simp
  then have before: "\<forall>i < j. view (?f i) \<noteq> Free \<and> clock i \<le> duetime" using j(1) by simp
  show ?thesis
    by (rule exI [of _ j], rule conjI [OF before], cases "TryExclusive os (?f j)")
      (use j(2) ex [of "?f j"] assms(2,3) in \<open>auto simp: wlibc_rwlock_timedwrlock_def timed_lock_def\<close>)
qed

text \<open>A reader that leaves before the second poll.\<close>

theorem timed_lock_returns_witness:
  "\<exists>l'. wlibc_rwlock_timedwrlock ram_srw (\<lambda>i s. if i = 1 then Free else s) (\<lambda>i. 116444735999999998 + int i) (Some \<lparr>tv_sec = 0, tv_nsec = 0\<rparr>)
    \<lparr>rw_ptr = Shared 1, rw_lock = RWLOCK_SHARED_LOCK\<rparr> = Some (Inr (), l') \<and> rw_ptr l' = Exclusive"
proof -
  let ?f = "found (\<lambda>i s. if i = 1 then Free else s) 0 (Shared 1)"
  have f: "?f 0 = Shared 1" "?f 1 = Free" by simp_all
  have "timespec_to_LARGE_INTEGER \<lparr>tv_sec = 0, tv_nsec = 0\<rparr> = Some 116444736000000000"
    by (simp add: timespec_to_LARGE_INTEGER_def in_imax_def)
  then obtain j where j: "\<forall>i < j. ?f i \<noteq> Free \<and> 116444735999999998 + int i \<le> 116444736000000000"
      "?f j = Free \<and> (\<exists>l'. wlibc_rwlock_timedwrlock ram_srw (\<lambda>i s. if i = 1 then Free else s) (\<lambda>i. 116444735999999998 + int i)
           (Some \<lparr>tv_sec = 0, tv_nsec = 0\<rparr>) \<lparr>rw_ptr = Shared 1, rw_lock = RWLOCK_SHARED_LOCK\<rparr> = Some (Inr (), l') \<and> rw_ptr l' = Exclusive)
        \<or> ?f j \<noteq> Free \<and> 116444736000000000 < 116444735999999998 + int j"
    using timed_lock_returns [OF ram_srw.srw_lock_axioms, of "\<lparr>rw_ptr = Shared 1, rw_lock = RWLOCK_SHARED_LOCK\<rparr>" "\<lparr>tv_sec = 0, tv_nsec = 0\<rparr>"
        116444736000000000 "\<lambda>i. 116444735999999998 + int i" 9 "\<lambda>i s. if i = 1 then Free else s"]
    by (auto simp: rw_consts)
  have "j \<le> 1" using j(1) f(2) not_le by blast
  then show ?thesis using j(2) f by (cases "j = 0") (auto simp: le_Suc_eq)
qed

section \<open>A race of unlock\<close>

text \<open>Between the last test of unlock and its store another thread may take the lock: the store then
  marks a lock that is held as not locked, and its holder's unlock fails with EPERM and leaves it held.\<close>

theorem unlock_can_unmark_held_lock:
  "\<exists>l1 l2 l3. wlibc_rwlock_rdlock ram_srw (wlibc_rwlock_init ram_srw l0) = Some (Inr (), l1)
    \<and> unlock_release ram_srw l1 = (Inr (), l2) \<and> NotHeld ram_srw (rw_ptr l2)
    \<and> wlibc_rwlock_wrlock ram_srw l2 = Some (Inr (), l3)
    \<and> wlibc_rwlock_unlock ram_srw (unlock_store True l3) = (fail_with EPERM, unlock_store True l3)
    \<and> rw_ptr (unlock_store True l3) = Exclusive"
  by (simp add: wlibc_rwlock_rdlock_def wlibc_rwlock_init_def ram_srw_def unlock_release_def wlibc_rwlock_wrlock_def
      wlibc_rwlock_unlock_def unlock_store_def rw_consts)

end
