(* ===== verification/ProcTable.thy ===== *)
theory ProcTable
  imports FdTable
begin

text \<open>
  The table of child processes (src/spawn/internal.c). The children are kept in the first entries of a
  heap block that doubles when it is full; \<open>delete_child\<close> moves the last child into the entry it
  frees. Every function takes the table's lock first and releases it last, so it is one step from a
  state with the lock free; the one exception is \<open>add_child\<close> when the heap is exhausted, which returns
  with the lock held (\<open>table_locked\<close>). \<open>heap n\<close> says
  whether a block of \<open>n\<close> entries is granted, \<open>junk\<close> is what its new part holds.
\<close>

section \<open>The operations\<close>

record processinfo =
  pi_handle :: HANDLE
  pi_id :: "32 word"

record proctable =
  process_table :: "processinfo list"
  process_table_size :: nat
  child_process_count :: nat
  table_locked :: bool

definition no_process :: processinfo where
  "no_process = \<lparr>pi_handle = 0, pi_id = 0\<rparr>"

definition process_init :: proctable where
  "process_init = \<lparr>process_table = replicate 4 no_process, process_table_size = 4, child_process_count = 0, table_locked = False\<rparr>"

text \<open>The first index from \<open>i\<close> on, among \<open>k\<close>, whose entry has the property.\<close>

fun scan :: "(processinfo \<Rightarrow> bool) \<Rightarrow> processinfo list \<Rightarrow> nat \<Rightarrow> nat \<Rightarrow> nat option ub" where
  "scan P tbl i 0 = Some None"
| "scan P tbl i (Suc k) = do { e \<leftarrow> load tbl i; if P e then Some (Some i) else scan P tbl (Suc i) k }"

definition get_processinfo :: "32 word \<Rightarrow> proctable \<Rightarrow> processinfo ub" where
  "get_processinfo pid s = do {
     r \<leftarrow> scan (\<lambda>e. pid = pi_id e) (process_table s) 0 (process_table_size s);
     case r of None \<Rightarrow> Some no_process | Some i \<Rightarrow> load (process_table s) i }"

definition add_child ::
  "(nat \<Rightarrow> bool) \<Rightarrow> (nat \<Rightarrow> processinfo) \<Rightarrow> 32 word \<Rightarrow> HANDLE \<Rightarrow> proctable \<Rightarrow> (unit res \<times> proctable) ub" where
  "add_child heap junk pid child s = do {
     r \<leftarrow> scan (\<lambda>e. pi_id e = 0) (process_table s) 0 (process_table_size s);
     case r of
       Some i \<Rightarrow> do {
         tbl \<leftarrow> store i \<lparr>pi_handle = child, pi_id = pid\<rparr> (process_table s);
         Some (Inr (), s\<lparr>process_table := tbl, child_process_count := child_process_count s + 1\<rparr>) }
     | None \<Rightarrow> (let n = process_table_size s in
         if \<not> heap (n * 2) then Some (fail_with ENOMEM, s\<lparr>table_locked := True\<rparr>)
         else do {
           tbl \<leftarrow> store n \<lparr>pi_handle = child, pi_id = pid\<rparr> (process_table s @ map junk [length (process_table s)..<n * 2]);
           tbl' \<leftarrow> for_from (n + 1) (2 * n - (n + 1)) (\<lambda>i t. store i no_process t) tbl;
           Some (Inr (), s\<lparr>process_table := tbl', process_table_size := n * 2,
             child_process_count := child_process_count s + 1\<rparr>) }) }"

text \<open>The entry found is overwritten with the one before the next free entry at or after \<open>i + 2\<close>.\<close>

definition close_gap :: "nat \<Rightarrow> nat \<Rightarrow> processinfo list \<Rightarrow> processinfo list ub" where
  "close_gap i n tbl0 = do {
     tbl \<leftarrow> store i no_process tbl0;
     r \<leftarrow> scan (\<lambda>e. pi_handle e = 0) tbl (i + 2) (n - (i + 2));
     let j = (case r of Some j \<Rightarrow> j | None \<Rightarrow> max n (i + 2));
     e \<leftarrow> load tbl (j - 1);
     tbl1 \<leftarrow> store i e tbl;
     store (j - 1) no_process tbl1 }"

definition delete_child :: "32 word \<Rightarrow> proctable \<Rightarrow> proctable ub" where
  "delete_child pid s = do {
     r \<leftarrow> scan (\<lambda>e. pid = pi_id e) (process_table s) 0 (child_process_count s);
     tbl \<leftarrow> (case r of None \<Rightarrow> Some (process_table s) | Some i \<Rightarrow> close_gap i (process_table_size s) (process_table s));
     Some (s\<lparr>process_table := tbl, child_process_count :=
       (if child_process_count s = 0 then 2 ^ 64 - 1 else child_process_count s - 1)\<rparr>) }"

section \<open>The table as a map\<close>

definition proc_inv :: "proctable \<Rightarrow> bool" where
  "proc_inv s \<longleftrightarrow> (let n = child_process_count s; tbl = process_table s in
     length tbl = process_table_size s \<and> 0 < process_table_size s \<and> n \<le> process_table_size s \<and> process_table_size s < 2 ^ 63
     \<and> (\<forall>i < n. pi_id (tbl ! i) \<noteq> 0 \<and> pi_handle (tbl ! i) \<noteq> 0)
     \<and> (\<forall>i. n \<le> i \<and> i < process_table_size s \<longrightarrow> tbl ! i = no_process)
     \<and> inj_on (\<lambda>i. pi_id (tbl ! i)) {..<n})"

definition children :: "proctable \<Rightarrow> 32 word \<rightharpoonup> HANDLE" where
  "children s pid = (if pid = 0 then None
     else map_option pi_handle (find (\<lambda>e. pi_id e = pid) (take (child_process_count s) (process_table s))))"

lemma scan_None: "i + k \<le> length tbl \<Longrightarrow> scan P tbl i k = Some None \<longleftrightarrow> (\<forall>j. i \<le> j \<and> j < i + k \<longrightarrow> \<not> P (tbl ! j))"
proof (induction k arbitrary: i)
  case (Suc k)
  have "(\<forall>j. i \<le> j \<and> j < i + Suc k \<longrightarrow> \<not> P (tbl ! j)) \<longleftrightarrow> \<not> P (tbl ! i) \<and> (\<forall>j. Suc i \<le> j \<and> j < Suc i + k \<longrightarrow> \<not> P (tbl ! j))"
    by (metis Suc_le_eq add_Suc add_Suc_right le_less less_add_Suc1)
  then show ?case using Suc by auto
qed auto

lemma scan_Some:
  "i + k \<le> length tbl \<Longrightarrow> i \<le> m \<Longrightarrow> m < i + k \<Longrightarrow> P (tbl ! m) \<Longrightarrow> (\<forall>j. i \<le> j \<and> j < m \<longrightarrow> \<not> P (tbl ! j)) \<Longrightarrow>
     scan P tbl i k = Some (Some m)"
proof (induction k arbitrary: i)
  case (Suc k)
  show ?case
  proof (cases "i = m")
    case False
    then have "\<not> P (tbl ! i)" "Suc i \<le> m" using Suc.prems by auto
    then show ?thesis using Suc.prems by (auto intro!: Suc.IH)
  qed (use Suc.prems in auto)
qed simp

lemma children_SomeD:
  assumes "proc_inv s" "i < child_process_count s"
  shows "children s (pi_id (process_table s ! i)) = Some (pi_handle (process_table s ! i))"
proof -
  let ?tbl = "process_table s" and ?n = "child_process_count s"
  have diff: "pi_id (?tbl ! j) \<noteq> pi_id (?tbl ! i)" if "j < i" for j
    using assms that by (auto simp: proc_inv_def Let_def inj_on_def)
  have "find (\<lambda>e. pi_id e = pi_id (?tbl ! i)) (take ?n ?tbl) = Some (?tbl ! i)"
    using assms diff by (auto simp: find_Some_iff proc_inv_def Let_def intro!: exI [of _ i])
  then show ?thesis using assms by (auto simp: children_def proc_inv_def Let_def)
qed

lemma children_cases:
  assumes "proc_inv s"
  shows "(\<exists>i < child_process_count s. pid = pi_id (process_table s ! i) \<and> children s pid = Some (pi_handle (process_table s ! i)))
    \<or> (children s pid = None \<and> (\<forall>i < child_process_count s. pi_id (process_table s ! i) \<noteq> pid))"
proof (cases "\<exists>i < child_process_count s. pid = pi_id (process_table s ! i)")
  case True
  then show ?thesis using children_SomeD [OF assms] by blast
next
  case False
  then have "find (\<lambda>e. pi_id e = pid) (take (child_process_count s) (process_table s)) = None"
    using assms by (auto simp: find_None_iff in_set_conv_nth)
  then show ?thesis using False by (auto simp: children_def)
qed

lemma children_iff:
  assumes "proc_inv s"
  shows "children s pid = Some h \<longleftrightarrow>
    (\<exists>i < child_process_count s. pid = pi_id (process_table s ! i) \<and> h = pi_handle (process_table s ! i))"
  using children_cases [OF assms, of pid] children_SomeD [OF assms] by auto

lemma children_eqI:
  assumes "proc_inv s" "\<And>pid h. m pid = Some h \<longleftrightarrow>
    (\<exists>i < child_process_count s. pid = pi_id (process_table s ! i) \<and> h = pi_handle (process_table s ! i))"
  shows "children s = m"
proof
  fix pid
  have "children s pid = Some h \<longleftrightarrow> m pid = Some h" for h using children_iff [OF assms(1)] assms(2) by simp
  then show "children s pid = m pid" by (metis option.exhaust)
qed

lemma get_child:
  assumes "proc_inv s" "pid \<noteq> 0"
  shows "get_processinfo pid s = Some (case children s pid of None \<Rightarrow> no_process | Some h \<Rightarrow> \<lparr>pi_handle = h, pi_id = pid\<rparr>)"
proof -
  let ?tbl = "process_table s" and ?n = "child_process_count s" and ?sz = "process_table_size s"
  have inv: "length ?tbl = ?sz" "?n \<le> ?sz" "\<forall>i. ?n \<le> i \<and> i < ?sz \<longrightarrow> ?tbl ! i = no_process"
    "inj_on (\<lambda>i. pi_id (?tbl ! i)) {..<?n}"
    using assms(1) by (simp_all add: proc_inv_def Let_def)
  show ?thesis
  proof (cases "children s pid")
    case None
    then have "\<forall>i < ?n. pi_id (?tbl ! i) \<noteq> pid" using children_iff [OF assms(1), of pid] by auto
    then have "\<forall>j < ?sz. pid \<noteq> pi_id (?tbl ! j)"
      using inv(3) assms(2) by (metis no_process_def not_le processinfo.select_convs(2))
    then have "scan (\<lambda>e. pid = pi_id e) ?tbl 0 ?sz = Some None" using inv(1) by (subst scan_None) auto
    then show ?thesis using None by (simp add: get_processinfo_def)
  next
    case (Some h)
    then obtain i where i: "i < ?n" "pid = pi_id (?tbl ! i)" "h = pi_handle (?tbl ! i)"
      using children_iff [OF assms(1), of pid h] by auto
    have "\<forall>j < i. pid \<noteq> pi_id (?tbl ! j)"
      using inv(4) i by (auto simp: inj_on_def) (metis lessThan_iff less_trans nat_neq_iff)
    then have "scan (\<lambda>e. pid = pi_id e) ?tbl 0 ?sz = Some (Some i)" using i inv(1,2) by (intro scan_Some) auto
    then show ?thesis using Some i inv(1,2) by (simp add: get_processinfo_def)
  qed
qed

text \<open>A table whose first \<open>n\<close> entries are given by \<open>f\<close> and whose others are free.\<close>

lemma proc_invI:
  assumes "length (process_table s) = process_table_size s" "0 < process_table_size s" "process_table_size s < 2 ^ 63"
    and "child_process_count s \<le> process_table_size s"
    and "\<And>i. i < process_table_size s \<Longrightarrow> process_table s ! i = (if i < child_process_count s then f i else no_process)"
    and "\<And>i. i < child_process_count s \<Longrightarrow> pi_id (f i) \<noteq> 0 \<and> pi_handle (f i) \<noteq> 0"
    and "inj_on (\<lambda>i. pi_id (f i)) {..<child_process_count s}"
  shows "proc_inv s"
  using assms by (auto simp: proc_inv_def Let_def inj_on_def)

lemma add_child_keeps:
  assumes "proc_inv s" "pid \<noteq> 0" "h \<noteq> 0" "children s pid = None" "heap (2 * process_table_size s)" "process_table_size s < 2 ^ 62"
  shows "\<exists>s'. add_child heap junk pid h s = Some (Inr (), s') \<and> proc_inv s' \<and> children s' = (children s)(pid \<mapsto> h)
    \<and> child_process_count s' = Suc (child_process_count s) \<and> pi_id (process_table s' ! child_process_count s) = pid
    \<and> process_table_size s' = (if child_process_count s = process_table_size s then 2 * process_table_size s else process_table_size s)"
proof -
  let ?tbl = "process_table s" and ?n = "child_process_count s" and ?sz = "process_table_size s"
  let ?e = "\<lparr>pi_handle = h, pi_id = pid\<rparr>"
  have inv: "length ?tbl = ?sz" "0 < ?sz" "?n \<le> ?sz" "\<And>i. i < ?n \<Longrightarrow> pi_id (?tbl ! i) \<noteq> 0 \<and> pi_handle (?tbl ! i) \<noteq> 0"
    "\<And>i. ?n \<le> i \<Longrightarrow> i < ?sz \<Longrightarrow> ?tbl ! i = no_process" "inj_on (\<lambda>i. pi_id (?tbl ! i)) {..<?n}"
    using assms(1) by (simp_all add: proc_inv_def Let_def)
  have new: "\<And>i. i < ?n \<Longrightarrow> pi_id (?tbl ! i) \<noteq> pid" using children_iff [OF assms(1), of pid] assms(4) by auto
  define f where "f = (\<lambda>i. if i < ?n then ?tbl ! i else ?e)"
  have step: "proc_inv s' \<and> children s' = (children s)(pid \<mapsto> h)"
    if s': "length (process_table s') = process_table_size s'" "child_process_count s' = Suc ?n" "Suc ?n \<le> process_table_size s'"
      "process_table_size s' < 2 ^ 63"
      "\<And>i. i < process_table_size s' \<Longrightarrow> process_table s' ! i = (if i < Suc ?n then f i else no_process)" for s'
  proof -
    have inj: "inj_on (\<lambda>i. pi_id (f i)) {..<Suc ?n}"
      using inv(6) new by (auto simp: f_def inj_on_def less_Suc_eq)
    have i: "proc_inv s'"
      using s' inv(4) assms(2,3) inj by (intro proc_invI [where f = f]) (auto simp: f_def)
    have "((children s)(pid \<mapsto> h)) p = Some g \<longleftrightarrow>
      (\<exists>i < child_process_count s'. p = pi_id (process_table s' ! i) \<and> g = pi_handle (process_table s' ! i))" for p g
    proof -
      have "(\<exists>i < Suc ?n. p = pi_id (f i) \<and> g = pi_handle (f i)) \<longleftrightarrow>
          (p = pid \<and> g = h) \<or> (\<exists>i < ?n. p = pi_id (?tbl ! i) \<and> g = pi_handle (?tbl ! i))"
        by (auto simp: f_def less_Suc_eq)
      then show ?thesis using s' children_iff [OF assms(1), of p g] new by (auto simp: less_Suc_eq_le)
    qed
    then show ?thesis using i by (intro conjI children_eqI) auto
  qed
  show ?thesis
  proof (cases "?n < ?sz")
    case True
    have "scan (\<lambda>e. pi_id e = 0) ?tbl 0 ?sz = Some (Some ?n)"
      using True inv by (intro scan_Some) (auto simp: no_process_def)
    then have add: "add_child heap junk pid h s
        = Some (Inr (), s\<lparr>process_table := ?tbl[?n := ?e], child_process_count := Suc ?n\<rparr>)"
      using True inv(1) by (simp add: add_child_def)
    have "proc_inv (s\<lparr>process_table := ?tbl[?n := ?e], child_process_count := Suc ?n\<rparr>)
        \<and> children (s\<lparr>process_table := ?tbl[?n := ?e], child_process_count := Suc ?n\<rparr>) = (children s)(pid \<mapsto> h)"
      using True inv(1,5) assms(6) by (intro step) (auto simp: f_def nth_list_update)
    then show ?thesis using add True inv(1) by simp
  next
    case False
    then have full: "?n = ?sz" using inv(3) by simp
    have "scan (\<lambda>e. pi_id e = 0) ?tbl 0 ?sz = Some None" using inv full by (subst scan_None) auto
    moreover have "for_from (?sz + 1) (2 * ?sz - (?sz + 1)) (\<lambda>i t. store i no_process t) (?tbl @ ?e # map junk [Suc ?sz..<?sz * 2])
        = Some (?tbl @ ?e # replicate (?sz - 1) no_process)"
      using for_from_stores [of "?sz + 1" "2 * ?sz - (?sz + 1)" "?tbl @ ?e # map junk [Suc ?sz..<?sz * 2]" "\<lambda>i. no_process"] inv(1,2)
      by (simp add: map_replicate_const)
    moreover have "store ?sz ?e (?tbl @ map junk [length ?tbl..<?sz * 2]) = Some (?tbl @ ?e # map junk [Suc ?sz..<?sz * 2])"
      using inv(1,2) by (simp add: upt_conv_Cons list_update_append)
    ultimately have add: "add_child heap junk pid h s = Some (Inr (), s\<lparr>process_table := ?tbl @ ?e # replicate (?sz - 1) no_process,
        process_table_size := ?sz * 2, child_process_count := Suc ?n\<rparr>)"
      using assms(5) by (simp add: add_child_def mult.commute Let_def)
    have "proc_inv (s\<lparr>process_table := ?tbl @ ?e # replicate (?sz - 1) no_process, process_table_size := ?sz * 2, child_process_count := Suc ?n\<rparr>)
        \<and> children (s\<lparr>process_table := ?tbl @ ?e # replicate (?sz - 1) no_process, process_table_size := ?sz * 2, child_process_count := Suc ?n\<rparr>)
          = (children s)(pid \<mapsto> h)"
      using full inv(1,2) assms(6) by (intro step) (auto simp: f_def nth_append nth_Cons')
    then show ?thesis using add full inv(1) by (simp add: nth_append)
  qed
qed

lemma close_gap_eq:
  assumes "length tbl = sz" "n \<le> sz" "i < n" "Suc i < sz"
    and "\<And>k. k < n \<Longrightarrow> pi_handle (tbl ! k) \<noteq> 0" "\<And>k. n \<le> k \<Longrightarrow> k < sz \<Longrightarrow> tbl ! k = no_process"
  shows "close_gap i sz tbl = Some (tbl[i := (if i = n - 1 then no_process else tbl ! (n - 1)), n - 1 := no_process])"
proof -
  let ?t = "tbl[i := no_process]"
  define k where "k = max n (i + 2)"
  define x where "x = (if i = n - 1 then no_process else tbl ! (n - 1))"
  have j: "k - 1 = (if i = n - 1 then Suc i else n - 1)" "n \<le> k" "i + 2 \<le> k" "k \<le> max sz (i + 2)" "k < sz \<or> k = max sz (i + 2)"
    using assms(2,3,4) by (auto simp: max_def k_def)
  have "scan (\<lambda>e. pi_handle e = 0) ?t (i + 2) (sz - (i + 2)) = Some (if k < sz then Some k else None)"
  proof (cases "k < sz")
    case True
    have "scan (\<lambda>e. pi_handle e = 0) ?t (i + 2) (sz - (i + 2)) = Some (Some k)"
      by (rule scan_Some) (use True assms in \<open>auto simp: no_process_def k_def nth_list_update\<close>)
    then show ?thesis using True by simp
  next
    case False
    then have "scan (\<lambda>e. pi_handle e = 0) ?t (i + 2) (sz - (i + 2)) = Some None"
      using assms by (subst scan_None) (auto simp: k_def max_def split: if_splits)
    then show ?thesis using False by simp
  qed
  moreover have "(case (if k < sz then Some k else None) of Some j \<Rightarrow> j | None \<Rightarrow> max sz (i + 2)) = k"
    using j(5) by auto
  moreover have "k - 1 < sz" unfolding j(1) using assms(2,3,4) by auto
  moreover have "?t ! (k - 1) = x"
    unfolding j(1) x_def using assms by (auto simp: nth_list_update)
  ultimately have "close_gap i sz tbl = Some (tbl[i := x, k - 1 := no_process])"
    using assms(1,4) by (simp add: close_gap_def Let_def)
  also have "tbl[i := x, k - 1 := no_process] = tbl[i := x, n - 1 := no_process]"
  proof (cases "i = n - 1")
    case True
    then have "tbl ! Suc i = no_process" using assms(3,4,6) by simp
    then show ?thesis unfolding j(1) using True assms(1,4) by (intro nth_equalityI) (auto simp: nth_list_update x_def)
  next
    case False
    then show ?thesis unfolding j(1) by simp
  qed
  finally show ?thesis unfolding x_def .
qed

lemma delete_child_keeps:
  assumes "proc_inv s" "children s pid \<noteq> None"
    and "child_process_count s < process_table_size s \<or> pi_id (process_table s ! (process_table_size s - 1)) \<noteq> pid"
  shows "\<exists>s'. delete_child pid s = Some s' \<and> proc_inv s' \<and> children s' = (children s)(pid := None)
    \<and> process_table_size s' = process_table_size s \<and> child_process_count s' = child_process_count s - 1 \<and> 0 < child_process_count s"
proof -
  let ?tbl = "process_table s" and ?n = "child_process_count s" and ?sz = "process_table_size s"
  have inv: "length ?tbl = ?sz" "0 < ?sz" "?n \<le> ?sz" "\<And>i. i < ?n \<Longrightarrow> pi_id (?tbl ! i) \<noteq> 0 \<and> pi_handle (?tbl ! i) \<noteq> 0"
    "\<And>i. ?n \<le> i \<Longrightarrow> i < ?sz \<Longrightarrow> ?tbl ! i = no_process" "inj_on (\<lambda>i. pi_id (?tbl ! i)) {..<?n}" "?sz < 2 ^ 63"
    using assms(1) by (simp_all add: proc_inv_def Let_def)
  obtain i where i: "i < ?n" "pid = pi_id (?tbl ! i)" using children_iff [OF assms(1), of pid] assms(2) by auto
  have uniq: "pi_id (?tbl ! j) = pid \<longleftrightarrow> j = i" if "j < ?n" for j using inv(6) i that by (auto simp: inj_on_def)
  have room: "Suc i < ?sz"
  proof (rule ccontr)
    assume "\<not> Suc i < ?sz"
    then have "i = ?sz - 1" "?n = ?sz" using i(1) inv(3) by simp_all
    then show False using assms(3) i(2) by simp
  qed
  let ?t = "?tbl[i := (if i = ?n - 1 then no_process else ?tbl ! (?n - 1)), ?n - 1 := no_process]"
  have "scan (\<lambda>e. pid = pi_id e) ?tbl 0 ?n = Some (Some i)"
  proof (intro scan_Some)
    show "\<forall>j. 0 \<le> j \<and> j < i \<longrightarrow> pid \<noteq> pi_id (?tbl ! j)" using uniq i(1) by (metis less_irrefl less_trans)
  qed (use i inv(1,3) in auto)
  moreover have "close_gap i ?sz ?tbl = Some ?t" using inv i room by (intro close_gap_eq) auto
  moreover have "?n \<noteq> 0" using i by simp
  ultimately have del: "delete_child pid s = Some (s\<lparr>process_table := ?t, child_process_count := ?n - 1\<rparr>)"
    by (simp add: delete_child_def)
  let ?s = "s\<lparr>process_table := ?t, child_process_count := ?n - 1\<rparr>"
  define f where "f = (\<lambda>k. if k = i then ?tbl ! (?n - 1) else ?tbl ! k)"
  have tbl: "?t ! k = (if k < ?n - 1 then f k else no_process)" if "k < ?sz" for k
    using that i inv(1,3,5) by (auto simp: f_def nth_list_update)
  have e: "?t ! k = f k" if "k < ?n - 1" for k using tbl [of k] that inv(3) by simp
  have inj: "inj_on (\<lambda>k. pi_id (f k)) {..<?n - 1}"
  proof (rule inj_onI)
    fix k m assume km: "k \<in> {..<?n - 1}" "m \<in> {..<?n - 1}" "pi_id (f k) = pi_id (f m)"
    have "(if k = i then ?n - 1 else k) = (if m = i then ?n - 1 else m)"
      using km i(1) by (intro inj_onD [OF inv(6)]) (auto simp: f_def split: if_splits)
    then show "k = m" using km(1,2) by (auto split: if_splits)
  qed
  have p: "proc_inv ?s"
    using inv inj tbl i(1) by (intro proc_invI [where f = f]) (auto simp: f_def)
  have "((children s)(pid := None)) q = Some g \<longleftrightarrow>
      (\<exists>k < child_process_count ?s. q = pi_id (process_table ?s ! k) \<and> g = pi_handle (process_table ?s ! k))" for q g
  proof -
    have "(\<exists>k < ?n - 1. q = pi_id (f k) \<and> g = pi_handle (f k)) \<longleftrightarrow>
        (\<exists>k < ?n. k \<noteq> i \<and> q = pi_id (?tbl ! k) \<and> g = pi_handle (?tbl ! k))"
    proof safe
      fix k assume k: "k < ?n - 1"
      show "\<exists>m < ?n. m \<noteq> i \<and> pi_id (f k) = pi_id (?tbl ! m) \<and> pi_handle (f k) = pi_handle (?tbl ! m)"
        using k i(1) by (intro exI [of _ "if k = i then ?n - 1 else k"]) (auto simp: f_def)
    next
      fix k assume k: "k < ?n" "k \<noteq> i"
      then show "\<exists>m < ?n - 1. pi_id (?tbl ! k) = pi_id (f m) \<and> pi_handle (?tbl ! k) = pi_handle (f m)"
        using i(1) by (intro exI [of _ "if k = ?n - 1 then i else k"]) (auto simp: f_def)
    qed
    moreover have "(\<exists>k < ?n - 1. q = pi_id (?t ! k) \<and> g = pi_handle (?t ! k)) \<longleftrightarrow> (\<exists>k < ?n - 1. q = pi_id (f k) \<and> g = pi_handle (f k))"
      by (simp only: e cong: conj_cong)
    ultimately show ?thesis using children_iff [OF assms(1), of q g] uniq by auto
  qed
  then have "children ?s = (children s)(pid := None)" using p by (intro children_eqI) auto
  then show ?thesis using del p i(1) by auto
qed

section \<open>Histories of children\<close>

datatype child_op = Spawned "32 word" HANDLE | Reaped "32 word"

fun child_run :: "(nat \<Rightarrow> processinfo) \<Rightarrow> child_op list \<Rightarrow> proctable \<Rightarrow> proctable ub" where
  "child_run junk [] s = Some s"
| "child_run junk (Spawned pid h # ops) s = do { (_, s1) \<leftarrow> add_child (\<lambda>n. True) junk pid h s; child_run junk ops s1 }"
| "child_run junk (Reaped pid # ops) s = do { s1 \<leftarrow> delete_child pid s; child_run junk ops s1 }"

fun child_map :: "child_op list \<Rightarrow> (32 word \<rightharpoonup> HANDLE) \<Rightarrow> 32 word \<rightharpoonup> HANDLE" where
  "child_map [] m = m"
| "child_map (Spawned pid h # ops) m = child_map ops (m(pid \<mapsto> h))"
| "child_map (Reaped pid # ops) m = child_map ops (m(pid := None))"

text \<open>A history is orderly when every new child has a new id, only children are reaped, and, while the table
  is full, the youngest child is not. It is a condition on the history alone: \<open>m\<close> are the children, \<open>n\<close>
  their number, \<open>cap\<close> the room for them, which starts with 4 and doubles, and \<open>newest\<close> is the youngest.\<close>

fun orderly :: "child_op list \<Rightarrow> (32 word \<rightharpoonup> HANDLE) \<Rightarrow> nat \<Rightarrow> nat \<Rightarrow> 32 word \<Rightarrow> bool" where
  "orderly [] m n cap newest = True"
| "orderly (Spawned pid h # ops) m n cap newest = (pid \<noteq> 0 \<and> h \<noteq> 0 \<and> m pid = None
     \<and> orderly ops (m(pid \<mapsto> h)) (Suc n) (if n = cap then 2 * cap else cap) pid)"
| "orderly (Reaped pid # ops) m n cap newest = (m pid \<noteq> None \<and> (n = cap \<longrightarrow> pid \<noteq> newest)
     \<and> orderly ops (m(pid := None)) (n - 1) cap newest)"

text \<open>The last entry of a full table is the youngest child.\<close>

definition newest_last :: "proctable \<Rightarrow> 32 word \<Rightarrow> bool" where
  "newest_last s newest \<longleftrightarrow> (child_process_count s = process_table_size s \<longrightarrow> pi_id (process_table s ! (process_table_size s - 1)) = newest)"

lemma child_run_keeps:
  assumes "proc_inv s" "newest_last s newest" "orderly ops (children s) (child_process_count s) (process_table_size s) newest"
    "child_process_count s \<le> t" "process_table_size s \<le> max 4 (2 * t)" "t + length ops < 2 ^ 60"
  shows "\<exists>s'. child_run junk ops s = Some s' \<and> proc_inv s' \<and> children s' = child_map ops (children s)"
  using assms
proof (induction ops arbitrary: s newest t)
  case (Cons op ops)
  let ?n = "child_process_count s" and ?sz = "process_table_size s"
  have small: "?sz < 2 ^ 62" using Cons.prems(5,6) by simp
  have le: "?n \<le> ?sz" "0 < ?sz" using Cons.prems(1) by (simp_all add: proc_inv_def Let_def)
  show ?case
  proof (cases op)
    case (Spawned pid h)
    have o: "pid \<noteq> 0" "h \<noteq> 0" "children s pid = None"
        "orderly ops ((children s)(pid \<mapsto> h)) (Suc ?n) (if ?n = ?sz then 2 * ?sz else ?sz) pid"
      using Cons.prems(3) Spawned by (simp_all del: fun_upd_apply)
    obtain s1 where s1: "add_child (\<lambda>n. True) junk pid h s = Some (Inr (), s1)" "proc_inv s1" "children s1 = (children s)(pid \<mapsto> h)"
        "child_process_count s1 = Suc ?n" "pi_id (process_table s1 ! ?n) = pid" "process_table_size s1 = (if ?n = ?sz then 2 * ?sz else ?sz)"
      using add_child_keeps [OF Cons.prems(1) o(1-3) _ small, of "\<lambda>n. True" junk] by auto
    have "child_process_count s1 = process_table_size s1 \<Longrightarrow> process_table_size s1 - 1 = ?n" using s1(4) by simp
    then have "newest_last s1 pid" using s1(5) by (simp add: newest_last_def)
    moreover have "process_table_size s1 \<le> max 4 (2 * Suc t)" using s1(6) Cons.prems(4,5) by auto
    ultimately show ?thesis
      using Cons.IH [OF s1(2), of pid "Suc t"] o(4) s1 Cons.prems(4,6) Spawned unfolding s1(3,4,6) by (simp del: fun_upd_apply)
  next
    case (Reaped pid)
    have o: "children s pid \<noteq> None" "?n = ?sz \<longrightarrow> pid \<noteq> newest" "orderly ops ((children s)(pid := None)) (?n - 1) ?sz newest"
      using Cons.prems(3) Reaped by (simp_all del: fun_upd_apply)
    have "?n < ?sz \<or> pi_id (process_table s ! (?sz - 1)) \<noteq> pid" using o(2) Cons.prems(2) le by (auto simp: newest_last_def)
    then obtain s1 where s1: "delete_child pid s = Some s1" "proc_inv s1" "children s1 = (children s)(pid := None)"
        "process_table_size s1 = ?sz" "child_process_count s1 = ?n - 1" "0 < ?n"
      using delete_child_keeps [OF Cons.prems(1) o(1)] by auto
    have "child_process_count s1 \<noteq> process_table_size s1" using s1(4-6) le by simp
    then have "newest_last s1 newest" by (simp add: newest_last_def)
    then show ?thesis
      using Cons.IH [OF s1(2), of newest t] o(3) s1 Cons.prems(4-6) Reaped unfolding s1(3-5) by (simp del: fun_upd_apply)
  qed
qed simp

lemma proc_inv_init: "proc_inv process_init"
  by (intro proc_invI [where f = "\<lambda>i. no_process"]) (simp_all add: process_init_def)

lemma children_init: "children process_init = Map.empty"
  by (rule ext) (simp add: children_def process_init_def)

text \<open>C22: whatever children are spawned and reaped, looking up a process id finds exactly the handle of the
  child with that id, and nothing for an id that is not a child, and no access leaves the table. The
  history must give new children new ids and reap only children; the one exception is a full table,
  where the youngest child must not be the next to be reaped.\<close>

theorem children_refine_map:
  assumes "orderly ops Map.empty 0 4 0" and "length ops < 2 ^ 60" and "pid \<noteq> 0"
  shows "\<exists>s. child_run junk ops process_init = Some s \<and> get_processinfo pid s
    = Some (case child_map ops Map.empty pid of None \<Rightarrow> no_process | Some h \<Rightarrow> \<lparr>pi_handle = h, pi_id = pid\<rparr>)"
proof -
  have "newest_last process_init 0" by (simp add: newest_last_def process_init_def)
  moreover have "child_process_count process_init = 0" "process_table_size process_init = 4" by (simp_all add: process_init_def)
  ultimately obtain s where s: "child_run junk ops process_init = Some s" "proc_inv s" "children s = child_map ops Map.empty"
    using child_run_keeps [OF proc_inv_init, of 0 ops 0 junk] assms(1,2) children_init by auto
  then show ?thesis using get_child [OF s(2) assms(3)] by simp
qed

text \<open>Five children fill the first table and make it grow, and one is reaped while it is full.\<close>

theorem children_refine_map_witness:
  "\<exists>s. child_run (\<lambda>i. no_process) [Spawned 5 50, Spawned 6 60, Spawned 7 70, Spawned 8 80, Reaped 5, Spawned 9 90, Spawned 4 40, Reaped 4] process_init = Some s
    \<and> get_processinfo 8 s = Some \<lparr>pi_handle = 80, pi_id = 8\<rparr>"
proof -
  have "orderly [Spawned 5 50, Spawned 6 60, Spawned 7 70, Spawned 8 80, Reaped 5, Spawned 9 90, Spawned 4 40, Reaped 4] Map.empty 0 4 0" by simp
  from children_refine_map [OF this, of 8] show ?thesis by simp
qed

text \<open>Reaping the child in the last entry of a full table accesses the entry past its end.\<close>

theorem reaping_last_of_full_table_overruns:
  assumes "proc_inv s" and "child_process_count s = process_table_size s"
    and "pid = pi_id (process_table s ! (process_table_size s - 1))"
  shows "delete_child pid s = None"
proof -
  let ?tbl = "process_table s" and ?n = "child_process_count s" and ?sz = "process_table_size s"
  have inv: "length ?tbl = ?sz" "0 < ?sz" "inj_on (\<lambda>i. pi_id (?tbl ! i)) {..<?n}"
    using assms(1) by (simp_all add: proc_inv_def Let_def)
  have "scan (\<lambda>e. pid = pi_id e) ?tbl 0 ?n = Some (Some (?sz - 1))"
  proof (intro scan_Some)
    show "\<forall>j. 0 \<le> j \<and> j < ?sz - 1 \<longrightarrow> pid \<noteq> pi_id (?tbl ! j)"
    proof (intro allI impI)
      fix j assume "0 \<le> j \<and> j < ?sz - 1"
      then show "pid \<noteq> pi_id (?tbl ! j)"
        using inj_onD [OF inv(3), of "?sz - 1" j] assms(2,3) inv(2) by fastforce
    qed
  qed (use inv assms(2,3) in auto)
  moreover have "close_gap (?sz - 1) ?sz ?tbl = None"
    using inv by (simp add: close_gap_def Let_def load_def)
  ultimately show ?thesis by (simp add: delete_child_def)
qed

theorem reaping_last_of_full_table_overruns_witness:
  "\<exists>s. proc_inv s \<and> delete_child 9 s = None"
proof -
  let ?s = "\<lparr>process_table = [\<lparr>pi_handle = 1, pi_id = 9\<rparr>], process_table_size = 1, child_process_count = 1, table_locked = False\<rparr>"
  have "proc_inv ?s" by (intro proc_invI [where f = "\<lambda>i. \<lparr>pi_handle = 1, pi_id = 9\<rparr>"]) (auto simp: inj_on_def)
  with reaping_last_of_full_table_overruns [OF this, of 9] show ?thesis by fastforce
qed

end
