(* ===== verification/VarArgs.thy ===== *)
theory VarArgs
  imports Convert
begin

text \<open>
  The cache of variadic arguments that gives printf and scanf their positional arguments
  (include/internal/varargs.h). \<open>va_rest\<close> is what \<open>va_arg\<close> has not returned yet; asking for more
  arguments than were passed is undefined (\<open>None\<close>). \<open>heap\<close> says which numbers of entries realloc
  grants and \<open>junk\<close> what the new entries hold.
\<close>

section \<open>The cache\<close>

definition VARIADIC_ARGS_DEFAULT_SIZE :: nat where "VARIADIC_ARGS_DEFAULT_SIZE = 64"

record variadic_args =
  va_rest :: "u64 list"
  current_index :: nat
  read_count :: nat
  va_args :: "u64 list"
  extra_capacity :: nat
  extra_args :: "u64 list option"

definition variadic_args_init :: "u64 list \<Rightarrow> variadic_args" where
  "variadic_args_init xs = \<lparr>va_rest = xs, current_index = 0, read_count = 0,
     va_args = replicate VARIADIC_ARGS_DEFAULT_SIZE 0, extra_capacity = 0, extra_args = None\<rparr>"

definition va_arg :: "variadic_args \<Rightarrow> (u64 \<times> variadic_args) ub" where
  "va_arg a = (case va_rest a of [] \<Rightarrow> None | x # xs \<Rightarrow> Some (x, a\<lparr>va_rest := xs\<rparr>))"

definition load_extra :: "variadic_args \<Rightarrow> nat \<Rightarrow> u64 ub" where
  "load_extra a i = Option.bind (extra_args a) (\<lambda>e. load e i)"

text \<open>\<open>args[read_count++] = va_arg(list)\<close>, in the static array and in the extra one.\<close>

definition read_static :: "variadic_args \<Rightarrow> variadic_args ub" where
  "read_static a = do {
     (x, a1) \<leftarrow> va_arg a;
     l \<leftarrow> store (read_count a1) x (va_args a1);
     Some (a1\<lparr>va_args := l, read_count := read_count a1 + 1\<rparr>) }"

definition read_extra :: "variadic_args \<Rightarrow> variadic_args ub" where
  "read_extra a = do {
     (x, a1) \<leftarrow> va_arg a;
     e \<leftarrow> extra_args a1;
     l \<leftarrow> store (size_sub (read_count a1) VARIADIC_ARGS_DEFAULT_SIZE) x e;
     Some (a1\<lparr>extra_args := Some l, read_count := read_count a1 + 1\<rparr>) }"

definition realloc_extra :: "(nat \<Rightarrow> u64) \<Rightarrow> nat \<Rightarrow> u64 list option \<Rightarrow> u64 list" where
  "realloc_extra junk n e = (let old = (case e of None \<Rightarrow> [] | Some l \<Rightarrow> l) in
     take n old @ map junk [length old..<n])"

definition ROUND_UP :: "nat \<Rightarrow> nat \<Rightarrow> nat" where
  "ROUND_UP x y = (x + (y - 1)) mod 2 ^ 32 div y * y"

text \<open>The next argument in order.\<close>

definition variadic_args_next :: "(nat \<Rightarrow> bool) \<Rightarrow> (nat \<Rightarrow> u64) \<Rightarrow> variadic_args \<Rightarrow> (u64 \<times> variadic_args) ub" where
  "variadic_args_next heap junk a =
     (if current_index a < VARIADIC_ARGS_DEFAULT_SIZE then do {
        a1 \<leftarrow> (if read_count a = current_index a then read_static a else Some a);
        x \<leftarrow> load (va_args a1) (current_index a1);
        Some (x, a1\<lparr>current_index := current_index a1 + 1\<rparr>) }
      else if read_count a = current_index a then
        (let full = (extra_args a = None \<or> size_sub (read_count a) VARIADIC_ARGS_DEFAULT_SIZE = extra_capacity a);
             cap = max 4 (extra_capacity a * 2 mod 2 ^ 32) in
         if full \<and> \<not> heap cap then Some (0, a\<lparr>extra_capacity := cap, extra_args := None\<rparr>)
         else do {
           a1 \<leftarrow> read_extra (if full then a\<lparr>extra_capacity := cap, extra_args := Some (realloc_extra junk cap (extra_args a))\<rparr> else a);
           x \<leftarrow> load_extra a1 (current_index a1 - VARIADIC_ARGS_DEFAULT_SIZE);
           Some (x, a1\<lparr>current_index := current_index a1 + 1\<rparr>) })
      else do {
        x \<leftarrow> load_extra a (current_index a - VARIADIC_ARGS_DEFAULT_SIZE);
        Some (x, a\<lparr>current_index := current_index a + 1\<rparr>) })"

text \<open>The argument with a number: everything before it is read and kept first.\<close>

definition variadic_args_at :: "(nat \<Rightarrow> bool) \<Rightarrow> (nat \<Rightarrow> u64) \<Rightarrow> variadic_args \<Rightarrow> nat \<Rightarrow> (u64 \<times> variadic_args) ub" where
  "variadic_args_at heap junk a index =
     (if index \<le> VARIADIC_ARGS_DEFAULT_SIZE then do {
        a1 \<leftarrow> for_from (read_count a) (index - read_count a) (\<lambda>_. read_static) a;
        x \<leftarrow> load (va_args a1) (index - 1);
        Some (x, a1) }
      else do {
        a1 \<leftarrow> for_from (read_count a) (VARIADIC_ARGS_DEFAULT_SIZE - read_count a) (\<lambda>_. read_static) a;
        let full = (extra_args a1 = None \<or> index - VARIADIC_ARGS_DEFAULT_SIZE > extra_capacity a1);
        let cap = max 4 (ROUND_UP (index - VARIADIC_ARGS_DEFAULT_SIZE) 4);
        if full \<and> \<not> heap cap then Some (0, a1\<lparr>extra_capacity := cap, extra_args := None\<rparr>)
        else do {
          let a2 = (if full then a1\<lparr>extra_capacity := cap, extra_args := Some (realloc_extra junk cap (extra_args a1))\<rparr> else a1);
          a3 \<leftarrow> for_from (read_count a2) (index - read_count a2) (\<lambda>_. read_extra) a2;
          x \<leftarrow> load_extra a3 (index - VARIADIC_ARGS_DEFAULT_SIZE - 1);
          Some (x, a3) } })"

definition variadic_args_get :: "(nat \<Rightarrow> bool) \<Rightarrow> (nat \<Rightarrow> u64) \<Rightarrow> variadic_args \<Rightarrow> 32 word \<Rightarrow> (u64 \<times> variadic_args) ub" where
  "variadic_args_get heap junk a index =
     (if index = 0 then variadic_args_next heap junk a else variadic_args_at heap junk a (unat index))"

section \<open>The cache holds the arguments read so far\<close>

definition va_inv :: "u64 list \<Rightarrow> variadic_args \<Rightarrow> bool" where
  "va_inv xs a \<longleftrightarrow> va_rest a = drop (read_count a) xs \<and> read_count a \<le> length xs \<and> current_index a \<le> read_count a
     \<and> length (va_args a) = 64 \<and> (\<forall>i < min 64 (read_count a). va_args a ! i = xs ! i)
     \<and> (case extra_args a of None \<Rightarrow> read_count a \<le> 64 \<and> extra_capacity a = 0
        | Some e \<Rightarrow> 64 \<le> read_count a \<and> length e = extra_capacity a \<and> read_count a \<le> 64 + extra_capacity a
            \<and> (\<forall>i. 64 \<le> i \<and> i < read_count a \<longrightarrow> e ! (i - 64) = xs ! i))"

lemma va_inv_init: "va_inv xs (variadic_args_init xs)"
  by (simp add: va_inv_def variadic_args_init_def VARIADIC_ARGS_DEFAULT_SIZE_def)

lemma va_arg_inv:
  "va_inv xs a \<Longrightarrow> read_count a < length xs \<Longrightarrow> va_arg a = Some (xs ! read_count a, a\<lparr>va_rest := drop (Suc (read_count a)) xs\<rparr>)"
  by (simp add: va_arg_def va_inv_def Cons_nth_drop_Suc [symmetric])

lemma read_static_inv:
  assumes "va_inv xs a" "read_count a < length xs" "read_count a < 64"
  shows "\<exists>a'. read_static a = Some a' \<and> va_inv xs a' \<and> read_count a' = Suc (read_count a) \<and> current_index a' = current_index a"
  using assms va_arg_inv [OF assms(1,2)]
  by (auto simp: read_static_def va_inv_def nth_list_update less_Suc_eq min_def split: option.splits)

lemma read_extra_inv:
  assumes "va_inv xs a" "read_count a < length xs" "extra_args a \<noteq> None" "read_count a < 64 + extra_capacity a"
  shows "\<exists>a'. read_extra a = Some a' \<and> va_inv xs a' \<and> read_count a' = Suc (read_count a) \<and> current_index a' = current_index a
    \<and> extra_args a' \<noteq> None \<and> extra_capacity a' = extra_capacity a"
proof -
  obtain e where e: "extra_args a = Some e" using assms(3) by auto
  let ?a = "a\<lparr>va_rest := drop (Suc (read_count a)) xs, extra_args := Some (e[read_count a - 64 := xs ! read_count a]),
      read_count := Suc (read_count a)\<rparr>"
  have "read_count a - 64 < length e" using assms e by (auto simp: va_inv_def)
  then have "read_extra a = Some ?a"
    using assms e va_arg_inv [OF assms(1,2)] by (simp add: read_extra_def va_inv_def VARIADIC_ARGS_DEFAULT_SIZE_def)
  moreover have "va_inv xs ?a" using assms e by (auto simp: va_inv_def nth_list_update less_Suc_eq)
  ultimately show ?thesis by simp
qed

lemma read_static_loop:
  "va_inv xs a \<Longrightarrow> read_count a + k \<le> length xs \<Longrightarrow> k = 0 \<or> read_count a + k \<le> 64 \<Longrightarrow>
   \<exists>a'. for_from i k (\<lambda>_. read_static) a = Some a' \<and> va_inv xs a' \<and> read_count a' = read_count a + k \<and> current_index a' = current_index a"
proof (induction k arbitrary: i a)
  case (Suc k)
  obtain a1 where "read_static a = Some a1" "va_inv xs a1" "read_count a1 = Suc (read_count a)" "current_index a1 = current_index a"
    using read_static_inv [of xs a] Suc.prems by auto
  then show ?case using Suc.IH [of a1 "Suc i"] Suc.prems by auto
qed simp

lemma read_extra_loop:
  "va_inv xs a \<Longrightarrow> read_count a + k \<le> length xs \<Longrightarrow> extra_args a \<noteq> None \<Longrightarrow> read_count a + k \<le> 64 + extra_capacity a \<Longrightarrow>
   \<exists>a'. for_from i k (\<lambda>_. read_extra) a = Some a' \<and> va_inv xs a' \<and> read_count a' = read_count a + k \<and> current_index a' = current_index a
     \<and> extra_args a' \<noteq> None"
proof (induction k arbitrary: i a)
  case (Suc k)
  obtain a1 where "read_extra a = Some a1" "va_inv xs a1" "read_count a1 = Suc (read_count a)" "current_index a1 = current_index a"
      "extra_args a1 \<noteq> None" "extra_capacity a1 = extra_capacity a"
    using read_extra_inv [of xs a] Suc.prems by auto
  then show ?case using Suc.IH [of a1 "Suc i"] Suc.prems by auto
qed simp

lemma realloc_extra_inv:
  assumes "va_inv xs a" "64 \<le> read_count a" "extra_capacity a \<le> cap"
  shows "va_inv xs (a\<lparr>extra_capacity := cap, extra_args := Some (realloc_extra junk cap (extra_args a))\<rparr>)"
  using assms by (auto simp: va_inv_def realloc_extra_def Let_def nth_append split: option.splits)

lemma load_static_inv: "va_inv xs a \<Longrightarrow> i < read_count a \<Longrightarrow> i < 64 \<Longrightarrow> load (va_args a) i = Some (xs ! i)"
  by (simp add: va_inv_def)

lemma load_extra_inv: "va_inv xs a \<Longrightarrow> i < read_count a \<Longrightarrow> 64 \<le> i \<Longrightarrow> load_extra a (i - 64) = Some (xs ! i)"
  by (auto simp: va_inv_def load_extra_def split: option.splits)

lemma va_inv_advance: "va_inv xs a \<Longrightarrow> current_index a < read_count a \<Longrightarrow> va_inv xs (a\<lparr>current_index := current_index a + 1\<rparr>)"
  by (simp add: va_inv_def split: option.splits)

text \<open>The next argument, and an argument by its number.\<close>

lemma next_inv:
  assumes inv: "va_inv xs a" and some: "current_index a < length xs" and small: "length xs < 2 ^ 31"
  shows "\<exists>a'. variadic_args_next (\<lambda>_. True) junk a = Some (xs ! current_index a, a') \<and> va_inv xs a'
    \<and> current_index a' = Suc (current_index a)"
proof -
  have le: "current_index a \<le> read_count a" "extra_args a = None \<longrightarrow> extra_capacity a = 0" using inv by (auto simp: va_inv_def split: option.splits)
  consider "read_count a = current_index a" "current_index a < 64" | "current_index a < read_count a"
    | "read_count a = current_index a" "64 \<le> current_index a" using le by linarith
  then show ?thesis
  proof cases
    case 1
    obtain a1 where "read_static a = Some a1" "va_inv xs a1" "read_count a1 = Suc (read_count a)" "current_index a1 = current_index a"
      using read_static_inv [OF inv] 1 some by auto
    then show ?thesis using 1 load_static_inv [of xs a1 "current_index a"] va_inv_advance [of xs a1]
      by (simp add: variadic_args_next_def VARIADIC_ARGS_DEFAULT_SIZE_def)
  next
    case 2
    then show ?thesis using load_static_inv [OF inv, of "current_index a"] load_extra_inv [OF inv, of "current_index a"] va_inv_advance [OF inv]
      by (simp add: variadic_args_next_def VARIADIC_ARGS_DEFAULT_SIZE_def)
  next
    case 3
    define full where "full \<longleftrightarrow> extra_args a = None \<or> read_count a - 64 = extra_capacity a"
    define cap where "cap = max 4 (extra_capacity a * 2)"
    define b where "b = (if full then a\<lparr>extra_capacity := cap, extra_args := Some (realloc_extra junk cap (extra_args a))\<rparr> else a)"
    have "full \<longrightarrow> extra_capacity a < 2 ^ 31" using le(2) 3 some small by (auto simp: full_def)
    then have cap: "full \<longrightarrow> max 4 (extra_capacity a * 2 mod 2 ^ 32) = cap" by (auto simp: cap_def)
    have b: "va_inv xs b" "read_count b = read_count a" "current_index b = current_index a" "extra_args b \<noteq> None"
        "read_count b < 64 + extra_capacity b"
      using realloc_extra_inv [OF inv, of cap junk] 3 inv by (auto simp: b_def full_def cap_def va_inv_def)
    obtain a1 where "read_extra b = Some a1" "va_inv xs a1" "read_count a1 = Suc (read_count a)" "current_index a1 = current_index a"
      using read_extra_inv [OF b(1)] b some 3 by auto
    moreover from this have "load_extra a1 (current_index a - 64) = Some (xs ! current_index a)"
      using load_extra_inv [of xs a1 "current_index a"] 3 by simp
    ultimately show ?thesis using 3 cap va_inv_advance [of xs a1]
      by (auto simp: variadic_args_next_def VARIADIC_ARGS_DEFAULT_SIZE_def b_def full_def)
  qed
qed

lemma at_inv:
  assumes inv: "va_inv xs a" and k: "0 < k" "k \<le> length xs" and small: "length xs < 2 ^ 31"
  shows "\<exists>a'. variadic_args_at (\<lambda>_. True) junk a k = Some (xs ! (k - 1), a') \<and> va_inv xs a' \<and> current_index a' = current_index a"
proof -
  have le: "read_count a \<le> length xs" using inv by (simp add: va_inv_def)
  show ?thesis
  proof (cases "k \<le> 64")
    case True
    obtain a1 where a1: "for_from (read_count a) (k - read_count a) (\<lambda>_. read_static) a = Some a1" "va_inv xs a1"
        "read_count a1 = read_count a + (k - read_count a)" "current_index a1 = current_index a"
      using read_static_loop [OF inv, of "k - read_count a" "read_count a"] le k True by fastforce
    then show ?thesis using load_static_inv [of xs a1 "k - 1"] True k
      by (simp add: variadic_args_at_def VARIADIC_ARGS_DEFAULT_SIZE_def)
  next
    case False
    obtain a1 where a1: "for_from (read_count a) (64 - read_count a) (\<lambda>_. read_static) a = Some a1" "va_inv xs a1"
        "read_count a1 = read_count a + (64 - read_count a)" "current_index a1 = current_index a"
      using read_static_loop [OF inv, of "64 - read_count a" "read_count a"] le k False by fastforce
    define full where "full \<longleftrightarrow> extra_args a1 = None \<or> k - 64 > extra_capacity a1"
    define cap where "cap = max 4 (ROUND_UP (k - 64) 4)"
    define b where "b = (if full then a1\<lparr>extra_capacity := cap, extra_args := Some (realloc_extra junk cap (extra_args a1))\<rparr> else a1)"
    have cap: "k - 64 \<le> cap" "full \<longrightarrow> extra_capacity a1 \<le> cap"
      using k(2) small a1(2) by (auto simp: cap_def ROUND_UP_def full_def va_inv_def)
    have b: "va_inv xs b" "read_count b = read_count a1" "current_index b = current_index a" "extra_args b \<noteq> None" "k \<le> 64 + extra_capacity b"
      using realloc_extra_inv [OF a1(2), of cap junk] a1 cap by (auto simp: b_def full_def)
    have "read_count b + (k - read_count b) \<le> length xs" "read_count b + (k - read_count b) \<le> 64 + extra_capacity b"
      using b k(2) by (auto simp: va_inv_def split: option.splits)
    then obtain a3 where a3: "for_from (read_count b) (k - read_count b) (\<lambda>_. read_extra) b = Some a3" "va_inv xs a3"
        "read_count a3 = read_count b + (k - read_count b)" "current_index a3 = current_index a"
      using read_extra_loop [OF b(1) _ b(4), of "k - read_count b" "read_count b"] b(3) by auto
    then have "load_extra a3 (k - 64 - 1) = Some (xs ! (k - 1))"
      using load_extra_inv [of xs a3 "k - 1"] False by (simp add: diff_commute)
    then show ?thesis using False a1 a3
      by (auto simp: variadic_args_at_def VARIADIC_ARGS_DEFAULT_SIZE_def Let_def full_def b_def cap_def)
  qed
qed

section \<open>Any order of accesses\<close>

text \<open>\<open>va_gets\<close> makes a sequence of calls; \<open>va_spec\<close> is what they should return: number \<open>0\<close> takes the
  next argument in order, any other number the argument with that number.\<close>

fun va_gets :: "(nat \<Rightarrow> u64) \<Rightarrow> 32 word list \<Rightarrow> variadic_args \<Rightarrow> u64 list ub" where
  "va_gets junk [] a = Some []"
| "va_gets junk (i # is) a = do {
     (x, a1) \<leftarrow> variadic_args_get (\<lambda>_. True) junk a i;
     ys \<leftarrow> va_gets junk is a1;
     Some (x # ys) }"

fun va_spec :: "u64 list \<Rightarrow> nat \<Rightarrow> 32 word list \<Rightarrow> u64 list ub" where
  "va_spec xs c [] = Some []"
| "va_spec xs c (i # is) =
     (if i = 0 then (if c < length xs then map_option ((#) (xs ! c)) (va_spec xs (Suc c) is) else None)
      else if unat i \<le> length xs then map_option ((#) (xs ! (unat i - 1))) (va_spec xs c is) else None)"

lemma va_get:
  assumes "va_inv xs a" "length xs < 2 ^ 31" "if i = 0 then current_index a < length xs else unat i \<le> length xs"
  shows "\<exists>a'. variadic_args_get (\<lambda>_. True) junk a i = Some (if i = 0 then xs ! current_index a else xs ! (unat i - 1), a')
    \<and> va_inv xs a' \<and> current_index a' = (if i = 0 then Suc (current_index a) else current_index a)"
proof (cases "i = 0")
  case True
  then show ?thesis using next_inv [OF assms(1) _ assms(2), of junk] assms(3) by (simp add: variadic_args_get_def)
next
  case False
  then have "0 < unat i" by (simp add: unat_gt_0)
  then show ?thesis using at_inv [OF assms(1) _ _ assms(2), of "unat i" junk] assms(3) False by (simp add: variadic_args_get_def)
qed

text \<open>What the format loops rely on: a source that hands out the arguments one after the other.\<close>

locale arg_source =
  fixes get :: "variadic_args \<Rightarrow> 32 word \<Rightarrow> (u64 \<times> variadic_args) ub" and holds :: "variadic_args \<Rightarrow> u64 list \<Rightarrow> bool"
  assumes get_next: "holds a (y # ys) \<Longrightarrow> \<exists>a'. get a 0 = Some (y, a') \<and> holds a' ys"

definition va_holds :: "variadic_args \<Rightarrow> u64 list \<Rightarrow> bool" where
  "va_holds a ys \<longleftrightarrow> (\<exists>xs. va_inv xs a \<and> length xs < 2 ^ 31 \<and> ys = drop (current_index a) xs)"

interpretation va: arg_source "variadic_args_get (\<lambda>_. True) junk" va_holds for junk
proof unfold_locales
  fix a y ys assume "va_holds a (y # ys)"
  then obtain xs where xs: "va_inv xs a" "length xs < 2 ^ 31" "y # ys = drop (current_index a) xs" by (auto simp: va_holds_def)
  have lt: "current_index a < length xs" using xs(3) by (metis drop_eq_Nil list.distinct(1) not_less)
  then have y: "y = xs ! current_index a" "ys = drop (Suc (current_index a)) xs"
    using xs(3) by (simp_all add: Cons_nth_drop_Suc [symmetric])
  show "\<exists>a'. variadic_args_get (\<lambda>_. True) junk a 0 = Some (y, a') \<and> va_holds a' ys"
    using va_get [OF xs(1,2), of 0 junk] lt xs(2) y by (auto simp: va_holds_def)
qed

lemma va_holds_init: "length xs < 2 ^ 31 \<Longrightarrow> va_holds (variadic_args_init xs) xs"
  using va_inv_init [of xs] by (auto simp: va_holds_def variadic_args_init_def)

lemma va_gets_spec:
  "va_inv xs a \<Longrightarrow> length xs < 2 ^ 31 \<Longrightarrow> va_spec xs (current_index a) is = Some ys \<Longrightarrow> va_gets junk is a = Some ys"
proof (induction "is" arbitrary: a ys)
  case (Cons i "is")
  have "if i = 0 then current_index a < length xs else unat i \<le> length xs"
    using Cons.prems(3) by (auto split: if_splits)
  then obtain a1 where "variadic_args_get (\<lambda>_. True) junk a i = Some (if i = 0 then xs ! current_index a else xs ! (unat i - 1), a1)"
      "va_inv xs a1" "current_index a1 = (if i = 0 then Suc (current_index a) else current_index a)"
    using va_get [OF Cons.prems(1,2)] by blast
  then show ?case using Cons.IH [of a1] Cons.prems(2,3) by (auto split: if_splits)
qed simp

text \<open>C23: arguments asked for in any mixture of sequential and positional accesses are the ones the
  caller passed: number 0 gives the next argument in order and number n the n-th argument, as often
  as it is asked for, also beyond the 64 entries of the static cache.\<close>

theorem variadic_args_any_order:
  assumes "va_spec xs 0 is = Some ys" and "length xs < 2 ^ 31"
  shows "va_gets junk is (variadic_args_init xs) = Some ys"
  using va_gets_spec [OF va_inv_init assms(2), of "is" ys junk] assms(1) by (simp add: variadic_args_init_def)

theorem variadic_args_any_order_witness:
  "va_gets (\<lambda>_. 0) [0, 3, 0, 70, 1] (variadic_args_init (map of_nat [10..<90])) = Some [10, 12, 11, 79, 10]"
proof -
  have "va_spec (map of_nat [10..<90]) 0 [0, 3, 0, 70, 1] = Some [10, 12, 11, 79, 10]" by simp
  from variadic_args_any_order [OF this] show ?thesis by simp
qed

end
