(* ===== verification/FloatText.thy ===== *)
theory FloatText
  imports ConvertProps
begin

unbundle bit_operations_syntax

text \<open>
  Floating point numbers in hexadecimal text (src/internal/convert.c, \<open>print_nan\<close> to \<open>float64_to_hex\<close>).
  A float or a double is its bit pattern, as the macros \<open>UINT32_AS_FLOAT32\<close> and \<open>UINT64_AS_FLOAT64\<close>
  view it. The functions return the bytes they store; the longest text, of 1 + 4 + 13 + 2 + 4 bytes,
  fits the 64 bytes of the caller.
\<close>

section \<open>Writing\<close>

definition FLOAT32_EXP_BIAS :: "8 word" where "FLOAT32_EXP_BIAS = 127"
definition FLOAT64_EXP_BIAS :: "16 word" where "FLOAT64_EXP_BIAS = 1023"
definition FLOAT32_EXP_INF :: "8 word" where "FLOAT32_EXP_INF = 255"
definition FLOAT64_EXP_INF :: "16 word" where "FLOAT64_EXP_INF = 2047"

definition print_nan :: "bool \<Rightarrow> byte list" where
  "print_nan upper = (if upper then [0x4E, 0x41, 0x4E] else [0x6E, 0x61, 0x6E])"

definition print_inf :: "bool \<Rightarrow> byte list" where
  "print_inf upper = (if upper then [0x49, 0x4E, 0x46] else [0x69, 0x6E, 0x66])"

text \<open>The loop that removes trailing zeros, on the text from its end.\<close>

fun strip_zeros :: "byte list \<Rightarrow> byte list" where
  "strip_zeros (x # c # r) = (if x = 0x30 \<and> c \<noteq> 0x2E then strip_zeros (c # r) else x # c # r)"
| "strip_zeros r = r"

text \<open>What both widths share once the fields are taken apart: \<open>ex\<close> and \<open>bias\<close> are the stored exponent
  and the bias, \<open>mant\<close> the stored mantissa.\<close>

definition hex_float_text :: "bool \<Rightarrow> bool \<Rightarrow> nat \<Rightarrow> nat \<Rightarrow> u64 \<Rightarrow> byte list ub" where
  "hex_float_text upper neg ex bias mant = do {
     digits \<leftarrow> uint_to_hex_common upper mant;
     let txt = (if neg then [0x2D] else []) @ [0x30, if upper then 0x58 else 0x78, if ex \<noteq> 0 then 0x31 else 0x30, 0x2E] @ digits;
     let stripped = rev (strip_zeros (rev txt));
     e \<leftarrow> uint_to_dec_common (of_nat (if ex \<ge> bias then ex - bias else bias - ex)) 0;
     Some (stripped @ [if upper then 0x50 else 0x70, if ex \<ge> bias then 0x2B else 0x2D] @ e) }"

definition float32_to_hex :: "bool \<Rightarrow> 32 word \<Rightarrow> byte list ub" where
  "float32_to_hex upper v =
     (let neg = (drop_bit 31 v AND 1 \<noteq> 0); ex = ucast (drop_bit 24 (push_bit 1 v) AND 0xFF) :: 8 word; mant = v AND 0x7FFFFF in
      if ex = FLOAT32_EXP_INF
      then Some ((if neg then [0x2D] else []) @ (if mant = 0 then print_inf upper else print_nan upper))
      else hex_float_text upper neg (unat ex) (unat FLOAT32_EXP_BIAS) (ucast mant))"

definition float64_to_hex :: "bool \<Rightarrow> u64 \<Rightarrow> byte list ub" where
  "float64_to_hex upper v =
     (let neg = (drop_bit 63 v AND 1 \<noteq> 0); ex = ucast (drop_bit 53 (push_bit 1 v) AND 0x7FF) :: 16 word; mant = v AND 0xFFFFFFFFFFFFF in
      if ex = FLOAT64_EXP_INF
      then Some ((if neg then [0x2D] else []) @ (if mant = 0 then print_inf upper else print_nan upper))
      else hex_float_text upper neg (unat ex) (unat FLOAT64_EXP_BIAS) mant)"

text \<open>The text of a double does not determine it: the leading zeros of the mantissa are not
  written, so 1 + 2 ^ - 52 (mantissa 0000000000001) and 1 + 1/16 (mantissa 1000000000000) are both
  written as \<open>0x1.1p+0\<close>.\<close>

theorem hex_float_text_is_ambiguous:
  "float64_to_hex False 0x3FF0000000000001 = Some [0x30, 0x78, 0x31, 0x2E, 0x31, 0x70, 0x2B, 0x30]
   \<and> float64_to_hex False 0x3FF1000000000000 = Some [0x30, 0x78, 0x31, 0x2E, 0x31, 0x70, 0x2B, 0x30]"
  by code_simp

end
