(* ===== verification/Printf.thy ===== *)
theory Printf
  imports VarArgs FloatText Unicode
begin

unbundle bit_operations_syntax

text \<open>
  Formatted output (src/stdio/printf.c). The memory that \<open>%s\<close> reads and \<open>%n\<close> writes is a partial map
  from addresses to bytes; an access to an unmapped address, a store past the end of one of the
  local arrays and an argument that was not passed are undefined (\<open>None\<close>). The integer types keep
  their widths. The format is the list of its bytes before the terminator.
\<close>

section \<open>Memory\<close>

type_synonym memory = "u64 \<rightharpoonup> byte"

fun mem_read :: "memory \<Rightarrow> u64 \<Rightarrow> nat \<Rightarrow> byte list ub" where
  "mem_read m p 0 = Some []"
| "mem_read m p (Suc n) = do { x \<leftarrow> m p; xs \<leftarrow> mem_read m (p + 1) n; Some (x # xs) }"

fun mem_write :: "memory \<Rightarrow> u64 \<Rightarrow> byte list \<Rightarrow> memory ub" where
  "mem_write m p [] = Some m"
| "mem_write m p (x # xs) = (if m p = None then None else mem_write (m(p \<mapsto> x)) (p + 1) xs)"

definition mem_word :: "memory \<Rightarrow> u64 \<Rightarrow> nat \<Rightarrow> 'a::len word ub" where
  "mem_word m p n = map_option (\<lambda>bs. of_nat (le_val bs)) (mem_read m p n)"

section \<open>Flags, modifiers and conversions\<close>

definition PRINT_ALTERNATE_FORM :: "16 word" where "PRINT_ALTERNATE_FORM = 0x01"
definition PRINT_ZERO_PADDED :: "16 word" where "PRINT_ZERO_PADDED = 0x02"
definition PRINT_EMPTY_SPACE :: "16 word" where "PRINT_EMPTY_SPACE = 0x04"
definition PRINT_LEFT_JUSTIFY :: "16 word" where "PRINT_LEFT_JUSTIFY = 0x08"
definition PRINT_FORCE_SIGN :: "16 word" where "PRINT_FORCE_SIGN = 0x10"
definition PRINT_UPPER_CASE :: "16 word" where "PRINT_UPPER_CASE = 0x20"
definition PRINT_GROUP_DIGITS :: "16 word" where "PRINT_GROUP_DIGITS = 0x40"
definition PRINT_PRECISION :: "16 word" where "PRINT_PRECISION = 0x80"

datatype print_mod = PRINT_MOD_NONE | PRINT_MOD_SHORT_SHORT | PRINT_MOD_SHORT | PRINT_MOD_LONG | PRINT_MOD_LONG_LONG
  | PRINT_MOD_MAX | PRINT_MOD_SIZE | PRINT_MOD_PTRDIFF | PRINT_MOD_LONG_DOUBLE

datatype print_type = PRINT_INT_NUMBER | PRINT_UINT_NUMBER | PRINT_UINT_BINARY | PRINT_UINT_OCTAL | PRINT_UINT_HEX
  | PRINT_DOUBLE_NORMAL | PRINT_DOUBLE_HEX | PRINT_DOUBLE_SCIENTIFIC | PRINT_DOUBLE_SCIENTIFIC_SHORT
  | PRINT_CHAR | PRINT_STRING | PRINT_POINTER | PRINT_RESULT | PRINT_UNKNOWN

record print_config =
  pc_type :: print_type
  pc_modifier :: print_mod
  pc_flags :: "16 word"
  pc_width :: "32 word"
  pc_precision :: "32 word"
  pc_result :: "32 word"
  pc_data :: u64

definition flag :: "16 word \<Rightarrow> 16 word \<Rightarrow> bool" where
  "flag fl f \<longleftrightarrow> fl AND f \<noteq> 0"

abbreviation has_flag :: "print_config \<Rightarrow> 16 word \<Rightarrow> bool" where
  "has_flag c f \<equiv> flag (pc_flags c) f"

section \<open>Parsing a specifier\<close>

function parse_number :: "32 word \<Rightarrow> buffer_t \<Rightarrow> (32 word \<times> buffer_t) ub" where
  "parse_number index b = (case peekbyte b 0 of None \<Rightarrow> None | Some byte \<Rightarrow>
     if byte = 0 then Some (index, b)
     else if 0x30 \<le> byte \<and> byte \<le> 0x39 then
       (case readbyte b of None \<Rightarrow> None | Some (_, b') \<Rightarrow> parse_number (index * 10 + ucast (byte - 0x30)) b')
     else Some (index, b))"
  by pat_completeness auto
termination by (relation "measure (\<lambda>(i, b). left b)") (auto dest: readbyte_left)

definition flag_of :: "byte \<Rightarrow> 16 word option" where
  "flag_of byte =
     (if byte = 0x23 then Some PRINT_ALTERNATE_FORM
      else if byte = 0x30 then Some PRINT_ZERO_PADDED
      else if byte = 0x20 then Some PRINT_EMPTY_SPACE
      else if byte = 0x2D then Some PRINT_LEFT_JUSTIFY
      else if byte = 0x2B then Some PRINT_FORCE_SIGN
      else if byte = 0x27 then Some PRINT_GROUP_DIGITS
      else None)"

function parse_flags :: "16 word \<Rightarrow> buffer_t \<Rightarrow> (16 word \<times> buffer_t) ub" where
  "parse_flags fl b = (case peekbyte b 0 of None \<Rightarrow> None | Some byte \<Rightarrow>
     if byte = 0 then Some (fl, b)
     else (case flag_of byte of None \<Rightarrow> Some (fl, b)
       | Some f \<Rightarrow> (case readbyte b of None \<Rightarrow> None | Some (_, b') \<Rightarrow> parse_flags (fl OR f) b')))"
  by pat_completeness auto
termination by (relation "measure (\<lambda>(f, b). left b)") (auto dest: readbyte_left)

declare parse_number.simps [simp del] parse_flags.simps [simp del]

text \<open>The number of the argument, \<open>0\<close> when there is none.\<close>

definition parse_arg_index :: "buffer_t \<Rightarrow> (32 word \<times> buffer_t) ub" where
  "parse_arg_index b = do {
     (index, b1) \<leftarrow> parse_number 0 b;
     if index \<noteq> 0 then do {
       byte \<leftarrow> peekbyte b1 0;
       if byte = 0x24 then do { (_, b2) \<leftarrow> readbyte b1; Some (index, b2) }
       else Some (0, b1\<lparr>b_pos := b_pos b\<rparr>) }
     else Some (0, b1\<lparr>b_pos := b_pos b\<rparr>) }"

text \<open>What follows a \<open>*\<close>: the number of the argument that gives the width or the precision.\<close>

definition parse_star :: "buffer_t \<Rightarrow> (32 word \<times> buffer_t) ub" where
  "parse_star b = do {
     (index, b1) \<leftarrow> parse_number 0 b;
     byte \<leftarrow> peekbyte b1 0;
     if byte = 0x24 then do { (_, b2) \<leftarrow> readbyte b1; Some (index, b2) }
     else Some (0, b1) }"

text \<open>A width or a precision: the argument that gives it, \<open>UINT32_MAX\<close> for none, and the number.\<close>

definition parse_amount :: "buffer_t \<Rightarrow> (32 word \<times> 32 word \<times> buffer_t) ub" where
  "parse_amount b = do {
     byte \<leftarrow> peekbyte b 0;
     if byte = 0x2A then do {
       (_, b1) \<leftarrow> readbyte b;
       (index, b2) \<leftarrow> parse_star b1;
       Some (index, 0, b2) }
     else do {
       (n, b1) \<leftarrow> parse_number 0 b;
       Some (- 1, n, b1) } }"

definition parse_precision :: "16 word \<Rightarrow> buffer_t \<Rightarrow> (32 word \<times> 32 word \<times> 16 word \<times> buffer_t) ub" where
  "parse_precision fl b = do {
     byte \<leftarrow> peekbyte b 0;
     if byte = 0x2E then do {
       (_, b1) \<leftarrow> readbyte b;
       (index, n, b2) \<leftarrow> parse_amount b1;
       Some (index, n, fl OR PRINT_PRECISION, b2) }
     else Some (- 1, 0, fl, b) }"

definition parse_modifier :: "buffer_t \<Rightarrow> (print_mod \<times> buffer_t) ub" where
  "parse_modifier b = do {
     byte \<leftarrow> peekbyte b 0;
     if byte = 0x68 then do {
       (_, b1) \<leftarrow> readbyte b;
       byte2 \<leftarrow> peekbyte b1 0;
       if byte2 = 0x68 then do { (_, b2) \<leftarrow> readbyte b1; Some (PRINT_MOD_SHORT_SHORT, b2) }
       else Some (PRINT_MOD_SHORT, b1) }
     else if byte = 0x6C then do {
       (_, b1) \<leftarrow> readbyte b;
       byte2 \<leftarrow> peekbyte b1 0;
       if byte2 = 0x6C then do { (_, b2) \<leftarrow> readbyte b1; Some (PRINT_MOD_LONG_LONG, b2) }
       else Some (PRINT_MOD_LONG, b1) }
     else if byte = 0x4C then do { (_, b1) \<leftarrow> readbyte b; Some (PRINT_MOD_LONG_DOUBLE, b1) }
     else if byte = 0x6A then do { (_, b1) \<leftarrow> readbyte b; Some (PRINT_MOD_MAX, b1) }
     else if byte = 0x7A then do { (_, b1) \<leftarrow> readbyte b; Some (PRINT_MOD_SIZE, b1) }
     else if byte = 0x74 then do { (_, b1) \<leftarrow> readbyte b; Some (PRINT_MOD_PTRDIFF, b1) }
     else Some (PRINT_MOD_NONE, b) }"

text \<open>The conversion and whether it is in upper case.\<close>

definition conversion_of :: "byte \<Rightarrow> print_type \<times> bool" where
  "conversion_of byte =
     (if byte = 0x69 \<or> byte = 0x64 then (PRINT_INT_NUMBER, False)
      else if byte = 0x75 then (PRINT_UINT_NUMBER, False)
      else if byte = 0x42 then (PRINT_UINT_BINARY, True)
      else if byte = 0x62 then (PRINT_UINT_BINARY, False)
      else if byte = 0x4F then (PRINT_UINT_OCTAL, True)
      else if byte = 0x6F then (PRINT_UINT_OCTAL, False)
      else if byte = 0x58 then (PRINT_UINT_HEX, True)
      else if byte = 0x78 then (PRINT_UINT_HEX, False)
      else if byte = 0x41 then (PRINT_DOUBLE_HEX, True)
      else if byte = 0x61 then (PRINT_DOUBLE_HEX, False)
      else if byte = 0x46 then (PRINT_DOUBLE_NORMAL, True)
      else if byte = 0x66 then (PRINT_DOUBLE_NORMAL, False)
      else if byte = 0x45 then (PRINT_DOUBLE_SCIENTIFIC, True)
      else if byte = 0x65 then (PRINT_DOUBLE_SCIENTIFIC, False)
      else if byte = 0x47 then (PRINT_DOUBLE_SCIENTIFIC_SHORT, True)
      else if byte = 0x67 then (PRINT_DOUBLE_SCIENTIFIC_SHORT, False)
      else if byte = 0x63 then (PRINT_CHAR, False)
      else if byte = 0x73 then (PRINT_STRING, False)
      else if byte = 0x70 then (PRINT_POINTER, False)
      else if byte = 0x6E then (PRINT_RESULT, False)
      else (PRINT_UNKNOWN, False))"

definition adjust_flags :: "16 word \<Rightarrow> 16 word" where
  "adjust_flags fl0 =
     (let fl1 = (if flag fl0 PRINT_LEFT_JUSTIFY then fl0 AND NOT PRINT_ZERO_PADDED else fl0);
          fl2 = (if flag fl1 PRINT_PRECISION then fl1 AND NOT PRINT_ZERO_PADDED else fl1) in
      if flag fl2 PRINT_FORCE_SIGN then fl2 AND NOT PRINT_EMPTY_SPACE else fl2)"

type_synonym getter = "variadic_args \<Rightarrow> 32 word \<Rightarrow> (u64 \<times> variadic_args) ub"

text \<open>The arguments of a specifier: its width and precision, when they are given by arguments, and its
  data.\<close>

definition fetch_amount :: "getter \<Rightarrow> 32 word \<Rightarrow> 32 word \<Rightarrow> variadic_args \<Rightarrow> (32 word \<times> variadic_args) ub" where
  "fetch_amount get index n a =
     (if index \<noteq> - 1 then map_option (\<lambda>(x, a1). (ucast x, a1)) (get a index) else Some (n, a))"

definition parse_print_specifier ::
  "getter \<Rightarrow> buffer_t \<Rightarrow> variadic_args \<Rightarrow> (print_config \<times> buffer_t \<times> variadic_args) ub" where
  "parse_print_specifier get b a = do {
     (arg_index, b1) \<leftarrow> parse_arg_index b;
     (fl1, b2) \<leftarrow> parse_flags 0 b1;
     (width_index, width, b3) \<leftarrow> parse_amount b2;
     (precision_index, precision, fl2, b4) \<leftarrow> parse_precision fl1 b3;
     (modifier, b5) \<leftarrow> parse_modifier b4;
     byte \<leftarrow> peekbyte b5 0;
     let (ty, upper) = conversion_of byte;
     let fl3 = (if upper then fl2 OR PRINT_UPPER_CASE else fl2);
     if ty = PRINT_UNKNOWN then
       Some (\<lparr>pc_type = ty, pc_modifier = modifier, pc_flags = adjust_flags fl3, pc_width = width, pc_precision = precision,
         pc_result = 0, pc_data = 0\<rparr>, b5, a)
     else do {
       (_, b6) \<leftarrow> readbyte b5;
       (w, a1) \<leftarrow> fetch_amount get width_index width a;
       (p, a2) \<leftarrow> fetch_amount get precision_index precision a1;
       (x, a3) \<leftarrow> get a2 arg_index;
       Some (\<lparr>pc_type = ty, pc_modifier = modifier, pc_flags = adjust_flags fl3, pc_width = w, pc_precision = p,
         pc_result = 0, pc_data = x\<rparr>, b6, a3) } }"

definition alternate_form_char :: "print_config \<Rightarrow> byte" where
  "alternate_form_char c = (case pc_type c of
     PRINT_UINT_BINARY \<Rightarrow> if has_flag c PRINT_UPPER_CASE then 0x42 else 0x62
   | PRINT_UINT_OCTAL \<Rightarrow> if has_flag c PRINT_UPPER_CASE then 0x4F else 0x6F
   | PRINT_UINT_HEX \<Rightarrow> if has_flag c PRINT_UPPER_CASE then 0x58 else 0x78
   | _ \<Rightarrow> 0)"

section \<open>Numbers\<close>

text \<open>\<open>while (pos + k < limit) { writebyte(buffer, ch); pos += 1; }\<close>\<close>

type_synonym putter = "buffer_t \<Rightarrow> byte list \<Rightarrow> (nat \<times> buffer_t) ub"

function pad :: "putter \<Rightarrow> byte \<Rightarrow> 32 word \<Rightarrow> 32 word \<Rightarrow> 32 word \<Rightarrow> buffer_t \<Rightarrow> (32 word \<times> buffer_t) ub" where
  "pad put ch k limit pos b =
     (if pos + k < limit then (case put b [ch] of None \<Rightarrow> None | Some (_, b1) \<Rightarrow> pad put ch k limit (pos + 1) b1)
      else Some (pos, b))"
  by pat_completeness auto
termination
proof (relation "measure (\<lambda>(put, ch, k, limit, pos, b). unat limit - unat (pos + k))", goal_cases)
  case (2 put ch k limit pos b)
  then show ?case using unat_less_Suc [of "pos + k" limit] by (simp add: word_less_nat_alt algebra_simps)
qed simp

declare pad.simps [simp del]

definition put_all :: "putter \<Rightarrow> byte list \<Rightarrow> buffer_t \<Rightarrow> buffer_t ub" where
  "put_all put bs b = map_option snd (put b bs)"

definition put_sign :: "putter \<Rightarrow> byte \<Rightarrow> buffer_t \<Rightarrow> buffer_t ub" where
  "put_sign put sign b = (if sign \<noteq> 0 then put_all put [sign] b else Some b)"

text \<open>The sign that is printed, and the text after it; \<open>temp\<close> is the local array with the text.\<close>

definition split_sign :: "print_config \<Rightarrow> byte list \<Rightarrow> byte \<times> byte list" where
  "split_sign c temp =
     (if temp \<noteq> [] \<and> (hd temp = 0x2D \<or> hd temp = 0x2B) then
        (if has_flag c PRINT_EMPTY_SPACE then (if hd temp = 0x2B then 0x20 else 0x2D) else hd temp, tl temp)
      else (0, temp))"

definition print_int_formatted :: "putter \<Rightarrow> print_config \<Rightarrow> buffer_t \<Rightarrow> byte list \<Rightarrow> (32 word \<times> buffer_t) ub" where
  "print_int_formatted put c b temp =
     (let (sign, txt) = split_sign c temp;
          size = of_nat (length txt) :: 32 word;
          extra = (if sign \<noteq> 0 then 1 else 0);
          period = (if has_flag c PRINT_GROUP_DIGITS then (size - 1) div 3 else 0) in
      if has_flag c PRINT_LEFT_JUSTIFY then do {
        b1 \<leftarrow> put_sign put sign b;
        (pos, b2) \<leftarrow> pad put 0x30 (size - period) (pc_precision c) 0 b1;
        b3 \<leftarrow> put_all put txt b2;
        (size', b4) \<leftarrow> pad put 0x20 0 (pc_width c) (size + pos + extra) b3;
        Some (size', b4) }
      else if pc_width c > max (pc_precision c) size then
        (if has_flag c PRINT_ZERO_PADDED then do {
           b1 \<leftarrow> put_sign put sign b;
           (pos, b2) \<leftarrow> pad put 0x30 size (pc_width c) extra b1;
           b3 \<leftarrow> put_all put txt b2;
           Some (pos + size, b3) }
         else do {
           (pos, b1) \<leftarrow> pad put 0x20 (max (pc_precision c) (size - period) + extra + period) (pc_width c) 0 b;
           b2 \<leftarrow> put_sign put sign b1;
           (count, b3) \<leftarrow> pad put 0x30 (size - period) (pc_precision c) 0 b2;
           b4 \<leftarrow> put_all put txt b3;
           Some (size + (pos + extra) + count, b4) })
      else do {
        b1 \<leftarrow> put_sign put sign b;
        (pos, b2) \<leftarrow> pad put 0x30 (size - period) (pc_precision c) 0 b1;
        b3 \<leftarrow> put_all put txt b2;
        Some (pos + size + extra, b3) })"

text \<open>\<open>writebyte(buffer, '0'); writebyte(buffer, alternate_form_char(config));\<close>\<close>

definition put_prefix :: "putter \<Rightarrow> print_config \<Rightarrow> buffer_t \<Rightarrow> buffer_t ub" where
  "put_prefix put c b = (if has_flag c PRINT_ALTERNATE_FORM
     then do { b1 \<leftarrow> put_all put [0x30] b; put_all put [alternate_form_char c] b1 } else Some b)"

definition print_uint_formatted :: "putter \<Rightarrow> print_config \<Rightarrow> buffer_t \<Rightarrow> byte list \<Rightarrow> (32 word \<times> buffer_t) ub" where
  "print_uint_formatted put c b temp =
     (let size = of_nat (length temp) :: 32 word;
          extra = (if has_flag c PRINT_ALTERNATE_FORM then 2 else 0) in
      if has_flag c PRINT_LEFT_JUSTIFY then do {
        b1 \<leftarrow> put_prefix put c b;
        (pos, b2) \<leftarrow> pad put 0x30 size (pc_precision c) 0 b1;
        b3 \<leftarrow> put_all put temp b2;
        (size', b4) \<leftarrow> pad put 0x20 0 (pc_width c) (size + (pos + extra)) b3;
        Some (size', b4) }
      else if pc_width c > max (pc_precision c) size then
        (if has_flag c PRINT_ZERO_PADDED then do {
           b1 \<leftarrow> put_prefix put c b;
           (pos, b2) \<leftarrow> pad put 0x30 size (pc_width c) extra b1;
           b3 \<leftarrow> put_all put temp b2;
           Some (pos + size, b3) }
         else do {
           (pos, b1) \<leftarrow> pad put 0x20 (max (pc_precision c) size + extra) (pc_width c) 0 b;
           b2 \<leftarrow> put_prefix put c b1;
           (count, b3) \<leftarrow> pad put 0x30 size (pc_precision c) 0 b2;
           b4 \<leftarrow> put_all put temp b3;
           Some (size + (pos + extra) + count, b4) })
      else do {
        b1 \<leftarrow> put_prefix put c b;
        (pos, b2) \<leftarrow> pad put 0x30 size (pc_precision c) 0 b1;
        b3 \<leftarrow> put_all put temp b2;
        Some (pos + size + extra, b3) })"

text \<open>The data viewed with the width the modifier names.\<close>

definition int_text :: "print_mod \<Rightarrow> u64 \<Rightarrow> 32 word \<Rightarrow> byte list ub" where
  "int_text m x fl = (case m of
     PRINT_MOD_SHORT \<Rightarrow> iN_to_dec (ucast x :: 16 word) fl
   | PRINT_MOD_SHORT_SHORT \<Rightarrow> iN_to_dec (ucast x :: 8 word) fl
   | PRINT_MOD_LONG \<Rightarrow> iN_to_dec (ucast x :: 64 word) fl
   | PRINT_MOD_LONG_LONG \<Rightarrow> iN_to_dec (ucast x :: 64 word) fl
   | PRINT_MOD_MAX \<Rightarrow> iN_to_dec (ucast x :: 64 word) fl
   | PRINT_MOD_SIZE \<Rightarrow> iN_to_dec (ucast x :: 64 word) fl
   | PRINT_MOD_PTRDIFF \<Rightarrow> iN_to_dec (ucast x :: 64 word) fl
   | _ \<Rightarrow> iN_to_dec (ucast x :: 32 word) fl)"

definition view_uint :: "print_mod \<Rightarrow> u64 \<Rightarrow> u64" where
  "view_uint m x = (case m of
     PRINT_MOD_SHORT \<Rightarrow> ucast (ucast x :: 16 word)
   | PRINT_MOD_SHORT_SHORT \<Rightarrow> ucast (ucast x :: 8 word)
   | PRINT_MOD_LONG \<Rightarrow> x
   | PRINT_MOD_LONG_LONG \<Rightarrow> x
   | PRINT_MOD_MAX \<Rightarrow> x
   | PRINT_MOD_SIZE \<Rightarrow> x
   | PRINT_MOD_PTRDIFF \<Rightarrow> x
   | _ \<Rightarrow> ucast (ucast x :: 32 word))"

definition sign_flags :: "print_config \<Rightarrow> 32 word" where
  "sign_flags c = (let fl = ucast (pc_flags c AND (PRINT_FORCE_SIGN OR PRINT_GROUP_DIGITS)) in
     if has_flag c PRINT_EMPTY_SPACE then fl OR ucast PRINT_FORCE_SIGN else fl)"

section \<open>Characters, strings and pointers\<close>

text \<open>The bytes of \<open>%c\<close>, in the array of 8 bytes.\<close>

definition char_bytes :: "print_config \<Rightarrow> byte list" where
  "char_bytes c = (case pc_modifier c of
     PRINT_MOD_LONG \<Rightarrow>
       (let (n, cp) = utf16_decode (map (\<lambda>i. ucast (drop_bit (16 * i) (pc_data c))) [0..<4]) in
        if n \<noteq> 0 then utf8_encode cp else [])
   | PRINT_MOD_LONG_LONG \<Rightarrow> utf8_encode (ucast (pc_data c))
   | _ \<Rightarrow> [ucast (pc_data c)])"

definition print_char :: "putter \<Rightarrow> print_config \<Rightarrow> buffer_t \<Rightarrow> (32 word \<times> buffer_t) ub" where
  "print_char put c b =
     (let chars = char_bytes c; gap = unat (pc_width c) - 1 in
      if pc_width c > 1 then
        (if length chars + gap > 128 then None
         else do {
           let temp = (if has_flag c PRINT_LEFT_JUSTIFY then chars @ replicate gap 0x20 else replicate gap 0x20 @ chars);
           b1 \<leftarrow> put_all put temp b;
           Some (of_nat (length temp), b1) })
      else do {
        b1 \<leftarrow> put_all put chars b;
        Some (of_nat (length chars), b1) })"

text \<open>\<open>while (*ch++ != 0 && count < precision) ++count;\<close> where \<open>src i\<close> is the \<open>i\<close>-th unit of the string.\<close>

function count_units :: "(nat \<Rightarrow> 'a::zero ub) \<Rightarrow> nat \<Rightarrow> nat \<Rightarrow> nat ub" where
  "count_units src precision count = (case src count of None \<Rightarrow> None | Some ch \<Rightarrow>
     if ch \<noteq> 0 \<and> count < precision then count_units src precision (Suc count) else Some count)"
  by pat_completeness auto
termination by (relation "measure (\<lambda>(src, p, c). p - c)") auto

declare count_units.simps [simp del]

text \<open>The units at the address; NULL stands for a string of zeros.\<close>

definition units_at :: "memory \<Rightarrow> u64 \<Rightarrow> nat \<Rightarrow> nat \<Rightarrow> 'a::len word ub" where
  "units_at m p n i = (if p = 0 then Some 0 else mem_word m (p + of_nat (n * i)) n)"

text \<open>The units \<open>utf16_decode\<close> looks at: the second one only after a high surrogate.\<close>

definition utf16_units :: "(nat \<Rightarrow> 16 word ub) \<Rightarrow> nat \<Rightarrow> 16 word list ub" where
  "utf16_units src i = do {
     u \<leftarrow> src i;
     if 0xD800 \<le> u \<and> u \<le> 0xDBFF then do { v \<leftarrow> src (Suc i); Some [u, v] } else Some [u] }"

text \<open>The loop over a string of 16-bit units: \<open>i\<close> counts units, \<open>pos\<close> is the offset in bytes.\<close>

function print_utf16 ::
  "putter \<Rightarrow> (nat \<Rightarrow> 16 word ub) \<Rightarrow> nat \<Rightarrow> nat \<Rightarrow> nat \<Rightarrow> 32 word \<Rightarrow> buffer_t \<Rightarrow> (32 word \<times> buffer_t) ub" where
  "print_utf16 put src count i pos res b =
     (if i < count then
        (case utf16_units src (pos div 2) of None \<Rightarrow> None | Some us \<Rightarrow>
           let (size, cp) = utf16_decode us in
           if cp = 0 then Some (res, b)
           else (case put_all put (utf8_encode cp) b of None \<Rightarrow> None
             | Some b1 \<Rightarrow> print_utf16 put src count (if size = 4 then i + 2 else i + 1) (pos + size)
                 (res + of_nat (length (utf8_encode cp))) b1))
      else Some (res, b))"
  by pat_completeness auto
termination by (relation "measure (\<lambda>(put, src, count, i, pos, res, b). count - i)") auto

declare print_utf16.simps [simp del]

fun print_utf32 :: "putter \<Rightarrow> (nat \<Rightarrow> 32 word ub) \<Rightarrow> nat \<Rightarrow> nat \<Rightarrow> 32 word \<Rightarrow> buffer_t \<Rightarrow> (32 word \<times> buffer_t) ub" where
  "print_utf32 put src i 0 res b = Some (res, b)"
| "print_utf32 put src i (Suc k) res b = do {
     cp \<leftarrow> src i;
     b1 \<leftarrow> put_all put (utf8_encode cp) b;
     print_utf32 put src (Suc i) k (res + of_nat (length (utf8_encode cp))) b1 }"

definition print_string :: "putter \<Rightarrow> memory \<Rightarrow> print_config \<Rightarrow> buffer_t \<Rightarrow> (32 word \<times> buffer_t) ub" where
  "print_string put m c b =
     (let precision = (if has_flag c PRINT_PRECISION then unat (pc_precision c) else 2 ^ 32 - 1); p = pc_data c in do {
        count \<leftarrow> (case pc_modifier c of
            PRINT_MOD_LONG \<Rightarrow> count_units (units_at m p 2 :: nat \<Rightarrow> 16 word ub) precision 0
          | PRINT_MOD_LONG_LONG \<Rightarrow> count_units (units_at m p 4 :: nat \<Rightarrow> 32 word ub) precision 0
          | _ \<Rightarrow> count_units (units_at m p 1 :: nat \<Rightarrow> byte ub) precision 0);
        let gap = of_nat (unat (pc_width c) - count);
        (res1, b1) \<leftarrow> (if unat (pc_width c) > count \<and> \<not> has_flag c PRINT_LEFT_JUSTIFY then pad put 0x20 0 gap 0 b else Some (0, b));
        (res2, b2) \<leftarrow> (case pc_modifier c of
            PRINT_MOD_LONG \<Rightarrow> print_utf16 put (units_at m p 2) count 0 0 res1 b1
          | PRINT_MOD_LONG_LONG \<Rightarrow> print_utf32 put (units_at m p 4) 0 count res1 b1
          | _ \<Rightarrow> do {
              bs \<leftarrow> (if p = 0 then Some [] else mem_read m p count);
              b2 \<leftarrow> put_all put bs b1;
              Some (res1 + of_nat count, b2) });
        (if unat (pc_width c) > count \<and> has_flag c PRINT_LEFT_JUSTIFY then do {
           (n, b3) \<leftarrow> pad put 0x20 0 gap 0 b2;
           Some (res2 + n, b3) }
         else Some (res2, b2)) })"

definition print_pointer :: "putter \<Rightarrow> print_config \<Rightarrow> buffer_t \<Rightarrow> (32 word \<times> buffer_t) ub" where
  "print_pointer put c b =
     (let temp = pointer_encode (pc_data c); size = of_nat (length temp) in
      if pc_width c > size then
        (if has_flag c PRINT_LEFT_JUSTIFY then do {
           b1 \<leftarrow> put_all put temp b;
           pad put 0x20 0 (pc_width c) size b1 }
         else do {
           (pos, b1) \<leftarrow> pad put 0x20 0 (pc_width c - size) 0 b;
           b2 \<leftarrow> put_all put temp b1;
           Some (size + pos, b2) })
      else do {
        b1 \<leftarrow> put_all put temp b;
        Some (size, b1) })"

text \<open>The number of bytes \<open>%n\<close> stores.\<close>

definition result_size :: "print_mod \<Rightarrow> nat" where
  "result_size m = (case m of
     PRINT_MOD_NONE \<Rightarrow> 4 | PRINT_MOD_SHORT \<Rightarrow> 2 | PRINT_MOD_SHORT_SHORT \<Rightarrow> 1 | PRINT_MOD_LONG \<Rightarrow> 8 | PRINT_MOD_LONG_LONG \<Rightarrow> 8
   | PRINT_MOD_MAX \<Rightarrow> 8 | PRINT_MOD_SIZE \<Rightarrow> 8 | PRINT_MOD_PTRDIFF \<Rightarrow> 8 | PRINT_MOD_LONG_DOUBLE \<Rightarrow> 4)"

definition keep_mem :: "memory \<Rightarrow> (32 word \<times> buffer_t) ub \<Rightarrow> (32 word \<times> buffer_t \<times> memory) ub" where
  "keep_mem m r = map_option (\<lambda>(n, b). (n, b, m)) r"

definition print_arg :: "putter \<Rightarrow> memory \<Rightarrow> buffer_t \<Rightarrow> print_config \<Rightarrow> (32 word \<times> buffer_t \<times> memory) ub" where
  "print_arg put m b c = (case pc_type c of
     PRINT_INT_NUMBER \<Rightarrow> do { temp \<leftarrow> int_text (pc_modifier c) (pc_data c) (sign_flags c); keep_mem m (print_int_formatted put c b temp) }
   | PRINT_UINT_NUMBER \<Rightarrow> do {
       temp \<leftarrow> uint_to_dec_common (view_uint (pc_modifier c) (pc_data c)) (ucast (pc_flags c AND PRINT_GROUP_DIGITS));
       keep_mem m (print_int_formatted put c b temp) }
   | PRINT_UINT_BINARY \<Rightarrow> do {
       temp \<leftarrow> uint_to_bin_common (view_uint (pc_modifier c) (pc_data c)); keep_mem m (print_uint_formatted put c b temp) }
   | PRINT_UINT_OCTAL \<Rightarrow> do {
       temp \<leftarrow> uint_to_oct_common (view_uint (pc_modifier c) (pc_data c)); keep_mem m (print_uint_formatted put c b temp) }
   | PRINT_UINT_HEX \<Rightarrow> do {
       temp \<leftarrow> uint_to_hex_common (has_flag c PRINT_UPPER_CASE) (view_uint (pc_modifier c) (pc_data c));
       keep_mem m (print_uint_formatted put c b temp) }
   | PRINT_DOUBLE_HEX \<Rightarrow> do {
       temp \<leftarrow> float64_to_hex (has_flag c PRINT_UPPER_CASE) (pc_data c);
       b1 \<leftarrow> put_all put temp b;
       Some (of_nat (length temp), b1, m) }
   | PRINT_CHAR \<Rightarrow> keep_mem m (print_char put c b)
   | PRINT_STRING \<Rightarrow> keep_mem m (print_string put m c b)
   | PRINT_POINTER \<Rightarrow> keep_mem m (print_pointer put c b)
   | PRINT_RESULT \<Rightarrow> do {
       m1 \<leftarrow> mem_write m (pc_data c) (le_bytes (result_size (pc_modifier c)) (unat (pc_result c)));
       Some (0, b, m1) }
   | PRINT_DOUBLE_NORMAL \<Rightarrow> Some (0, b, m)
   | PRINT_DOUBLE_SCIENTIFIC \<Rightarrow> Some (0, b, m)
   | PRINT_DOUBLE_SCIENTIFIC_SHORT \<Rightarrow> Some (0, b, m)
   | PRINT_UNKNOWN \<Rightarrow> Some (0, b, m))"

section \<open>Parsing moves forward\<close>

definition moved :: "buffer_t \<Rightarrow> buffer_t \<Rightarrow> bool" where
  "moved b b' \<longleftrightarrow> (\<exists>k. b' = b\<lparr>b_pos := k\<rparr> \<and> b_pos b \<le> k)"

lemma moved_refl [simp]: "moved b b"
  by (auto simp: moved_def intro!: exI [of _ "b_pos b"])

lemma moved_trans [trans]: "moved b b1 \<Longrightarrow> moved b1 b2 \<Longrightarrow> moved b b2"
  by (auto simp: moved_def)

lemma moved_size: "moved b b' \<Longrightarrow> b_size b' = b_size b"
  by (auto simp: moved_def)

lemma moved_left: "moved b b' \<Longrightarrow> left b' \<le> left b"
  by (auto simp: left_def moved_def)

lemma moved_rewind: "moved b b1 \<Longrightarrow> b1\<lparr>b_pos := b_pos b\<rparr> = b"
  by (auto simp: moved_def)

lemma readbyte_moved: "readbyte b = Some (x, b') \<Longrightarrow> moved b b'"
proof -
  assume "readbyte b = Some (x, b')"
  then have "b' = b \<or> b' = b\<lparr>b_pos := b_pos b + 1\<rparr>" by (auto simp: readbyte_def split: if_splits)
  moreover have "moved b (b\<lparr>b_pos := b_pos b + 1\<rparr>)" by (auto simp: moved_def)
  ultimately show ?thesis by auto
qed

lemma parse_number_moved: "parse_number i b = Some (n, b') \<Longrightarrow> moved b b'"
proof (induction i b rule: parse_number.induct)
  case (1 index b)
  from 1(2) show ?case
    by (subst (asm) parse_number.simps)
      (auto split: option.splits if_splits intro: moved_trans [OF readbyte_moved 1(1)])
qed

lemma parse_flags_moved: "parse_flags f b = Some (n, b') \<Longrightarrow> moved b b'"
proof (induction f b rule: parse_flags.induct)
  case (1 fl b)
  from 1(2) show ?case
    by (subst (asm) parse_flags.simps)
      (auto split: option.splits if_splits intro: moved_trans [OF readbyte_moved 1(1)])
qed

lemma parse_arg_index_moved: "parse_arg_index b = Some (n, b') \<Longrightarrow> moved b b'"
  by (auto simp: parse_arg_index_def moved_rewind split: Option.bind_split_asm if_split_asm
    dest!: parse_number_moved readbyte_moved intro: moved_trans)

lemma parse_star_moved: "parse_star b = Some (n, b') \<Longrightarrow> moved b b'"
  by (auto simp: parse_star_def split: Option.bind_split_asm if_split_asm
    dest!: parse_number_moved readbyte_moved intro: moved_trans)

lemma parse_amount_moved: "parse_amount b = Some (n, k, b') \<Longrightarrow> moved b b'"
  by (auto simp: parse_amount_def split: Option.bind_split_asm if_split_asm
    dest!: parse_number_moved readbyte_moved parse_star_moved intro: moved_trans)

lemma parse_precision_moved: "parse_precision f b = Some (n, k, g, b') \<Longrightarrow> moved b b'"
  by (auto simp: parse_precision_def split: Option.bind_split_asm if_split_asm
    dest!: readbyte_moved parse_amount_moved intro: moved_trans)

lemma parse_modifier_moved: "parse_modifier b = Some (m, b') \<Longrightarrow> moved b b'"
  by (auto simp: parse_modifier_def split: Option.bind_split_asm if_split_asm dest!: readbyte_moved intro: moved_trans)

lemma parse_print_specifier_moved:
  assumes "parse_print_specifier get b a = Some (c, b', a')"
  shows "moved b b'"
proof -
  obtain i b1 f b2 wi w b3 pi p f2 b4 m b5 where s: "parse_arg_index b = Some (i, b1)" "parse_flags 0 b1 = Some (f, b2)"
      "parse_amount b2 = Some (wi, w, b3)" "parse_precision f b3 = Some (pi, p, f2, b4)" "parse_modifier b4 = Some (m, b5)"
      "b' = b5 \<or> (\<exists>x. readbyte b5 = Some (x, b'))"
    using assms by (auto simp: parse_print_specifier_def Let_def split: Option.bind_split_asm if_split_asm prod.split_asm)
  have "moved b b5"
    by (intro moved_trans [OF parse_arg_index_moved [OF s(1)]] moved_trans [OF parse_flags_moved [OF s(2)]]
      moved_trans [OF parse_amount_moved [OF s(3)]] moved_trans [OF parse_precision_moved [OF s(4)]] parse_modifier_moved [OF s(5)])
  then show ?thesis using s(6) by (auto dest: readbyte_moved intro: moved_trans)
qed

lemma readbyte_nonzero_left: "readbyte b = Some (x, b') \<Longrightarrow> x \<noteq> 0 \<Longrightarrow> left b' < left b"
  by (auto simp: readbyte_def left_def split: if_splits)

lemmas readbyte_left_le = moved_left [OF readbyte_moved]
lemmas specifier_left = moved_left [OF parse_print_specifier_moved]
lemmas specifier_rewind = moved_rewind [OF parse_print_specifier_moved]

section \<open>The format loop\<close>

function printf_loop ::
  "getter \<Rightarrow> putter \<Rightarrow> buffer_t \<Rightarrow> variadic_args \<Rightarrow> memory \<Rightarrow> 32 word \<Rightarrow> buffer_t \<Rightarrow> (32 word \<times> buffer_t \<times> memory) ub" where
  "printf_loop get put inp a m res b = (case readbyte inp of None \<Rightarrow> None | Some (byte, in1) \<Rightarrow>
     if byte = 0 then Some (res, b, m)
     else if byte = 0x25 then
       (case peekbyte in1 0 of None \<Rightarrow> None | Some byte2 \<Rightarrow>
          if byte2 = 0 then map_option (\<lambda>(_, b1). (res + 1, b1, m)) (put b [0x25])
          else if byte2 = 0x25 then
            (case (readbyte in1, put b [0x25]) of
               (Some (_, in2), Some (_, b1)) \<Rightarrow> printf_loop get put in2 a m (res + 1) b1
             | _ \<Rightarrow> None)
          else (case parse_print_specifier get in1 a of None \<Rightarrow> None | Some (c, in2, a1) \<Rightarrow>
            if pc_type c = PRINT_UNKNOWN then
              (case put b [0x25] of None \<Rightarrow> None
               | Some (_, b1) \<Rightarrow> printf_loop get put (in2\<lparr>b_pos := b_pos in1\<rparr>) a1 m (res + 1) b1)
            else (case print_arg put m b (c\<lparr>pc_result := res\<rparr>) of None \<Rightarrow> None
              | Some (n, b1, m1) \<Rightarrow>
                  if b_error b1 then Some (- 1, b1, m1) else printf_loop get put in2 a1 m1 (res + n) b1)))
     else (case put b [byte] of None \<Rightarrow> None | Some (_, b1) \<Rightarrow> printf_loop get put in1 a m (res + 1) b1))"
  by pat_completeness auto
termination
proof (relation "measure (\<lambda>(get, put, inp, a, m, res, b). left inp)", goal_cases)
  case 2
  then show ?case by (fastforce dest: readbyte_nonzero_left readbyte_left_le [OF sym])
next
  case 3
  then show ?case by (auto simp: specifier_rewind dest!: readbyte_nonzero_left)
next
  case 4
  then show ?case by (auto dest!: readbyte_nonzero_left specifier_left)
next
  case 5
  then show ?case by (auto dest!: readbyte_nonzero_left)
qed simp

declare printf_loop.simps [simp del]

text \<open>The buffer over the format, which ends at its terminator or after 65536 bytes.\<close>

definition format_buffer :: "byte list \<Rightarrow> buffer_t" where
  "format_buffer fmt = (let str = takeWhile (\<lambda>x. x \<noteq> 0) fmt; s = (if int (length str) \<le> 65536 then str else take 65536 str) in
     \<lparr>b_data = Some s, b_pos = 0, b_size = length s, b_write = WRITE_NULL, b_error = False\<rparr>)"

text \<open>What is outside the program: the blocks malloc and realloc grant, and the contents of fresh memory.\<close>

record env =
  env_heap :: "nat \<Rightarrow> bool"
  env_junk :: "nat \<Rightarrow> u64"

definition wlibc_printf_internal ::
  "env \<Rightarrow> buffer_t \<Rightarrow> byte list \<Rightarrow> u64 list \<Rightarrow> memory \<Rightarrow> (32 word \<times> buffer_t \<times> memory) ub" where
  "wlibc_printf_internal env b fmt xs m =
     printf_loop (variadic_args_get (env_heap env) (env_junk env)) (writen (env_heap env)) (format_buffer fmt) (variadic_args_init xs) m 0 b"

section \<open>Printing to memory\<close>

definition growing_buffer :: buffer_t where
  "growing_buffer = \<lparr>b_data = None, b_pos = 0, b_size = 0, b_write = MEMORY_BUFFER_WRITE, b_error = False\<rparr>"

definition wlibc_vasprintf :: "env \<Rightarrow> byte list option \<Rightarrow> u64 list \<Rightarrow> memory \<Rightarrow> ((int \<times> byte list option) res \<times> memory) ub" where
  "wlibc_vasprintf env fmt xs m = (case fmt of
     None \<Rightarrow> Some (fail_with EINVAL, m)
   | Some f \<Rightarrow> do {
       (r, out, m1) \<leftarrow> wlibc_printf_internal env growing_buffer f xs m;
       Some (Inr (sint r, b_data out), m1) })"

text \<open>The result and the caller's block afterwards; the block is \<open>None\<close> for NULL.\<close>

definition wlibc_vsnprintf ::
  "env \<Rightarrow> byte list option \<Rightarrow> nat \<Rightarrow> byte list option \<Rightarrow> u64 list \<Rightarrow> memory \<Rightarrow> (int res \<times> byte list option \<times> memory) ub" where
  "wlibc_vsnprintf env buffer sz fmt xs m = (case fmt of
     None \<Rightarrow> Some (fail_with EINVAL, buffer, m)
   | Some f \<Rightarrow>
       if buffer \<noteq> None \<and> sz = 0 then Some (fail_with EINVAL, buffer, m)
       else do {
         (r, out, m1) \<leftarrow> wlibc_printf_internal env
            \<lparr>b_data = buffer, b_pos = 0, b_size = sz, b_write = WRITE_NULL, b_error = False\<rparr> f xs m;
         if sint r < sint (of_nat sz :: 32 word)
         then do {
           d \<leftarrow> b_data out;
           d1 \<leftarrow> (if sint r < 0 then None else store (unat r) 0 d);
           Some (Inr (sint r), Some d1, m1) }
         else Some (Inr (sint r), b_data out, m1) })"

datatype asn_result = ASN_NULL errno | ASN_CALLER "byte list" nat | ASN_NEW "byte list option" nat

definition wlibc_vasnprintf ::
  "env \<Rightarrow> byte list option \<Rightarrow> nat option \<Rightarrow> byte list option \<Rightarrow> u64 list \<Rightarrow> memory \<Rightarrow> (asn_result \<times> memory) ub" where
  "wlibc_vasnprintf env buffer sz fmt xs m = (case fmt of
     None \<Rightarrow> Some (ASN_NULL EINVAL, m)
   | Some f \<Rightarrow> (case sz of
       None \<Rightarrow> Some (ASN_NULL EINVAL, m)
     | Some n \<Rightarrow>
         if buffer \<noteq> None \<and> n = 0 then Some (ASN_NULL EINVAL, m)
         else do {
           (r, out, m1) \<leftarrow> wlibc_printf_internal env growing_buffer f xs m;
           let written = unat (scast r :: u64);
           if b_size out \<le> written then do {
             d \<leftarrow> (case buffer of None \<Rightarrow> (if written = 0 then Some [] else None) | Some d \<Rightarrow> Some d);
             d1 \<leftarrow> (if written \<le> length d then Some (replicate written 0 @ drop written d) else None);
             src \<leftarrow> (case b_data out of None \<Rightarrow> (if b_size out = 0 then Some [] else None) | Some s \<Rightarrow> Some s);
             Some (ASN_CALLER (take (b_size out) src @ drop (b_size out) d1) (b_size out), m1) }
           else Some (ASN_NEW (b_data out) (b_size out), m1) }))"

end
