(* ===== verification/PrintfField.thy ===== *)
theory PrintfField
  imports Printf
begin

unbundle bit_operations_syntax

text \<open>
  The layout of a converted argument. \<open>field\<close> is the layout that the C standard prescribes: the digits
  are filled up with zeros to the precision, and the whole, with its sign or prefix, to the width,
  with spaces on one side or with zeros after the sign. The locale \<open>printer\<close> relates the printing
  functions to it for every output buffer that takes what is written; \<open>print_int_formatted\<close> and
  \<open>print_uint_formatted\<close> are both instances of \<open>layout\<close>.
\<close>

section \<open>The prescribed layout\<close>

definition field :: "bool \<Rightarrow> bool \<Rightarrow> nat \<Rightarrow> nat \<Rightarrow> byte list \<Rightarrow> byte list \<Rightarrow> byte list" where
  "field leftj zero width prec pre ds =
     (let body = pre @ replicate (prec - length ds) 0x30 @ ds in
      if leftj then body @ replicate (width - length body) 0x20
      else if zero then pre @ replicate (width - (length pre + length ds)) 0x30 @ ds
      else replicate (width - length body) 0x20 @ body)"

text \<open>What the two formatting functions do, with the prefix, its length and the number of separators
  as arguments.\<close>

definition layout ::
  "putter \<Rightarrow> (buffer_t \<Rightarrow> buffer_t ub) \<Rightarrow> 32 word \<Rightarrow> 32 word \<Rightarrow> byte list \<Rightarrow> bool \<Rightarrow> bool \<Rightarrow> 32 word \<Rightarrow> 32 word \<Rightarrow> buffer_t
    \<Rightarrow> (32 word \<times> buffer_t) ub" where
  "layout put pre extra period txt leftj zero w p b =
     (let size = of_nat (length txt) in
      if leftj then do {
        b1 \<leftarrow> pre b;
        (pos, b2) \<leftarrow> pad put 0x30 (size - period) p 0 b1;
        b3 \<leftarrow> put_all put txt b2;
        pad put 0x20 0 w (size + pos + extra) b3 }
      else if w > max p size then
        (if zero then do {
           b1 \<leftarrow> pre b;
           (pos, b2) \<leftarrow> pad put 0x30 size w extra b1;
           b3 \<leftarrow> put_all put txt b2;
           Some (pos + size, b3) }
         else do {
           (pos, b1) \<leftarrow> pad put 0x20 (max p (size - period) + extra + period) w 0 b;
           b2 \<leftarrow> pre b1;
           (count, b3) \<leftarrow> pad put 0x30 (size - period) p 0 b2;
           b4 \<leftarrow> put_all put txt b3;
           Some (size + (pos + extra) + count, b4) })
      else do {
        b1 \<leftarrow> pre b;
        (pos, b2) \<leftarrow> pad put 0x30 (size - period) p 0 b1;
        b3 \<leftarrow> put_all put txt b2;
        Some (pos + size + extra, b3) })"

lemma print_int_layout:
  assumes "split_sign c temp = (sign, txt)"
  shows "print_int_formatted put c b temp = layout put (put_sign put sign) (if sign \<noteq> 0 then 1 else 0)
    (if has_flag c PRINT_GROUP_DIGITS then (of_nat (length txt) - 1) div 3 else 0) txt
    (has_flag c PRINT_LEFT_JUSTIFY) (has_flag c PRINT_ZERO_PADDED) (pc_width c) (pc_precision c) b"
  unfolding print_int_formatted_def layout_def Let_def assms prod.case by simp

lemma print_uint_layout:
  "print_uint_formatted put c b temp = layout put (put_prefix put c) (if has_flag c PRINT_ALTERNATE_FORM then 2 else 0) 0 temp
    (has_flag c PRINT_LEFT_JUSTIFY) (has_flag c PRINT_ZERO_PADDED) (pc_width c) (pc_precision c) b"
  unfolding print_uint_formatted_def layout_def Let_def by (simp add: add.assoc)

section \<open>Writing within the capacity\<close>

locale printer = output_buffer put ok cap for put ok cap +
  assumes ok_error: "ok b \<Longrightarrow> \<not> b_error b"
begin

definition wrote :: "buffer_t \<Rightarrow> byte list \<Rightarrow> buffer_t \<Rightarrow> bool" where
  "wrote b s b' \<longleftrightarrow> ok b' \<and> cap b' = cap b \<and> contents b' = contents b @ s"

definition room :: "buffer_t \<Rightarrow> nat \<Rightarrow> bool" where
  "room b n \<longleftrightarrow> ok b \<and> length (contents b) + n \<le> cap b"

lemma wrote_refl: "ok b \<Longrightarrow> wrote b [] b"
  by (simp add: wrote_def)

lemma wrote_trans: "wrote b s b1 \<Longrightarrow> wrote b1 t b2 \<Longrightarrow> wrote b (s @ t) b2"
  by (simp add: wrote_def)

lemma room_wrote: "wrote b s b1 \<Longrightarrow> room b (length s + n) \<Longrightarrow> room b1 n"
  by (simp add: wrote_def room_def)

lemma room_less: "room b m \<Longrightarrow> n \<le> m \<Longrightarrow> room b n"
  by (simp add: room_def)

lemma put_wrote: "room b (length bs) \<Longrightarrow> \<exists>b'. put b bs = Some (length bs, b') \<and> wrote b bs b'"
  using put_ok [of b bs] by (auto simp: room_def wrote_def)

lemma put_all_wrote: "room b (length bs) \<Longrightarrow> \<exists>b'. put_all put bs b = Some b' \<and> wrote b bs b'"
  using put_wrote [of b bs] by (auto simp: put_all_def)

lemma pad_wrote:
  assumes "room b (unat limit - (unat pos + unat k))" "unat pos + unat k < 2 ^ 32"
  shows "\<exists>b'. pad put ch k limit pos b = Some (pos + of_nat (unat limit - (unat pos + unat k)), b')
    \<and> wrote b (replicate (unat limit - (unat pos + unat k)) ch) b'"
  using assms
proof (induction "unat limit - (unat pos + unat k)" arbitrary: pos b)
  case 0
  have "unat (pos + k) = unat pos + unat k" using 0(3) by (simp add: unat_word_ariths)
  then have "\<not> pos + k < limit" using 0(1) by (simp add: word_less_nat_alt)
  then show ?case using 0 by (subst pad.simps) (simp add: wrote_refl room_def)
next
  case (Suc n)
  have sum: "unat (pos + k) = unat pos + unat k" using Suc.prems(2) by (simp add: unat_word_ariths)
  then have lt: "pos + k < limit" using Suc.hyps(2) by (simp add: word_less_nat_alt)
  have "unat limit < 2 ^ 32" using unsigned_less [of limit, where ?'a = nat] by simp
  then have next': "unat (pos + 1) = Suc (unat pos)" using Suc.hyps(2) by (simp add: unat_word_ariths)
  have "room b (length [ch])" using Suc.prems(1) Suc.hyps(2) by (auto intro: room_less)
  then obtain b1 where b1: "put b [ch] = Some (length [ch], b1)" "wrote b [ch] b1" using put_wrote by blast
  have n: "n = unat limit - (unat (pos + 1) + unat k)" using Suc.hyps(2) next' by simp
  have "room b1 (unat limit - (unat (pos + 1) + unat k))" using room_wrote [OF b1(2), of n] Suc.prems(1) Suc.hyps(2) n by simp
  moreover have "unat (pos + 1) + unat k < 2 ^ 32" using next' Suc.hyps(2) \<open>unat limit < 2 ^ 32\<close> by simp
  ultimately obtain b2 where b2: "pad put ch k limit (pos + 1) b1 = Some (pos + 1 + of_nat n, b2)" "wrote b1 (replicate n ch) b2"
    using Suc.hyps(1) [OF n] n by auto
  have "pad put ch k limit pos b = Some (pos + of_nat (Suc n), b2)"
    using lt b1(1) b2(1) by (subst pad.simps) (simp add: algebra_simps)
  moreover have "wrote b (replicate (Suc n) ch) b2" using wrote_trans [OF b1(2) b2(2)] by simp
  ultimately show ?case using Suc.hyps(2) by metis
qed

lemma pad_to:
  assumes "room b n" "unat pos + unat k < 2 ^ 32" "n = unat limit - (unat pos + unat k)"
  shows "\<exists>b'. pad put ch k limit pos b = Some (pos + of_nat n, b') \<and> wrote b (replicate n ch) b'"
  using pad_wrote [of b limit pos k ch] assms by simp

text \<open>Prefix, zeros and digits, which end every layout; \<open>extra_room\<close> is room for what follows.\<close>

lemma layout_body:
  assumes pre: "\<And>b. room b (length prefix) \<Longrightarrow> \<exists>b'. pre b = Some b' \<and> wrote b prefix b'"
    and k: "unat pos + unat k < 2 ^ 32" "z = unat limit - (unat pos + unat k)"
    and room: "room b (length prefix + z + length txt + extra_room)"
  shows "\<exists>b1 b2 b3. pre b = Some b1 \<and> pad put 0x30 k limit pos b1 = Some (pos + of_nat z, b2) \<and> put_all put txt b2 = Some b3
    \<and> wrote b (prefix @ replicate z 0x30 @ txt) b3 \<and> room b3 extra_room"
proof -
  obtain b1 where b1: "pre b = Some b1" "wrote b prefix b1" using pre [of b] room_less [OF room] by auto
  have r1: "room b1 (z + length txt + extra_room)" using room_wrote [OF b1(2)] room by (simp add: add.assoc)
  obtain b2 where b2: "pad put 0x30 k limit pos b1 = Some (pos + of_nat z, b2)" "wrote b1 (replicate z 0x30) b2"
    using pad_to [OF room_less [OF r1] k] by auto
  have r2: "room b2 (length txt + extra_room)" using room_wrote [OF b2(2)] r1 by (simp add: add.assoc)
  obtain b3 where b3: "put_all put txt b2 = Some b3" "wrote b2 txt b3" using put_all_wrote [of b2 "txt"] room_less [OF r2] by auto
  show ?thesis using b1 b2 b3 wrote_trans [OF b1(2) wrote_trans [OF b2(2) b3(2)]] room_wrote [OF b3(2) r2] by blast
qed

lemma layout_wrote:
  assumes pre: "\<And>b. room b (length prefix) \<Longrightarrow> \<exists>b'. pre b = Some b' \<and> wrote b prefix b'"
    and extra: "unat extra = length prefix" "length prefix \<le> 2"
    and small: "unat w < 2 ^ 31" "unat p < 2 ^ 31" "length txt < 2 ^ 20"
    and period: "unat period \<le> length txt" "period = 0 \<or> p = 0" and zero: "zero \<longrightarrow> p = 0"
    and out: "out = field leftj (zero \<and> \<not> leftj) (unat w) (unat p) prefix txt" and room: "room b (length out)"
  shows "\<exists>b'. layout put pre extra period txt leftj zero w p b = Some (of_nat (length out), b') \<and> wrote b out b'"
proof -
  define size :: "32 word" where "size = of_nat (length txt)"
  define z where "z = unat p - length txt"
  have sz: "unat size = length txt" using small(3) by (simp add: size_def unat_of_nat)
  have sp: "unat (size - period) = length txt - unat period" using period(1) sz by (simp add: unat_sub word_le_nat_alt)
  have z: "z = unat p - (unat (0 :: 32 word) + unat (size - period))" using period(2) sp by (auto simp: z_def)
  have ex: "extra = of_nat (length prefix)" using extra(1) by (metis of_nat_unat ucast_id)
  let ?body = "prefix @ replicate z 0x30 @ txt"
  have lb: "length ?body < 2 ^ 32" using small extra(2) by (simp add: z_def)
  have k0: "unat (0 :: 32 word) + unat (size - period) < 2 ^ 32" using sp small(3) by simp
  have body: "\<exists>b1 b2 b3. pre b0 = Some b1 \<and> pad put 0x30 (size - period) p 0 b1 = Some (of_nat z, b2) \<and> put_all put txt b2 = Some b3
      \<and> wrote b0 ?body b3 \<and> room b3 g" if "room b0 (length ?body + g)" for b0 g
    using layout_body [OF pre k0 z, of b0 "txt" g] that by (simp add: add.assoc)
  consider (left) leftj | (zero) "\<not> leftj" "w > max p size" zero | (right) "\<not> leftj" "w > max p size" "\<not> zero"
    | (none) "\<not> leftj" "\<not> w > max p size" by blast
  then show ?thesis
  proof cases
    case left
    let ?g = "unat w - length ?body"
    have o: "out = ?body @ replicate ?g 0x20" using left by (simp add: out field_def Let_def z_def)
    have "room b (length ?body + ?g)" using room by (simp add: o add.assoc)
    from body [OF this] obtain b1 b2 b3 where b: "pre b = Some b1" "pad put 0x30 (size - period) p 0 b1 = Some (of_nat z, b2)" "put_all put txt b2 = Some b3"
        "wrote b ?body b3" "room b3 ?g"
      by auto
    have pos: "unat (size + of_nat z + extra) = length ?body"
      using small extra by (simp add: size_def ex z_def unat_word_ariths unat_of_nat)
    obtain b4 where "pad put 0x20 0 w (size + of_nat z + extra) b3 = Some (size + of_nat z + extra + of_nat ?g, b4)"
        "wrote b3 (replicate ?g 0x20) b4"
      using pad_to [OF b(5), of "size + of_nat z + extra" 0 w "0x20"] pos lb by auto
    moreover have "size + of_nat z + extra + of_nat ?g = of_nat (length out)" by (simp add: o ex size_def)
    ultimately show ?thesis using left b wrote_trans [OF b(4)] unfolding layout_def Let_def size_def [symmetric] o by simp
  next
    case zero
    let ?g = "unat w - (length prefix + length txt)"
    have o: "out = prefix @ replicate ?g 0x30 @ txt" using zero by (simp add: out field_def Let_def)
    have r0: "room b (length prefix + ?g + length txt)" using room by (simp add: o add.assoc)
    obtain b1 b2 b3 where "pre b = Some b1" "pad put 0x30 size w extra b1 = Some (extra + of_nat ?g, b2)" "put_all put txt b2 = Some b3"
        "wrote b out b3"
      using layout_body [OF pre, of extra size ?g w b "txt" 0] r0 extra sz small(3) by (auto simp: o)
    moreover have "extra + of_nat ?g + size = of_nat (length out)" by (simp add: o ex size_def)
    ultimately show ?thesis using zero unfolding layout_def Let_def size_def [symmetric] by simp
  next
    case right
    let ?g = "unat w - length ?body"
    have o: "out = replicate ?g 0x20 @ ?body" using right by (simp add: out field_def Let_def z_def)
    have "unat (max p (size - period)) = max (unat p) (length txt - unat period)" using sp by (simp add: max_def word_le_nat_alt)
    then have k: "unat (max p (size - period) + extra + period) = length ?body"
      using small extra period sp by (auto simp: z_def unat_word_ariths)
    obtain b0 where b0: "pad put 0x20 (max p (size - period) + extra + period) w 0 b = Some (of_nat ?g, b0)" "wrote b (replicate ?g 0x20) b0"
      using pad_to [of b ?g 0 "max p (size - period) + extra + period" w "0x20"] k lb room_less [OF room, of ?g]
      by (auto simp: o)
    have "room b0 (length ?body + 0)" using room_wrote [OF b0(2)] room by (simp add: o)
    from body [OF this] obtain b1 b2 b3 where
      "pre b0 = Some b1" "pad put 0x30 (size - period) p 0 b1 = Some (of_nat z, b2)" "put_all put txt b2 = Some b3" "wrote b0 ?body b3"
      by auto
    moreover have "size + (of_nat ?g + extra) + of_nat z = of_nat (length out)" by (simp add: o ex size_def)
    ultimately show ?thesis using right b0 wrote_trans [OF b0(2)] unfolding layout_def Let_def size_def [symmetric] o by simp
  next
    case none
    have "unat w \<le> max (unat p) (length txt)" using none(2) sz by (auto simp: max_def word_le_nat_alt not_less split: if_splits)
    then have o: "out = ?body" using none zero by (auto simp: out field_def Let_def z_def)
    obtain b1 b2 b3 where b: "pre b = Some b1" "pad put 0x30 (size - period) p 0 b1 = Some (of_nat z, b2)" "put_all put txt b2 = Some b3"
        "wrote b ?body b3"
      using body [of b 0] room by (auto simp: o)
    have "layout put pre extra period txt leftj zero w p b = Some (of_nat z + size + extra, b3)"
      using none b(1-3) unfolding layout_def Let_def size_def [symmetric] by auto
    moreover have "of_nat z + size + extra = of_nat (length out)" by (simp add: o ex size_def)
    ultimately show ?thesis using b(4) o by metis
  qed
qed

end

end
