(* ===== verification/PrintfParse.thy ===== *)
theory PrintfParse
  imports Printf
begin

unbundle bit_operations_syntax

text \<open>
  Format strings. A \<open>directive\<close> is a literal byte, \<open>%%\<close>, or a conversion with flags, width, precision
  and length modifier; \<open>render\<close> writes it the way a programmer does, and \<open>parse_print_specifier\<close>
  reads it back. What the parser needs of its arguments is the locale \<open>arg_source\<close>, which the cache of
  variadic arguments implements.
\<close>

section \<open>Flags as bits\<close>

lemma print_flag_bits:
  "PRINT_ALTERNATE_FORM = 2 ^ 0" "PRINT_ZERO_PADDED = 2 ^ 1" "PRINT_EMPTY_SPACE = 2 ^ 2" "PRINT_LEFT_JUSTIFY = 2 ^ 3"
  "PRINT_FORCE_SIGN = 2 ^ 4" "PRINT_UPPER_CASE = 2 ^ 5" "PRINT_GROUP_DIGITS = 2 ^ 6" "PRINT_PRECISION = 2 ^ 7"
  by (simp_all add: PRINT_ALTERNATE_FORM_def PRINT_ZERO_PADDED_def PRINT_EMPTY_SPACE_def PRINT_LEFT_JUSTIFY_def
      PRINT_FORCE_SIGN_def PRINT_UPPER_CASE_def PRINT_GROUP_DIGITS_def PRINT_PRECISION_def)

lemma flag_bit:
  "flag fl PRINT_ALTERNATE_FORM \<longleftrightarrow> bit fl 0" "flag fl PRINT_ZERO_PADDED \<longleftrightarrow> bit fl 1" "flag fl PRINT_EMPTY_SPACE \<longleftrightarrow> bit fl 2"
  "flag fl PRINT_LEFT_JUSTIFY \<longleftrightarrow> bit fl 3" "flag fl PRINT_FORCE_SIGN \<longleftrightarrow> bit fl 4" "flag fl PRINT_UPPER_CASE \<longleftrightarrow> bit fl 5"
  "flag fl PRINT_GROUP_DIGITS \<longleftrightarrow> bit fl 6" "flag fl PRINT_PRECISION \<longleftrightarrow> bit fl 7"
  unfolding flag_def print_flag_bits and_shifted_one_eq_0 by simp_all

lemma bit_print_flag:
  "bit PRINT_ALTERNATE_FORM n \<longleftrightarrow> n = 0" "bit PRINT_ZERO_PADDED n \<longleftrightarrow> n = 1" "bit PRINT_EMPTY_SPACE n \<longleftrightarrow> n = 2"
  "bit PRINT_LEFT_JUSTIFY n \<longleftrightarrow> n = 3" "bit PRINT_FORCE_SIGN n \<longleftrightarrow> n = 4" "bit PRINT_UPPER_CASE n \<longleftrightarrow> n = 5"
  "bit PRINT_GROUP_DIGITS n \<longleftrightarrow> n = 6" "bit PRINT_PRECISION n \<longleftrightarrow> n = 7"
  unfolding print_flag_bits bit_shifted_one by auto

lemma bit_adjust_flags:
  assumes "n < 16"
  shows "bit (adjust_flags fl) n \<longleftrightarrow> bit fl n \<and> \<not> (n = 1 \<and> (bit fl 3 \<or> bit fl 7)) \<and> \<not> (n = 2 \<and> bit fl 4)"
  using assms by (auto simp: adjust_flags_def Let_def flag_bit bit_and_iff bit_not_iff bit_print_flag)

text \<open>The flags that a list of flag characters stands for.\<close>

definition flags_of :: "byte list \<Rightarrow> 16 word" where
  "flags_of fs = foldl (\<lambda>fl f. case flag_of f of None \<Rightarrow> fl | Some g \<Rightarrow> fl OR g) 0 fs"

lemma bit_flags_of:
  "bit (flags_of fs) n \<longleftrightarrow> n < 7 \<and> n \<noteq> 5 \<and> (case n of 0 \<Rightarrow> 0x23 | Suc 0 \<Rightarrow> 0x30 | Suc (Suc 0) \<Rightarrow> 0x20
     | Suc (Suc (Suc 0)) \<Rightarrow> 0x2D | Suc (Suc (Suc (Suc 0))) \<Rightarrow> 0x2B | _ \<Rightarrow> 0x27) \<in> set fs"
proof -
  have "bit (foldl (\<lambda>fl f. case flag_of f of None \<Rightarrow> fl | Some g \<Rightarrow> fl OR g) acc fs) n \<longleftrightarrow> bit acc n \<or> (\<exists>f \<in> set fs. \<exists>g. flag_of f = Some g \<and> bit g n)" for acc
    by (induction fs arbitrary: acc) (auto simp: bit_or_iff split: option.splits)
  then have "bit (flags_of fs) n \<longleftrightarrow> (\<exists>f \<in> set fs. \<exists>g. flag_of f = Some g \<and> bit g n)" by (simp add: flags_of_def)
  also have "\<dots> \<longleftrightarrow> (\<exists>f \<in> set fs. (f = 0x23 \<and> n = 0) \<or> (f = 0x30 \<and> n = 1) \<or> (f = 0x20 \<and> n = 2) \<or> (f = 0x2D \<and> n = 3)
      \<or> (f = 0x2B \<and> n = 4) \<or> (f = 0x27 \<and> n = 6))"
    by (intro bex_cong refl) (auto simp: flag_of_def bit_print_flag)
  also have "\<dots> \<longleftrightarrow> (n = 0 \<and> 0x23 \<in> set fs) \<or> (n = 1 \<and> 0x30 \<in> set fs) \<or> (n = 2 \<and> 0x20 \<in> set fs) \<or> (n = 3 \<and> 0x2D \<in> set fs)
      \<or> (n = 4 \<and> 0x2B \<in> set fs) \<or> (n = 6 \<and> 0x27 \<in> set fs)" by blast
  finally show ?thesis by (auto split: nat.splits)
qed

section \<open>Reading from a buffer\<close>

abbreviation skip :: "buffer_t \<Rightarrow> nat \<Rightarrow> buffer_t" where
  "skip b n \<equiv> b\<lparr>b_pos := b_pos b + n\<rparr>"

text \<open>The buffer is well formed and the text still to be read is given.\<close>

definition reads_at :: "buffer_t \<Rightarrow> byte list \<Rightarrow> bool" where
  "reads_at b xs \<longleftrightarrow> buf_inv b \<and> rest b = xs"

lemma reads_skip: "reads_at b (xs @ ys) \<Longrightarrow> reads_at (skip b (length xs)) ys"
proof -
  assume "reads_at b (xs @ ys)"
  then have inv: "buf_inv b" and r: "rest b = xs @ ys" by (simp_all add: reads_at_def)
  have "length xs \<le> b_size b - b_pos b" using length_rest [OF inv] r by simp
  moreover have "rest (skip b (length xs)) = drop (length xs) (rest b)" by (simp add: rest_def add.commute split: option.split)
  ultimately show ?thesis using inv r by (auto simp: reads_at_def buf_inv_def split: option.splits)
qed

lemma reads_skip1: "reads_at b (x # ys) \<Longrightarrow> reads_at (skip b 1) ys"
  using reads_skip [of b "[x]"] by simp

lemma reads_peek: "reads_at b xs \<Longrightarrow> peekbyte b 0 = Some (if xs = [] then 0 else hd xs)"
  by (auto simp: reads_at_def peekbyte_rest hd_conv_nth)

lemma reads_byte: "reads_at b (x # xs) \<Longrightarrow> readbyte b = Some (x, skip b 1)"
  using readbyte_Cons [of b x xs] by (auto simp: reads_at_def)

lemma reads_end: "reads_at b [] \<Longrightarrow> readbyte b = Some (0, b)"
  using readbyte_Nil [of b] by (simp add: reads_at_def)

abbreviation is_num :: "byte \<Rightarrow> bool" where
  "is_num x \<equiv> 0x30 \<le> x \<and> x \<le> 0x39"

lemma parse_number_text:
  "reads_at b xs \<Longrightarrow> parse_number i b
     = Some (foldl (\<lambda>i x. i * 10 + ucast (x - 0x30)) i (takeWhile is_num xs), skip b (length (takeWhile is_num xs)))"
proof (induction xs arbitrary: b i)
  case Nil
  then show ?case by (subst parse_number.simps) (simp add: reads_peek)
next
  case (Cons x xs)
  show ?case
  proof (cases "is_num x")
    case True
    then have "x \<noteq> 0" by auto
    then show ?thesis using Cons.IH [OF reads_skip1 [OF Cons.prems]] Cons.prems True
      by (subst parse_number.simps) (simp add: reads_peek reads_byte)
  next
    case False
    then show ?thesis using Cons.prems by (subst parse_number.simps) (auto simp: reads_peek)
  qed
qed

lemma parse_flags_text:
  "reads_at b (fs @ ys) \<Longrightarrow> \<forall>f \<in> set fs. flag_of f \<noteq> None \<Longrightarrow> ys \<noteq> [] \<Longrightarrow> flag_of (hd ys) = None \<Longrightarrow>
   parse_flags fl b = Some (foldl (\<lambda>fl f. case flag_of f of None \<Rightarrow> fl | Some g \<Rightarrow> fl OR g) fl fs, skip b (length fs))"
proof (induction fs arbitrary: b fl)
  case Nil
  then show ?case by (subst parse_flags.simps) (simp add: reads_peek)
next
  case (Cons f fs)
  then obtain g where g: "flag_of f = Some g" by auto
  have "f \<noteq> 0" using g by (auto simp: flag_of_def)
  moreover have r: "reads_at b (f # (fs @ ys))" using Cons.prems(1) by simp
  ultimately show ?case using Cons.IH [OF reads_skip1 [OF r]] Cons.prems(2-) g
    by (subst parse_flags.simps) (simp add: reads_peek [OF r] reads_byte [OF r])
qed

lemma parse_arg_index_none:
  assumes "reads_at b (ts @ ys)" "0x24 \<notin> set ts" "\<exists>t \<in> set ts. \<not> is_num t"
  shows "parse_arg_index b = Some (0, b)"
proof -
  have tw: "takeWhile is_num (ts @ ys) = takeWhile is_num ts" "dropWhile is_num (ts @ ys) = dropWhile is_num ts @ ys"
    using assms(3) by (auto simp: takeWhile_append1 dropWhile_append1)
  have ne: "dropWhile is_num ts \<noteq> []" using assms(3) by (simp add: dropWhile_eq_Nil_conv)
  let ?b = "skip b (length (takeWhile is_num ts))"
  have "reads_at ?b (dropWhile is_num ts @ ys)" using reads_skip [of b "takeWhile is_num ts"] assms(1) by (simp add: append_assoc [symmetric] del: append_assoc)
  moreover have "hd (dropWhile is_num ts) \<noteq> 0x24" using assms(2) ne by (metis hd_in_set set_dropWhileD)
  ultimately have "peekbyte ?b 0 = Some (hd (dropWhile is_num ts))" "hd (dropWhile is_num ts) \<noteq> 0x24" using ne by (auto simp: reads_peek)
  then show ?thesis using parse_number_text [OF assms(1), of 0] by (simp add: parse_arg_index_def tw)
qed

section \<open>Directives\<close>

datatype amount = Fixed nat | Star

datatype directive = Lit byte | Percent | Conv "byte list" "amount option" "amount option" print_mod byte

fun amount_text :: "amount \<Rightarrow> byte list" where
  "amount_text (Fixed n) = rev (map dchr (digits 10 n))"
| "amount_text Star = [0x2A]"

fun mod_text :: "print_mod \<Rightarrow> byte list" where
  "mod_text PRINT_MOD_NONE = []"
| "mod_text PRINT_MOD_SHORT_SHORT = [0x68, 0x68]"
| "mod_text PRINT_MOD_SHORT = [0x68]"
| "mod_text PRINT_MOD_LONG = [0x6C]"
| "mod_text PRINT_MOD_LONG_LONG = [0x6C, 0x6C]"
| "mod_text PRINT_MOD_MAX = [0x6A]"
| "mod_text PRINT_MOD_SIZE = [0x7A]"
| "mod_text PRINT_MOD_PTRDIFF = [0x74]"
| "mod_text PRINT_MOD_LONG_DOUBLE = [0x4C]"

definition width_text :: "amount option \<Rightarrow> byte list" where
  "width_text w = (case w of None \<Rightarrow> [] | Some a \<Rightarrow> amount_text a)"

definition precision_text :: "amount option \<Rightarrow> byte list" where
  "precision_text p = (case p of None \<Rightarrow> [] | Some a \<Rightarrow> 0x2E # amount_text a)"

definition specifier_text :: "byte list \<Rightarrow> amount option \<Rightarrow> amount option \<Rightarrow> print_mod \<Rightarrow> byte \<Rightarrow> byte list" where
  "specifier_text fs w p m c = fs @ width_text w @ precision_text p @ mod_text m @ [c]"

fun render :: "directive \<Rightarrow> byte list" where
  "render (Lit x) = [x]"
| "render Percent = [0x25, 0x25]"
| "render (Conv fs w p m c) = 0x25 # specifier_text fs w p m c"

text \<open>A width is not zero, since a leading 0 is a flag.\<close>

fun amount_ok :: "nat \<Rightarrow> amount option \<Rightarrow> bool" where
  "amount_ok lo (Some (Fixed n)) = (lo \<le> n \<and> n < 2 ^ 31)"
| "amount_ok lo _ = True"

fun directive_ok :: "directive \<Rightarrow> bool" where
  "directive_ok (Lit x) = (x \<noteq> 0 \<and> x \<noteq> 0x25)"
| "directive_ok Percent = True"
| "directive_ok (Conv fs w p m c) =
     ((\<forall>f \<in> set fs. flag_of f \<noteq> None) \<and> amount_ok 1 w \<and> amount_ok 0 p \<and> fst (conversion_of c) \<noteq> PRINT_UNKNOWN)"

lemma conversion_char:
  assumes "fst (conversion_of c) \<noteq> PRINT_UNKNOWN"
  shows "c \<notin> {0x68, 0x6C, 0x4C, 0x6A, 0x7A, 0x74, 0x2E, 0x2A, 0x24, 0x25, 0}" "\<not> is_num c" "flag_of c = None"
  using assms by (auto simp: conversion_of_def flag_of_def split: if_splits)

text \<open>What may follow a number: a byte that does not continue it.\<close>

definition breaks :: "byte list \<Rightarrow> bool" where
  "breaks zs \<longleftrightarrow> zs \<noteq> [] \<and> \<not> is_num (hd zs) \<and> hd zs \<noteq> 0x2A \<and> hd zs \<noteq> 0x24"

lemma breaks_mod:
  assumes "fst (conversion_of c) \<noteq> PRINT_UNKNOWN"
  shows "breaks (mod_text m @ c # ys)" "hd (mod_text m @ c # ys) \<noteq> 0x2E" "flag_of (hd (mod_text m @ c # ys)) = None"
  using conversion_char [OF assms] by (cases m; auto simp: breaks_def flag_of_def)+

lemma breaks_precision:
  assumes "fst (conversion_of c) \<noteq> PRINT_UNKNOWN"
  shows "breaks (precision_text p @ mod_text m @ c # ys)" "flag_of (hd (precision_text p @ mod_text m @ c # ys)) = None"
proof -
  have "breaks (0x2E # zs) \<and> flag_of (hd (0x2E # zs)) = None" for zs by (simp add: breaks_def flag_of_def)
  then show "breaks (precision_text p @ mod_text m @ c # ys)" "flag_of (hd (precision_text p @ mod_text m @ c # ys)) = None"
    using breaks_mod [OF assms, of m ys] by (auto simp: precision_text_def split: option.splits)
qed

lemma digits_text_value:
  "foldl (\<lambda>i x. i * 10 + ucast (x - 0x30)) (0 :: 32 word) (rev (map dchr (digits 10 n))) = of_nat n"
proof -
  have "foldl (\<lambda>i x. i * 10 + ucast (x - 0x30)) (of_nat v :: 32 word) (map dchr ds) = of_nat (foldl (\<lambda>v d. v * 10 + d) v ds)"
    if "\<forall>d \<in> set ds. d < 10" for v ds
    using that
  proof (induction ds arbitrary: v)
    case (Cons d ds)
    have "ucast (dchr d - 0x30) = (of_nat d :: 32 word)" using dchr_digit(3) [of d] Cons.prems by (simp add: unsigned_of_nat take_bit_nat_eq_self)
    then have "of_nat v * 10 + ucast (dchr d - 0x30) = (of_nat (v * 10 + d) :: 32 word)" by simp
    then show ?case using Cons.IH [of "v * 10 + d"] Cons.prems by simp
  qed simp
  from this [of "rev (digits 10 n)" 0] show ?thesis using digits_value [of 10 n] digits_less [of 10 _ n] by (simp add: rev_map)
qed

lemma num_dchr: "d < 10 \<Longrightarrow> is_num (dchr d)"
  using dchr_digit(1) [of d] by (simp add: IS_DIGIT_def)

lemma digits_text_num: "x \<in> set (rev (map dchr (digits 10 n))) \<Longrightarrow> is_num x"
  using num_dchr digits_less [of 10 _ n] by auto

lemma parse_number_breaks: "reads_at b zs \<Longrightarrow> breaks zs \<Longrightarrow> parse_number 0 b = Some (0, b)"
  using parse_number_text [of b zs 0] by (cases zs) (auto simp: breaks_def)

lemma parse_number_digits:
  assumes "reads_at b (amount_text (Fixed n) @ zs)" "breaks zs"
  shows "parse_number 0 b = Some (of_nat n, skip b (length (amount_text (Fixed n))))"
proof -
  have "takeWhile is_num (amount_text (Fixed n) @ zs) = amount_text (Fixed n)"
    using assms(2) digits_text_num by (cases zs) (auto simp: breaks_def takeWhile_append)
  then show ?thesis using parse_number_text [OF assms(1), of 0] digits_text_value [of n] by simp
qed

definition amount_index :: "amount option \<Rightarrow> 32 word" where
  "amount_index a = (if a = Some Star then 0 else - 1)"

definition amount_value :: "amount option \<Rightarrow> 32 word" where
  "amount_value a = (case a of Some (Fixed n) \<Rightarrow> of_nat n | _ \<Rightarrow> 0)"

lemma parse_amount_text:
  assumes "reads_at b (width_text a @ zs)" "breaks zs"
  shows "parse_amount b = Some (amount_index a, amount_value a, skip b (length (width_text a)))"
proof (cases a)
  case None
  then have "reads_at b zs" using assms(1) by (simp add: width_text_def)
  then show ?thesis using None assms(2) parse_number_breaks [of b zs] reads_peek [of b zs]
    by (auto simp: parse_amount_def breaks_def width_text_def amount_index_def amount_value_def)
next
  case (Some x)
  show ?thesis
  proof (cases x)
    case (Fixed n)
    have "is_num (hd (amount_text (Fixed n)))" by (intro digits_text_num [of _ n]) (simp del: set_rev set_map)
    then have "hd (amount_text (Fixed n)) \<noteq> 0x2A" "amount_text (Fixed n) \<noteq> []" by auto
    then show ?thesis using parse_number_digits [of b n zs] reads_peek [of b "amount_text (Fixed n) @ zs"] assms Some Fixed
      by (auto simp: parse_amount_def width_text_def amount_index_def amount_value_def)
  next
    case Star
    then have r: "reads_at b (0x2A # zs)" using assms(1) Some by (simp add: width_text_def)
    then have "parse_star (skip b 1) = Some (0, skip b 1)"
      using parse_number_breaks [OF reads_skip1 assms(2)] reads_peek [OF reads_skip1] assms(2) by (auto simp: parse_star_def breaks_def)
    then show ?thesis using r Some Star reads_peek [OF r] reads_byte [OF r]
      by (simp add: parse_amount_def width_text_def amount_index_def amount_value_def)
  qed
qed

lemma parse_precision_text:
  assumes "reads_at b (precision_text p @ zs)" "breaks zs" "hd zs \<noteq> 0x2E"
  shows "parse_precision fl b = Some (amount_index p, amount_value p, if p = None then fl else fl OR PRINT_PRECISION,
    skip b (length (precision_text p)))"
proof (cases p)
  case None
  then show ?thesis using assms reads_peek [of b zs]
    by (auto simp: parse_precision_def precision_text_def breaks_def amount_index_def amount_value_def)
next
  case (Some a)
  then have r: "reads_at b (0x2E # width_text p @ zs)" using assms(1) by (simp add: precision_text_def width_text_def)
  then show ?thesis using parse_amount_text [OF reads_skip1 [OF r] assms(2)] reads_peek [OF r] reads_byte [OF r] Some
    by (simp add: parse_precision_def precision_text_def width_text_def)
qed

lemma parse_modifier_text:
  assumes "reads_at b (mod_text m @ c # ys)" "fst (conversion_of c) \<noteq> PRINT_UNKNOWN"
  shows "parse_modifier b = Some (m, skip b (length (mod_text m)))"
proof -
  have c: "c \<notin> {0x68, 0x6C, 0x4C, 0x6A, 0x7A, 0x74}" using conversion_char(1) [OF assms(2)] by simp
  have two: "peekbyte b 0 = Some x \<and> readbyte b = Some (x, skip b 1) \<and> peekbyte (skip b 1) 0 = Some y
      \<and> readbyte (skip b 1) = Some (y, skip b 2)" if "reads_at b (x # y # zs)" for x y zs
    using reads_peek [OF that] reads_byte [OF that] reads_peek [OF reads_skip1 [OF that]] reads_byte [OF reads_skip1 [OF that]] by simp
  show ?thesis
    using assms(1) c two [of _ _ ys] two [of _ _ "c # ys"] reads_peek [of b "c # ys"]
    by (cases m) (auto simp: parse_modifier_def)
qed

lemma flag_char: "flag_of 0x24 = None"
  by (simp add: flag_of_def)

lemma specifier_plain:
  assumes "directive_ok (Conv fs w p m c)"
  shows "0x24 \<notin> set (specifier_text fs w p m c)"
proof -
  have num: "0x24 \<notin> set (amount_text a)" for a
    using digits_text_num [of "0x24"] by (cases a) auto
  have "0x24 \<notin> set (mod_text m)" by (cases m) simp_all
  moreover have "0x24 \<notin> set fs" "0x24 \<noteq> c" using assms flag_char conversion_char(1) [of c] by fastforce+
  ultimately show ?thesis using num
    by (auto simp: specifier_text_def width_text_def precision_text_def simp del: amount_text.simps split: option.splits)
qed

text \<open>A width does not start with a flag character, since its first digit is not zero.\<close>

lemma digits_msd: "0 < n \<Longrightarrow> last (digits 10 n) \<noteq> 0"
proof (induction "10 :: nat" n rule: digits.induct)
  case (1 n)
  show ?case
  proof (cases "n < 10")
    case False
    then have "0 < n div 10" by (simp add: div_greater_zero_iff)
    then show ?thesis using 1(1) False by (simp add: digits_step)
  qed (use 1(2) in \<open>simp add: digits_small\<close>)
qed

lemma num_no_flag: "is_num x \<Longrightarrow> x \<noteq> 0x30 \<Longrightarrow> flag_of x = None"
  by (auto simp: flag_of_def)

lemma width_no_flag:
  assumes "directive_ok (Conv fs w p m c)"
  shows "width_text w @ precision_text p @ mod_text m @ c # ys \<noteq> []"
    "flag_of (hd (width_text w @ precision_text p @ mod_text m @ c # ys)) = None"
proof -
  have c: "fst (conversion_of c) \<noteq> PRINT_UNKNOWN" using assms by simp
  have star: "flag_of 0x2A = None" by (simp add: flag_of_def)
  have "flag_of (hd (amount_text (Fixed n))) = None" if "0 < n" for n
  proof -
    have hd: "hd (amount_text (Fixed n)) = dchr (last (digits 10 n))" by (simp add: hd_rev last_map)
    have d: "last (digits 10 n) < 10" using digits_less [of 10 "last (digits 10 n)" n] by simp
    then have "dchr (last (digits 10 n)) \<noteq> 0x30"
      using digits_msd [OF that] d by (simp add: word_of_nat_eq_0_iff dvd_imp_le nat_dvd_not_less)
    then show ?thesis unfolding hd using num_no_flag num_dchr [OF d] by blast
  qed
  moreover have "amount_text (Fixed n) \<noteq> []" for n by simp
  ultimately show "flag_of (hd (width_text w @ precision_text p @ mod_text m @ c # ys)) = None"
    using assms star breaks_precision(2) [OF c, of p m ys]
    by (cases w; cases "the w") (auto simp: width_text_def simp del: amount_text.simps(1))
qed simp

section \<open>The arguments of a directive\<close>

text \<open>A width or precision with the arguments that remain after it.\<close>

definition take_amount :: "amount option \<Rightarrow> u64 list \<Rightarrow> (32 word \<times> u64 list) option" where
  "take_amount a xs = (if a = Some Star then (case xs of [] \<Rightarrow> None | x # ys \<Rightarrow> Some (ucast x, ys)) else Some (amount_value a, xs))"

context arg_source
begin

lemma fetch_amount_next:
  assumes "holds a xs" "take_amount am xs = Some (n, ys)"
  shows "\<exists>a'. fetch_amount get (amount_index am) (amount_value am) a = Some (n, a') \<and> holds a' ys"
proof (cases "am = Some Star")
  case True
  then obtain x where x: "xs = x # ys" "n = ucast x" using assms(2) by (auto simp: take_amount_def split: list.splits)
  then obtain a' where "get a 0 = Some (x, a')" "holds a' ys" using get_next assms(1) by blast
  then show ?thesis using True x by (simp add: fetch_amount_def amount_index_def)
qed (use assms in \<open>auto simp: take_amount_def fetch_amount_def amount_index_def\<close>)

lemma parse_specifier:
  assumes src: "reads_at b (specifier_text fs w p m c @ ys)" and ok: "directive_ok (Conv fs w p m c)"
    and args: "holds a xs" "take_amount w xs = Some (wn, xs1)" "take_amount p xs1 = Some (pn, x # xs2)"
  shows "\<exists>a'. parse_print_specifier get b a =
      Some (\<lparr>pc_type = fst (conversion_of c), pc_modifier = m,
        pc_flags = adjust_flags ((if p = None then flags_of fs else flags_of fs OR PRINT_PRECISION) OR
           (if snd (conversion_of c) then PRINT_UPPER_CASE else 0)),
        pc_width = wn, pc_precision = pn, pc_result = 0, pc_data = x\<rparr>, skip b (length (specifier_text fs w p m c)), a')
    \<and> holds a' xs2"
proof -
  have c: "fst (conversion_of c) \<noteq> PRINT_UNKNOWN" and fs: "\<forall>f \<in> set fs. flag_of f \<noteq> None" using ok by simp_all
  let ?z4 = "c # ys" let ?z3 = "mod_text m @ ?z4" let ?z2 = "precision_text p @ ?z3" let ?z1 = "width_text w @ ?z2"
  have r0: "reads_at b (fs @ ?z1)" using src by (simp add: specifier_text_def)
  define b1 b2 b3 b4 where b: "b1 = skip b (length fs)" "b2 = skip b1 (length (width_text w))" "b3 = skip b2 (length (precision_text p))"
    "b4 = skip b3 (length (mod_text m))"
  have r1: "reads_at b1 ?z1" using reads_skip [OF r0] by (simp add: b)
  have r2: "reads_at b2 ?z2" using reads_skip [OF r1] by (simp add: b)
  have r3: "reads_at b3 ?z3" using reads_skip [OF r2] by (simp add: b)
  have r4: "reads_at b4 ?z4" using reads_skip [OF r3] by (simp add: b)
  have index: "parse_arg_index b = Some (0, b)"
    using parse_arg_index_none [OF src specifier_plain [OF ok]] conversion_char(2) [OF c] by (auto simp: specifier_text_def)
  have flags: "parse_flags 0 b = Some (flags_of fs, b1)"
    using parse_flags_text [OF r0 fs] width_no_flag [OF ok, of ys] by (simp add: flags_of_def b)
  have width: "parse_amount b1 = Some (amount_index w, amount_value w, b2)"
    using parse_amount_text [OF r1 breaks_precision(1) [OF c]] by (simp add: b)
  have prec: "parse_precision fl b2 = Some (amount_index p, amount_value p, if p = None then fl else fl OR PRINT_PRECISION, b3)" for fl
    using parse_precision_text [OF r2 breaks_mod(1,2) [OF c]] by (simp add: b)
  have modi: "parse_modifier b3 = Some (m, b4)" using parse_modifier_text [OF r3 c] by (simp add: b)
  have conv: "peekbyte b4 0 = Some c" "readbyte b4 = Some (c, skip b4 1)" using reads_peek [OF r4] reads_byte [OF r4] by simp_all
  obtain a1 where a1: "fetch_amount get (amount_index w) (amount_value w) a = Some (wn, a1)" "holds a1 xs1"
    using fetch_amount_next [OF args(1,2)] by blast
  obtain a2 where a2: "fetch_amount get (amount_index p) (amount_value p) a1 = Some (pn, a2)" "holds a2 (x # xs2)"
    using fetch_amount_next [OF a1(2) args(3)] by blast
  obtain a3 where a3: "get a2 0 = Some (x, a3)" "holds a3 xs2" using get_next [OF a2(2)] by blast
  have "skip b4 1 = skip b (length (specifier_text fs w p m c))" by (simp add: b specifier_text_def)
  then show ?thesis using index flags width prec modi conv a1(1) a2(1) a3 c
    by (simp add: parse_print_specifier_def Let_def case_prod_beta)
qed

end

end
