(* ===== verification/PrintfProps.thy ===== *)
theory PrintfProps
  imports PrintfField PrintfParse
begin

unbundle bit_operations_syntax

text \<open>
  Correctness of formatted output. \<open>conv_text\<close> says what a conversion prints, in terms of the value,
  its digits and the prescribed \<open>field\<close>; \<open>printf_spec\<close> does so for a whole format. The theorems say
  that \<open>wlibc_printf_internal\<close> writes exactly that text and returns its length, and what the callers
  that print to memory make of it.
\<close>

section \<open>What a conversion prints\<close>

definition view_int :: "print_mod \<Rightarrow> u64 \<Rightarrow> int" where
  "view_int m x = (case m of
     PRINT_MOD_SHORT \<Rightarrow> sint (ucast x :: 16 word)
   | PRINT_MOD_SHORT_SHORT \<Rightarrow> sint (ucast x :: 8 word)
   | PRINT_MOD_NONE \<Rightarrow> sint (ucast x :: 32 word)
   | PRINT_MOD_LONG_DOUBLE \<Rightarrow> sint (ucast x :: 32 word)
   | _ \<Rightarrow> sint x)"

text \<open>The string at an address, at most \<open>n\<close> bytes of it.\<close>

function cstring :: "memory \<Rightarrow> u64 \<Rightarrow> 32 word \<Rightarrow> byte list option" where
  "cstring m p n = (case m p of None \<Rightarrow> None
     | Some x \<Rightarrow> if x = 0 \<or> n = 0 then Some [] else map_option ((#) x) (cstring m (p + 1) (n - 1)))"
  by pat_completeness auto
termination by (relation "measure (\<lambda>(m, p, n). unat n)") (auto simp: unat_minus_one unat_gt_0)

declare cstring.simps [simp del]

definition dec_digits :: "bool \<Rightarrow> nat \<Rightarrow> byte list" where
  "dec_digits grp n = rev (dec_text grp n)"

definition base_digits :: "nat \<Rightarrow> (nat \<Rightarrow> byte) \<Rightarrow> nat \<Rightarrow> byte list" where
  "base_digits B chr n = map chr (rev (digits B n))"

definition sign_text :: "byte list \<Rightarrow> int \<Rightarrow> byte list" where
  "sign_text fs v = (if v < 0 then [0x2D] else if 0x2B \<in> set fs then [0x2B] else if 0x20 \<in> set fs then [0x20] else [])"

definition prefix_text :: "byte list \<Rightarrow> byte \<Rightarrow> byte list" where
  "prefix_text fs ch = (if 0x23 \<in> set fs then [0x30, ch] else [])"

text \<open>\<open>None\<close> for what is not specified: floating point and wide characters, grouping together with a
  precision, binary text of more than 32 digits, characters in fields wider than 128, \<open>%n\<close>.\<close>

definition conv_text :: "memory \<Rightarrow> byte list \<Rightarrow> nat \<Rightarrow> nat option \<Rightarrow> print_mod \<Rightarrow> byte \<Rightarrow> u64 \<Rightarrow> byte list option" where
  "conv_text mem fs w p m c x =
     (let leftj = (0x2D \<in> set fs); zero = (0x30 \<in> set fs \<and> 0x2D \<notin> set fs \<and> p = None); grp = (0x27 \<in> set fs);
          prec = (case p of None \<Rightarrow> 0 | Some n \<Rightarrow> n); num = field leftj zero w prec; str = field leftj False w 0 [];
          v = view_int m x; u = unat (view_uint m x) in
      case conversion_of c of
        (PRINT_INT_NUMBER, _) \<Rightarrow>
          (if grp \<and> (p \<noteq> None \<or> v = - (2 ^ 63)) then None else Some (num (sign_text fs v) (dec_digits grp (nat \<bar>v\<bar>))))
      | (PRINT_UINT_NUMBER, _) \<Rightarrow> (if grp \<and> p \<noteq> None then None else Some (num [] (dec_digits grp u)))
      | (PRINT_UINT_HEX, up) \<Rightarrow>
          Some (num (prefix_text fs (if up then 0x58 else 0x78))
            (base_digits 16 (\<lambda>d. (if up then hex_upper_table else hex_lower_table) ! d) u))
      | (PRINT_UINT_OCTAL, up) \<Rightarrow> Some (num (prefix_text fs (if up then 0x4F else 0x6F)) (base_digits 8 dchr u))
      | (PRINT_UINT_BINARY, up) \<Rightarrow>
          (if u < 2 ^ 32 then Some (num (prefix_text fs (if up then 0x42 else 0x62)) (base_digits 2 dchr u)) else None)
      | (PRINT_CHAR, _) \<Rightarrow>
          (if m = PRINT_MOD_LONG \<or> m = PRINT_MOD_LONG_LONG \<or> w > 128 then None else Some (str [ucast x]))
      | (PRINT_STRING, _) \<Rightarrow>
          (if m = PRINT_MOD_LONG \<or> m = PRINT_MOD_LONG_LONG then None
           else if x = 0 then Some (str [])
           else map_option str (cstring mem x (case p of None \<Rightarrow> - 1 | Some n \<Rightarrow> of_nat n)))
      | (PRINT_POINTER, _) \<Rightarrow> Some (str (pointer_encode x))
      | _ \<Rightarrow> None)"

text \<open>The flags that reach the conversion.\<close>

definition spec_flags :: "byte list \<Rightarrow> bool \<Rightarrow> bool \<Rightarrow> 16 word" where
  "spec_flags fs precise up = adjust_flags ((if precise then flags_of fs OR PRINT_PRECISION else flags_of fs) OR
     (if up then PRINT_UPPER_CASE else 0))"

lemma spec_flags:
  "flag (spec_flags fs precise up) PRINT_LEFT_JUSTIFY \<longleftrightarrow> 0x2D \<in> set fs"
  "flag (spec_flags fs precise up) PRINT_ZERO_PADDED \<longleftrightarrow> 0x30 \<in> set fs \<and> 0x2D \<notin> set fs \<and> \<not> precise"
  "flag (spec_flags fs precise up) PRINT_EMPTY_SPACE \<longleftrightarrow> 0x20 \<in> set fs \<and> 0x2B \<notin> set fs"
  "flag (spec_flags fs precise up) PRINT_FORCE_SIGN \<longleftrightarrow> 0x2B \<in> set fs"
  "flag (spec_flags fs precise up) PRINT_ALTERNATE_FORM \<longleftrightarrow> 0x23 \<in> set fs"
  "flag (spec_flags fs precise up) PRINT_GROUP_DIGITS \<longleftrightarrow> 0x27 \<in> set fs"
  "flag (spec_flags fs precise up) PRINT_UPPER_CASE \<longleftrightarrow> up"
  "flag (spec_flags fs precise up) PRINT_PRECISION \<longleftrightarrow> precise"
  unfolding flag_bit spec_flags_def
  by (auto simp: bit_adjust_flags bit_or_iff bit_flags_of bit_print_flag numeral_eq_Suc split: if_splits)

lemma convert_flags:
  assumes "pc_flags c = spec_flags fs precise up"
  shows "sign_flags c AND CONVERT_GROUP_DIGITS \<noteq> 0 \<longleftrightarrow> 0x27 \<in> set fs"
    "sign_flags c AND CONVERT_FORCE_SIGN \<noteq> 0 \<longleftrightarrow> 0x2B \<in> set fs \<or> 0x20 \<in> set fs"
    "ucast (pc_flags c AND PRINT_GROUP_DIGITS) AND CONVERT_GROUP_DIGITS \<noteq> 0 \<longleftrightarrow> 0x27 \<in> set fs"
proof -
  have c: "CONVERT_GROUP_DIGITS = 2 ^ 6" "CONVERT_FORCE_SIGN = 2 ^ 4" by (simp_all add: CONVERT_GROUP_DIGITS_def CONVERT_FORCE_SIGN_def)
  have b: "bit (pc_flags c) 6 \<longleftrightarrow> 0x27 \<in> set fs" "bit (pc_flags c) 4 \<longleftrightarrow> 0x2B \<in> set fs" "flag (pc_flags c) PRINT_EMPTY_SPACE \<longleftrightarrow> 0x20 \<in> set fs \<and> 0x2B \<notin> set fs"
    using spec_flags [of fs precise up] unfolding flag_bit assms by simp_all
  show "sign_flags c AND CONVERT_GROUP_DIGITS \<noteq> 0 \<longleftrightarrow> 0x27 \<in> set fs"
    "sign_flags c AND CONVERT_FORCE_SIGN \<noteq> 0 \<longleftrightarrow> 0x2B \<in> set fs \<or> 0x20 \<in> set fs"
    "ucast (pc_flags c AND PRINT_GROUP_DIGITS) AND CONVERT_GROUP_DIGITS \<noteq> 0 \<longleftrightarrow> 0x27 \<in> set fs"
    unfolding c and_shifted_one_eq_0
    using b by (auto simp: sign_flags_def Let_def bit_or_iff bit_and_iff bit_ucast_iff bit_print_flag)
qed

section \<open>The texts of numbers\<close>

lemma view_int_bounds: "- (2 ^ 63) \<le> view_int m x" "view_int m x < 2 ^ 63"
proof -
  have s: "- (2 ^ 31) \<le> sint (y :: 32 word) \<and> sint y < 2 ^ 31" "- (2 ^ 15) \<le> sint (z :: 16 word) \<and> sint z < 2 ^ 15"
      "- (2 ^ 7) \<le> sint (v :: 8 word) \<and> sint v < 2 ^ 7" "- (2 ^ 63) \<le> sint x \<and> sint x < 2 ^ 63" for y z v
    using sint_ge [of y] sint_lt [of y] sint_ge [of z] sint_lt [of z] sint_ge [of v] sint_lt [of v] sint_ge [of x] sint_lt [of x] by simp_all
  show "- (2 ^ 63) \<le> view_int m x" "view_int m x < 2 ^ 63"
    using s(1) [of "ucast x"] s(2) [of "ucast x"] s(3) [of "ucast x"] s(4) by (auto simp: view_int_def split: print_mod.split)
qed

lemma int_text_view: "int_text m x fl = int_to_dec_common (view_int m x) fl"
  by (simp add: int_text_def view_int_def iN_to_dec_def split: print_mod.split)

lemma int_to_dec_exact:
  assumes "- (2 ^ 63) \<le> v" "v < 2 ^ 63" "grp = (fl AND CONVERT_GROUP_DIGITS \<noteq> 0)" "\<not> (grp \<and> v = - (2 ^ 63))"
  shows "int_to_dec_common v fl = Some ((if v < 0 then [0x2D] else if fl AND CONVERT_FORCE_SIGN \<noteq> 0 then [0x2B] else [])
    @ dec_digits grp (nat \<bar>v\<bar>))"
proof (cases "v = - (2 ^ 63)")
  case True
  have "dec_digits False (2 ^ 63) = [0x39, 0x32, 0x32, 0x33, 0x33, 0x37, 0x32, 0x30, 0x33, 0x36, 0x38, 0x35, 0x34, 0x37,
        0x37, 0x35, 0x38, 0x30, 0x38]"
    by (simp add: dec_digits_def dec_text_def digits_step digits_small)
  then show ?thesis using True assms(4) by (simp add: int_to_dec_common_def)
next
  case False
  define y where "y = (if v < 0 then - v else v)"
  have y: "0 \<le> y" "y < 2 ^ 63" "nat \<bar>v\<bar> = nat y" using assms(1,2) False by (auto simp: y_def)
  then have "unat (word_of_int y :: u64) = nat y" by (simp add: unsigned_of_int take_bit_int_eq_self)
  then have "uint_to_dec_common (word_of_int y) fl = Some (dec_digits grp (nat \<bar>v\<bar>))"
    unfolding uint_to_dec_text y(3) assms(3) by (simp add: dec_digits_def)
  then show ?thesis using False by (auto simp: int_to_dec_common_def y_def split: if_splits)
qed

lemma dec_digits_hd: "dec_digits grp n \<noteq> []" "is_num (hd (dec_digits grp n))" "length (dec_digits grp (unat (u :: u64))) < 32"
proof -
  show ne: "dec_digits grp n \<noteq> []" by (simp add: dec_digits_def dec_text_def)
  obtain d where "d < 10" "last (dec_text grp n) = dchr d" using dec_text_last by blast
  then show "is_num (hd (dec_digits grp n))" using num_dchr ne by (simp add: dec_digits_def hd_rev)
  have u: "unat u < 2 ^ 64" using unsigned_less [of u, where ?'a = nat] by simp
  have "length (digits 10 (unat u)) \<le> 20" using u by (subst length_digits) simp_all
  moreover have "length (grouped (unat u)) \<le> 4 * 7" using u by (intro length_grouped) simp_all
  ultimately show "length (dec_digits grp (unat u)) < 32" by (simp add: dec_digits_def dec_text_def)
qed

lemma base_texts:
  "uint_to_hex_common up x = Some (base_digits 16 (\<lambda>d. (if up then hex_upper_table else hex_lower_table) ! d) (unat x))"
  "uint_to_oct_common x = Some (base_digits 8 dchr (unat x))"
  "unat x < 2 ^ 32 \<Longrightarrow> uint_to_bin_common x = Some (base_digits 2 dchr (unat x))"
proof -
  have x: "unat x < 2 ^ 64" using unsigned_less [of x, where ?'a = nat] by simp
  have "length (digits (2 ^ 4) (unat x)) \<le> 32" "length (digits (2 ^ 3) (unat x)) \<le> 32"
    using x by (simp_all add: length_digits del: length_0_conv)
  then show "uint_to_hex_common up x = Some (base_digits 16 (\<lambda>d. (if up then hex_upper_table else hex_lower_table) ! d) (unat x))"
    "uint_to_oct_common x = Some (base_digits 8 dchr (unat x))"
    using hexu.enc_digits [of "[]" x] hexl.enc_digits [of "[]" x] oct.enc_digits [of "[]" x]
    by (simp_all add: uint_to_hex_common_def uint_to_oct_common_def base_digits_def rev_map)
  assume "unat x < 2 ^ 32"
  then have "length (digits (2 ^ 1) (unat x)) \<le> 32" by (simp add: length_digits del: length_0_conv)
  then show "uint_to_bin_common x = Some (base_digits 2 dchr (unat x))"
    using bin.enc_digits [of "[]" x] by (simp add: uint_to_bin_common_def base_digits_def rev_map)
qed

lemma length_base_digits: "1 < B \<Longrightarrow> length (base_digits B chr (unat (u :: u64))) \<le> 64"
proof -
  assume B: "1 < B"
  have "unat u < 2 ^ 64" using unsigned_less [of u, where ?'a = nat] by simp
  also have "\<dots> \<le> B ^ 64" using B by (intro power_mono) simp_all
  finally show ?thesis using B by (simp add: base_digits_def length_digits)
qed

section \<open>Strings in memory\<close>

definition string_at :: "memory \<Rightarrow> u64 \<Rightarrow> nat \<Rightarrow> byte list \<Rightarrow> bool" where
  "string_at m p n bs \<longleftrightarrow> mem_read m p (length bs) = Some bs \<and> 0 \<notin> set bs \<and> length bs \<le> n
     \<and> m (p + of_nat (length bs)) \<noteq> None \<and> (m (p + of_nat (length bs)) = Some 0 \<or> length bs = n)"

lemma cstring_prefix: "cstring m p n = Some bs \<Longrightarrow> string_at m p (unat n) bs"
proof (induction m p n arbitrary: bs rule: cstring.induct)
  case (1 m p n)
  obtain x where x: "m p = Some x" using 1(2) by (subst (asm) cstring.simps) (auto split: option.splits)
  show ?case
  proof (cases "x = 0 \<or> n = 0")
    case True
    then show ?thesis using 1(2) x by (subst (asm) cstring.simps) (auto simp: string_at_def)
  next
    case False
    then obtain cs where cs: "cstring m (p + 1) (n - 1) = Some cs" "bs = x # cs"
      using 1(2) x by (subst (asm) cstring.simps) auto
    have n: "unat n = Suc (unat (n - 1))" using False by (simp add: unat_minus_one unat_gt_0)
    have "string_at m (p + 1) (unat (n - 1)) cs" using 1(1) [OF x False cs(1)] .
    then show ?thesis using cs(2) x False n by (auto simp: string_at_def add.assoc)
  qed
qed

lemma mem_read_nth: "mem_read m p n = Some bs \<Longrightarrow> i < n \<Longrightarrow> m (p + of_nat i) = Some (bs ! i)"
proof (induction n arbitrary: p bs i)
  case (Suc n)
  then obtain x xs where "m p = Some x" "mem_read m (p + 1) n = Some xs" "bs = x # xs" by (auto split: Option.bind_splits)
  then show ?case using Suc.IH [of "p + 1" xs "i - 1"] Suc.prems(2) by (cases i) (auto simp: add.assoc)
qed simp

lemma units_at_byte: "p \<noteq> 0 \<Longrightarrow> units_at m p 1 i = m (p + of_nat i)"
  by (simp add: units_at_def mem_word_def split: Option.bind_split)

lemma count_units_end:
  assumes "\<And>i. i < k \<Longrightarrow> \<exists>x. src i = Some x \<and> x \<noteq> 0" "src k = Some y" "y = 0 \<or> k = prec" "i \<le> k" "k \<le> prec"
  shows "count_units src prec i = Some k"
  using assms(4)
proof (induction "k - i" arbitrary: i)
  case 0
  then show ?case using assms(2,3,5) by (subst count_units.simps) auto
next
  case (Suc d)
  then have "i < k" by simp
  then obtain x where "src i = Some x" "x \<noteq> 0" using assms(1) [of i] by auto
  then show ?case using Suc.hyps(1) [of "Suc i"] Suc.hyps(2) assms(5) by (subst count_units.simps) auto
qed

lemma count_cstring:
  assumes "cstring m p n = Some bs" "p \<noteq> 0"
  shows "count_units (units_at m p 1 :: nat \<Rightarrow> byte ub) (unat n) 0 = Some (length bs)"
proof -
  have c: "mem_read m p (length bs) = Some bs" "0 \<notin> set bs" "length bs \<le> unat n" "m (p + of_nat (length bs)) \<noteq> None"
      "m (p + of_nat (length bs)) = Some 0 \<or> length bs = unat n"
    using cstring_prefix [OF assms(1)] by (auto simp: string_at_def)
  obtain y where y: "m (p + of_nat (length bs)) = Some y" using c(4) by auto
  show ?thesis
  proof (rule count_units_end)
    show "\<exists>x. units_at m p 1 i = Some (x :: byte) \<and> x \<noteq> 0" if "i < length bs" for i
      using mem_read_nth [OF c(1) that] c(2) that nth_mem [OF that] units_at_byte [OF assms(2), of m i] by (metis)
    show "units_at m p 1 (length bs) = Some y" using y units_at_byte [OF assms(2), of m "length bs"] by simp
  qed (use c y in auto)
qed

section \<open>Printing one argument\<close>

text \<open>The configuration that a directive is parsed to.\<close>

definition config_of :: "byte list \<Rightarrow> nat \<Rightarrow> nat option \<Rightarrow> print_mod \<Rightarrow> byte \<Rightarrow> u64 \<Rightarrow> 32 word \<Rightarrow> print_config" where
  "config_of fs w p m c x res = \<lparr>pc_type = fst (conversion_of c), pc_modifier = m,
     pc_flags = spec_flags fs (p \<noteq> None) (snd (conversion_of c)), pc_width = of_nat w,
     pc_precision = of_nat (case p of None \<Rightarrow> 0 | Some n \<Rightarrow> n), pc_result = res, pc_data = x\<rparr>"

lemma config_of_simps [simp]:
  "pc_type (config_of fs w p m c x res) = fst (conversion_of c)" "pc_modifier (config_of fs w p m c x res) = m"
  "pc_flags (config_of fs w p m c x res) = spec_flags fs (p \<noteq> None) (snd (conversion_of c))"
  "pc_width (config_of fs w p m c x res) = of_nat w" "pc_data (config_of fs w p m c x res) = x"
  "pc_precision (config_of fs w p m c x res) = of_nat (case p of None \<Rightarrow> 0 | Some n \<Rightarrow> n)"
  by (simp_all add: config_of_def)

lemma precision_none: "take_amount p xs = Some (pn, ys) \<Longrightarrow> p = None \<Longrightarrow> pn = 0"
  by (auto simp: take_amount_def amount_value_def)

lemma specifier_hd:
  assumes "directive_ok (Conv fs w p m c)"
  shows "hd (specifier_text fs w p m c) \<noteq> 0" "hd (specifier_text fs w p m c) \<noteq> 0x25" "specifier_text fs w p m c \<noteq> []"
proof -
  have f: "flag_of 0 = None" "flag_of 0x25 = None" by (simp_all add: flag_of_def)
  have c: "fst (conversion_of c) \<noteq> PRINT_UNKNOWN" using assms by simp
  have num: "hd (amount_text a) \<noteq> 0 \<and> hd (amount_text a) \<noteq> 0x25 \<and> amount_text a \<noteq> []" for a
  proof (cases a)
    case (Fixed n)
    have "is_num (hd (amount_text (Fixed n)))" by (intro digits_text_num [of _ n]) (simp del: set_rev set_map)
    then show ?thesis using Fixed by auto
  qed simp
  have tail: "hd (precision_text p @ mod_text m @ [c]) \<noteq> 0 \<and> hd (precision_text p @ mod_text m @ [c]) \<noteq> 0x25"
    using conversion_char(1) [OF c] by (cases m) (auto simp: precision_text_def split: option.split)
  have "fs \<noteq> [] \<Longrightarrow> hd fs \<noteq> 0 \<and> hd fs \<noteq> 0x25" using assms f by (metis directive_ok.simps(3) hd_in_set)
  then show "hd (specifier_text fs w p m c) \<noteq> 0" "hd (specifier_text fs w p m c) \<noteq> 0x25" "specifier_text fs w p m c \<noteq> []"
    using num tail by (auto simp: specifier_text_def width_text_def hd_append simp del: amount_text.simps split: option.splits)
qed

context printer
begin

lemma put_sign_wrote: "room b (length (if s = 0 then [] else [s])) \<Longrightarrow> \<exists>b'. put_sign put s b = Some b' \<and> wrote b (if s = 0 then [] else [s]) b'"
  using put_all_wrote [of b "[s]"] wrote_refl [of b] by (auto simp: put_sign_def room_def)

lemma put_prefix_wrote:
  assumes "room b (length (if flag fl PRINT_ALTERNATE_FORM then [0x30, ch] else []))" "pc_flags c = fl" "alternate_form_char c = ch"
  shows "\<exists>b'. put_prefix put c b = Some b' \<and> wrote b (if flag fl PRINT_ALTERNATE_FORM then [0x30, ch] else []) b'"
proof (cases "flag fl PRINT_ALTERNATE_FORM")
  case True
  then have r: "room b 2" using assms(1) by (simp add: numeral_2_eq_2)
  obtain b1 where b1: "put_all put [0x30] b = Some b1" "wrote b [0x30] b1" using put_all_wrote [of b "[0x30]"] room_less [OF r, of 1] by auto
  moreover have "room b1 1" using room_wrote [OF b1(2), of 1] r by (simp add: numeral_2_eq_2)
  then obtain b2 where "put_all put [ch] b1 = Some b2" "wrote b1 [ch] b2" using put_all_wrote [of b1 "[ch]"] by auto
  ultimately show ?thesis using True assms(2,3) wrote_trans [OF b1(2)] by (fastforce simp: put_prefix_def)
qed (use assms wrote_refl in \<open>auto simp: put_prefix_def room_def\<close>)

lemma print_int_field:
  assumes c: "c = config_of fs w p m ch x res" and small: "w < 2 ^ 31" "(case p of None \<Rightarrow> 0 | Some n \<Rightarrow> n) < 2 ^ 31"
    and split: "split_sign c temp = (sign, ds)" and ds: "ds \<noteq> []" "length ds < 2 ^ 20" and grp: "0x27 \<in> set fs \<longrightarrow> p = None"
    and out: "out = field (0x2D \<in> set fs) (0x30 \<in> set fs \<and> 0x2D \<notin> set fs \<and> p = None) w (case p of None \<Rightarrow> 0 | Some n \<Rightarrow> n)
      (if sign = 0 then [] else [sign]) ds"
    and room: "room b (length out)"
  shows "\<exists>b'. print_int_formatted put c b temp = Some (of_nat (length out), b') \<and> wrote b out b'"
proof -
  let ?period = "if flag (pc_flags c) PRINT_GROUP_DIGITS then (of_nat (length ds) - 1) div 3 else 0 :: 32 word"
  have u: "unat (of_nat w :: 32 word) = w" "unat (of_nat (case p of None \<Rightarrow> 0 | Some n \<Rightarrow> n) :: 32 word) = (case p of None \<Rightarrow> 0 | Some n \<Rightarrow> n)"
      "unat (of_nat (length ds) :: 32 word) = length ds"
    using small ds by (simp_all add: unat_of_nat)
  have "unat (of_nat (length ds) - 1 :: 32 word) = length ds - 1" using ds(1) u(3) by (subst unat_sub) (simp_all add: word_le_nat_alt Suc_le_eq)
  then have per: "unat ?period \<le> length ds" by (auto simp: unat_div)
  show ?thesis unfolding print_int_layout [OF split]
    by (rule layout_wrote [OF put_sign_wrote])
      (use c per grp out room u small ds in \<open>auto simp: spec_flags c split: option.splits\<close>)
qed

lemma print_uint_field:
  assumes c: "c = config_of fs w p m ch x res" and small: "w < 2 ^ 31" "(case p of None \<Rightarrow> 0 | Some n \<Rightarrow> n) < 2 ^ 31"
    and ds: "length ds < 2 ^ 20"
    and out: "out = field (0x2D \<in> set fs) (0x30 \<in> set fs \<and> 0x2D \<notin> set fs \<and> p = None) w (case p of None \<Rightarrow> 0 | Some n \<Rightarrow> n)
      (prefix_text fs (alternate_form_char c)) ds"
    and room: "room b (length out)"
  shows "\<exists>b'. print_uint_formatted put c b ds = Some (of_nat (length out), b') \<and> wrote b out b'"
proof -
  have u: "unat (of_nat w :: 32 word) = w" "unat (of_nat (case p of None \<Rightarrow> 0 | Some n \<Rightarrow> n) :: 32 word) = (case p of None \<Rightarrow> 0 | Some n \<Rightarrow> n)"
    using small by (simp_all add: unat_of_nat)
  have pre: "(if flag (pc_flags c) PRINT_ALTERNATE_FORM then [0x30, alternate_form_char c] else []) = prefix_text fs (alternate_form_char c)"
    by (simp add: c spec_flags prefix_text_def)
  show ?thesis unfolding print_uint_layout
    by (rule layout_wrote [where prefix = "prefix_text fs (alternate_form_char c)"])
      (use put_prefix_wrote [where c = c, OF _ refl refl] pre out room u small ds in \<open>auto simp: spec_flags c prefix_text_def split: option.splits\<close>)
qed

text \<open>A text without zeros, padded with spaces to its field.\<close>

lemma padded_right:
  assumes w: "w < 2 ^ 31" and room: "room b (w - length bs + length bs)"
  shows "\<exists>b1 b2. pad put 0x20 0 (of_nat (w - length bs)) 0 b = Some (of_nat (w - length bs), b1) \<and> put_all put bs b1 = Some b2
    \<and> wrote b (replicate (w - length bs) 0x20 @ bs) b2"
proof -
  let ?g = "w - length bs"
  have g: "unat (of_nat ?g :: 32 word) = ?g" using w by (simp add: unat_of_nat)
  obtain b1 where b1: "pad put 0x20 0 (of_nat ?g) 0 b = Some (of_nat ?g, b1)" "wrote b (replicate ?g 0x20) b1"
    using pad_to [of b ?g 0 0 "of_nat ?g" "0x20"] room_less [OF room, of ?g] g by auto
  obtain b2 where "put_all put bs b1 = Some b2" "wrote b1 bs b2" using put_all_wrote [of b1 bs] room_wrote [OF b1(2)] room by auto
  then show ?thesis using b1 wrote_trans [OF b1(2)] by blast
qed

lemma padded_left:
  assumes w: "w < 2 ^ 31" and room: "room b (length bs + (w - length bs))"
    and start: "unat (pos :: 32 word) = k" "unat limit - k = w - length bs"
  shows "\<exists>b1 b2. put_all put bs b = Some b1 \<and> pad put 0x20 0 limit pos b1 = Some (pos + of_nat (w - length bs), b2)
    \<and> wrote b (bs @ replicate (w - length bs) 0x20) b2"
proof -
  obtain b1 where b1: "put_all put bs b = Some b1" "wrote b bs b1" using put_all_wrote [of b bs] room_less [OF room, of "length bs"] by auto
  have "k < 2 ^ 32" using start(1) unsigned_less [of pos, where ?'a = nat] by simp
  then obtain b2 where "pad put 0x20 0 limit pos b1 = Some (pos + of_nat (w - length bs), b2)" "wrote b1 (replicate (w - length bs) 0x20) b2"
    using pad_to [OF room_wrote [OF b1(2) room], of pos 0 limit "0x20"] start by auto
  then show ?thesis using b1 wrote_trans [OF b1(2)] by blast
qed

lemma unpadded_wrote:
  assumes "out = field leftj False w 0 [] bs" "w \<le> length bs" "room b (length out)"
  shows "\<exists>b'. put_all put bs b = Some b' \<and> wrote b out b'" "length out = length bs"
proof -
  have o: "out = bs" using assms(1,2) by (simp add: field_def)
  then show "\<exists>b'. put_all put bs b = Some b' \<and> wrote b out b'" "length out = length bs" using put_all_wrote assms(3) by auto
qed

lemma length_padded: "length bs < w \<Longrightarrow> length (field leftj False w 0 [] bs) = w"
  by (simp add: field_def)

lemma print_pointer_field:
  assumes c: "c = config_of fs w p m ch x res" and w: "w < 2 ^ 31"
    and out: "out = field (0x2D \<in> set fs) False w 0 [] (pointer_encode x)" and room: "room b (length out)"
  shows "\<exists>b'. print_pointer put c b = Some (of_nat (length out), b') \<and> wrote b out b'"
proof (cases "length (pointer_encode x) < w")
  case True
  let ?n = "length (pointer_encode x)"
  have u: "unat (of_nat w :: 32 word) = w" "unat (of_nat ?n :: 32 word) = ?n" using w by (simp_all add: unat_of_nat length_pointer_encode)
  have wide: "(of_nat ?n :: 32 word) < of_nat w" using True u by (simp add: word_less_nat_alt)
  have gap: "of_nat w - of_nat ?n = (of_nat (w - ?n) :: 32 word)" "of_nat ?n + of_nat (w - ?n) = (of_nat w :: 32 word)" using True by simp_all
  have o: "out = (if 0x2D \<in> set fs then pointer_encode x @ replicate (w - ?n) 0x20 else replicate (w - ?n) 0x20 @ pointer_encode x)"
      "length out = w" using True by (simp_all add: out field_def Let_def)
  show ?thesis
  proof (cases "0x2D \<in> set fs")
    case leftj: True
    obtain b1 b2 where "put_all put (pointer_encode x) b = Some b1" "pad put 0x20 0 (of_nat w) (of_nat ?n) b1 = Some (of_nat ?n + of_nat (w - ?n), b2)"
        "wrote b out b2"
      using padded_left [OF w, of b "pointer_encode x" "of_nat ?n" ?n "of_nat w"] u room o leftj True by auto
    then show ?thesis using leftj wide unfolding gap(2) by (simp add: print_pointer_def c spec_flags Let_def o(2))
  next
    case False
    obtain b1 b2 where "pad put 0x20 0 (of_nat (w - ?n)) 0 b = Some (of_nat (w - ?n), b1)" "put_all put (pointer_encode x) b1 = Some b2" "wrote b out b2"
      using padded_right [OF w, of b "pointer_encode x"] room o False True by auto
    then show ?thesis using False wide by (simp add: print_pointer_def c spec_flags Let_def o(2) gap)
  qed
next
  case False
  then have "\<not> (of_nat (length (pointer_encode x)) :: 32 word) < of_nat w"
    using w by (simp add: word_less_nat_alt unat_of_nat length_pointer_encode)
  then show ?thesis using unpadded_wrote [OF out _ room] False by (auto simp: print_pointer_def c Let_def)
qed

lemma print_char_field:
  assumes c: "c = config_of fs w p m ch x res" and w: "w \<le> 128" and m: "m \<noteq> PRINT_MOD_LONG" "m \<noteq> PRINT_MOD_LONG_LONG"
    and out: "out = field (0x2D \<in> set fs) False w 0 [] [ucast x]" and room: "room b (length out)"
  shows "\<exists>b'. print_char put c b = Some (of_nat (length out), b') \<and> wrote b out b'"
proof -
  have chars: "char_bytes c = [ucast x]" using m by (simp add: char_bytes_def c split: print_mod.split)
  have u: "unat (of_nat w :: 32 word) = w" using w by (simp add: unat_of_nat)
  have gt: "(1 :: 32 word) < of_nat w \<longleftrightarrow> 1 < w" using u by (simp add: word_less_nat_alt)
  obtain b' where b': "put_all put out b = Some b'" "wrote b out b'" using put_all_wrote [OF room] by blast
  show ?thesis
  proof (cases "1 < w")
    case True
    have "out = (if 0x2D \<in> set fs then [ucast x] @ replicate (w - 1) 0x20 else replicate (w - 1) 0x20 @ [ucast x])"
      by (auto simp: out field_def)
    then show ?thesis using b' w u gt True by (auto simp: print_char_def chars [unfolded c] c spec_flags Let_def)
  next
    case False
    then have "out = [ucast x]" by (simp add: out field_def Let_def)
    then show ?thesis using b' gt False by (auto simp: print_char_def chars [unfolded c] c)
  qed
qed

lemma print_string_field:
  assumes c: "c = config_of fs w p m ch x res" and small: "w < 2 ^ 31" "(case p of None \<Rightarrow> 0 | Some n \<Rightarrow> n) < 2 ^ 31"
    and m: "m \<noteq> PRINT_MOD_LONG" "m \<noteq> PRINT_MOD_LONG_LONG"
    and bs: "if x = 0 then bs = [] else cstring mem x (case p of None \<Rightarrow> - 1 | Some n \<Rightarrow> of_nat n) = Some bs"
    and out: "out = field (0x2D \<in> set fs) False w 0 [] bs" and room: "room b (length out)"
  shows "\<exists>b'. print_string put mem c b = Some (of_nat (length out), b') \<and> wrote b out b'"
proof -
  have u: "unat (of_nat w :: 32 word) = w" using small by (simp add: unat_of_nat)
  define pr where "pr = (if flag (pc_flags c) PRINT_PRECISION then unat (pc_precision c) else 2 ^ 32 - 1)"
  have pr: "pr = unat ((case p of None \<Rightarrow> - 1 | Some n \<Rightarrow> of_nat n) :: 32 word)"
    by (auto simp: pr_def c spec_flags unsigned_minus_1_eq_mask mask_eq_exp_minus_1 split: option.splits)
  have cnt: "count_units (units_at mem x 1 :: nat \<Rightarrow> byte ub) pr 0 = Some (length bs)"
  proof (cases "x = 0")
    case True
    then show ?thesis using bs by (subst count_units.simps) (simp add: units_at_def)
  next
    case False
    then show ?thesis using count_cstring [OF _ False] bs pr by simp
  qed
  have rd: "(if x = 0 then Some [] else mem_read mem x (length bs)) = Some bs"
    using bs cstring_prefix [of mem x] by (auto simp: string_at_def split: if_splits)
  have m': "(case m of PRINT_MOD_LONG \<Rightarrow> f | PRINT_MOD_LONG_LONG \<Rightarrow> g | _ \<Rightarrow> h) = h" for f g h :: 'z using m by (cases m) simp_all
  have fields: "pc_modifier c = m" "pc_data c = x" "unat (pc_width c) = w" "flag (pc_flags c) PRINT_LEFT_JUSTIFY \<longleftrightarrow> 0x2D \<in> set fs"
    using u by (simp_all add: c spec_flags)
  let ?body = "\<lambda>res1 b1. do { b2 \<leftarrow> put_all put bs b1; Some (res1 + of_nat (length bs) :: 32 word, b2) }"
  have body: "print_string put mem c b = do {
      (res1, b1) \<leftarrow> (if w > length bs \<and> 0x2D \<notin> set fs then pad put 0x20 0 (of_nat (w - length bs)) 0 b else Some (0, b));
      (res2, b2) \<leftarrow> ?body res1 b1;
      (if w > length bs \<and> 0x2D \<in> set fs then do {
         (n, b3) \<leftarrow> pad put 0x20 0 (of_nat (w - length bs)) 0 b2; Some (res2 + n, b3) } else Some (res2, b2)) }"
    unfolding print_string_def Let_def pr_def [symmetric] fields m' cnt rd Option.bind.simps by (rule refl)
  show ?thesis
  proof (cases "length bs < w")
    case True
    then have sum: "of_nat (length bs) + of_nat (w - length bs) = (of_nat w :: 32 word)" "of_nat (w - length bs) + of_nat (length bs) = (of_nat w :: 32 word)"
      by simp_all
    have o: "out = (if 0x2D \<in> set fs then bs @ replicate (w - length bs) 0x20 else replicate (w - length bs) 0x20 @ bs)" "length out = w"
      using True by (simp_all add: out field_def Let_def)
    have g: "unat (of_nat (w - length bs) :: 32 word) - 0 = w - length bs" using small(1) by (simp add: unat_of_nat)
    show ?thesis
    proof (cases "0x2D \<in> set fs")
      case leftj: True
      then show ?thesis unfolding body using padded_left [OF small(1), of b bs 0 0 "of_nat (w - length bs)"] g room o True sum by auto
    next
      case False
      then show ?thesis unfolding body using padded_right [OF small(1), of b bs] room o True sum by auto
    qed
  next
    case False
    then show ?thesis unfolding body using unpadded_wrote [OF out _ room] by auto
  qed
qed

lemma print_arg_text:
  assumes t: "conv_text mem fs w p m c x = Some out" and small: "w < 2 ^ 31" "(case p of None \<Rightarrow> 0 | Some n \<Rightarrow> n) < 2 ^ 31"
    and room: "room b (length out)"
  shows "\<exists>b'. print_arg put mem b (config_of fs w p m c x res) = Some (of_nat (length out), b', mem) \<and> wrote b out b'"
proof -
  define cfg where "cfg = config_of fs w p m c x res"
  note int = print_int_field [OF cfg_def small _ _ _ _ _ room]
  note uint = print_uint_field [OF cfg_def small _ _ room]
  have keep: "\<exists>b'. keep_mem mem r = Some (of_nat (length out), b', mem) \<and> wrote b out b'"
    if "\<exists>b'. r = Some (of_nat (length out), b') \<and> wrote b out b'" for r using that by (auto simp: keep_mem_def)
  have "pc_flags cfg = spec_flags fs (p \<noteq> None) (snd (conversion_of c))" by (simp add: cfg_def)
  note cf = convert_flags [OF this]
  have len: "length (dec_digits g (unat (u :: u64))) < 2 ^ 20" for g u using dec_digits_hd(3) [of g u] by simp
  have blen: "length (base_digits B chr (unat (u :: u64))) < 2 ^ 20" if "1 < B" for B chr u using length_base_digits [OF that, of chr u] by simp
  obtain ty up where ty: "conversion_of c = (ty, up)" by fastforce
  have fields: "pc_type cfg = ty" "pc_modifier cfg = m" "pc_data cfg = x" "flag (pc_flags cfg) PRINT_UPPER_CASE \<longleftrightarrow> up"
    by (simp_all add: cfg_def ty spec_flags)
  let ?num = "field (0x2D \<in> set fs) (0x30 \<in> set fs \<and> 0x2D \<notin> set fs \<and> p = None) w (case p of None \<Rightarrow> 0 | Some n \<Rightarrow> n)
    (prefix_text fs (alternate_form_char cfg))"
  have "\<exists>b'. print_arg put mem b cfg = Some (of_nat (length out), b', mem) \<and> wrote b out b'"
  proof (cases ty)
    case PRINT_INT_NUMBER
    let ?v = "view_int m x" let ?ds = "dec_digits (0x27 \<in> set fs) (nat \<bar>?v\<bar>)"
    have g: "0x27 \<in> set fs \<longrightarrow> p = None \<and> ?v \<noteq> - (2 ^ 63)" using t ty PRINT_INT_NUMBER by (auto simp: conv_text_def Let_def split: if_splits)
    have dsl: "length ?ds < 2 ^ 20"
      using len [of _ "word_of_int \<bar>?v\<bar>"] view_int_bounds [of m x] by (simp add: unsigned_of_int take_bit_int_eq_self)
    have tx: "int_text m x (sign_flags cfg) = Some ((if ?v < 0 then [0x2D] else if 0x2B \<in> set fs \<or> 0x20 \<in> set fs then [0x2B] else []) @ ?ds)"
      using int_to_dec_exact [OF view_int_bounds cf(1) [symmetric], of m x] g unfolding cf(2) int_text_view by blast
    have h: "hd ?ds \<noteq> 0x2D" "hd ?ds \<noteq> 0x2B" "?ds \<noteq> []" using dec_digits_hd(1,2) [of "0x27 \<in> set fs" "nat \<bar>?v\<bar>"] by auto
    have sp: "split_sign cfg ((if ?v < 0 then [0x2D] else if 0x2B \<in> set fs \<or> 0x20 \<in> set fs then [0x2B] else []) @ ?ds)
        = (if sign_text fs ?v = [] then 0 else hd (sign_text fs ?v), ?ds)"
      using h by (auto simp: split_sign_def sign_text_def cfg_def spec_flags)
    have o: "out = field (0x2D \<in> set fs) (0x30 \<in> set fs \<and> 0x2D \<notin> set fs \<and> p = None) w (case p of None \<Rightarrow> 0 | Some n \<Rightarrow> n)
        (if (if sign_text fs ?v = [] then 0 else hd (sign_text fs ?v)) = 0 then [] else [if sign_text fs ?v = [] then 0 else hd (sign_text fs ?v)]) ?ds"
      using t ty PRINT_INT_NUMBER by (auto simp: conv_text_def Let_def sign_text_def split: if_splits)
    show ?thesis using keep [OF int [OF sp h(3) dsl _ o]] g tx PRINT_INT_NUMBER by (simp add: print_arg_def fields)
  next
    case PRINT_UINT_NUMBER
    let ?ds = "dec_digits (0x27 \<in> set fs) (unat (view_uint m x))"
    have g: "0x27 \<in> set fs \<longrightarrow> p = None" using t ty PRINT_UINT_NUMBER by (auto simp: conv_text_def Let_def split: if_splits)
    have tx: "uint_to_dec_common (view_uint m x) (ucast (pc_flags cfg AND PRINT_GROUP_DIGITS)) = Some ?ds"
      using cf(3) by (simp add: uint_to_dec_text dec_digits_def)
    have h: "hd ?ds \<noteq> 0x2D" "hd ?ds \<noteq> 0x2B" "?ds \<noteq> []" using dec_digits_hd(1,2) [of "0x27 \<in> set fs" "unat (view_uint m x)"] by auto
    have sp: "split_sign cfg ?ds = (0, ?ds)" using h by (simp add: split_sign_def)
    have o: "out = field (0x2D \<in> set fs) (0x30 \<in> set fs \<and> 0x2D \<notin> set fs \<and> p = None) w (case p of None \<Rightarrow> 0 | Some n \<Rightarrow> n)
        (if (0 :: byte) = 0 then [] else [0]) ?ds"
      using t ty PRINT_UINT_NUMBER by (auto simp: conv_text_def Let_def split: if_splits)
    show ?thesis using keep [OF int [OF sp h(3) len _ o]] g tx PRINT_UINT_NUMBER by (simp add: print_arg_def fields)
  next
    case PRINT_UINT_HEX
    then have "out = ?num (base_digits 16 (\<lambda>d. (if up then hex_upper_table else hex_lower_table) ! d) (unat (view_uint m x)))"
      using t ty by (simp add: conv_text_def Let_def alternate_form_char_def fields(1,4))
    then show ?thesis using keep [OF uint [OF blen [of 16]]] t ty PRINT_UINT_HEX by (simp add: print_arg_def fields base_texts)
  next
    case PRINT_UINT_OCTAL
    then have "out = ?num (base_digits 8 dchr (unat (view_uint m x)))"
      using t ty by (simp add: conv_text_def Let_def alternate_form_char_def fields(1,4))
    then show ?thesis using keep [OF uint [OF blen [of 8]]] t ty PRINT_UINT_OCTAL by (simp add: print_arg_def fields base_texts)
  next
    case PRINT_UINT_BINARY
    then have "out = ?num (base_digits 2 dchr (unat (view_uint m x)))"
      using t ty by (simp add: conv_text_def Let_def alternate_form_char_def fields(1,4) split: if_splits)
    then show ?thesis using keep [OF uint [OF blen [of 2]]] t ty PRINT_UINT_BINARY by (simp add: print_arg_def fields base_texts conv_text_def Let_def split: if_splits)
  next
    case PRINT_CHAR
    then show ?thesis using keep [OF print_char_field [OF cfg_def _ _ _ _ room]] t ty
      by (simp add: print_arg_def fields conv_text_def Let_def split: if_splits)
  next
    case PRINT_STRING
    then obtain bs where "if x = 0 then bs = [] else cstring mem x (case p of None \<Rightarrow> - 1 | Some n \<Rightarrow> of_nat n) = Some bs"
        "out = field (0x2D \<in> set fs) False w 0 [] bs" "m \<noteq> PRINT_MOD_LONG" "m \<noteq> PRINT_MOD_LONG_LONG"
      using t ty by (auto simp: conv_text_def Let_def split: if_splits)
    then show ?thesis using keep [OF print_string_field [OF cfg_def small _ _ _ _ room]] PRINT_STRING by (simp add: print_arg_def fields)
  next
    case PRINT_POINTER
    then show ?thesis using keep [OF print_pointer_field [OF cfg_def small(1) _ room]] t ty
      by (simp add: print_arg_def fields conv_text_def Let_def)
  qed (use t ty in \<open>simp_all add: conv_text_def Let_def\<close>)
  then show ?thesis by (simp add: cfg_def)
qed

end

section \<open>Whole formats\<close>

text \<open>What a directive prints, with the arguments it leaves.\<close>

fun directive_spec :: "memory \<Rightarrow> directive \<Rightarrow> u64 list \<Rightarrow> (byte list \<times> u64 list) option" where
  "directive_spec mem (Lit x) xs = Some ([x], xs)"
| "directive_spec mem Percent xs = Some ([0x25], xs)"
| "directive_spec mem (Conv fs w p m c) xs = do {
     (wn, xs1) \<leftarrow> take_amount w xs;
     (pn, xs2) \<leftarrow> take_amount p xs1;
     if wn < 2 ^ 31 \<and> pn < 2 ^ 31 then
       (case xs2 of [] \<Rightarrow> None
        | x # xs3 \<Rightarrow> map_option (\<lambda>t. (t, xs3)) (conv_text mem fs (unat wn) (if p = None then None else Some (unat pn)) m c x))
     else None }"

fun printf_spec :: "memory \<Rightarrow> directive list \<Rightarrow> u64 list \<Rightarrow> byte list option" where
  "printf_spec mem [] xs = Some []"
| "printf_spec mem (d # ds) xs = do {
     (t, xs1) \<leftarrow> directive_spec mem d xs;
     r \<leftarrow> printf_spec mem ds xs1;
     Some (t @ r) }"

abbreviation render_all :: "directive list \<Rightarrow> byte list" where
  "render_all ds \<equiv> concat (map render ds)"

locale formatter = printer put ok cap + arg_source get holds for put ok cap get holds
begin

text \<open>One directive is one or more steps of the loop.\<close>

lemma printf_directive:
  assumes src: "reads_at inp (render d @ ys)" and d: "directive_ok d" and args: "holds a xs"
    and spec: "directive_spec mem d xs = Some (t, xs1)" and room: "room b (length t)"
  shows "\<exists>a' b'. printf_loop get put inp a mem res b = printf_loop get put (skip inp (length (render d))) a' mem (res + of_nat (length t)) b'
    \<and> holds a' xs1 \<and> wrote b t b'"
proof (cases d)
  case (Lit x)
  then have r: "reads_at inp (x # ys)" "x \<noteq> 0" "x \<noteq> 0x25" "t = [x]" "xs1 = xs" using src d spec by simp_all
  obtain b1 where "put b [x] = Some (length [x], b1)" "wrote b [x] b1" using put_wrote [of b "[x]"] room r(4) by auto
  then show ?thesis using Lit r args reads_byte [OF r(1)] by (subst printf_loop.simps) auto
next
  case Percent
  then have r: "reads_at inp (0x25 # 0x25 # ys)" "t = [0x25]" "xs1 = xs" using src spec by simp_all
  have k: "skip (skip inp 1) 1 = skip inp 2" by simp
  obtain b1 where "put b [0x25] = Some (length [0x25 :: byte], b1)" "wrote b [0x25] b1" using put_wrote [of b "[0x25]"] room r(2) by auto
  then show ?thesis
    using Percent r args reads_byte [OF r(1)] reads_peek [OF reads_skip1 [OF r(1)]] reads_byte [OF reads_skip1 [OF r(1)]] k
    by (subst printf_loop.simps) auto
next
  case (Conv fs w p m c)
  let ?s = "specifier_text fs w p m c"
  obtain wn xa pn xb x where sp: "take_amount w xs = Some (wn, xa)" "take_amount p xa = Some (pn, x # xs1)" "wn < 2 ^ 31" "pn < 2 ^ 31"
      "conv_text mem fs (unat wn) (if p = None then None else Some (unat pn)) m c x = Some t"
    using spec Conv by (auto split: Option.bind_split_asm if_split_asm list.split_asm)
  have r: "reads_at inp (0x25 # ?s @ ys)" using src Conv by simp
  obtain a1 where a1: "parse_print_specifier get (skip inp 1) a = Some (config_of fs (unat wn) (if p = None then None else Some (unat pn)) m c x 0,
      skip (skip inp 1) (length ?s), a1)" "holds a1 xs1"
    using parse_specifier [OF reads_skip1 [OF r] _ args sp(1,2)] d Conv precision_none [OF sp(2)]
    by (auto simp: config_of_def spec_flags_def)
  have sm: "unat wn < 2 ^ 31" "(case if p = None then None else Some (unat pn) of None \<Rightarrow> 0 | Some n \<Rightarrow> n) < 2 ^ 31"
    using sp(3,4) by (simp_all add: word_less_nat_alt)
  obtain b1 where b1: "print_arg put mem b (config_of fs (unat wn) (if p = None then None else Some (unat pn)) m c x res) = Some (of_nat (length t), b1, mem)"
      "wrote b t b1" using print_arg_text [OF sp(5) sm room] by blast
  have first: "peekbyte (skip inp 1) 0 = Some (hd ?s)" "hd ?s \<noteq> 0" "hd ?s \<noteq> 0x25"
    using reads_peek [OF reads_skip1 [OF r]] specifier_hd [of fs w p m c] d Conv by auto
  have ty: "fst (conversion_of c) \<noteq> PRINT_UNKNOWN" "\<not> b_error b1" using d Conv b1(2) ok_error by (auto simp: wrote_def)
  have "(config_of fs (unat wn) (if p = None then None else Some (unat pn)) m c x 0)\<lparr>pc_result := res\<rparr>
      = config_of fs (unat wn) (if p = None then None else Some (unat pn)) m c x res" by (simp add: config_of_def)
  then have "printf_loop get put inp a mem res b
      = printf_loop get put (skip (skip inp 1) (length ?s)) a1 mem (res + of_nat (length t)) b1"
    using reads_byte [OF r] first ty a1(1) b1(1) by (subst printf_loop.simps) simp
  then show ?thesis using a1(2) b1(2) Conv by auto
qed

lemma printf_directives:
  assumes "reads_at inp (render_all ds)" "\<forall>d \<in> set ds. directive_ok d" "holds a xs" "printf_spec mem ds xs = Some out" "room b (length out)"
  shows "\<exists>b'. printf_loop get put inp a mem res b = Some (res + of_nat (length out), b', mem) \<and> wrote b out b'"
  using assms
proof (induction ds arbitrary: inp a xs out b res)
  case Nil
  then show ?case using reads_end [of inp] wrote_refl by (subst printf_loop.simps) (auto simp: room_def)
next
  case (Cons d ds)
  obtain t xs1 r where s: "directive_spec mem d xs = Some (t, xs1)" "printf_spec mem ds xs1 = Some r" "out = t @ r"
    using Cons.prems(4) by (auto split: Option.bind_splits)
  have src: "reads_at inp (render d @ render_all ds)" using Cons.prems(1) by simp
  obtain a1 b1 where 1: "printf_loop get put inp a mem res b = printf_loop get put (skip inp (length (render d))) a1 mem (res + of_nat (length t)) b1"
      "holds a1 xs1" "wrote b t b1"
    using printf_directive [OF src _ Cons.prems(3) s(1), of b res] Cons.prems(2,5) room_less [of b "length out" "length t"] s(3) by auto
  have "room b1 (length r)" using room_wrote [OF 1(3)] Cons.prems(5) s(3) by simp
  then obtain b2 where "printf_loop get put (skip inp (length (render d))) a1 mem (res + of_nat (length t)) b1
      = Some (res + of_nat (length t) + of_nat (length r), b2, mem)" "wrote b1 r b2"
    using Cons.IH [OF reads_skip [OF src] _ 1(2) s(2), of b1 "res + of_nat (length t)"] Cons.prems(2) by auto
  then show ?case using 1 s(3) wrote_trans [OF 1(3)] by (auto simp: add.assoc)
qed

end

interpretation grow_fmt: formatter "writen (\<lambda>_. True)" "\<lambda>b. buf_inv b \<and> b_write b = MEMORY_BUFFER_WRITE" "\<lambda>_. 2 ^ 63"
    "variadic_args_get (\<lambda>_. True) junk" va_holds for junk
  by unfold_locales (simp add: buf_inv_def)

text \<open>A caller's block: what is not written keeps its contents.\<close>

definition block_of :: "byte list \<Rightarrow> buffer_t \<Rightarrow> bool" where
  "block_of d b \<longleftrightarrow> buf_inv b \<and> b_write b = WRITE_NULL \<and> b_data b = Some (contents b @ drop (b_pos b) d) \<and> b_size b = length d"

lemma block_of_write:
  assumes b: "block_of d b" and fit: "length (contents b) + length bs \<le> length d"
  shows "\<exists>b'. writen heap b bs = Some (length bs, b') \<and> block_of d b' \<and> contents b' = contents b @ bs"
proof -
  have f: "\<not> b_error b" "b_pos b \<le> b_size b" "b_data b = Some (contents b @ drop (b_pos b) d)" "length (contents b) = b_pos b"
      "b_size b = length d" "b_write b = WRITE_NULL" "length d < 2 ^ 64"
    using b length_contents [of b] unfolding block_of_def buf_inv_def by (blast | simp)+
  have room: "make_room heap (length bs) b = Some (True, b)" using fit f by (simp add: make_room_def)
  show ?thesis
  proof (cases "bs = []")
    case True
    have "writen heap b [] = Some (0, b)" using f room True by (simp add: writen_def copy_data_def)
    then show ?thesis using True b by simp
  next
    case False
    define b' where "b' = b\<lparr>b_data := Some (contents b @ bs @ drop (b_pos b + length bs) d), b_pos := b_pos b + length bs\<rparr>"
    have "writen heap b bs = Some (length bs, b')" using f room False fit by (simp add: writen_def copy_data_def b'_def add.commute)
    moreover have "contents b' = contents b @ bs" unfolding contents_def [of b'] using f(4) by (simp add: b'_def)
    moreover from this have "block_of d b'" unfolding block_of_def buf_inv_def using f fit by (simp add: b'_def)
    ultimately show ?thesis by simp
  qed
qed

interpretation fix_fmt: formatter "writen heap" "block_of d" "\<lambda>_. length d" "variadic_args_get (\<lambda>_. True) junk" va_holds for heap d junk
proof unfold_locales
  show "\<exists>b'. writen heap b bs = Some (length bs, b') \<and> block_of d b' \<and> length d = length d \<and> contents b' = contents b @ bs"
    if "block_of d b" "length (contents b) + length bs \<le> length d" for b bs
    using block_of_write [OF that] by simp
qed (simp add: block_of_def buf_inv_def)

lemma render_no_zero: "directive_ok d \<Longrightarrow> 0 \<notin> set (render d)"
proof (cases d)
  case (Conv fs w p m c)
  assume ok: "directive_ok d"
  have "0 \<notin> set (amount_text a)" for a using digits_text_num [of 0] by (cases a) auto
  moreover have "0 \<notin> set (mod_text m)" by (cases m) simp_all
  moreover have "flag_of 0 = None" by (simp add: flag_of_def)
  then have "0 \<notin> set fs" using ok Conv by fastforce
  moreover have "0 \<noteq> c" using ok Conv conversion_char(1) [of c] by auto
  ultimately show ?thesis using Conv
    by (auto simp: specifier_text_def width_text_def precision_text_def simp del: amount_text.simps split: option.splits)
qed auto

lemma format_buffer_reads:
  assumes "\<forall>d \<in> set ds. directive_ok d" "length (render_all ds) \<le> 65536"
  shows "reads_at (format_buffer (render_all ds @ 0 # zs)) (render_all ds)"
proof -
  have "takeWhile (\<lambda>x. x \<noteq> 0) (render_all ds @ 0 # zs) = render_all ds"
    using assms(1) render_no_zero by (fastforce simp: takeWhile_append)
  then show ?thesis using assms(2) by (simp add: format_buffer_def reads_at_def buf_inv_def rest_def Let_def)
qed

text \<open>A growing buffer takes any text.\<close>

lemma printf_collects:
  assumes "\<forall>d \<in> set ds. directive_ok d" and "printf_spec mem ds xs = Some out"
    and "length (render_all ds) \<le> 65536" "length xs < 2 ^ 31" "length out < 2 ^ 31"
  shows "\<exists>b. wlibc_printf_internal \<lparr>env_heap = \<lambda>_. True, env_junk = junk\<rparr> growing_buffer (render_all ds @ 0 # zs) xs mem
      = Some (of_nat (length out), b, mem) \<and> buf_inv b \<and> contents b = out"
proof -
  have "grow_fmt.room growing_buffer (length out)"
    unfolding grow_fmt.room_def using assms(5) by (simp add: growing_buffer_def buf_inv_def contents_def)
  then show ?thesis
    unfolding wlibc_printf_internal_def
    using grow_fmt.printf_directives [OF format_buffer_reads [OF assms(1,3), of zs] assms(1) va_holds_init [OF assms(4)] assms(2), where b = growing_buffer and res = 0 and junk = junk]
    unfolding grow_fmt.wrote_def by (auto simp: growing_buffer_def contents_def)
qed

section \<open>Properties\<close>


text \<open>\<open>%-6d|%+.3i|%#x|%s\<close> with -42, 7, 255 and the string at address 100.\<close>

definition sample :: "directive list" where
  "sample = [Conv [0x2D] (Some (Fixed 6)) None PRINT_MOD_NONE 0x64, Lit 0x7C, Conv [0x2B] None (Some (Fixed 3)) PRINT_MOD_NONE 0x69, Lit 0x7C,
     Conv [0x23] None None PRINT_MOD_NONE 0x78, Lit 0x7C, Conv [] None None PRINT_MOD_NONE 0x73]"

definition sample_memory :: memory where
  "sample_memory = [100 \<mapsto> 0x41, 101 \<mapsto> 0x42, 102 \<mapsto> 0]"

lemmas sample_run = sample_def sample_memory_def conv_text_def Let_def conversion_of_def take_amount_def amount_value_def view_int_def
  view_uint_def sign_text_def prefix_text_def dec_digits_def dec_text_def base_digits_def digits_small digits_step field_def
  hex_lower_table_def flag_of_def specifier_text_def width_text_def precision_text_def


text \<open>C31: snprintf into a block that has room for the text and its terminator stores both, keeps the rest of
  the block and returns the length of the text.\<close>

theorem snprintf_fits:
  assumes "\<forall>d \<in> set ds. directive_ok d" and "printf_spec mem ds xs = Some out"
    and "length (render_all ds) \<le> 65536" "length xs < 2 ^ 31" "length out < length d" "length d < 2 ^ 31"
  shows "wlibc_vsnprintf \<lparr>env_heap = \<lambda>_. True, env_junk = junk\<rparr> (Some d) (length d) (Some (render_all ds @ 0 # zs)) xs mem
      = Some (Inr (int (length out)), Some (out @ 0 # drop (Suc (length out)) d), mem)"
proof -
  let ?b = "\<lparr>b_data = Some d, b_pos = 0, b_size = length d, b_write = WRITE_NULL, b_error = False\<rparr>"
  have "block_of d ?b" using assms(6) by (simp add: block_of_def buf_inv_def contents_def)
  then have "fix_fmt.room d ?b (length out)" unfolding fix_fmt.room_def using assms(5) by (simp add: contents_def)
  then obtain b where b: "wlibc_printf_internal \<lparr>env_heap = \<lambda>_. True, env_junk = junk\<rparr> ?b (render_all ds @ 0 # zs) xs mem
        = Some (of_nat (length out), b, mem)" "block_of d b" "contents b = out"
    unfolding wlibc_printf_internal_def
    using fix_fmt.printf_directives [OF format_buffer_reads [OF assms(1,3), of zs] assms(1) va_holds_init [OF assms(4)] assms(2),
        where b = ?b and res = 0 and junk = junk and heap = "\<lambda>_. True" and d = d]
    unfolding fix_fmt.wrote_def by (auto simp: contents_def [of ?b])
  have n: "unat (of_nat (length out) :: 32 word) = length out" "sint (of_nat (length out) :: 32 word) = int (length out)"
      "sint (of_nat (length d) :: 32 word) = int (length d)"
    using assms(5,6) by (simp_all add: unat_of_nat sint_of_nat_small)
  have "b_data b = Some (out @ drop (length out) d)" using b(2,3) length_contents [of b] by (simp add: block_of_def)
  moreover have "d \<noteq> []" using assms(5) by auto
  ultimately show ?thesis using b(1) n assms(5) by (simp add: wlibc_vsnprintf_def list_update_append Cons_nth_drop_Suc [symmetric])
qed

theorem snprintf_fits_witness:
  "wlibc_vsnprintf \<lparr>env_heap = \<lambda>_. True, env_junk = \<lambda>_. 0\<rparr> (Some [9, 9, 9, 9, 9]) (length [9, 9, 9, 9, 9 :: byte]) (Some [0x25, 0x75, 0]) [17] Map.empty
     = Some (Inr 2, Some [0x31, 0x37, 0, 9, 9], Map.empty)"
proof -
  have "printf_spec Map.empty [Conv [] None None PRINT_MOD_NONE 0x75] [17] = Some [0x31, 0x37]" by (simp add: sample_run)
  from snprintf_fits [OF _ this, of "[9, 9, 9, 9, 9]" "\<lambda>_. 0" "[]"] show ?thesis by (simp add: sample_run)
qed

text \<open>Snprintf into a block that is too small neither truncates nor terminates the text: a piece that does
  not fit is left out as a whole, later pieces that fit are still written, and no terminator is
  stored.\<close>

theorem snprintf_truncation_skips_pieces:
  "map_option (\<lambda>(r, d, m). (r, d)) (wlibc_vsnprintf \<lparr>env_heap = \<lambda>_. True, env_junk = \<lambda>_. 0\<rparr> (Some [9, 9, 9]) 3
     (Some [0x25, 0x75, 0x61, 0x62, 0]) [12345] Map.empty) = Some (Inr 7, Some [0x61, 0x62, 9])"
  by code_simp

end
