(* ===== verification/PrintfIO.thy ===== *)
theory PrintfIO
  imports PrintfProps StreamKernel
begin

text \<open>
  Formatted output to streams and descriptors (\<open>wlibc_vfprintf\<close> and \<open>wlibc_vdprintf\<close> of
  src/stdio/printf.c). The text is collected in a growing buffer and handed to fwrite or write; the
  theorem composes the format loop, the buffer, the stream, the descriptor table and the kernel.
\<close>

text \<open>\<open>fwrite\<close> is given the first \<open>pos\<close> bytes of the collected block.\<close>

definition collected :: "buffer_t \<Rightarrow> byte list option" where
  "collected out = map_option (take (b_pos out)) (b_data out)"

definition wlibc_vfprintf ::
  "env \<Rightarrow> 'w sysio \<Rightarrow> bool \<Rightarrow> (nat \<Rightarrow> byte) \<Rightarrow> FILE option \<Rightarrow> byte list option \<Rightarrow> u64 list \<Rightarrow> memory \<Rightarrow> 'w
    \<Rightarrow> (int res \<times> FILE option \<times> memory \<times> 'w) ub" where
  "wlibc_vfprintf env io heap_ok junk stream fmt xs m w = (case fmt of
     None \<Rightarrow> Some (fail_with EINVAL, stream, m, w)
   | Some f \<Rightarrow>
       if stream = None then Some (fail_with EINVAL, stream, m, w)
       else do {
         (r, out, m1) \<leftarrow> wlibc_printf_internal env growing_buffer f xs m;
         (n, stream1, w1) \<leftarrow> wlibc_fwrite io heap_ok junk (collected out) 1 (b_pos out) stream w;
         Some (case n of Inl e \<Rightarrow> Inl e | Inr k \<Rightarrow> if k = 0 then fail_silent else Inr (sint r), stream1, m1, w1) })"

definition wlibc_vdprintf ::
  "env \<Rightarrow> 'k nt_io \<Rightarrow> fdinfo \<Rightarrow> int \<Rightarrow> byte list option \<Rightarrow> u64 list \<Rightarrow> memory \<Rightarrow> fd_state \<Rightarrow> 'k \<Rightarrow> (int res \<times> memory \<times> 'k) ub" where
  "wlibc_vdprintf env nt info0 fd fmt xs m s k = (case fmt of
     None \<Rightarrow> Some (fail_with EINVAL, m, k)
   | Some f \<Rightarrow> do {
       info \<leftarrow> get_fdinfo fd info0 s;
       if handle info = 0 then Some (fail_with EBADF, m, k)
       else do {
         (r, out, m1) \<leftarrow> wlibc_printf_internal env growing_buffer f xs m;
         (n, k1) \<leftarrow> wlibc_write nt info0 fd (collected out) s k;
         Some (case n of Inl e \<Rightarrow> Inl e | Inr _ \<Rightarrow> Inr (sint r), m1, k1) } })"

lemma collected_contents: "buf_inv b \<Longrightarrow> contents b \<noteq> [] \<Longrightarrow> collected b = Some (contents b)"
  by (auto simp: collected_def contents_def split: option.splits)

text \<open>C4: fprintf on a freshly opened, fully buffered stream followed by fflush appends exactly the
  formatted text, which is not empty, to the file and returns its length, over any kernel whose
  NtWriteFile appends what it is given.\<close>

theorem fprintf_reaches_file:
  assumes "tbl_inv s" "fd_lookup s d = Some e" "htype e \<noteq> DIRECTORY_HANDLE" "htype e \<noteq> INVALID_HANDLE"
    and "flags e AND O_APPEND = 0"
    and "\<forall>k bs. okk k \<longrightarrow> length bs < 2 ^ 32 \<longrightarrow>
      (\<exists>k'. NtWriteFile nt k (handle e) False bs = (STATUS_SUCCESS, length bs, k') \<and> okk k' \<and> sunk k' = sunk k @ bs)"
    and "fresh_writer d f" "valid_stream (Some f)" "okk k"
    and "\<forall>x \<in> set ds. directive_ok x" "printf_spec mem ds xs = Some out" "length (render_all ds) \<le> 65536" "length xs < 2 ^ 31"
      "length out < 2 ^ 31" "out \<noteq> []"
  shows "\<exists>f1 w1 f2 k2. wlibc_vfprintf \<lparr>env_heap = \<lambda>_. True, env_junk = ja\<rparr> (posix_io nt info) True junk (Some f) (Some (render_all ds @ [0])) xs mem (s, k)
      = Some (Inr (int (length out)), Some f1, mem, w1)
    \<and> common_fflush (posix_io nt info) f1 w1 = Some (0, f2, (s, k2)) \<and> sunk k2 = sunk k @ out"
proof -
  have nt: "nt_writer nt s d e sunk okk" by unfold_locales (use assms(1-6) in blast)+
  obtain b where b: "wlibc_printf_internal \<lparr>env_heap = \<lambda>_. True, env_junk = ja\<rparr> growing_buffer (render_all ds @ [0]) xs mem
      = Some (of_nat (length out), b, mem)" "buf_inv b" "contents b = out"
    using printf_collects [OF assms(10-14)] by blast
  have c: "collected b = Some out" "b_pos b = length out" using b collected_contents [of b] length_contents [of b] assms(15) by auto
  obtain f1 w1 f2 k2 where w: "fwrites (posix_io nt info) junk [out] f (s, k) = Some ([length out], f1, w1)"
      "common_fflush (posix_io nt info) f1 w1 = Some (0, f2, (s, k2))" "sunk k2 = sunk k @ out"
    using nt_writer.writes_flushed [OF nt assms(7,9), of "[out]" info junk] assms(14) by auto
  then have "common_fwrite (posix_io nt info) True junk out 1 (length out) f (s, k) = Some (length out, f1, w1)"
    by (auto split: Option.bind_splits)
  then have "wlibc_fwrite (posix_io nt info) True junk (Some out) 1 (length out) (Some f) (s, k) = Some (Inr (length out), Some f1, w1)"
    using assms(8,14,15) by (simp add: wlibc_fwrite_def size_mul_def)
  then show ?thesis using b c w(2,3) assms(14,15) by (auto simp: wlibc_vfprintf_def sint_of_nat_small)
qed

theorem fprintf_reaches_file_witness:
  "\<exists>f1 w1 f2 k2. wlibc_vfprintf \<lparr>env_heap = \<lambda>_. True, env_junk = \<lambda>_. 0\<rparr> (posix_io ram_nt undefined) True (\<lambda>_. 0) (Some example_file)
      (Some [0x25, 0x75, 0x21, 0]) [17] Map.empty (example_table, \<lparr>content = [0], fptr = 1\<rparr>) = Some (Inr 3, Some f1, Map.empty, w1)
    \<and> common_fflush (posix_io ram_nt undefined) f1 w1 = Some (0, f2, (example_table, k2)) \<and> content k2 = [0, 0x31, 0x37, 0x21]"
proof -
  let ?ds = "[Conv [] None None PRINT_MOD_NONE 0x75, Lit 0x21]"
  have spec: "printf_spec Map.empty ?ds [17] = Some [0x31, 0x37, 0x21]" by (simp add: sample_run)
  have "valid_stream (Some example_file)" by (simp add: valid_stream_def example_file_def)
  from fprintf_reaches_file [OF example_table_inv example_table_lookup _ _ _ rw.nt_write example_file_fresh(1) this _ _ spec,
      of "\<lparr>content = [0], fptr = 1\<rparr>" "\<lambda>_. 0" undefined "\<lambda>_. 0"]
  show ?thesis by (simp add: O_APPEND_def sample_run)
qed

end
