(* ===== verification/FloatRead.thy ===== *)
theory FloatRead
  imports FloatText
begin

unbundle bit_operations_syntax

text \<open>
  Reading floating point numbers (src/internal/convert.c, \<open>parse_float_inf_or_nan\<close> to
  \<open>float_from_normal_common\<close>). A double is its bit pattern. The arithmetic of the compiled code is that
  of IEEE 754 in the default rounding mode: the exact result rounded to the nearest double,
  ties to even, with the infinities and the NaNs the processor makes.
\<close>

section \<open>IEEE 754 arithmetic\<close>

text \<open>The value of a finite double is \<open>m * 2 ^ e\<close> with integers \<open>m\<close> and \<open>e\<close>; results are exact integers
  and quotients until they are rounded.\<close>

function pow2 :: "int \<Rightarrow> int" where
  "pow2 k = (if k \<le> 0 then 1 else let h = pow2 (k div 2) in if even k then h * h else 2 * h * h)"
  by pat_completeness auto
termination by (relation "measure nat") auto

function nbits :: "int \<Rightarrow> int" where
  "nbits n = (if n \<le> 0 then 0 else 1 + nbits (n div 2))"
  by pat_completeness auto
termination by (relation "measure nat") auto

declare pow2.simps [simp del] nbits.simps [simp del]

text \<open>The fraction \<open>n / d * 2 ^ k\<close> as a numerator and a denominator.\<close>

definition scaled :: "int \<Rightarrow> int \<Rightarrow> int \<Rightarrow> int \<times> int" where
  "scaled n d k = (n * pow2 k, d * pow2 (- k))"

text \<open>The exponent of a positive fraction, and rounding to an integer with ties to even.\<close>

definition flog2 :: "int \<Rightarrow> int \<Rightarrow> int" where
  "flog2 n d = (let k = nbits n - nbits d; (n', d') = scaled n d (- k) in if n' < d' then k - 1 else k)"

definition round_even :: "int \<times> int \<Rightarrow> int" where
  "round_even q = (let (n, d) = q; f = n div d; r = 2 * (n mod d) in
     if r < d then f else if d < r then f + 1 else if even f then f else f + 1)"

text \<open>The bit pattern of \<open>n / d * 2 ^ k\<close> with \<open>p\<close> stored mantissa bits and least exponent \<open>emin\<close>; a
  carry out of the mantissa goes into the exponent.\<close>

definition fp_round :: "int \<Rightarrow> int \<Rightarrow> int \<Rightarrow> int \<Rightarrow> int \<Rightarrow> int" where
  "fp_round p emin n d k = (let e = max (flog2 n d + k) emin in
     round_even (scaled n d (k - (e - p))) + (e - emin) * pow2 p)"

definition f64_sign :: "bool \<Rightarrow> u64" where "f64_sign neg = (if neg then 0x8000000000000000 else 0)"
definition f64_abs :: "u64 \<Rightarrow> u64" where "f64_abs x = x AND 0x7FFFFFFFFFFFFFFF"
definition f64_neg :: "u64 \<Rightarrow> bool" where "f64_neg x \<longleftrightarrow> 0x8000000000000000 \<le> x"
definition f64_inf :: "u64 \<Rightarrow> bool" where "f64_inf x \<longleftrightarrow> f64_abs x = 0x7FF0000000000000"
definition f64_nan :: "u64 \<Rightarrow> bool" where "f64_nan x \<longleftrightarrow> 0x7FF0000000000000 < f64_abs x"
definition f64_zero :: "u64 \<Rightarrow> bool" where "f64_zero x \<longleftrightarrow> f64_abs x = 0"

text \<open>Mantissa and exponent of the magnitude.\<close>

definition f64_parts :: "u64 \<Rightarrow> int \<times> int" where
  "f64_parts x = (let e = uint (f64_abs x) div 0x10000000000000; m = uint (f64_abs x) mod 0x10000000000000 in
     if e = 0 then (m, if m = 0 then 0 else - 1074) else (0x10000000000000 + m, e - 1075))"

definition f64_of :: "bool \<Rightarrow> int \<Rightarrow> int \<Rightarrow> int \<Rightarrow> u64" where
  "f64_of neg n d k = f64_sign neg OR
     (if n = 0 then 0 else let r = fp_round 52 (- 1022) n d k in if r < 0x7FF0000000000000 then word_of_int r else 0x7FF0000000000000)"

text \<open>The NaN of an invalid operation and a quieted operand.\<close>

definition f64_invalid :: u64 where "f64_invalid = 0xFFF8000000000000"
definition f64_quiet :: "u64 \<Rightarrow> u64" where "f64_quiet x = x OR 0x0008000000000000"

definition f64_mul :: "u64 \<Rightarrow> u64 \<Rightarrow> u64" where
  "f64_mul x y = (let neg = (f64_neg x \<noteq> f64_neg y); (m1, e1) = f64_parts x; (m2, e2) = f64_parts y in
     if f64_nan x then f64_quiet x else if f64_nan y then f64_quiet y
     else if f64_inf x \<or> f64_inf y then
       (if f64_zero x \<or> f64_zero y then f64_invalid else f64_sign neg OR 0x7FF0000000000000)
     else f64_of neg (m1 * m2) 1 (e1 + e2))"

definition f64_div :: "u64 \<Rightarrow> u64 \<Rightarrow> u64" where
  "f64_div x y = (let neg = (f64_neg x \<noteq> f64_neg y); (m1, e1) = f64_parts x; (m2, e2) = f64_parts y in
     if f64_nan x then f64_quiet x else if f64_nan y then f64_quiet y
     else if f64_inf x then (if f64_inf y then f64_invalid else f64_sign neg OR 0x7FF0000000000000)
     else if f64_inf y then f64_sign neg
     else if f64_zero y then (if f64_zero x then f64_invalid else f64_sign neg OR 0x7FF0000000000000)
     else f64_of neg m1 m2 (e1 - e2))"

definition f64_add :: "u64 \<Rightarrow> u64 \<Rightarrow> u64" where
  "f64_add x y =
     (if f64_nan x then f64_quiet x else if f64_nan y then f64_quiet y
      else if f64_inf x then (if f64_inf y \<and> f64_neg x \<noteq> f64_neg y then f64_invalid else x)
      else if f64_inf y then y
      else let (m1, e1) = f64_parts x; (m2, e2) = f64_parts y; e = min e1 e2;
          v1 = m1 * pow2 (e1 - e); v2 = m2 * pow2 (e2 - e);
          s = (if f64_neg x then - v1 else v1) + (if f64_neg y then - v2 else v2) in
        if s = 0 then f64_sign (f64_neg x \<and> f64_neg y) else f64_of (s < 0) \<bar>s\<bar> 1 e)"

text \<open>Conversion of a small integer to double, and of a double to float.\<close>

definition f64_of_byte :: "byte \<Rightarrow> u64" where
  "f64_of_byte x = f64_of False (uint x) 1 0"

definition f64_to_f32 :: "u64 \<Rightarrow> 32 word" where
  "f64_to_f32 x = (if f64_neg x then 0x80000000 else 0) OR
     (if f64_nan x then ucast (drop_bit 29 (f64_abs x) AND 0x7FFFFF) OR 0x7FC00000
      else if f64_inf x then 0x7F800000
      else if f64_zero x then 0
      else let (m, e) = f64_parts x; r = fp_round 23 (- 126) m 1 e in if r < 0x7F800000 then word_of_int r else 0x7F800000)"

text \<open>The constants of the code.\<close>

definition F64_1 :: u64 where "F64_1 = 0x3FF0000000000000"
definition F64_2 :: u64 where "F64_2 = 0x4000000000000000"
definition F64_10 :: u64 where "F64_10 = 0x4024000000000000"
definition F64_16 :: u64 where "F64_16 = 0x4030000000000000"
definition F64_MINUS_1 :: u64 where "F64_MINUS_1 = 0xBFF0000000000000"

section \<open>Infinities and NaNs\<close>

text \<open>The bytes at the position, in lower case.\<close>

fun peeks :: "buffer_t \<Rightarrow> nat \<Rightarrow> nat \<Rightarrow> byte list ub" where
  "peeks b i 0 = Some []"
| "peeks b i (Suc n) = do { x \<leftarrow> peekbyte b i; xs \<leftarrow> peeks b (Suc i) n; Some (TO_LOWER x # xs) }"

definition parse_float_inf_or_nan :: "buffer_t \<Rightarrow> u64 \<Rightarrow> (32 word \<times> u64 \<times> buffer_t) ub" where
  "parse_float_inf_or_nan b value = do {
     w \<leftarrow> peeks b 0 3;
     if w = [0x69, 0x6E, 0x66] then do {
       let out = push_bit 52 0x7FF;
       let b1 = advance 3 b;
       w2 \<leftarrow> peeks b1 0 5;
       if w2 = [0x69, 0x6E, 0x69, 0x74, 0x79] then Some (8, out, advance 5 b1) else Some (3, out, b1) }
     else if w = [0x6E, 0x61, 0x6E] then Some (3, 0x7FFFFFFFFFFFFFFF, advance 3 b)
     else Some (0, value, b) }"

text \<open>An optional sign: whether it is a minus, and the number of bytes read.\<close>

definition parse_sign :: "buffer_t \<Rightarrow> (bool \<times> 32 word \<times> buffer_t) ub" where
  "parse_sign b = do {
     byte \<leftarrow> peekbyte b 0;
     if byte = 0x2B \<or> byte = 0x2D then do { (_, b1) \<leftarrow> readbyte b; Some (byte = 0x2D, 1, b1) }
     else Some (False, 0, b) }"

section \<open>Exponents\<close>

function power_loop :: "u64 \<Rightarrow> u64 \<Rightarrow> u64 \<Rightarrow> u64" where
  "power_loop ex factor temp =
     (if ex \<noteq> 0 then
        (let temp' = f64_mul temp temp; factor' = (if ex AND 1 \<noteq> 0 then f64_mul factor temp' else factor) in
         power_loop (drop_bit 1 ex) factor' temp')
      else factor)"
  by pat_completeness auto
termination
proof (relation "measure (\<lambda>(e, f, t). unat e)", goal_cases)
  case (2 ex factor temp)
  then show ?case by (simp add: unat_drop_bit_eq drop_bit_eq_div unat_gt_0 unat_div)
qed simp

declare power_loop.simps [simp del]

text \<open>The exponent, without its letter, applied to the value.\<close>

definition scale_by_exponent :: "u64 \<Rightarrow> buffer_t \<Rightarrow> 32 word \<Rightarrow> u64 \<Rightarrow> (32 word \<times> u64 \<times> buffer_t) ub" where
  "scale_by_exponent base b count value = do {
     (sign, n, b1) \<leftarrow> parse_sign b;
     (m, ex, b2) \<leftarrow> uint_from_dec_common b1 0;
     let factor = power_loop (drop_bit 1 ex) (if ex AND 1 \<noteq> 0 then base else F64_1) base;
     Some (count + n + m, if sign then f64_div value factor else f64_mul value factor, b2) }"

section \<open>Hexadecimal\<close>

text \<open>The loops return the byte that ended them.\<close>

function hex_int_loop :: "u64 \<Rightarrow> 32 word \<Rightarrow> buffer_t \<Rightarrow> (byte \<times> u64 \<times> 32 word \<times> buffer_t) ub" where
  "hex_int_loop value count b = (case peekbyte b 0 of None \<Rightarrow> None | Some byte \<Rightarrow>
     if byte = 0 then Some (byte, value, count, b)
     else (let nibble = hex_to_nibble_table byte in
       if nibble = 255 then Some (byte, value, count, b)
       else (case readbyte b of None \<Rightarrow> None
         | Some (_, b') \<Rightarrow> hex_int_loop (f64_add (f64_mul value F64_16) (f64_of_byte nibble)) (count + 1) b')))"
  by pat_completeness auto
termination by (relation "measure (\<lambda>(v, c, b). left b)") (auto dest: readbyte_left)

function hex_frac_loop :: "u64 \<Rightarrow> u64 \<Rightarrow> 32 word \<Rightarrow> buffer_t \<Rightarrow> (byte \<times> u64 \<times> 32 word \<times> buffer_t) ub" where
  "hex_frac_loop value dv count b = (case peekbyte b 0 of None \<Rightarrow> None | Some byte \<Rightarrow>
     if byte = 0 then Some (byte, value, count, b)
     else (let nibble = hex_to_nibble_table byte in
       if nibble = 255 then Some (byte, value, count, b)
       else (case readbyte b of None \<Rightarrow> None
         | Some (_, b') \<Rightarrow> hex_frac_loop (f64_add value (f64_div (f64_of_byte nibble) dv)) (f64_mul dv F64_16) (count + 1) b')))"
  by pat_completeness auto
termination by (relation "measure (\<lambda>(v, d, c, b). left b)") (auto dest: readbyte_left)

declare hex_int_loop.simps [simp del] hex_frac_loop.simps [simp del]

definition float_from_hex_common :: "buffer_t \<Rightarrow> (32 word \<times> u64 \<times> buffer_t) ub" where
  "float_from_hex_common b = do {
     (minus, n, b1) \<leftarrow> parse_sign b;
     (special, v, b2) \<leftarrow> parse_float_inf_or_nan b1 0;
     if special \<noteq> 0 then Some (n + special, if minus then v OR push_bit 63 1 else v, b2)
     else do {
       (byte, b3) \<leftarrow> readbyte b2;
       if byte \<noteq> 0x30 then Some (0, 0, b3)
       else do {
         (byte, b4) \<leftarrow> readbyte b3;
         if TO_LOWER byte \<noteq> 0x78 then Some (0, 0, b4)
         else do {
           (byte1, v1, n1, b5) \<leftarrow> hex_int_loop 0 (n + 2) b4;
           (byte2, v2, n2, b6) \<leftarrow> (if byte1 = 0x2E
             then do { (_, b5') \<leftarrow> readbyte b5; hex_frac_loop v1 F64_16 (n1 + 1) b5' }
             else Some (byte1, v1, n1, b5));
           (n3, v3, b7) \<leftarrow> (if TO_LOWER byte2 = 0x70
             then do { (_, b6') \<leftarrow> readbyte b6; scale_by_exponent F64_2 b6' (n2 + 1) v2 }
             else Some (n2, v2, b6));
           Some (n3, if minus then f64_mul v3 F64_MINUS_1 else v3, b7) } } } }"

section \<open>Decimal\<close>

function dec_int_loop :: "digit_parse_state \<Rightarrow> u64 \<Rightarrow> 32 word \<Rightarrow> buffer_t \<Rightarrow> (32 word \<times> u64 \<times> buffer_t) ub" where
  "dec_int_loop st v count b = (case parse_digits st b count of None \<Rightarrow> None
     | Some (byte, st', count', b') \<Rightarrow>
         if byte \<noteq> 0 then dec_int_loop st' (f64_add (f64_mul v F64_10) (f64_of_byte (byte - 0x30))) count' b'
         else Some (count', v, b'))"
  by pat_completeness auto
termination by (relation "measure (\<lambda>(st, v, c, b). left b)") (auto dest: parse_digits_progress)

function dec_frac_loop :: "digit_parse_state \<Rightarrow> u64 \<Rightarrow> u64 \<Rightarrow> 32 word \<Rightarrow> buffer_t \<Rightarrow> (32 word \<times> u64 \<times> buffer_t) ub" where
  "dec_frac_loop st v dv count b = (case parse_digits st b count of None \<Rightarrow> None
     | Some (byte, st', count', b') \<Rightarrow>
         if byte \<noteq> 0 then dec_frac_loop st' (f64_add v (f64_div (f64_of_byte (byte - 0x30)) dv)) (f64_mul dv F64_10) count' b'
         else Some (count', v, b'))"
  by pat_completeness auto
termination by (relation "measure (\<lambda>(st, v, d, c, b). left b)") (auto dest: parse_digits_progress)

declare dec_int_loop.simps [simp del] dec_frac_loop.simps [simp del]

text \<open>The letter that announces an exponent.\<close>

definition exponent_letter :: "buffer_t \<Rightarrow> 32 word \<Rightarrow> (bool \<times> 32 word \<times> buffer_t) ub" where
  "exponent_letter b count = do {
     byte \<leftarrow> peekbyte b 0;
     if TO_LOWER byte = 0x65 then do { (_, b1) \<leftarrow> readbyte b; Some (True, count + 1, b1) }
     else Some (False, count, b) }"

definition float_from_normal_common :: "buffer_t \<Rightarrow> 32 word \<Rightarrow> (32 word \<times> u64 \<times> buffer_t) ub" where
  "float_from_normal_common b flags = do {
     (minus, n, b1) \<leftarrow> parse_sign b;
     (special, v, b2) \<leftarrow> parse_float_inf_or_nan b1 0;
     if special \<noteq> 0 then Some (n + special, if minus then v OR push_bit 63 1 else v, b2)
     else do {
       (n1, v1, b3) \<leftarrow> dec_int_loop (initial_state flags) 0 n b2;
       byte \<leftarrow> peekbyte b3 0;
       (ex, n2, v2, b4) \<leftarrow> (if byte = 0x2E then do {
           (_, b3') \<leftarrow> readbyte b3;
           (n2, v2, b4) \<leftarrow> dec_frac_loop (initial_state flags\<lparr>dp_fraction := True\<rparr>) v1 F64_10 (n1 + 1) b3';
           (ex, n3, b5) \<leftarrow> exponent_letter b4 n2;
           Some (ex, n3, v2, b5) }
         else do {
           (ex, n2, b4) \<leftarrow> exponent_letter b3 n1;
           Some (ex, n2, v1, b4) });
       (n3, v3, b5) \<leftarrow> (if ex then scale_by_exponent F64_10 b4 n2 v2 else Some (n2, v2, b4));
       Some (n3, if minus then f64_mul v3 F64_MINUS_1 else v3, b5) } }"

definition narrow_float :: "(32 word \<times> u64 \<times> buffer_t) ub \<Rightarrow> (32 word \<times> 32 word \<times> buffer_t) ub" where
  "narrow_float r = map_option (\<lambda>(n, v, b). (n, f64_to_f32 v, b)) r"

definition float32_from_hex :: "buffer_t \<Rightarrow> (32 word \<times> 32 word \<times> buffer_t) ub" where
  "float32_from_hex b = narrow_float (float_from_hex_common b)"

definition float64_from_hex :: "buffer_t \<Rightarrow> (32 word \<times> u64 \<times> buffer_t) ub" where
  "float64_from_hex b = float_from_hex_common b"

definition float32_from_normal :: "buffer_t \<Rightarrow> 32 word \<Rightarrow> (32 word \<times> 32 word \<times> buffer_t) ub" where
  "float32_from_normal b flags = narrow_float (float_from_normal_common b flags)"

definition float64_from_normal :: "buffer_t \<Rightarrow> 32 word \<Rightarrow> (32 word \<times> u64 \<times> buffer_t) ub" where
  "float64_from_normal b flags = float_from_normal_common b flags"

text \<open>The power of ten of the exponent is a double of its own: \<open>1e-310\<close>, which is representable, is
  read as 0, and \<open>0e400\<close> as a NaN.\<close>

theorem tiny_number_reads_as_zero:
  "map_option (\<lambda>(n, v, b). v) (float_from_normal_common (text_buffer [0x31, 0x65, 0x2D, 0x33, 0x31, 0x30]) 0) = Some 0"
  by code_simp

theorem zero_with_exponent_reads_as_nan:
  "map_option (\<lambda>(n, v, b). f64_nan v) (float_from_normal_common (text_buffer [0x30, 0x65, 0x34, 0x30, 0x30]) 0) = Some True"
  by code_simp

end
