(* ===== verification/Scanf.thy ===== *)
theory Scanf
  imports FloatRead Printf
begin

unbundle bit_operations_syntax

text \<open>
  Formatted input (src/stdio/scanf.c). The string that is read is kept apart from the memory the
  results are stored to; it ends with its terminator, and reading behind that is undefined (\<open>None\<close>).
  The parsing of numbers, argument numbers and length modifiers is the same code as in
  src/stdio/printf.c, so the model shares those functions. The block that \<open>%ms\<close> allocates is put into
  the memory at the address the allocator chooses.
\<close>

section \<open>Flags, conversions and sets\<close>

definition SCAN_SUPPRESS_INPUT :: "16 word" where "SCAN_SUPPRESS_INPUT = 0x01"
definition SCAN_ALLOCATE_STRING :: "16 word" where "SCAN_ALLOCATE_STRING = 0x02"
definition SCAN_UPPER_CASE :: "16 word" where "SCAN_UPPER_CASE = 0x20"
definition SCAN_GROUP_DIGITS :: "16 word" where "SCAN_GROUP_DIGITS = 0x40"

type_synonym scan_mod = print_mod

definition IS_SPACE :: "byte \<Rightarrow> bool" where
  "IS_SPACE x \<longleftrightarrow> x = 0x20 \<or> (0x09 \<le> x \<and> x \<le> 0x0D)"

text \<open>The two words of a set; a bit beyond them is outside the structure.\<close>

type_synonym scan_set = "u64 \<times> u64"

definition GET_BIT :: "scan_set \<Rightarrow> byte \<Rightarrow> bool ub" where
  "GET_BIT s x = (if x < 64 then Some (bit (fst s) (unat (x mod 64)))
     else if x < 128 then Some (bit (snd s) (unat (x mod 64))) else None)"

definition SET_BIT :: "scan_set \<Rightarrow> byte \<Rightarrow> scan_set ub" where
  "SET_BIT s x = (if x < 64 then Some (fst s OR push_bit (unat (x mod 64)) 1, snd s)
     else if x < 128 then Some (fst s, snd s OR push_bit (unat (x mod 64)) 1) else None)"

definition UNSET_BIT :: "scan_set \<Rightarrow> byte \<Rightarrow> scan_set ub" where
  "UNSET_BIT s x = (if x < 64 then Some (fst s AND NOT (push_bit (unat (x mod 64)) 1), snd s)
     else if x < 128 then Some (fst s, snd s AND NOT (push_bit (unat (x mod 64)) 1)) else None)"

datatype scan_type = SCAN_INT_NUMBER | SCAN_UINT_NUMBER | SCAN_UINT_BINARY | SCAN_UINT_OCTAL | SCAN_UINT_HEX
  | SCAN_DOUBLE_NORMAL | SCAN_DOUBLE_HEX | SCAN_DOUBLE_SCIENTIFIC | SCAN_DOUBLE_SCIENTIFIC_SHORT
  | SCAN_CHAR | SCAN_STRING | SCAN_SET | SCAN_POINTER | SCAN_RESULT | SCAN_UNKNOWN

text \<open>The place for the result: the address the caller passed, or \<open>None\<close> for the slot \<open>suppress\<close> of the
  structure itself, which has the 8 bytes of the largest result.\<close>

record scan_config =
  sc_type :: scan_type
  sc_modifier :: scan_mod
  sc_flags :: "16 word"
  sc_width :: "32 word"
  sc_index :: "32 word"
  sc_result :: u64
  sc_data :: "u64 option"
  sc_set :: scan_set

abbreviation scan_flag :: "scan_config \<Rightarrow> 16 word \<Rightarrow> bool" where
  "scan_flag c f \<equiv> flag (sc_flags c) f"

section \<open>Parsing a specifier\<close>

definition scan_number :: "buffer_t \<Rightarrow> (32 word \<times> buffer_t) ub" where
  "scan_number b = parse_number 0 b"

definition scan_arg_index :: "buffer_t \<Rightarrow> (32 word \<times> buffer_t) ub" where
  "scan_arg_index b = parse_arg_index b"

definition scan_flag_of :: "byte \<Rightarrow> 16 word option" where
  "scan_flag_of byte =
     (if byte = 0x2A then Some SCAN_SUPPRESS_INPUT
      else if byte = 0x27 then Some SCAN_GROUP_DIGITS
      else if byte = 0x6D then Some SCAN_ALLOCATE_STRING
      else None)"

function scan_flags :: "16 word \<Rightarrow> buffer_t \<Rightarrow> (16 word \<times> buffer_t) ub" where
  "scan_flags fl b = (case peekbyte b 0 of None \<Rightarrow> None | Some byte \<Rightarrow>
     if byte = 0 then Some (fl, b)
     else (case scan_flag_of byte of None \<Rightarrow> Some (fl, b)
       | Some f \<Rightarrow> (case readbyte b of None \<Rightarrow> None | Some (_, b') \<Rightarrow> scan_flags (fl OR f) b')))"
  by pat_completeness auto
termination by (relation "measure (\<lambda>(f, b). left b)") (auto dest: readbyte_left)

declare scan_flags.simps [simp del]

definition scan_modifier :: "buffer_t \<Rightarrow> (scan_mod \<times> buffer_t) ub" where
  "scan_modifier b = parse_modifier b"

definition scan_conversion_of :: "byte \<Rightarrow> scan_type \<times> bool" where
  "scan_conversion_of byte =
     (if byte = 0x69 \<or> byte = 0x64 then (SCAN_INT_NUMBER, False)
      else if byte = 0x75 then (SCAN_UINT_NUMBER, False)
      else if byte = 0x42 then (SCAN_UINT_BINARY, True)
      else if byte = 0x62 then (SCAN_UINT_BINARY, False)
      else if byte = 0x4F then (SCAN_UINT_OCTAL, True)
      else if byte = 0x6F then (SCAN_UINT_OCTAL, False)
      else if byte = 0x58 then (SCAN_UINT_HEX, True)
      else if byte = 0x78 then (SCAN_UINT_HEX, False)
      else if byte = 0x41 then (SCAN_DOUBLE_HEX, True)
      else if byte = 0x61 then (SCAN_DOUBLE_HEX, False)
      else if byte = 0x46 then (SCAN_DOUBLE_NORMAL, True)
      else if byte = 0x66 then (SCAN_DOUBLE_NORMAL, False)
      else if byte = 0x45 then (SCAN_DOUBLE_SCIENTIFIC, True)
      else if byte = 0x65 then (SCAN_DOUBLE_SCIENTIFIC, False)
      else if byte = 0x47 then (SCAN_DOUBLE_SCIENTIFIC_SHORT, True)
      else if byte = 0x67 then (SCAN_DOUBLE_SCIENTIFIC_SHORT, False)
      else if byte = 0x63 then (SCAN_CHAR, False)
      else if byte = 0x73 then (SCAN_STRING, False)
      else if byte = 0x5B then (SCAN_SET, False)
      else if byte = 0x70 then (SCAN_POINTER, False)
      else if byte = 0x6E then (SCAN_RESULT, False)
      else (SCAN_UNKNOWN, False))"

text \<open>\<open>while (from <= to)\<close>: the loop stops at the latest at the first bit outside the set.\<close>

definition mark_bit :: "bool \<Rightarrow> byte \<Rightarrow> scan_set \<Rightarrow> scan_set ub" where
  "mark_bit exclude x s = (if exclude then UNSET_BIT s x else SET_BIT s x)"

lemma mark_bit_Some: "mark_bit e x s = Some s' \<Longrightarrow> x < 128"
  by (auto simp: mark_bit_def SET_BIT_def UNSET_BIT_def intro: less_trans split: if_splits)

lemma byte_Suc: "x < 128 \<Longrightarrow> unat (x + 1 :: byte) = unat x + 1"
  by (simp add: unat_word_ariths word_less_nat_alt)

function mark_range :: "bool \<Rightarrow> byte \<Rightarrow> byte \<Rightarrow> scan_set \<Rightarrow> scan_set ub" where
  "mark_range exclude from to s =
     (if from \<le> to then (case mark_bit exclude from s of None \<Rightarrow> None | Some s' \<Rightarrow> mark_range exclude (from + 1) to s')
      else Some s)"
  by pat_completeness auto
termination
  by (relation "measure (\<lambda>(e, from, to, s). 256 - unat from)") (auto dest!: mark_bit_Some simp: byte_Suc word_less_nat_alt)

declare mark_range.simps [simp del]

text \<open>The last member of a range that starts at the position, if there is a range.\<close>

definition range_end :: "buffer_t \<Rightarrow> byte option ub" where
  "range_end b = do {
     byte \<leftarrow> peekbyte b 1;
     if byte = 0x2D then do { to \<leftarrow> peekbyte b 2; Some (if to \<noteq> 0x5D then Some to else None) } else Some None }"

lemma advance_left: "peekbyte b 0 = Some x \<Longrightarrow> x \<noteq> 0 \<Longrightarrow> 0 < n \<Longrightarrow> left (advance n b) < left b"
  by (auto simp: left_def advance_def peekbyte_def split: if_splits)

text \<open>The members of a set up to the closing bracket; \<open>False\<close> when it is missing.\<close>

function parse_set :: "bool \<Rightarrow> bool \<Rightarrow> scan_set \<Rightarrow> buffer_t \<Rightarrow> (bool \<times> scan_set \<times> buffer_t) ub" where
  "parse_set first exclude s b = (case peekbyte b 0 of None \<Rightarrow> None | Some byte \<Rightarrow>
     if byte = 0 then Some (False, s, b)
     else if \<not> first \<and> byte = 0x5D then
       (case (SET_BIT s byte, readbyte b) of (Some s1, Some (_, b1)) \<Rightarrow> parse_set True exclude s1 b1 | _ \<Rightarrow> None)
     else if \<not> first \<and> byte = 0x5E then
       (case peekbyte b 1 of None \<Rightarrow> None | Some nxt \<Rightarrow>
          if nxt = 0x5D then
            (case (UNSET_BIT (- 1, - 1) 0x5D, readbyte b) of
               (Some s1, Some (_, b1)) \<Rightarrow> (case readbyte b1 of None \<Rightarrow> None | Some (_, b2) \<Rightarrow> parse_set True True s1 b2)
             | _ \<Rightarrow> None)
          else (case readbyte b of None \<Rightarrow> None | Some (_, b1) \<Rightarrow> parse_set True True (- 1, - 1) b1))
     else if byte = 0x5D then map_option (\<lambda>(_, b1). (True, s, b1)) (readbyte b)
     else if byte < 128 then
       (case range_end b of None \<Rightarrow> None
        | Some (Some to) \<Rightarrow>
            (case mark_range exclude byte to s of None \<Rightarrow> None | Some s1 \<Rightarrow> parse_set True exclude s1 (advance 3 b))
        | Some None \<Rightarrow>
            (case (mark_bit exclude byte s, readbyte b) of
               (Some s1, Some (_, b1)) \<Rightarrow> parse_set True exclude s1 b1 | _ \<Rightarrow> None))
     else (case readbyte b of None \<Rightarrow> None | Some (_, b1) \<Rightarrow> parse_set True exclude s b1))"
  by pat_completeness auto
termination
proof (relation "measure (\<lambda>(f, e, s, b). left b)", goal_cases)
  case 3
  then show ?case by (fastforce dest: readbyte_left [OF _ _ sym] readbyte_left_le)
qed (auto dest: readbyte_left readbyte_left [OF _ _ sym] intro: advance_left)

declare parse_set.simps [simp del]

text \<open>The conversion byte is consumed even when it is not known.\<close>

definition parse_scan_specifier ::
  "getter \<Rightarrow> buffer_t \<Rightarrow> variadic_args \<Rightarrow> (scan_config \<times> buffer_t \<times> variadic_args) ub" where
  "parse_scan_specifier get b a = do {
     (arg_index, b1) \<leftarrow> scan_arg_index b;
     (fl1, b2) \<leftarrow> scan_flags 0 b1;
     (width, b3) \<leftarrow> scan_number b2;
     (modifier, b4) \<leftarrow> scan_modifier b3;
     (byte, b5) \<leftarrow> readbyte b4;
     let (ty, upper) = scan_conversion_of byte;
     let fl2 = (if upper then fl1 OR SCAN_UPPER_CASE else fl1);
     (closed, s, b6) \<leftarrow> (if ty = SCAN_SET then parse_set False False (0, 0) b5 else Some (True, (0, 0), b5));
     let c = \<lparr>sc_type = (if closed then ty else SCAN_UNKNOWN), sc_modifier = modifier, sc_flags = fl2, sc_width = width,
       sc_index = arg_index, sc_result = 0, sc_data = None, sc_set = s\<rparr>;
     if sc_type c \<noteq> SCAN_UNKNOWN \<and> \<not> scan_flag c SCAN_SUPPRESS_INPUT then do {
       (x, a1) \<leftarrow> get a arg_index;
       Some (c\<lparr>sc_data := Some x\<rparr>, b6, a1) }
     else Some (c, b6, a) }"

function consume_whitespaces :: "32 word \<Rightarrow> buffer_t \<Rightarrow> (32 word \<times> buffer_t) ub" where
  "consume_whitespaces count b = (case peekbyte b 0 of None \<Rightarrow> None | Some byte \<Rightarrow>
     if byte = 0 then Some (count, b)
     else if IS_SPACE byte then
       (case readbyte b of None \<Rightarrow> None | Some (_, b') \<Rightarrow> consume_whitespaces (count + 1) b')
     else Some (count, b))"
  by pat_completeness auto
termination by (relation "measure (\<lambda>(c, b). left b)") (auto dest: readbyte_left)

declare consume_whitespaces.simps [simp del]

section \<open>Numbers\<close>

text \<open>Storing a result: \<open>*value = ...\<close> with the bytes of the type.\<close>

definition store_at :: "memory \<Rightarrow> scan_config \<Rightarrow> byte list \<Rightarrow> memory ub" where
  "store_at m c bs = (case sc_data c of None \<Rightarrow> (if length bs \<le> 8 then Some m else None) | Some p \<Rightarrow> mem_write m p bs)"

type_synonym conv_result = "(32 word \<times> byte list \<times> buffer_t) ub"

definition as_bytes :: "nat \<Rightarrow> (32 word \<times> 'a::len word \<times> buffer_t) ub \<Rightarrow> conv_result" where
  "as_bytes k r = map_option (\<lambda>(n, v, b). (n, le_bytes k (unat v), b)) r"

definition scan_int :: "scan_mod \<Rightarrow> buffer_t \<Rightarrow> 32 word \<Rightarrow> conv_result" where
  "scan_int m b fl = (case m of
     PRINT_MOD_NONE \<Rightarrow> as_bytes 4 (iN_from_dec b fl :: (_ \<times> 32 word \<times> _) ub)
   | PRINT_MOD_SHORT \<Rightarrow> as_bytes 2 (iN_from_dec b fl :: (_ \<times> 16 word \<times> _) ub)
   | PRINT_MOD_SHORT_SHORT \<Rightarrow> as_bytes 1 (iN_from_dec b fl :: (_ \<times> 8 word \<times> _) ub)
   | PRINT_MOD_LONG_DOUBLE \<Rightarrow> as_bytes 4 (iN_from_dec b fl :: (_ \<times> 32 word \<times> _) ub)
   | _ \<Rightarrow> as_bytes 8 (iN_from_dec b fl :: (_ \<times> 64 word \<times> _) ub))"

definition scan_uint :: "scan_mod \<Rightarrow> buffer_t \<Rightarrow> 32 word \<Rightarrow> conv_result" where
  "scan_uint m b fl = (case m of
     PRINT_MOD_NONE \<Rightarrow> as_bytes 4 (uN_from_dec b fl :: (_ \<times> 32 word \<times> _) ub)
   | PRINT_MOD_SHORT \<Rightarrow> as_bytes 2 (uN_from_dec b fl :: (_ \<times> 16 word \<times> _) ub)
   | PRINT_MOD_SHORT_SHORT \<Rightarrow> as_bytes 1 (uN_from_dec b fl :: (_ \<times> 8 word \<times> _) ub)
   | PRINT_MOD_LONG_DOUBLE \<Rightarrow> as_bytes 4 (uN_from_dec b fl :: (_ \<times> 32 word \<times> _) ub)
   | _ \<Rightarrow> as_bytes 8 (uN_from_dec b fl :: (_ \<times> 64 word \<times> _) ub))"

text \<open>A prefix \<open>0b\<close> or \<open>0x\<close>, and the octal prefix \<open>0\<close> or \<open>0o\<close>.\<close>

definition skip_prefix :: "byte \<Rightarrow> buffer_t \<Rightarrow> (32 word \<times> buffer_t) ub" where
  "skip_prefix letter b = do {
     byte \<leftarrow> peekbyte b 0;
     if byte = 0x30 then do {
       byte2 \<leftarrow> peekbyte b 1;
       Some (if TO_LOWER byte2 = letter then (2, advance 2 b) else (0, b)) }
     else Some (0, b) }"

definition skip_octal_prefix :: "buffer_t \<Rightarrow> (32 word \<times> buffer_t) ub" where
  "skip_octal_prefix b = do {
     byte \<leftarrow> peekbyte b 0;
     if byte = 0x30 then do {
       (_, b1) \<leftarrow> readbyte b;
       byte2 \<leftarrow> peekbyte b1 0;
       if TO_LOWER byte2 = 0x6F then do { (_, b2) \<leftarrow> readbyte b1; Some (2, b2) } else Some (1, b1) }
     else Some (0, b) }"

definition plus_count :: "32 word \<Rightarrow> conv_result \<Rightarrow> conv_result" where
  "plus_count k r = map_option (\<lambda>(n, bs, b). (k + n, bs, b)) r"

definition scan_binary :: "scan_mod \<Rightarrow> buffer_t \<Rightarrow> conv_result" where
  "scan_binary m b0 = do {
     (k, b) \<leftarrow> skip_prefix 0x62 b0;
     plus_count k (case m of
       PRINT_MOD_NONE \<Rightarrow> as_bytes 4 (uN_from_bin b :: (_ \<times> 32 word \<times> _) ub)
     | PRINT_MOD_SHORT \<Rightarrow> as_bytes 2 (uN_from_bin b :: (_ \<times> 16 word \<times> _) ub)
     | PRINT_MOD_SHORT_SHORT \<Rightarrow> as_bytes 1 (uN_from_bin b :: (_ \<times> 8 word \<times> _) ub)
     | PRINT_MOD_LONG_DOUBLE \<Rightarrow> as_bytes 4 (uN_from_bin b :: (_ \<times> 32 word \<times> _) ub)
     | _ \<Rightarrow> as_bytes 8 (uN_from_bin b :: (_ \<times> 64 word \<times> _) ub)) }"

definition scan_octal :: "scan_mod \<Rightarrow> buffer_t \<Rightarrow> conv_result" where
  "scan_octal m b0 = do {
     (k, b) \<leftarrow> skip_octal_prefix b0;
     plus_count k (case m of
       PRINT_MOD_NONE \<Rightarrow> as_bytes 4 (uN_from_oct b :: (_ \<times> 32 word \<times> _) ub)
     | PRINT_MOD_SHORT \<Rightarrow> as_bytes 2 (uN_from_oct b :: (_ \<times> 16 word \<times> _) ub)
     | PRINT_MOD_SHORT_SHORT \<Rightarrow> as_bytes 1 (uN_from_oct b :: (_ \<times> 8 word \<times> _) ub)
     | PRINT_MOD_LONG_DOUBLE \<Rightarrow> as_bytes 4 (uN_from_oct b :: (_ \<times> 32 word \<times> _) ub)
     | _ \<Rightarrow> as_bytes 8 (uN_from_oct b :: (_ \<times> 64 word \<times> _) ub)) }"

definition scan_hex :: "scan_mod \<Rightarrow> buffer_t \<Rightarrow> conv_result" where
  "scan_hex m b0 = do {
     (k, b) \<leftarrow> skip_prefix 0x78 b0;
     plus_count k (case m of
       PRINT_MOD_NONE \<Rightarrow> as_bytes 4 (uN_from_hex b :: (_ \<times> 32 word \<times> _) ub)
     | PRINT_MOD_SHORT \<Rightarrow> as_bytes 2 (uN_from_hex b :: (_ \<times> 16 word \<times> _) ub)
     | PRINT_MOD_SHORT_SHORT \<Rightarrow> as_bytes 1 (uN_from_hex b :: (_ \<times> 8 word \<times> _) ub)
     | PRINT_MOD_LONG_DOUBLE \<Rightarrow> as_bytes 4 (uN_from_hex b :: (_ \<times> 32 word \<times> _) ub)
     | _ \<Rightarrow> as_bytes 8 (uN_from_hex b :: (_ \<times> 64 word \<times> _) ub)) }"

definition wide_float :: "scan_mod \<Rightarrow> bool" where
  "wide_float m \<longleftrightarrow> m = PRINT_MOD_LONG \<or> m = PRINT_MOD_LONG_LONG \<or> m = PRINT_MOD_LONG_DOUBLE"

definition scan_float :: "scan_mod \<Rightarrow> buffer_t \<Rightarrow> 32 word \<Rightarrow> conv_result" where
  "scan_float m b fl = (if wide_float m then as_bytes 8 (float64_from_normal b fl) else as_bytes 4 (float32_from_normal b fl))"

definition scan_float_hex :: "scan_mod \<Rightarrow> buffer_t \<Rightarrow> conv_result" where
  "scan_float_hex m b = (if wide_float m then as_bytes 8 (float64_from_hex b) else as_bytes 4 (float32_from_hex b))"

section \<open>Characters and strings\<close>

text \<open>\<open>utf8_decode(current(buffer), (uint8_t)pending(buffer), &codepoint)\<close>: the number of bytes that are
  left is cut to 8 bits. Decoding stops at the terminator of the string.\<close>

definition decode_at :: "buffer_t \<Rightarrow> (nat \<times> 32 word) ub" where
  "decode_at b = (let n = pending b mod 256 in
     if n = 0 then Some (0, 0)
     else Option.bind (b_data b) (\<lambda>d. if b_pos b < length d then Some (utf8_decode (take n (drop (b_pos b) d))) else None))"

definition unit_bytes :: "16 word list \<Rightarrow> byte list" where
  "unit_bytes us = concat (map (\<lambda>u. le_bytes 2 (unat u)) us)"

definition scan_char :: "memory \<Rightarrow> scan_config \<Rightarrow> buffer_t \<Rightarrow> (32 word \<times> buffer_t \<times> memory) ub" where
  "scan_char m c b =
     (if pending b = 0 then Some (0, b, m)
      else (case sc_modifier c of
        PRINT_MOD_LONG \<Rightarrow> do {
          (n, cp) \<leftarrow> decode_at b;
          let b1 = advance n b;
          if n \<noteq> 0 then do {
            m1 \<leftarrow> store_at m c (if cp > 0xFFFF then le_bytes 2 0xFFFF else unit_bytes (utf16_encode cp));
            Some (of_nat n, b1, m1) }
          else Some (0, b1, m) }
      | PRINT_MOD_LONG_LONG \<Rightarrow> do {
          (n, cp) \<leftarrow> decode_at b;
          let b1 = advance n b;
          if n \<noteq> 0 then do { m1 \<leftarrow> store_at m c (le_bytes 4 (unat cp)); Some (of_nat n, b1, m1) }
          else Some (0, b1, m) }
      | _ \<Rightarrow> do {
          (byte, b1) \<leftarrow> readbyte b;
          m1 \<leftarrow> store_at m c [byte];
          Some (1, b1, m1) }))"

text \<open>Where a string goes: to the caller's memory, as a buffer of \<open>UINT64_MAX\<close> bytes, or to a growing buffer.\<close>

datatype scan_out = OUT_MEM u64 nat | OUT_BUF buffer_t

type_synonym out_state = "memory \<times> scan_out"

definition out_writen :: "(nat \<Rightarrow> bool) \<Rightarrow> byte list \<Rightarrow> out_state \<Rightarrow> out_state ub" where
  "out_writen heap bs st = (case st of
     (m, OUT_MEM p pos) \<Rightarrow> map_option (\<lambda>m1. (m1, OUT_MEM p (pos + length bs))) (mem_write m (p + of_nat pos) bs)
   | (m, OUT_BUF b) \<Rightarrow> map_option (\<lambda>(_, b1). (m, OUT_BUF b1)) (writen heap b bs))"

text \<open>Successive calls of \<open>writebyte\<close>.\<close>

fun out_bytes :: "(nat \<Rightarrow> bool) \<Rightarrow> byte list \<Rightarrow> out_state \<Rightarrow> out_state ub" where
  "out_bytes heap [] st = Some st"
| "out_bytes heap (x # xs) st = Option.bind (out_writen heap [x] st) (out_bytes heap xs)"

text \<open>\<open>utf16_encode(current(&out), codepoint); advance(&out, count);\<close> stores without asking for room.\<close>

definition out_poke :: "byte list \<Rightarrow> out_state \<Rightarrow> out_state ub" where
  "out_poke bs st = (case st of
     (m, OUT_MEM p pos) \<Rightarrow> map_option (\<lambda>m1. (m1, OUT_MEM p (pos + length bs))) (mem_write m (p + of_nat pos) bs)
   | (m, OUT_BUF b) \<Rightarrow> map_option (\<lambda>b1. (m, OUT_BUF (advance (length bs) b1))) (copy_data (b_pos b) bs b))"

definition terminator :: "scan_mod \<Rightarrow> byte list" where
  "terminator m = (case m of PRINT_MOD_LONG \<Rightarrow> [0, 0] | PRINT_MOD_LONG_LONG \<Rightarrow> [0, 0, 0, 0] | _ \<Rightarrow> [0])"

function skip_word :: "32 word \<Rightarrow> buffer_t \<Rightarrow> (32 word \<times> buffer_t) ub" where
  "skip_word res b = (case peekbyte b 0 of None \<Rightarrow> None | Some byte \<Rightarrow>
     if byte = 0 \<or> IS_SPACE byte then Some (res, b)
     else (case readbyte b of None \<Rightarrow> None | Some (_, b1) \<Rightarrow> skip_word (res + 1) b1))"
  by pat_completeness auto
termination by (relation "measure (\<lambda>(c, b). left b)") (auto dest: readbyte_left)

text \<open>The loop over a word; the flag says that it ended normally and the terminator is to be written.\<close>

function string_loop :: "(nat \<Rightarrow> bool) \<Rightarrow> scan_mod \<Rightarrow> 32 word \<Rightarrow> out_state \<Rightarrow> buffer_t \<Rightarrow> (bool \<times> 32 word \<times> out_state \<times> buffer_t) ub" where
  "string_loop heap md res st b = (case peekbyte b 0 of None \<Rightarrow> None | Some byte \<Rightarrow>
     if byte = 0 \<or> IS_SPACE byte then Some (True, res, st, b)
     else if md = PRINT_MOD_LONG \<or> md = PRINT_MOD_LONG_LONG then
       (case decode_at b of None \<Rightarrow> None | Some (n, cp) \<Rightarrow>
          if n = 0 then Some (False, res, st, advance n b)
          else (case (if md = PRINT_MOD_LONG then out_poke (unit_bytes (utf16_encode cp)) st else out_writen heap (le_bytes 4 (unat cp)) st)
            of None \<Rightarrow> None | Some st1 \<Rightarrow> string_loop heap md (res + of_nat n) st1 (advance n b)))
     else (case (out_writen heap [byte] st, readbyte b) of
         (Some st1, Some (_, b1)) \<Rightarrow> string_loop heap md (res + 1) st1 b1
       | _ \<Rightarrow> None))"
  by pat_completeness auto
termination
  by (relation "measure (\<lambda>(h, md, res, st, b). left b)")
    (auto dest: readbyte_left readbyte_left [OF _ _ sym] intro: advance_left)

definition in_set :: "scan_set \<Rightarrow> byte \<Rightarrow> bool ub" where
  "in_set s byte = (if byte > 127 then Some False else GET_BIT s byte)"

function skip_set :: "scan_set \<Rightarrow> 32 word \<Rightarrow> buffer_t \<Rightarrow> (32 word \<times> buffer_t) ub" where
  "skip_set s res b = (case peekbyte b 0 of None \<Rightarrow> None | Some byte \<Rightarrow>
     if byte = 0 then Some (res, b)
     else (case in_set s byte of None \<Rightarrow> None | Some member \<Rightarrow>
       if \<not> member then Some (res, b)
       else (case readbyte b of None \<Rightarrow> None | Some (_, b1) \<Rightarrow> skip_set s (res + 1) b1)))"
  by pat_completeness auto
termination by (relation "measure (\<lambda>(s, c, b). left b)") (auto dest: readbyte_left)

definition wide_bytes :: "scan_mod \<Rightarrow> byte \<Rightarrow> byte list" where
  "wide_bytes md byte = (case md of PRINT_MOD_LONG \<Rightarrow> [byte, 0] | PRINT_MOD_LONG_LONG \<Rightarrow> [byte, 0, 0, 0] | _ \<Rightarrow> [byte])"

function set_loop :: "(nat \<Rightarrow> bool) \<Rightarrow> scan_mod \<Rightarrow> scan_set \<Rightarrow> 32 word \<Rightarrow> out_state \<Rightarrow> buffer_t \<Rightarrow> (32 word \<times> out_state \<times> buffer_t) ub" where
  "set_loop heap md s res st b = (case peekbyte b 0 of None \<Rightarrow> None | Some byte \<Rightarrow>
     if byte = 0 then Some (res, st, b)
     else (case in_set s byte of None \<Rightarrow> None | Some member \<Rightarrow>
       if \<not> member then Some (res, st, b)
       else (case (out_bytes heap (wide_bytes md byte) st, readbyte b) of
           (Some st1, Some (_, b1)) \<Rightarrow> set_loop heap md s (res + 1) st1 b1
         | _ \<Rightarrow> None)))"
  by pat_completeness auto
termination by (relation "measure (\<lambda>(h, md, s, c, st, b). left b)") (auto dest: readbyte_left [OF _ _ sym])

declare skip_word.simps [simp del] string_loop.simps [simp del] skip_set.simps [simp del] set_loop.simps [simp del]

text \<open>The environment of the allocation: the address of a new block.\<close>

record scan_env = env +
  env_addr :: "memory \<Rightarrow> byte list \<Rightarrow> u64"

definition out_start :: "memory \<Rightarrow> scan_config \<Rightarrow> out_state" where
  "out_start m c = (m, if scan_flag c SCAN_ALLOCATE_STRING then OUT_BUF growing_buffer
     else OUT_MEM (case sc_data c of None \<Rightarrow> 0 | Some p \<Rightarrow> p) 0)"

text \<open>\<open>*(void **)(config->data) = out.data\<close>: the block becomes part of the memory.\<close>

definition out_finish :: "scan_env \<Rightarrow> scan_config \<Rightarrow> out_state \<Rightarrow> memory ub" where
  "out_finish env c st = (case st of
     (m, OUT_MEM p pos) \<Rightarrow> Some m
   | (m, OUT_BUF b) \<Rightarrow> (case b_data b of
       None \<Rightarrow> store_at m c (le_bytes 8 0)
     | Some d \<Rightarrow> (let p = env_addr env m d in
         store_at (\<lambda>a. if unat (a - p) < length d then Some (d ! unat (a - p)) else m a) c (le_bytes 8 (unat p)))))"

definition scan_string :: "scan_env \<Rightarrow> memory \<Rightarrow> scan_config \<Rightarrow> buffer_t \<Rightarrow> (32 word \<times> buffer_t \<times> memory) ub" where
  "scan_string env m c b =
     (if scan_flag c SCAN_SUPPRESS_INPUT then do {
        (res, b1) \<leftarrow> skip_word 0 b;
        m1 \<leftarrow> out_finish env c (out_start m c);
        Some (res, b1, m1) }
      else do {
        (done, res, st, b1) \<leftarrow> string_loop (env_heap env) (sc_modifier c) 0 (out_start m c) b;
        st1 \<leftarrow> (if done then out_bytes (env_heap env) (terminator (sc_modifier c)) st else Some st);
        m1 \<leftarrow> out_finish env c st1;
        Some (res, b1, m1) })"

definition scan_set_string :: "scan_env \<Rightarrow> memory \<Rightarrow> scan_config \<Rightarrow> buffer_t \<Rightarrow> (32 word \<times> buffer_t \<times> memory) ub" where
  "scan_set_string env m c b =
     (if scan_flag c SCAN_SUPPRESS_INPUT then do {
        (res, b1) \<leftarrow> skip_set (sc_set c) 0 b;
        m1 \<leftarrow> out_finish env c (out_start m c);
        Some (res, b1, m1) }
      else do {
        (res, st, b1) \<leftarrow> set_loop (env_heap env) (sc_modifier c) (sc_set c) 0 (out_start m c) b;
        st1 \<leftarrow> out_bytes (env_heap env) (terminator (sc_modifier c)) st;
        m1 \<leftarrow> out_finish env c st1;
        Some (res, b1, m1) })"

section \<open>A conversion\<close>

definition store_conv :: "memory \<Rightarrow> scan_config \<Rightarrow> conv_result \<Rightarrow> (32 word \<times> buffer_t \<times> memory) ub" where
  "store_conv m c r = do {
     (n, bs, b) \<leftarrow> r;
     m1 \<leftarrow> store_at m c bs;
     Some (n, b, m1) }"

definition group_flag :: "scan_config \<Rightarrow> 32 word" where
  "group_flag c = ucast (sc_flags c AND SCAN_GROUP_DIGITS)"

definition do_scan :: "scan_env \<Rightarrow> memory \<Rightarrow> buffer_t \<Rightarrow> scan_config \<Rightarrow> (32 word \<times> buffer_t \<times> memory) ub" where
  "do_scan env m b c = (case sc_type c of
     SCAN_INT_NUMBER \<Rightarrow> store_conv m c (scan_int (sc_modifier c) b (group_flag c))
   | SCAN_UINT_NUMBER \<Rightarrow> store_conv m c (scan_uint (sc_modifier c) b (group_flag c))
   | SCAN_UINT_BINARY \<Rightarrow> store_conv m c (scan_binary (sc_modifier c) b)
   | SCAN_UINT_OCTAL \<Rightarrow> store_conv m c (scan_octal (sc_modifier c) b)
   | SCAN_UINT_HEX \<Rightarrow> store_conv m c (scan_hex (sc_modifier c) b)
   | SCAN_DOUBLE_NORMAL \<Rightarrow> store_conv m c (scan_float (sc_modifier c) b (group_flag c))
   | SCAN_DOUBLE_SCIENTIFIC \<Rightarrow> store_conv m c (scan_float (sc_modifier c) b (group_flag c))
   | SCAN_DOUBLE_SCIENTIFIC_SHORT \<Rightarrow> store_conv m c (scan_float (sc_modifier c) b (group_flag c))
   | SCAN_DOUBLE_HEX \<Rightarrow> store_conv m c (scan_float_hex (sc_modifier c) b)
   | SCAN_CHAR \<Rightarrow> scan_char m c b
   | SCAN_STRING \<Rightarrow> scan_string env m c b
   | SCAN_SET \<Rightarrow> scan_set_string env m c b
   | SCAN_POINTER \<Rightarrow> store_conv m c (as_bytes 8 (pointer_decode b))
   | SCAN_RESULT \<Rightarrow> do {
       m1 \<leftarrow> store_at m c (le_bytes (result_size (sc_modifier c)) (unat (sc_result c)));
       Some (0, b, m1) }
   | SCAN_UNKNOWN \<Rightarrow> Some (0, b, m))"

text \<open>A width sets the end of the buffer for the conversion, also behind the end of the string.\<close>

definition scan_arg :: "scan_env \<Rightarrow> memory \<Rightarrow> buffer_t \<Rightarrow> scan_config \<Rightarrow> (32 word \<times> buffer_t \<times> memory) ub" where
  "scan_arg env m b c = do {
     (res, b1) \<leftarrow> (if sc_type c \<noteq> SCAN_RESULT \<and> sc_type c \<noteq> SCAN_CHAR \<and> sc_type c \<noteq> SCAN_SET
       then consume_whitespaces 0 b else Some (0, b));
     let b2 = (if sc_width c > 0 then b1\<lparr>b_size := b_pos b1 + unat (sc_width c)\<rparr> else b1);
     (n, b3, m1) \<leftarrow> do_scan env m b2 c;
     Some (res + n, if sc_width c > 0 then b3\<lparr>b_size := b_size b1\<rparr> else b3, m1) }"

section \<open>Parsing moves forward\<close>

lemma scan_flags_moved: "scan_flags f b = Some (n, b') \<Longrightarrow> moved b b'"
proof (induction f b rule: scan_flags.induct)
  case (1 fl b)
  from 1(2) show ?case
    by (subst (asm) scan_flags.simps)
      (auto split: option.splits if_splits intro: moved_trans [OF readbyte_moved 1(1)])
qed

lemma advance_moved: "peekbyte b 0 = Some x \<Longrightarrow> x \<noteq> 0 \<Longrightarrow> moved b (advance n b)"
  by (auto simp: moved_def advance_def peekbyte_def split: if_splits)

lemma parse_set_moved: "parse_set f e s b = Some (r, s', b') \<Longrightarrow> moved b b'"
proof (induction "left b" arbitrary: f e s b rule: less_induct)
  case less
  have again: "moved b b'" if "parse_set f1 e1 s1 b1 = Some (r, s', b')" "left b1 < left b" "moved b b1" for f1 e1 s1 b1
    using less.hyps [OF that(2,1)] that(3) moved_trans by blast
  show ?case
  proof (cases "\<exists>x. peekbyte b 0 = Some x \<and> x \<noteq> 0")
    case True
    then obtain x where x: "peekbyte b 0 = Some x" "x \<noteq> 0" by blast
    have one: "moved b b'" if "parse_set f1 e1 s1 b1 = Some (r, s', b')" "readbyte b = Some (y, b1)" for f1 e1 s1 b1 y
      using again [OF that(1) readbyte_left [OF x that(2)] readbyte_moved [OF that(2)]] .
    have two: "moved b b'" if "parse_set f1 e1 s1 b2 = Some (r, s', b')" "readbyte b = Some (y, b1)" "readbyte b1 = Some (z, b2)"
      for f1 e1 s1 b1 b2 y z
      using again [OF that(1)] readbyte_left [OF x that(2)] readbyte_left_le [OF that(3)] moved_trans [OF readbyte_moved [OF that(2)] readbyte_moved [OF that(3)]]
      by fastforce
    have three: "moved b b'" if "parse_set f1 e1 s1 (advance 3 b) = Some (r, s', b')" for f1 e1 s1
      using again [OF that advance_left [OF x] advance_moved [OF x]] by simp
    from less.prems x show ?thesis
      by (subst (asm) parse_set.simps) (auto split: option.splits if_splits dest: one two three readbyte_moved)
  next
    case False
    then show ?thesis using less.prems by (subst (asm) parse_set.simps) (auto split: option.splits)
  qed
qed

lemma parse_scan_specifier_moved:
  assumes "parse_scan_specifier get b a = Some (c, b', a')"
  shows "moved b b'"
proof -
  obtain i b1 f b2 w b3 m b4 x b5 where s: "parse_arg_index b = Some (i, b1)" "scan_flags 0 b1 = Some (f, b2)"
      "parse_number 0 b2 = Some (w, b3)" "parse_modifier b3 = Some (m, b4)" "readbyte b4 = Some (x, b5)"
      "b' = b5 \<or> (\<exists>r s. parse_set False False (0, 0) b5 = Some (r, s, b'))"
    using assms by (auto simp: parse_scan_specifier_def scan_arg_index_def scan_number_def scan_modifier_def Let_def
      split: Option.bind_split_asm if_split_asm prod.split_asm)
  have "moved b b5"
    by (intro moved_trans [OF parse_arg_index_moved [OF s(1)]] moved_trans [OF scan_flags_moved [OF s(2)]]
      moved_trans [OF parse_number_moved [OF s(3)]] moved_trans [OF parse_modifier_moved [OF s(4)]] readbyte_moved [OF s(5)])
  then show ?thesis using s(6) by (auto dest: parse_set_moved intro: moved_trans)
qed

section \<open>The format loop\<close>

text \<open>The results are the value returned, the buffer and the memory; \<open>result\<close> counts the conversions
  and \<open>processed\<close> the bytes.\<close>

function scanf_loop ::
  "scan_env \<Rightarrow> getter \<Rightarrow> buffer_t \<Rightarrow> variadic_args \<Rightarrow> memory \<Rightarrow> 32 word \<Rightarrow> 32 word \<Rightarrow> buffer_t \<Rightarrow> (32 word \<times> buffer_t \<times> memory) ub" where
  "scanf_loop env get inp a m processed result b = (case readbyte inp of None \<Rightarrow> None | Some (byte, in1) \<Rightarrow>
     if byte = 0 then Some (result, b, m)
     else if byte = 0x25 then
       (case peekbyte in1 0 of None \<Rightarrow> None | Some byte2 \<Rightarrow>
          if byte2 = 0 then Some (result, b, m)
          else if byte2 = 0x25 then
            (case peekbyte b 0 of None \<Rightarrow> None | Some x \<Rightarrow>
               if x \<noteq> byte2 then Some (result, b, m)
               else (case (readbyte in1, readbyte b) of
                   (Some (_, in2), Some (_, b1)) \<Rightarrow> scanf_loop env get in2 a m (processed + 1) result b1
                 | _ \<Rightarrow> None))
          else (case parse_scan_specifier get in1 a of None \<Rightarrow> None | Some (c, in2, a1) \<Rightarrow>
            if sc_type c = SCAN_UNKNOWN then Some (- 1, b, m)
            else (case scan_arg env m b (c\<lparr>sc_result := ucast processed\<rparr>) of None \<Rightarrow> None
              | Some (count, b1, m1) \<Rightarrow>
                  if b_error b1 then Some (- 1, b1, m1)
                  else if sc_type c \<noteq> SCAN_RESULT \<and> \<not> scan_flag c SCAN_SUPPRESS_INPUT then
                    (case peekbyte in2 0 of None \<Rightarrow> None | Some nxt \<Rightarrow>
                       if count = 0 \<and> (sc_type c \<noteq> SCAN_SET \<or> nxt = 0) then Some (result, b1, m1)
                       else scanf_loop env get in2 a1 m1 (processed + count) (result + 1) b1)
                  else scanf_loop env get in2 a1 m1 (processed + count) result b1)))
     else if IS_SPACE byte then
       (case consume_whitespaces 0 b of None \<Rightarrow> None
        | Some (n, b1) \<Rightarrow> scanf_loop env get in1 a m (processed + n) result b1)
     else (case peekbyte b 0 of None \<Rightarrow> None | Some x \<Rightarrow>
       if x \<noteq> byte then Some (result, b, m)
       else (case readbyte b of None \<Rightarrow> None
         | Some (_, b1) \<Rightarrow> scanf_loop env get in1 a m (processed + 1) result b1)))"
  by pat_completeness auto
termination
proof (relation "measure (\<lambda>(env, get, inp, a, m, p, r, b). left inp)", goal_cases)
  case 2
  then show ?case by (fastforce dest: readbyte_nonzero_left readbyte_left_le [OF sym])
next
  case 3
  then show ?case by (auto dest!: readbyte_nonzero_left parse_scan_specifier_moved moved_left)
next
  case 4
  then show ?case by (auto dest!: readbyte_nonzero_left parse_scan_specifier_moved moved_left)
next
  case 5
  then show ?case by (auto dest!: readbyte_nonzero_left)
next
  case 6
  then show ?case by (auto dest!: readbyte_nonzero_left)
qed simp

declare scanf_loop.simps [simp del]

definition wlibc_scanf_internal ::
  "scan_env \<Rightarrow> buffer_t \<Rightarrow> byte list \<Rightarrow> u64 list \<Rightarrow> memory \<Rightarrow> (32 word \<times> buffer_t \<times> memory) ub" where
  "wlibc_scanf_internal env b fmt xs m =
     scanf_loop env (variadic_args_get (env_heap env) (env_junk env)) (format_buffer fmt) (variadic_args_init xs) m 0 0 b"

text \<open>The stream is only compared with NULL: the buffer that is scanned is empty.\<close>

definition wlibc_vfscanf :: "scan_env \<Rightarrow> 'f option \<Rightarrow> byte list option \<Rightarrow> u64 list \<Rightarrow> memory \<Rightarrow> (int res \<times> memory) ub" where
  "wlibc_vfscanf env stream fmt xs m = (case fmt of
     None \<Rightarrow> Some (fail_with EINVAL, m)
   | Some f \<Rightarrow> (case stream of
       None \<Rightarrow> Some (fail_silent, m)
     | Some _ \<Rightarrow> do {
         (r, b, m1) \<leftarrow> wlibc_scanf_internal env
            \<lparr>b_data = None, b_pos = 0, b_size = 0, b_write = WRITE_NULL, b_error = False\<rparr> f xs m;
         Some (Inr (sint r), m1) }))"

text \<open>The buffer over a string, with its terminator behind the end.\<close>

definition string_buffer :: "byte list \<Rightarrow> buffer_t" where
  "string_buffer str = (let s = takeWhile (\<lambda>x. x \<noteq> 0) str in
     \<lparr>b_data = Some (s @ [0]), b_pos = 0, b_size = (if int (length s) \<le> 65536 then length s else 65536),
       b_write = WRITE_NULL, b_error = False\<rparr>)"

definition wlibc_vsscanf :: "scan_env \<Rightarrow> byte list option \<Rightarrow> byte list option \<Rightarrow> u64 list \<Rightarrow> memory \<Rightarrow> (int res \<times> memory) ub" where
  "wlibc_vsscanf env str fmt xs m = (case (fmt, str) of
     (Some f, Some s) \<Rightarrow> do {
       (r, b, m1) \<leftarrow> wlibc_scanf_internal env (string_buffer s) f xs m;
       Some (Inr (sint r), m1) }
   | _ \<Rightarrow> Some (fail_with EINVAL, m))"

end
