(* ===== verification/ScanfProps.thy ===== *)
theory ScanfProps
  imports Scanf PrintfProps
begin

unbundle bit_operations_syntax

text \<open>
  What formatted output writes, formatted input reads back. The locale \<open>scanned\<close> is the contract
  between a conversion and the format loop: from the text of a value, the conversion consumes exactly
  the text and delivers the bytes of the value. The decimal, hexadecimal, octal and pointer
  conversions are its instances.
\<close>

section \<open>Bytes in memory\<close>

lemma byte_of_nat_mod: "(of_nat (n mod (256 * m)) :: byte) = of_nat n"
proof -
  have "n = (n div (256 * m)) * (256 * m) + n mod (256 * m)" by (rule div_mult_mod_eq [symmetric])
  then have "of_nat n = (of_nat ((n div (256 * m)) * (256 * m)) + of_nat (n mod (256 * m)) :: byte)" by (metis of_nat_add)
  moreover have "(of_nat 256 :: byte) = 0" by simp
  then have "(of_nat ((n div (256 * m)) * (256 * m)) :: byte) = 0" unfolding of_nat_mult by (simp only: mult_zero_left mult_zero_right)
  ultimately show ?thesis by (simp only: add_0)
qed

lemma le_bytes_mod: "le_bytes k (n mod 256 ^ k) = le_bytes k n"
proof (induction k arbitrary: n)
  case (Suc k)
  have "n mod 256 ^ Suc k div 256 = n div 256 mod 256 ^ k" by (simp add: mod_mult2_eq)
  then show ?case using Suc.IH [of "n div 256"] byte_of_nat_mod [of n "256 ^ k"] by simp
qed simp

lemma le_bytes_narrow:
  "le_bytes 4 (unat (ucast x :: 32 word)) = le_bytes 4 (unat (x :: u64))"
  "le_bytes 2 (unat (ucast x :: 16 word)) = le_bytes 2 (unat x)"
  "le_bytes 1 (unat (ucast x :: 8 word)) = le_bytes 1 (unat x)"
  using le_bytes_mod [of 4 "unat x"] le_bytes_mod [of 2 "unat x"] le_bytes_mod [of 1 "unat x"]
  by (simp_all add: unsigned_ucast_eq take_bit_eq_mod)

text \<open>The region of \<open>n\<close> bytes at \<open>p\<close> is mapped; two regions do not meet.\<close>

definition region :: "memory \<Rightarrow> u64 \<Rightarrow> nat \<Rightarrow> bool" where
  "region m p n \<longleftrightarrow> (\<forall>i < n. m (p + of_nat i) \<noteq> None)"

definition apart :: "u64 \<Rightarrow> nat \<Rightarrow> u64 \<Rightarrow> nat \<Rightarrow> bool" where
  "apart p n q k \<longleftrightarrow> (\<forall>i < n. \<forall>j < k. p + of_nat i \<noteq> q + of_nat j)"

lemma mem_write_region:
  "region m p (length bs) \<Longrightarrow> length bs < 2 ^ 64 \<Longrightarrow>
   \<exists>m'. mem_write m p bs = Some m' \<and> (\<forall>i < length bs. m' (p + of_nat i) = Some (bs ! i))
     \<and> (\<forall>a. (\<forall>i < length bs. a \<noteq> p + of_nat i) \<longrightarrow> m' a = m a)"
proof (induction bs arbitrary: m p)
  case (Cons x xs)
  have tail: "region (m(p \<mapsto> x)) (p + 1) (length xs)"
    using Cons.prems(1) unfolding region_def by (auto simp: add.assoc dest: spec [of _ "Suc _"])
  obtain m' where m': "mem_write (m(p \<mapsto> x)) (p + 1) xs = Some m'" "\<forall>i < length xs. m' (p + 1 + of_nat i) = Some (xs ! i)"
      "\<forall>a. (\<forall>i < length xs. a \<noteq> p + 1 + of_nat i) \<longrightarrow> m' a = (m(p \<mapsto> x)) a"
    using Cons.IH [OF tail] Cons.prems(2) by (metis Suc_lessD length_Cons)
  have p: "m p \<noteq> None" using Cons.prems(1) by (auto simp: region_def dest: spec [of _ 0])
  have ne: "p \<noteq> p + 1 + of_nat i" if "i < length xs" for i
  proof -
    have "\<not> 2 ^ 64 dvd Suc i" using that Cons.prems(2) nat_dvd_not_less [of "Suc i" "2 ^ 64"] by simp
    then have "of_nat (Suc i) \<noteq> (0 :: u64)" unfolding word_of_nat_eq_0_iff by simp
    then show ?thesis by (simp add: add.assoc)
  qed
  then have "m' p = Some x" using m'(3) by simp
  then have "m' (p + of_nat i) = Some ((x # xs) ! i)" if "i < Suc (length xs)" for i
    using m'(2) that by (cases i) (auto simp: add.assoc)
  moreover have "m' a = m a" if "\<forall>i < Suc (length xs). a \<noteq> p + of_nat i" for a
    using m'(3) that [rule_format, of 0] that [rule_format, of "Suc _"] by (auto simp: add.assoc)
  ultimately show ?case using m'(1) p by auto
qed simp

lemma mem_read_eq: "(\<And>i. i < length bs \<Longrightarrow> m (p + of_nat i) = Some (bs ! i)) \<Longrightarrow> mem_read m p (length bs) = Some bs"
proof (induction bs arbitrary: p)
  case (Cons x xs)
  have "mem_read m (p + 1) (length xs) = Some xs" using Cons.IH [of "p + 1"] Cons.prems [of "Suc _"] by (simp add: add.assoc)
  then show ?case using Cons.prems [of 0] by simp
qed simp

lemma mem_read_cong: "(\<And>i. i < n \<Longrightarrow> m (p + of_nat i) = m' (p + of_nat i)) \<Longrightarrow> mem_read m p n = mem_read m' p n"
proof (induction n arbitrary: p)
  case (Suc n)
  have "mem_read m (p + 1) n = mem_read m' (p + 1) n" using Suc.IH [of "p + 1"] Suc.prems [of "Suc _"] by (simp add: add.assoc)
  then show ?case using Suc.prems [of 0] by simp
qed simp

text \<open>A store can be read back and leaves the other regions alone.\<close>

lemma mem_write_reads:
  assumes "region m p (length bs)" "length bs < 2 ^ 64"
  shows "\<exists>m'. mem_write m p bs = Some m' \<and> mem_read m' p (length bs) = Some bs
    \<and> (\<forall>q k. apart p (length bs) q k \<longrightarrow> mem_read m' q k = mem_read m q k)
    \<and> (\<forall>q k. region m q k \<longrightarrow> region m' q k)"
proof -
  obtain m' where m': "mem_write m p bs = Some m'" "\<forall>i < length bs. m' (p + of_nat i) = Some (bs ! i)"
      "\<forall>a. (\<forall>i < length bs. a \<noteq> p + of_nat i) \<longrightarrow> m' a = m a" using mem_write_region [OF assms] by blast
  have "mem_read m' q k = mem_read m q k" if "apart p (length bs) q k" for q k
    using that m'(3) by (intro mem_read_cong) (metis apart_def)
  moreover have "region m' q k" if "region m q k" for q k
    unfolding region_def
  proof (intro allI impI)
    fix i assume "i < k"
    then show "m' (q + of_nat i) \<noteq> None" using that m'(2,3) by (cases "\<exists>j < length bs. q + of_nat i = p + of_nat j") (auto simp: region_def)
  qed
  ultimately show ?thesis using m' mem_read_eq [of bs m' p] by blast
qed

section \<open>The contract of a conversion\<close>

text \<open>What may follow a number so that every conversion stops there.\<close>

definition sep :: "byte list \<Rightarrow> bool" where
  "sep ys \<longleftrightarrow> ys = [] \<or> (hex_to_nibble_table (hd ys) = 255 \<and> TO_LOWER (hd ys) \<noteq> 0x78 \<and> TO_LOWER (hd ys) \<noteq> 0x6F)"

locale scanned =
  fixes "text" :: "scan_mod \<Rightarrow> u64 \<Rightarrow> byte list" and conv :: "scan_mod \<Rightarrow> buffer_t \<Rightarrow> conv_result" and bytes :: "scan_mod \<Rightarrow> nat"
  assumes reads: "reads_at b (text m x @ ys) \<Longrightarrow> sep ys \<Longrightarrow>
      \<exists>b'. conv m b = Some (of_nat (length (text m x)), le_bytes (bytes m) (unat x), b') \<and> reads_at b' ys"
    and starts: "text m x \<noteq> []" "\<not> IS_SPACE (hd (text m x))" "hd (text m x) \<noteq> 0"
begin

lemma no_whitespace: "reads_at b (text m x @ ys) \<Longrightarrow> consume_whitespaces 0 b = Some (0, b)"
  using starts [of m x] by (subst consume_whitespaces.simps) (simp add: reads_peek)

text \<open>A conversion without a width stores the value.\<close>

lemma scan_arg_stores:
  assumes src: "reads_at b (text m x @ ys)" and ys: "sep ys"
    and c: "sc_type c \<notin> {SCAN_RESULT, SCAN_CHAR, SCAN_SET}" "sc_width c = 0"
    and run: "\<And>b. do_scan env M b c = store_conv M c (conv m b)" and st: "store_at M c (le_bytes (bytes m) (unat x)) = Some M'"
  shows "\<exists>b'. scan_arg env M b c = Some (of_nat (length (text m x)), b', M') \<and> reads_at b' ys"
proof -
  obtain b' where b': "conv m b = Some (of_nat (length (text m x)), le_bytes (bytes m) (unat x), b')" "reads_at b' ys"
    using reads [OF src ys] by blast
  have "scan_arg env M b c = Some (of_nat (length (text m x)), b', M')"
    using no_whitespace [OF src] c run [of b] b'(1) st by (simp add: scan_arg_def store_conv_def)
  then show ?thesis using b'(2) by blast
qed

end

section \<open>Decimal conversions\<close>

definition int_txt :: "scan_mod \<Rightarrow> u64 \<Rightarrow> byte list" where
  "int_txt m x = sign_text [] (view_int m x) @ dec_digits False (nat \<bar>view_int m x\<bar>)"

definition uint_txt :: "scan_mod \<Rightarrow> u64 \<Rightarrow> byte list" where
  "uint_txt m x = dec_digits False (unat (view_uint m x))"

lemma sep_stops: "sep ys \<Longrightarrow> stops False ys"
  by (auto simp: sep_def stops_def hex_to_nibble_table_def IS_DIGIT_def)

lemma unat_widen:
  "unat (ucast (y :: 32 word) :: u64) = unat y" "unat (ucast (z :: 16 word) :: u64) = unat z" "unat (ucast (v :: 8 word) :: u64) = unat v"
  using unsigned_less [of y, where ?'a = nat] unsigned_less [of z, where ?'a = nat] unsigned_less [of v, where ?'a = nat]
  by (simp_all add: unsigned_ucast_eq take_bit_nat_eq_self)

lemma le_bytes_view: "le_bytes (result_size m) (unat (view_uint m x)) = le_bytes (result_size m) (unat x)"
  using le_bytes_narrow [of x] by (cases m) (simp_all only: result_size_def view_uint_def unat_widen print_mod.case)

lemma scan_uint_eq: "scan_uint m b fl = as_bytes (result_size m) (uint_from_dec_common b fl)"
  using le_bytes_narrow
  by (cases "uint_from_dec_common b fl"; cases m)
    (auto simp: scan_uint_def as_bytes_def result_size_def uN_from_dec_def narrow_def simp del: le_bytes.simps)

lemma scan_int_eq:
  assumes "int_from_dec_common b fl = Some (n, view_int m x, b')"
  shows "scan_int m b fl = Some (n, le_bytes (result_size m) (unat x), b')"
  using assms le_bytes_narrow [of x]
  by (cases m) (simp_all add: scan_int_def as_bytes_def result_size_def iN_from_dec_def view_int_def)

lemma dec_digits_first:
  "dec_digits False n \<noteq> [] \<and> (\<exists>d < 10. hd (dec_digits False n) = dchr d)"
  using dec_text_last [of False n] by (auto simp: dec_digits_def dec_text_def hd_rev)

lemma dchr_no_space: "d < 10 \<Longrightarrow> \<not> IS_SPACE (dchr d) \<and> dchr d \<noteq> 0"
proof -
  have "list_all (\<lambda>d. \<not> IS_SPACE (dchr d)) [0..<10]" by code_simp
  then show "d < 10 \<Longrightarrow> \<not> IS_SPACE (dchr d) \<and> dchr d \<noteq> 0" using dchr_digit(2) by (simp add: list_all_iff del: upt_Suc)
qed

interpretation sint: scanned int_txt "\<lambda>m b. scan_int m b 0" result_size
proof unfold_locales
  fix b m x ys assume src: "reads_at b (int_txt m x @ ys)" and ys: "sep ys"
  have enc: "int_to_dec_common (view_int m x) 0 = Some (int_txt m x)"
    using int_to_dec_exact [OF view_int_bounds, of False 0 m x] by (simp add: int_txt_def sign_text_def)
  then obtain b' where "int_from_dec_common b 0 = Some (of_nat (length (int_txt m x)), view_int m x, b')" "buf_inv b'" "rest b' = ys"
    using int_dec_reads [OF _ view_int_bounds, of b m x 0 ys] src sep_stops [OF ys] by (auto simp: reads_at_def)
  then show "\<exists>b'. scan_int m b 0 = Some (of_nat (length (int_txt m x)), le_bytes (result_size m) (unat x), b') \<and> reads_at b' ys"
    using scan_int_eq by (auto simp: reads_at_def)
next
  fix m x
  have "\<not> IS_SPACE 0x2D" by (simp add: IS_SPACE_def)
  then show "int_txt m x \<noteq> []" "\<not> IS_SPACE (hd (int_txt m x))" "hd (int_txt m x) \<noteq> 0"
    using dec_digits_first [of "nat \<bar>view_int m x\<bar>"] dchr_no_space by (auto simp: int_txt_def sign_text_def)
qed

interpretation suint: scanned uint_txt "\<lambda>m b. scan_uint m b 0" result_size
proof unfold_locales
  fix b m x ys assume src: "reads_at b (uint_txt m x @ ys)" and ys: "sep ys"
  have "uint_to_dec_common (view_uint m x) 0 = Some (uint_txt m x)" unfolding uint_to_dec_text by (simp add: uint_txt_def dec_digits_def)
  then obtain b' where "uint_from_dec_common b 0 = Some (of_nat (length (uint_txt m x)), view_uint m x, b')" "buf_inv b'" "rest b' = ys"
    using uint_dec_reads [of b "view_uint m x" 0 ys] src sep_stops [OF ys] by (auto simp: reads_at_def)
  then show "\<exists>b'. scan_uint m b 0 = Some (of_nat (length (uint_txt m x)), le_bytes (result_size m) (unat x), b') \<and> reads_at b' ys"
    by (simp add: scan_uint_eq as_bytes_def le_bytes_view reads_at_def)
next
  fix m x
  show "uint_txt m x \<noteq> []" "\<not> IS_SPACE (hd (uint_txt m x))" "hd (uint_txt m x) \<noteq> 0"
    using dec_digits_first [of "unat (view_uint m x)"] dchr_no_space by (auto simp: uint_txt_def)
qed

section \<open>Hexadecimal, octal and pointers\<close>

definition hex_txt :: "bool \<Rightarrow> scan_mod \<Rightarrow> u64 \<Rightarrow> byte list" where
  "hex_txt up m x = base_digits 16 (\<lambda>d. (if up then hex_upper_table else hex_lower_table) ! d) (unat (view_uint m x))"

definition oct_txt :: "scan_mod \<Rightarrow> u64 \<Rightarrow> byte list" where
  "oct_txt m x = base_digits 8 dchr (unat (view_uint m x))"

definition ptr_txt :: "scan_mod \<Rightarrow> u64 \<Rightarrow> byte list" where
  "ptr_txt m x = pointer_encode x"

lemma scan_hex_eq:
  "scan_hex m b0 = do { (k, b) \<leftarrow> skip_prefix 0x78 b0; plus_count k (as_bytes (result_size m) (uint_from_hex_common b)) }"
proof -
  have "(case m of PRINT_MOD_NONE \<Rightarrow> as_bytes 4 (uN_from_hex b :: (_ \<times> 32 word \<times> _) ub)
     | PRINT_MOD_SHORT \<Rightarrow> as_bytes 2 (uN_from_hex b :: (_ \<times> 16 word \<times> _) ub)
     | PRINT_MOD_SHORT_SHORT \<Rightarrow> as_bytes 1 (uN_from_hex b :: (_ \<times> 8 word \<times> _) ub)
     | PRINT_MOD_LONG_DOUBLE \<Rightarrow> as_bytes 4 (uN_from_hex b :: (_ \<times> 32 word \<times> _) ub)
     | _ \<Rightarrow> as_bytes 8 (uN_from_hex b :: (_ \<times> 64 word \<times> _) ub)) = as_bytes (result_size m) (uint_from_hex_common b)" for b
    using le_bytes_narrow
    by (cases "uint_from_hex_common b"; cases m) (auto simp: as_bytes_def result_size_def uN_from_hex_def narrow_def simp del: le_bytes.simps)
  then show ?thesis by (simp add: scan_hex_def)
qed

lemma scan_octal_eq:
  "scan_octal m b0 = do { (k, b) \<leftarrow> skip_octal_prefix b0; plus_count k (as_bytes (result_size m) (uint_from_oct_common b)) }"
proof -
  have "(case m of PRINT_MOD_NONE \<Rightarrow> as_bytes 4 (uN_from_oct b :: (_ \<times> 32 word \<times> _) ub)
     | PRINT_MOD_SHORT \<Rightarrow> as_bytes 2 (uN_from_oct b :: (_ \<times> 16 word \<times> _) ub)
     | PRINT_MOD_SHORT_SHORT \<Rightarrow> as_bytes 1 (uN_from_oct b :: (_ \<times> 8 word \<times> _) ub)
     | PRINT_MOD_LONG_DOUBLE \<Rightarrow> as_bytes 4 (uN_from_oct b :: (_ \<times> 32 word \<times> _) ub)
     | _ \<Rightarrow> as_bytes 8 (uN_from_oct b :: (_ \<times> 64 word \<times> _) ub)) = as_bytes (result_size m) (uint_from_oct_common b)" for b
    using le_bytes_narrow
    by (cases "uint_from_oct_common b"; cases m) (auto simp: as_bytes_def result_size_def uN_from_oct_def narrow_def simp del: le_bytes.simps)
  then show ?thesis by (simp add: scan_octal_def)
qed

lemma digits_leading: "1 < B \<Longrightarrow> 0 < n \<Longrightarrow> last (digits B n) \<noteq> 0"
proof (induction B n rule: digits.induct)
  case (1 B n)
  show ?case
  proof (cases "n < B")
    case False
    then have "0 < n div B" using 1(2) by (simp add: div_greater_zero_iff)
    then show ?thesis using 1 False by (simp add: digits_step)
  qed (use 1 in \<open>simp add: digits_small\<close>)
qed

text \<open>The first digit of a text is 0 only when the text is \<open>0\<close>.\<close>

lemma base_digits_hd:
  assumes "1 < B"
  shows "base_digits B chr n \<noteq> []" "hd (base_digits B chr n) = chr (last (digits B n))"
    "n = 0 \<Longrightarrow> base_digits B chr n = [chr 0]"
  using assms by (auto simp: base_digits_def hd_map hd_rev digits_small)

lemma last_digit: "1 < B \<Longrightarrow> last (digits B n) < B"
  using digits_less [of B "last (digits B n)" n] by simp

lemma hex_chars:
  assumes "d < 16"
  shows "\<not> IS_SPACE ((if up then hex_upper_table else hex_lower_table) ! d)" "(if up then hex_upper_table else hex_lower_table) ! d \<noteq> 0"
    "(if up then hex_upper_table else hex_lower_table) ! d = 0x30 \<longleftrightarrow> d = 0"
proof -
  have "list_all (\<lambda>d. \<forall>t \<in> {hex_upper_table, hex_lower_table}. \<not> IS_SPACE (t ! d) \<and> t ! d \<noteq> 0 \<and> (t ! d = 0x30 \<longleftrightarrow> d = 0)) [0..<16]"
    by code_simp
  then show "\<not> IS_SPACE ((if up then hex_upper_table else hex_lower_table) ! d)" "(if up then hex_upper_table else hex_lower_table) ! d \<noteq> 0"
    "(if up then hex_upper_table else hex_lower_table) ! d = 0x30 \<longleftrightarrow> d = 0"
    using assms by (auto simp: list_all_iff simp del: upt_Suc)
qed

lemma oct_char: "d < 8 \<Longrightarrow> dchr d = 0x30 \<longleftrightarrow> d = 0"
proof -
  have "list_all (\<lambda>d. dchr d = 0x30 \<longleftrightarrow> d = 0) [0..<8]" by code_simp
  then show "d < 8 \<Longrightarrow> dchr d = 0x30 \<longleftrightarrow> d = 0" by (simp add: list_all_iff del: upt_Suc)
qed

lemma reads_peek1: "reads_at b (x # ys) \<Longrightarrow> peekbyte b 1 = Some (if ys = [] then 0 else hd ys)"
  by (auto simp: reads_at_def peekbyte_rest hd_conv_nth)

lemma lower_0: "TO_LOWER 0 = 0x20"
  by (simp add: TO_LOWER_def)

lemma hex_decodes:
  assumes "reads_at b (hex_txt up m x @ ys)" "sep ys"
  shows "\<exists>b'. uint_from_hex_common b = Some (of_nat (length (hex_txt up m x)), view_uint m x, b') \<and> reads_at b' ys"
proof -
  let ?n = "unat (view_uint m x)"
  have ds: "\<forall>d \<in> set (rev (digits (2 ^ 4) ?n)). d < 2 ^ 4" using digits_less [of 16] by simp
  have stop: "ys = [] \<or> hex_val (hd ys) = None" using assms(2) by (auto simp: sep_def hex_val_def)
  have v: "foldl (\<lambda>v d. v * 2 ^ 4 + d) 0 (rev (digits (2 ^ 4) ?n)) = ?n" using digits_value [of 16 ?n] by simp
  have b: "buf_inv b" "rest b = map (\<lambda>d. (if up then hex_upper_table else hex_lower_table) ! d) (rev (digits (2 ^ 4) ?n)) @ ys"
    using assms(1) by (simp_all add: reads_at_def hex_txt_def base_digits_def)
  show ?thesis
    using hexu.dec_digits [OF b(1) _ ds stop, of 0 0] hexl.dec_digits [OF b(1) _ ds stop, of 0 0] b(2) v
    by (cases up) (auto simp: uint_from_hex_common_def reads_at_def hex_txt_def base_digits_def)
qed

lemma oct_decodes:
  assumes "reads_at b (map dchr ds @ ys)" "\<forall>d \<in> set ds. d < 8" "sep ys"
  shows "\<exists>b'. uint_from_oct_common b = Some (of_nat (length ds), of_nat (foldl (\<lambda>v d. v * 8 + d) 0 ds), b') \<and> reads_at b' ys"
proof -
  have stop: "ys = [] \<or> oct_val (hd ys) = None" using sep_stops [OF assms(3)] by (auto simp: stops_def oct_val_def IS_DIGIT_def word_le_nat_alt)
  show ?thesis using oct.dec_digits [of b ds ys 0 0] assms(1,2) stop by (auto simp: reads_at_def uint_from_oct_common_def)
qed

interpretation shex: scanned "hex_txt up" scan_hex result_size for up
proof unfold_locales
  fix b m x ys assume src: "reads_at b (hex_txt up m x @ ys)" and ys: "sep ys"
  let ?n = "unat (view_uint m x)" and ?t = "hex_txt up m x"
  have hd: "?t \<noteq> []" "hd ?t = (if up then hex_upper_table else hex_lower_table) ! last (digits 16 ?n)" "last (digits 16 ?n) < 16"
    using base_digits_hd(1,2) [of 16 _ ?n] last_digit [of 16 ?n] by (auto simp: hex_txt_def)
  have "skip_prefix 0x78 b = Some (0, b)"
  proof (cases "?n = 0")
    case True
    then have "?t = [0x30]" using base_digits_hd(3) [of 16 ?n] by (simp add: hex_txt_def hex_upper_table_def hex_lower_table_def)
    then have "peekbyte b 0 = Some 0x30" "peekbyte b 1 = Some (if ys = [] then 0 else hd ys)"
      using reads_peek [OF src] reads_peek1 [of b "0x30" ys] src by simp_all
    then show ?thesis using ys lower_0 by (auto simp: skip_prefix_def sep_def)
  next
    case False
    then have "hd ?t \<noteq> 0x30" using digits_leading [of 16 ?n] hex_chars(3) [OF hd(3)] hd(2) by simp
    then show ?thesis using reads_peek [OF src] hd(1) by (simp add: skip_prefix_def)
  qed
  then show "\<exists>b'. scan_hex m b = Some (of_nat (length ?t), le_bytes (result_size m) (unat x), b') \<and> reads_at b' ys"
    using hex_decodes [OF src ys] by (auto simp: scan_hex_eq plus_count_def as_bytes_def le_bytes_view)
next
  fix m x
  show "hex_txt up m x \<noteq> []" "\<not> IS_SPACE (hd (hex_txt up m x))" "hd (hex_txt up m x) \<noteq> 0"
    using base_digits_hd(1,2) [of 16 _ "unat (view_uint m x)"] hex_chars(1,2) [OF last_digit [of 16 "unat (view_uint m x)"], of up] by (auto simp: hex_txt_def)
qed

interpretation soct: scanned oct_txt scan_octal result_size
proof unfold_locales
  fix b m x ys assume src: "reads_at b (oct_txt m x @ ys)" and ys: "sep ys"
  let ?n = "unat (view_uint m x)" and ?t = "oct_txt m x"
  have hd: "?t \<noteq> []" "hd ?t = dchr (last (digits 8 ?n))" "last (digits 8 ?n) < 8"
    using base_digits_hd(1,2) [of 8 dchr ?n] last_digit [of 8 ?n] by (auto simp: oct_txt_def)
  show "\<exists>b'. scan_octal m b = Some (of_nat (length ?t), le_bytes (result_size m) (unat x), b') \<and> reads_at b' ys"
  proof (cases "?n = 0")
    case True
    then have t: "?t = [0x30]" using base_digits_hd(3) [of 8 ?n dchr] by (simp add: oct_txt_def)
    then have r: "reads_at b (0x30 # ys)" using src by simp
    have "skip_octal_prefix b = Some (1, skip b 1)"
      using reads_peek [OF r] reads_byte [OF r] reads_peek [OF reads_skip1 [OF r]] ys lower_0 by (auto simp: skip_octal_prefix_def sep_def)
    moreover obtain b' where "uint_from_oct_common (skip b 1) = Some (0, 0, b')" "reads_at b' ys"
      using oct_decodes [of "skip b 1" "[]" ys] reads_skip1 [OF r] ys by auto
    ultimately show ?thesis using t True le_bytes_view [of m x] by (simp add: scan_octal_eq plus_count_def as_bytes_def)
  next
    case False
    then have "hd ?t \<noteq> 0x30" using digits_leading [of 8 ?n] oct_char [OF hd(3)] hd(2) by simp
    then have "skip_octal_prefix b = Some (0, b)" using reads_peek [OF src] hd(1) by (simp add: skip_octal_prefix_def)
    moreover obtain b' where "uint_from_oct_common b = Some (of_nat (length ?t), view_uint m x, b')" "reads_at b' ys"
      using oct_decodes [of b "rev (digits 8 ?n)" ys] src ys digits_less [of 8 _ ?n] digits_value [of 8 ?n] by (auto simp: oct_txt_def base_digits_def)
    ultimately show ?thesis by (simp add: scan_octal_eq plus_count_def as_bytes_def le_bytes_view)
  qed
next
  fix m x
  show "oct_txt m x \<noteq> []" "\<not> IS_SPACE (hd (oct_txt m x))" "hd (oct_txt m x) \<noteq> 0"
    using base_digits_hd(1,2) [of 8 dchr "unat (view_uint m x)"] dchr_no_space [of "last (digits 8 (unat (view_uint m x)))"]
      last_digit [of 8 "unat (view_uint m x)"] by (auto simp: oct_txt_def)
qed

interpretation sptr: scanned ptr_txt "\<lambda>m b. as_bytes 8 (pointer_decode b)" "\<lambda>_. 8"
proof unfold_locales
  fix b and m :: scan_mod and x :: u64 and ys assume src: "reads_at b (ptr_txt m x @ ys)" and ys: "sep ys"
  have "ys = [] \<or> hex_to_nibble_table (hd ys) = 255" using ys by (auto simp: sep_def)
  then obtain b' where "pointer_decode b = Some (18, x, b')" "buf_inv b'" "rest b' = ys"
    using pointer_reads [of b x ys] src by (auto simp: reads_at_def ptr_txt_def)
  then show "\<exists>b'. as_bytes 8 (pointer_decode b) = Some (of_nat (length (ptr_txt m x)), le_bytes 8 (unat x), b') \<and> reads_at b' ys"
    by (simp add: as_bytes_def ptr_txt_def length_pointer_encode reads_at_def)
next
  fix m :: scan_mod and x
  show "ptr_txt m x \<noteq> []" "\<not> IS_SPACE (hd (ptr_txt m x))" "hd (ptr_txt m x) \<noteq> 0"
    by (simp_all add: ptr_txt_def pointer_encode_def IS_SPACE_def)
qed

section \<open>A conversion of a format\<close>

text \<open>The formats that are read back: literals that are not white space, \<open>%%\<close>, and the conversions
  \<open>d i u x X o O p\<close> without flags, width and precision.\<close>

fun scannable :: "directive \<Rightarrow> bool" where
  "scannable (Lit x) = (x \<noteq> 0 \<and> x \<noteq> 0x25 \<and> \<not> IS_SPACE x)"
| "scannable Percent = True"
| "scannable (Conv fs w p m c) = (fs = [] \<and> w = None \<and> p = None
     \<and> fst (conversion_of c) \<in> {PRINT_INT_NUMBER, PRINT_UINT_NUMBER, PRINT_UINT_HEX, PRINT_UINT_OCTAL, PRINT_POINTER})"

text \<open>After a conversion comes a literal that ends it.\<close>

fun separated :: "directive list \<Rightarrow> bool" where
  "separated (Conv fs w p m c # Lit x # ds) = (sep [x] \<and> separated (Lit x # ds))"
| "separated (Conv fs w p m c # Conv fs' w' p' m' c' # ds) = False"
| "separated (d # ds) = separated ds"
| "separated [] = True"

definition stored_size :: "print_mod \<Rightarrow> byte \<Rightarrow> nat" where
  "stored_size m c = (if fst (conversion_of c) = PRINT_POINTER then 8 else result_size m)"

lemma stored_size: "stored_size m c \<le> 8" "0 < stored_size m c"
  by (cases m; simp add: stored_size_def result_size_def)+

definition scan_cfg :: "print_mod \<Rightarrow> byte \<Rightarrow> u64 \<Rightarrow> u64 \<Rightarrow> scan_config" where
  "scan_cfg m c res p = \<lparr>sc_type = fst (scan_conversion_of c), sc_modifier = m,
     sc_flags = (if snd (scan_conversion_of c) then SCAN_UPPER_CASE else 0), sc_width = 0, sc_index = 0, sc_result = res, sc_data = Some p, sc_set = (0, 0)\<rparr>"

lemma conversion_cases:
  assumes "scannable (Conv [] None None m c)"
  obtains (int) "conversion_of c = (PRINT_INT_NUMBER, False)" "scan_conversion_of c = (SCAN_INT_NUMBER, False)"
    | (uint) "conversion_of c = (PRINT_UINT_NUMBER, False)" "scan_conversion_of c = (SCAN_UINT_NUMBER, False)"
    | (hex) up where "conversion_of c = (PRINT_UINT_HEX, up)" "scan_conversion_of c = (SCAN_UINT_HEX, up)"
    | (oct) up where "conversion_of c = (PRINT_UINT_OCTAL, up)" "scan_conversion_of c = (SCAN_UINT_OCTAL, up)"
    | (ptr) "conversion_of c = (PRINT_POINTER, False)" "scan_conversion_of c = (SCAN_POINTER, False)"
proof -
  have "c \<in> {0x69, 0x64, 0x75, 0x58, 0x78, 0x4F, 0x6F, 0x70}"
    using assms by (auto simp: conversion_of_def split: if_splits)
  then show ?thesis by (auto simp: conversion_of_def scan_conversion_of_def intro: that)
qed

lemma scan_cfg_fields:
  "sc_type (scan_cfg m c res p) = fst (scan_conversion_of c)" "sc_modifier (scan_cfg m c res p) = m"
  "sc_width (scan_cfg m c res p) = 0" "sc_data (scan_cfg m c res p) = Some p"
  by (simp_all add: scan_cfg_def)

lemma group_flag_cfg: "group_flag (scan_cfg m c res p) = 0"
  by (simp add: group_flag_def scan_cfg_def SCAN_UPPER_CASE_def SCAN_GROUP_DIGITS_def)

lemma scan_conv_stores:
  assumes c: "scannable (Conv [] None None m c)" and t: "conv_text mem [] 0 None m c x = Some t"
    and src: "reads_at b (t @ ys)" and ys: "sep ys" and st: "mem_write M p (le_bytes (stored_size m c) (unat x)) = Some M'"
  shows "t \<noteq> [] \<and> (\<exists>b'. scan_arg env M b (scan_cfg m c res p) = Some (of_nat (length t), b', M') \<and> reads_at b' ys)"
  using c
proof (cases rule: conversion_cases)
  case int
  then have "t = int_txt m x" using t by (simp add: conv_text_def Let_def field_def int_txt_def)
  then show ?thesis using sint.scan_arg_stores [of b m x ys "scan_cfg m c res p" env M M'] src ys st int sint.starts(1) [of m x] group_flag_cfg
    by (simp add: do_scan_def scan_cfg_fields store_at_def stored_size_def)
next
  case uint
  then have "t = uint_txt m x" using t by (simp add: conv_text_def Let_def field_def uint_txt_def)
  then show ?thesis using suint.scan_arg_stores [of b m x ys "scan_cfg m c res p" env M M'] src ys st uint suint.starts(1) [of m x] group_flag_cfg
    by (simp add: do_scan_def scan_cfg_fields store_at_def stored_size_def)
next
  case (hex up)
  then have "t = hex_txt up m x" using t by (simp add: conv_text_def Let_def field_def hex_txt_def prefix_text_def)
  then show ?thesis using shex.scan_arg_stores [of b up m x ys "scan_cfg m c res p" env M M'] src ys st hex shex.starts(1) [of up m x]
    by (simp add: do_scan_def scan_cfg_fields store_at_def stored_size_def)
next
  case (oct up)
  then have "t = oct_txt m x" using t by (simp add: conv_text_def Let_def field_def oct_txt_def prefix_text_def)
  then show ?thesis using soct.scan_arg_stores [of b m x ys "scan_cfg m c res p" env M M'] src ys st oct soct.starts(1) [of m x]
    by (simp add: do_scan_def scan_cfg_fields store_at_def stored_size_def)
next
  case ptr
  then have "t = ptr_txt m x" using t by (simp add: conv_text_def Let_def field_def ptr_txt_def)
  then show ?thesis using sptr.scan_arg_stores [of b m x ys "scan_cfg m c res p" env M M'] src ys st ptr sptr.starts(1) [of m x]
    by (simp add: do_scan_def scan_cfg_fields store_at_def stored_size_def)
qed

section \<open>The format loop\<close>

text \<open>What a format stores: the address and the bytes of each value.\<close>

fun targets :: "directive list \<Rightarrow> u64 list \<Rightarrow> u64 list \<Rightarrow> (u64 \<times> byte list) list" where
  "targets (Conv fs w p m c # ds) (x # xs) (q # ps) = (q, le_bytes (stored_size m c) (unat x)) # targets ds xs ps"
| "targets (Lit y # ds) xs ps = targets ds xs ps"
| "targets (Percent # ds) xs ps = targets ds xs ps"
| "targets _ xs ps = []"

fun mem_stores :: "memory \<Rightarrow> (u64 \<times> byte list) list \<Rightarrow> memory ub" where
  "mem_stores M [] = Some M"
| "mem_stores M ((p, bs) # r) = Option.bind (mem_write M p bs) (\<lambda>M1. mem_stores M1 r)"

lemma sep_percent: "sep (0x25 # r)"
  by (simp add: sep_def hex_to_nibble_table_def TO_LOWER_def)

lemma separated_text:
  assumes "separated (Conv fs w p m c # ds)" "printf_spec mem ds xs = Some r"
  shows "sep r" "separated ds"
proof -
  have "sep r \<and> separated ds"
  proof (cases ds)
    case (Cons d ds')
    then show ?thesis using assms sep_percent by (cases d) (auto simp: sep_def split: Option.bind_split_asm)
  qed (use assms in \<open>auto simp: sep_def\<close>)
  then show "sep r" "separated ds" by simp_all
qed

lemma separated_tl: "separated (d # ds) \<Longrightarrow> (\<forall>fs w p m c. d \<noteq> Conv fs w p m c) \<Longrightarrow> separated ds"
  by (cases d) auto

lemma cfg_not_suppressed: "flag (sc_flags (scan_cfg m c res p)) SCAN_SUPPRESS_INPUT = False"
  by (simp add: scan_cfg_def flag_def SCAN_SUPPRESS_INPUT_def SCAN_UPPER_CASE_def)

lemma cfg_type:
  assumes "scannable (Conv [] None None m c)"
  shows "sc_type (scan_cfg m c res p) \<notin> {SCAN_UNKNOWN, SCAN_RESULT, SCAN_SET}"
  using assms by (cases rule: conversion_cases) (simp_all add: scan_cfg_fields)

context arg_source
begin

lemma parse_scan_text:
  assumes src: "reads_at b (mod_text m @ c # ys)" and ok: "scannable (Conv [] None None m c)" and args: "holds a (p # ps)"
  shows "\<exists>a'. parse_scan_specifier get b a = Some (scan_cfg m c 0 p, skip b (length (mod_text m) + 1), a') \<and> holds a' ps"
proof -
  have c: "fst (conversion_of c) \<noteq> PRINT_UNKNOWN" "directive_ok (Conv [] None None m c)" using ok by auto
  have "scan_arg_index b = Some (0, b)"
    using parse_arg_index_none [of b "mod_text m @ [c]" ys] src specifier_plain [OF c(2)] conversion_char(2) [OF c(1)]
    by (auto simp: scan_arg_index_def specifier_text_def width_text_def precision_text_def)
  moreover have "scan_flag_of (hd (mod_text m @ c # ys)) = None" "hd (mod_text m @ c # ys) \<noteq> 0"
    using ok by (cases m; auto simp: scan_flag_of_def conversion_of_def split: if_splits)+
  then have "scan_flags 0 b = Some (0, b)" using reads_peek [OF src] by (subst scan_flags.simps) simp
  moreover have "scan_number b = Some (0, b)" using parse_number_breaks [OF src breaks_mod(1) [OF c(1)]] by (simp add: scan_number_def)
  moreover have "scan_modifier b = Some (m, skip b (length (mod_text m)))"
    using parse_modifier_text [OF src c(1)] by (simp add: scan_modifier_def)
  moreover have "readbyte (skip b (length (mod_text m))) = Some (c, skip b (length (mod_text m) + 1))"
    using reads_byte [OF reads_skip [OF src]] by simp
  moreover obtain a' where "get a 0 = Some (p, a')" "holds a' ps" using get_next [OF args] by blast
  moreover have "fst (scan_conversion_of c) \<noteq> SCAN_SET" "fst (scan_conversion_of c) \<noteq> SCAN_UNKNOWN"
    using cfg_type [OF ok] by (simp_all add: scan_cfg_fields)
  ultimately show ?thesis using cfg_not_suppressed [of m c 0 p]
    by (simp add: parse_scan_specifier_def scan_cfg_def Let_def case_prod_beta split: if_split_asm)
qed

text \<open>One conversion is one step of the loop.\<close>

lemma scanf_conv:
  assumes src: "reads_at inp (render (Conv [] None None m c) @ fs)" and ok: "scannable (Conv [] None None m c)" and args: "holds a (p # ps)"
    and t: "conv_text mem [] 0 None m c x = Some t" "length t < 2 ^ 32" and b: "reads_at b (t @ ys)" "sep ys"
    and st: "mem_write M p (le_bytes (stored_size m c) (unat x)) = Some M'"
  shows "\<exists>a' b'. scanf_loop env get inp a M proc res b
      = scanf_loop env get (skip inp (length (render (Conv [] None None m c)))) a' M' (proc + of_nat (length t)) (res + 1) b'
    \<and> holds a' ps \<and> reads_at b' ys"
proof -
  have r: "reads_at inp (0x25 # mod_text m @ c # fs)" using src by (simp add: specifier_text_def width_text_def precision_text_def)
  note r1 = reads_skip1 [OF r]
  obtain a' where a': "parse_scan_specifier get (skip inp 1) a = Some (scan_cfg m c 0 p, skip (skip inp 1) (length (mod_text m) + 1), a')" "holds a' ps"
    using parse_scan_text [OF r1 ok args] by blast
  have cfg: "scan_cfg m c 0 p\<lparr>sc_result := ucast proc\<rparr> = scan_cfg m c (ucast proc) p" by (simp add: scan_cfg_def)
  obtain b' where b': "t \<noteq> []" "scan_arg env M b (scan_cfg m c (ucast proc) p) = Some (of_nat (length t), b', M')" "reads_at b' ys"
    using scan_conv_stores [OF ok t(1) b st] by blast
  have n: "(of_nat (length t) :: 32 word) \<noteq> 0"
    using b'(1) t(2) nat_dvd_not_less [of "length t" "2 ^ 32"] unfolding word_of_nat_eq_0_iff by simp
  have hd: "hd (mod_text m @ c # fs) \<noteq> 0" "hd (mod_text m @ c # fs) \<noteq> 0x25"
    using ok by (cases m; auto simp: conversion_of_def split: if_splits)+
  have e: "\<not> b_error b'" using b'(3) by (simp add: reads_at_def buf_inv_def)
  have "reads_at (skip (skip inp 1) (length (mod_text m) + 1)) fs" using reads_skip [of "skip inp 1" "mod_text m @ [c]" fs] r1 by simp
  then have "\<exists>y. peekbyte (skip (skip inp 1) (length (mod_text m) + 1)) 0 = Some y" using reads_peek by blast
  then have "scanf_loop env get inp a M proc res b
      = scanf_loop env get (skip (skip inp 1) (length (mod_text m) + 1)) a' M' (proc + of_nat (length t)) (res + 1) b'"
    using reads_byte [OF r] reads_peek [OF r1] hd a'(1) b'(2) cfg n e cfg_type [OF ok, of 0 p] cfg_not_suppressed [of m c 0 p]
    by (subst scanf_loop.simps) (auto simp del: One_nat_def)
  then show ?thesis using a'(2) b'(3) by (auto simp: specifier_text_def width_text_def precision_text_def)
qed

lemma scanf_literal:
  assumes src: "reads_at inp (render d @ fs)" and ok: "scannable d" "d = Lit y \<or> d = Percent \<and> y = 0x25" and b: "reads_at b (y # ys)"
  shows "scanf_loop env get inp a M proc res b = scanf_loop env get (skip inp (length (render d))) a M (proc + 1) res (skip b 1)"
  using ok(2)
proof
  assume d: "d = Lit y"
  then have "reads_at inp (y # fs)" using src by simp
  then show ?thesis using d ok(1) reads_byte [of inp y fs] reads_peek [OF b] reads_byte [OF b] by (subst scanf_loop.simps) simp
next
  assume d: "d = Percent \<and> y = 0x25"
  then have r: "reads_at inp (0x25 # 0x25 # fs)" using src by simp
  have k: "skip (skip inp 1) 1 = skip inp 2" by simp
  show ?thesis
    using d reads_byte [OF r] reads_peek [OF reads_skip1 [OF r]] reads_byte [OF reads_skip1 [OF r]] reads_peek [OF b] reads_byte [OF b] k
    by (subst scanf_loop.simps) simp
qed

lemma scanf_directives:
  assumes "reads_at inp (render_all ds)" "\<forall>d \<in> set ds. scannable d" "separated ds" "printf_spec mem ds xs = Some out" "length out < 2 ^ 32"
    "reads_at b out" "holds a ps" "length ps = length xs" "mem_stores M (targets ds xs ps) = Some M'"
  shows "\<exists>b'. scanf_loop env get inp a M proc res b = Some (res + of_nat (length (targets ds xs ps)), b', M')"
  using assms
proof (induction ds arbitrary: inp xs out b a ps M proc res)
  case Nil
  then show ?case using reads_end [of inp] by (subst scanf_loop.simps) simp
next
  case (Cons d ds)
  obtain t xs1 r where s: "directive_spec mem d xs = Some (t, xs1)" "printf_spec mem ds xs1 = Some r" "out = t @ r"
    using Cons.prems(4) by (auto split: Option.bind_splits)
  have src: "reads_at inp (render d @ render_all ds)" and ok: "scannable d" "\<forall>d \<in> set ds. scannable d" using Cons.prems(1,2) by simp_all
  show ?case
  proof (cases "\<exists>fs w p m c. d = Conv fs w p m c")
    case True
    then obtain m c where d: "d = Conv [] None None m c" using ok(1) by auto
    obtain x where x: "xs = x # xs1" "conv_text mem [] 0 None m c x = Some t"
      using s(1) d by (auto simp: take_amount_def amount_value_def split: list.splits)
    obtain q ps1 where ps: "ps = q # ps1" "length ps1 = length xs1" using Cons.prems(8) x(1) by (cases ps) auto
    obtain M1 where M1: "mem_write M q (le_bytes (stored_size m c) (unat x)) = Some M1" "mem_stores M1 (targets ds xs1 ps1) = Some M'"
      using Cons.prems(9) d x(1) ps(1) by (auto split: Option.bind_splits)
    have sp: "sep r" "separated ds" using separated_text Cons.prems(3) d s(2) by blast+
    obtain a' b' where step: "scanf_loop env get inp a M proc res b
        = scanf_loop env get (skip inp (length (render d))) a' M1 (proc + of_nat (length t)) (res + 1) b'" "holds a' ps1" "reads_at b' r"
      using scanf_conv [of inp m c "render_all ds" a q ps1 mem x t b r M M1 env proc res] src ok(1) Cons.prems(5,6,7) d x(2) ps(1) sp(1) M1(1) s(3)
      by auto
    show ?thesis
      using Cons.IH [OF reads_skip [OF src] ok(2) sp(2) s(2) _ step(3,2) ps(2) M1(2), of "proc + of_nat (length t)" "res + 1"]
        Cons.prems(5) s(3) step(1) d x(1) ps(1) by (auto simp: add.assoc)
  next
    case False
    then obtain y where y: "d = Lit y \<or> d = Percent \<and> y = 0x25" "t = [y]" "xs1 = xs" using s(1) by (cases d) auto
    have sp: "separated ds" using separated_tl Cons.prems(3) False by blast
    have tg: "targets (d # ds) xs ps = targets ds xs ps" using y(1) by auto
    have b: "reads_at b (y # r)" using Cons.prems(6) s(3) y(2) by simp
    show ?thesis
      using Cons.IH [OF reads_skip [OF src] ok(2) sp s(2) _ reads_skip1 [OF b] Cons.prems(7), of M "proc + 1" res] Cons.prems(5,8,9) s(3) y tg
        scanf_literal [OF src ok(1) y(1) b] by auto
  qed
qed

end

section \<open>Reading back\<close>

text \<open>Where the values go: regions that are mapped and do not meet.\<close>

fun disjoint_regions :: "memory \<Rightarrow> (u64 \<times> byte list) list \<Rightarrow> bool" where
  "disjoint_regions M [] = True"
| "disjoint_regions M ((p, bs) # r) =
     (region M p (length bs) \<and> (\<forall>(q, cs) \<in> set r. apart q (length cs) p (length bs)) \<and> disjoint_regions M r)"

lemma mem_stores_keep:
  assumes "disjoint_regions M r" "\<forall>(q, cs) \<in> set r. length cs \<le> 8" "\<forall>(q, cs) \<in> set r. apart q (length cs) p n"
  shows "\<exists>M'. mem_stores M r = Some M' \<and> mem_read M' p n = mem_read M p n"
  using assms
proof (induction r arbitrary: M)
  case (Cons h r)
  obtain q bs where h: "h = (q, bs)" by force
  have len: "length bs < 2 ^ 64" using Cons.prems(2) h by simp
  obtain M1 where M1: "mem_write M q bs = Some M1" "\<forall>q' k. apart q (length bs) q' k \<longrightarrow> mem_read M1 q' k = mem_read M q' k"
      "\<forall>q' k. region M q' k \<longrightarrow> region M1 q' k"
    using mem_write_reads [of M q bs] Cons.prems(1) h len by auto
  have "disjoint_regions M1 r" if "disjoint_regions M r" for r
    using that M1(3) by (induction r) auto
  then obtain M' where "mem_stores M1 r = Some M'" "mem_read M' p n = mem_read M1 p n"
    using Cons.IH [of M1] Cons.prems h by auto
  then show ?case using M1(1,2) Cons.prems(3) h by auto
qed simp

lemma mem_stores_read:
  assumes "disjoint_regions M r" "\<forall>(q, cs) \<in> set r. length cs \<le> 8"
  shows "\<exists>M'. mem_stores M r = Some M' \<and> (\<forall>(q, cs) \<in> set r. mem_read M' q (length cs) = Some cs)"
  using assms
proof (induction r arbitrary: M)
  case (Cons h r)
  obtain q bs where h: "h = (q, bs)" by force
  have len: "length bs < 2 ^ 64" using Cons.prems(2) h by simp
  obtain M1 where M1: "mem_write M q bs = Some M1" "mem_read M1 q (length bs) = Some bs"
      "\<forall>q' k. region M q' k \<longrightarrow> region M1 q' k"
    using mem_write_reads [of M q bs] Cons.prems(1) h len by auto
  have "disjoint_regions M1 r" if "disjoint_regions M r" for r
    using that M1(3) by (induction r) auto
  then have d: "disjoint_regions M1 r" using Cons.prems(1) h by simp
  obtain M' where M': "mem_stores M1 r = Some M'" "\<forall>(q, cs) \<in> set r. mem_read M' q (length cs) = Some cs"
    using Cons.IH [OF d] Cons.prems(2) by auto
  moreover have "mem_read M' q (length bs) = Some bs"
    using mem_stores_keep [OF d, of q "length bs"] Cons.prems(1,2) h M1(2) M'(1) by auto
  ultimately show ?case using M1(1) h by auto
qed simp

lemma targets_small: "\<forall>(q, cs) \<in> set (targets ds xs ps). length cs \<le> 8"
  using stored_size by (induction ds xs ps rule: targets.induct) auto

text \<open>The texts have no terminator in them.\<close>

lemma conv_text_no_zero:
  assumes "scannable (Conv [] None None m c)" "conv_text mem [] 0 None m c x = Some t"
  shows "0 \<notin> set t"
proof -
  have z_dec: "0 \<notin> set (dec_digits False n)" for n
    using dchr_digit(2) digits_less [of 10 _ n] by (fastforce simp: dec_digits_def dec_text_def)
  have z_oct: "0 \<notin> set (base_digits 8 dchr n)" for n
    using dchr_digit(2) digits_less [of 8 _ n] by (fastforce simp: base_digits_def)
  have z_hex: "0 \<notin> set (base_digits 16 (\<lambda>d. (if up then hex_upper_table else hex_lower_table) ! d) n)" for n up
    using hex_chars(2) [of _ up] digits_less [of 16 _ n] by (fastforce simp: base_digits_def)
  have low: "hex_lower_table ! d \<noteq> 0" if "d < 16" for d using hex_chars(2) [OF that, of False] by simp
  have z_ptr: "0 \<notin> set (pointer_encode x)"
  proof -
    have "unat (y :: byte) div 16 < 16" for y using unsigned_less [of y, where ?'a = nat] by simp
    then show ?thesis using low by (fastforce simp: pointer_encode_def)
  qed
  show ?thesis using assms(1)
  proof (cases rule: conversion_cases)
    case int
    then show ?thesis using assms(2) z_dec by (auto simp: conv_text_def Let_def field_def sign_text_def split: if_splits)
  next
    case uint
    then show ?thesis using assms(2) z_dec by (auto simp: conv_text_def Let_def field_def)
  next
    case (hex up)
    then show ?thesis using assms(2) z_hex by (auto simp: conv_text_def Let_def field_def prefix_text_def)
  next
    case oct
    then show ?thesis using assms(2) z_oct by (auto simp: conv_text_def Let_def field_def prefix_text_def)
  next
    case ptr
    then show ?thesis using assms(2) z_ptr by (auto simp: conv_text_def Let_def field_def)
  qed
qed

lemma printed_no_zero:
  "\<forall>d \<in> set ds. scannable d \<Longrightarrow> printf_spec mem ds xs = Some out \<Longrightarrow> 0 \<notin> set out"
proof (induction ds arbitrary: xs out)
  case (Cons d ds)
  obtain t xs1 r where s: "directive_spec mem d xs = Some (t, xs1)" "printf_spec mem ds xs1 = Some r" "out = t @ r"
    using Cons.prems(2) by (auto split: Option.bind_splits)
  have "0 \<notin> set t"
  proof (cases d)
    case (Conv fs w p m c)
    then show ?thesis using s(1) Cons.prems(1) conv_text_no_zero [of m c mem _ t]
      by (auto simp: take_amount_def amount_value_def simp del: scannable.simps split: list.splits) (auto simp: take_amount_def amount_value_def split: list.splits)
  qed (use s(1) Cons.prems(1) in auto)
  then show ?case using Cons.IH [OF _ s(2)] Cons.prems(1) s(3) by auto
qed simp

lemma string_buffer_reads:
  assumes "0 \<notin> set s" "length s \<le> 65536"
  shows "reads_at (string_buffer (s @ 0 # zs)) s"
proof -
  have "takeWhile (\<lambda>x. x \<noteq> 0) (s @ 0 # zs) = s" using assms(1) by (fastforce simp: takeWhile_append)
  then show ?thesis using assms(2) by (simp add: string_buffer_def reads_at_def buf_inv_def rest_def Let_def)
qed

lemma scannable_ok: "scannable d \<Longrightarrow> directive_ok d"
  by (cases d) auto

section \<open>Properties\<close>

lemma sscanf_directives:
  assumes "\<forall>d \<in> set ds. scannable d" "separated ds" "printf_spec mem ds xs = Some out" "length (render_all ds) \<le> 65536"
    "length out \<le> 65536" "length ps < 2 ^ 31" "length ps = length xs" "mem_stores M (targets ds xs ps) = Some M'"
  shows "\<exists>b. wlibc_scanf_internal \<lparr>env_heap = \<lambda>_. True, env_junk = junk, env_addr = addr\<rparr> (string_buffer (out @ 0 # zs)) (render_all ds @ 0 # zs') ps M
      = Some (of_nat (length (targets ds xs ps)), b, M')"
proof -
  have ok: "\<forall>d \<in> set ds. directive_ok d" using assms(1) scannable_ok by blast
  have "length out < 2 ^ 32" using assms(5) by simp
  from va.scanf_directives [OF format_buffer_reads [OF ok assms(4)] assms(1,2,3) this
      string_buffer_reads [OF printed_no_zero [OF assms(1,3)] assms(5)] va_holds_init [OF assms(6)] assms(7,8),
      where env = "\<lparr>env_heap = \<lambda>_. True, env_junk = junk, env_addr = addr\<rparr>" and proc = 0 and res = 0 and junk = junk]
  show ?thesis by (simp add: wlibc_scanf_internal_def)
qed

lemma targets_count: "length (targets ds xs ps) \<le> length ps"
  by (induction ds xs ps rule: targets.induct) auto

text \<open>C5: what printf prints, sscanf reads back. For every format of literals, \<open>%%\<close> and the conversions
  \<open>d i u x X o O p\<close> with any length modifiers, in which a conversion is followed by a literal that ends it,
  sscanf with the same format on the text that was printed returns the number of conversions and
  leaves at each address the bytes of the value that was printed, of the size the modifier names.\<close>

theorem sscanf_reads_printf:
  assumes "\<forall>d \<in> set ds. scannable d" "separated ds" "printf_spec mem ds xs = Some out" "length (render_all ds) \<le> 65536"
    "length out \<le> 65536" "length ps < 2 ^ 31" "length ps = length xs" "disjoint_regions M (targets ds xs ps)"
  shows "\<exists>b M'. wlibc_printf_internal \<lparr>env_heap = \<lambda>_. True, env_junk = junk\<rparr> growing_buffer (render_all ds @ [0]) xs mem
      = Some (of_nat (length out), b, mem)
    \<and> wlibc_vsscanf \<lparr>env_heap = \<lambda>_. True, env_junk = junk, env_addr = addr\<rparr> (Some (contents b @ [0])) (Some (render_all ds @ [0])) ps M
      = Some (Inr (int (length (targets ds xs ps))), M')
    \<and> (\<forall>(q, cs) \<in> set (targets ds xs ps). mem_read M' q (length cs) = Some cs)"
proof -
  have ok: "\<forall>d \<in> set ds. directive_ok d" and small: "length out < 2 ^ 31" using assms(1,5) scannable_ok by auto
  have "length xs < 2 ^ 31" using assms(6,7) by simp
  from printf_collects [OF ok assms(3,4) this small, of junk "[]"] obtain b
    where b: "wlibc_printf_internal \<lparr>env_heap = \<lambda>_. True, env_junk = junk\<rparr> growing_buffer (render_all ds @ [0]) xs mem
      = Some (of_nat (length out), b, mem)" "contents b = out" by auto
  obtain M' where M': "mem_stores M (targets ds xs ps) = Some M'" "\<forall>(q, cs) \<in> set (targets ds xs ps). mem_read M' q (length cs) = Some cs"
    using mem_stores_read [OF assms(8) targets_small] by blast
  have "sint (of_nat (length (targets ds xs ps)) :: 32 word) = int (length (targets ds xs ps))"
    using targets_count [of ds xs ps] assms(6) by (simp add: sint_of_nat_small)
  then show ?thesis using sscanf_directives [OF assms(1-7) M'(1), of junk addr "[]" "[]"] b M'(2) by (auto simp: wlibc_vsscanf_def)
qed

text \<open>\<open>%d,%hx%%\<close> with -42 and 0xBEEF, read into addresses 100 and 200.\<close>

definition scan_sample :: "directive list" where
  "scan_sample = [Conv [] None None PRINT_MOD_NONE 0x64, Lit 0x2C, Conv [] None None PRINT_MOD_SHORT 0x78, Percent]"

definition scan_memory :: memory where
  "scan_memory a = (if 100 \<le> a \<and> a < 108 \<or> 200 \<le> a \<and> a < 208 then Some 0xEE else None)"

lemma le_bytes_small: "le_bytes 2 n = [of_nat n, of_nat (n div 256)]"
  "le_bytes 4 n = [of_nat n, of_nat (n div 256), of_nat (n div 256 div 256), of_nat (n div 256 div 256 div 256)]"
proof -
  have "(2 :: nat) = Suc (Suc 0)" "(4 :: nat) = Suc (Suc (Suc (Suc 0)))" by simp_all
  then show "le_bytes 2 n = [of_nat n, of_nat (n div 256)]"
    "le_bytes 4 n = [of_nat n, of_nat (n div 256), of_nat (n div 256 div 256), of_nat (n div 256 div 256 div 256)]"
    by (simp_all only: le_bytes.simps)
qed

lemma scan_sample_targets:
  "targets scan_sample [- 42, 0xBEEF] [100, 200] = [(100, [0xD6, 0xFF, 0xFF, 0xFF]), (200, [0xEF, 0xBE])]"
proof -
  have "stored_size PRINT_MOD_NONE 0x64 = 4" "stored_size PRINT_MOD_SHORT 0x78 = 2"
    by (simp_all add: stored_size_def result_size_def conversion_of_def)
  then show ?thesis by (simp add: scan_sample_def le_bytes_small)
qed

lemma scan_sample_regions: "disjoint_regions scan_memory [(100, [0xD6, 0xFF, 0xFF, 0xFF]), (200, [0xEF, 0xBE])]"
  by (simp add: region_def apart_def scan_memory_def All_less_Suc)

theorem sscanf_reads_printf_witness:
  "\<exists>b M'. wlibc_printf_internal \<lparr>env_heap = \<lambda>_. True, env_junk = \<lambda>_. 0\<rparr> growing_buffer (render_all scan_sample @ [0]) [- 42, 0xBEEF] Map.empty
      = Some (9, b, Map.empty)
    \<and> wlibc_vsscanf \<lparr>env_heap = \<lambda>_. True, env_junk = \<lambda>_. 0, env_addr = \<lambda>_ _. 0\<rparr> (Some (contents b @ [0])) (Some (render_all scan_sample @ [0])) [100, 200] scan_memory
      = Some (Inr 2, M')
    \<and> mem_read M' 100 (length [0xD6, 0xFF, 0xFF, 0xFF :: byte]) = Some [0xD6, 0xFF, 0xFF, 0xFF] \<and> mem_read M' 200 (length [0xEF, 0xBE :: byte]) = Some [0xEF, 0xBE]"
proof -
  have "printf_spec Map.empty scan_sample [- 42, 0xBEEF] = Some [0x2D, 0x34, 0x32, 0x2C, 0x62, 0x65, 0x65, 0x66, 0x25]"
    by (simp add: scan_sample_def sample_run)
  moreover have "\<forall>d \<in> set scan_sample. scannable d" "separated scan_sample" "length (render_all scan_sample) \<le> 65536"
    by (simp_all add: scan_sample_def sep_def hex_to_nibble_table_def TO_LOWER_def IS_SPACE_def conversion_of_def specifier_text_def
        width_text_def precision_text_def)
  ultimately obtain b M' where "wlibc_printf_internal \<lparr>env_heap = \<lambda>_. True, env_junk = \<lambda>_. 0\<rparr> growing_buffer (render_all scan_sample @ [0]) [- 42, 0xBEEF] Map.empty
      = Some (of_nat (length [0x2D, 0x34, 0x32, 0x2C, 0x62, 0x65, 0x65, 0x66, 0x25 :: byte]), b, Map.empty)"
    "wlibc_vsscanf \<lparr>env_heap = \<lambda>_. True, env_junk = \<lambda>_. 0, env_addr = \<lambda>_ _. 0\<rparr> (Some (contents b @ [0])) (Some (render_all scan_sample @ [0])) [100, 200] scan_memory
      = Some (Inr (int (length (targets scan_sample [- 42, 0xBEEF] [100, 200]))), M')"
    "\<forall>(q, cs) \<in> set (targets scan_sample [- 42, 0xBEEF] [100, 200]). mem_read M' q (length cs) = Some cs"
    using sscanf_reads_printf [of scan_sample Map.empty "[- 42, 0xBEEF]" _ "[100, 200]" scan_memory "\<lambda>_. 0" "\<lambda>_ _. 0"]
      scan_sample_regions scan_sample_targets by fastforce
  then show ?thesis unfolding scan_sample_targets by (intro exI [of _ b] exI [of _ M']) simp
qed

definition scan_sample_env :: scan_env where
  "scan_sample_env = \<lparr>env_heap = \<lambda>_. True, env_junk = \<lambda>_. 0, env_addr = \<lambda>_ _. 0\<rparr>"

text \<open>\<open>fscanf\<close> never reads its stream: with the format \<open>%c\<close> it returns 0 for every stream and every memory.\<close>

theorem fscanf_ignores_stream:
  "map_option fst (wlibc_vfscanf scan_sample_env (Some stream) (Some [0x25, 0x63, 0]) [100] m) = Some (Inr 0)"
  by code_simp

text \<open>A width moves the end of the input behind the terminator: \<open>sscanf("", "%1c", &c)\<close> reports one
  conversion and stores the terminator.\<close>

theorem sscanf_width_reads_terminator:
  "map_option (\<lambda>(r, m). (r, m 100)) (wlibc_vsscanf scan_sample_env (Some [0]) (Some [0x25, 0x31, 0x63, 0]) [100] scan_memory)
    = Some (Inr 1, Some 0)"
  by code_simp

text \<open>The number of bytes left is cut to 8 bits before decoding: with exactly 256 bytes left \<open>%lc\<close> reads nothing.\<close>

theorem sscanf_wide_char_misses_256:
  "map_option (\<lambda>(r, m). (r, m 100)) (wlibc_vsscanf scan_sample_env (Some (replicate 256 0x61)) (Some [0x25, 0x6C, 0x63, 0]) [100] scan_memory)
    = Some (Inr 0, Some 0xEE)"
  by code_simp

end
