(* ===== verification/GetOpt.thy ===== *)
theory GetOpt
  imports Prelude
begin

text \<open>
  Parsing of command line options (src/getopt/getopt.c). The static variables of
  \<open>wlibc_common_getopt\<close> and the globals \<open>optarg\<close>, \<open>optind\<close>, \<open>opterr\<close> and \<open>optopt\<close> are one record. Strings are
  the bytes before their terminator; \<open>argv\<close> is a list whose length is \<open>argc\<close>, followed by NULL. The
  messages written to stderr and the integers behind the \<open>flag\<close> pointers are kept in the record too.
\<close>

section \<open>State\<close>

definition no_argument :: int where "no_argument = 0"
definition required_argument :: int where "required_argument = 1"
definition optional_argument :: int where "optional_argument = 2"

text \<open>\<open>opt_flag\<close> is the pointer, \<open>None\<close> for NULL.\<close>

record option_t =
  opt_name :: "byte list"
  opt_has_arg :: int
  opt_flag :: "nat option"
  opt_val :: int

datatype getopt_message = NO_PARAMETER_ALLOWED "byte list" | PARAMETER_REQUIRED "byte list" | LONG_UNRECOGNIZED "byte list"
  | ARGUMENT_REQUIRED byte | SHORT_UNRECOGNIZED byte

record getopt_state =
  g_index :: nat
  g_exchange :: int
  g_error_return :: int
  g_short :: bool
  g_long :: bool
  g_stop :: bool
  g_assign :: bool
  g_skip :: bool
  g_initialized :: bool
  optarg :: "byte list option"
  optind :: nat
  opterr :: int
  optopt :: int
  g_longindex :: "nat option"
  g_flags :: "nat \<Rightarrow> int"
  g_stderr :: "getopt_message list"

definition getopt_start :: getopt_state where
  "getopt_start = \<lparr>g_index = 0, g_exchange = 0, g_error_return = 0, g_short = False, g_long = False, g_stop = False, g_assign = False,
     g_skip = False, g_initialized = False, optarg = None, optind = 1, opterr = 1, optopt = 0x3F, g_longindex = None, g_flags = \<lambda>_. 0,
     g_stderr = []\<rparr>"

type_synonym getopt_result = "(int \<times> getopt_state \<times> byte list list) ub"

definition print_error :: "getopt_message \<Rightarrow> getopt_state \<Rightarrow> getopt_state" where
  "print_error e s = (if opterr s \<noteq> 0 then s\<lparr>g_stderr := g_stderr s @ [e]\<rparr> else s)"

text \<open>A byte of a string, with its terminator, and \<open>argv[i]\<close>, with the NULL after the last.\<close>

definition str_at :: "byte list \<Rightarrow> nat \<Rightarrow> byte ub" where
  "str_at s i = (if i < length s then Some (s ! i) else if i = length s then Some 0 else None)"

definition argv_at :: "byte list list \<Rightarrow> nat \<Rightarrow> byte list option ub" where
  "argv_at argv i = (if i < length argv then Some (Some (argv ! i)) else if i = length argv then Some None else None)"

section \<open>Initialisation\<close>

definition getopt_reset :: "getopt_state \<Rightarrow> getopt_state" where
  "getopt_reset s = (if optind s = 0 then s\<lparr>g_index := 0, optind := 1, g_short := False, g_long := False, g_stop := False,
     g_assign := False, g_skip := False, g_initialized := False\<rparr> else s)"

definition getopt_init :: "bool \<Rightarrow> nat \<Rightarrow> byte list \<Rightarrow> getopt_state \<Rightarrow> getopt_state" where
  "getopt_init posix argc optstring s =
     (if g_initialized s then s
      else let c = (if optstring = [] then 0 else hd optstring);
        s1 = (if c = 0x2B \<or> posix then s\<lparr>g_stop := True\<rparr> else s);
        s2 = (if c = 0x2D then s1\<lparr>g_assign := True\<rparr> else s1);
        s3 = (if c = 0x2B \<or> c = 0x2D \<or> c = 0x3A then s2\<lparr>g_skip := True\<rparr> else s2) in
      s3\<lparr>g_error_return := (if c = 0x3A then 0x3A else 0x3F), g_exchange := int argc, g_initialized := True\<rparr>)"

section \<open>One argument\<close>

definition is_option :: "byte list \<Rightarrow> bool" where
  "is_option a \<longleftrightarrow> a \<noteq> [] \<and> a ! 0 = 0x2D \<and> length a > 1"

text \<open>How an argument is taken at its start; \<open>None\<close> for the end of the options.\<close>

definition getopt_classify :: "byte list \<Rightarrow> getopt_state \<Rightarrow> getopt_state option" where
  "getopt_classify a s =
     (if g_index s = 0 then
        let s1 = s\<lparr>g_long := False, g_short := False\<rparr> in
        if is_option a \<and> a ! 1 = 0x2D then (if length a = 2 then None else Some (s1\<lparr>g_index := 2, g_long := True\<rparr>))
        else if is_option a then Some (s1\<lparr>g_index := 1, g_short := True\<rparr>)
        else Some s1
      else Some s)"

fun find_long :: "byte list \<Rightarrow> nat \<Rightarrow> option_t list \<Rightarrow> (nat \<times> option_t) option" where
  "find_long name j [] = None"
| "find_long name j (p # ps) = (if name = opt_name p then Some (j, p) else find_long name (Suc j) ps)"

text \<open>The parameter of a long option; \<open>False\<close> when one is missing or not allowed.\<close>

definition long_parameter ::
  "byte list \<Rightarrow> byte list option \<Rightarrow> option_t \<Rightarrow> getopt_state \<Rightarrow> byte list list \<Rightarrow> (bool \<times> getopt_state) ub" where
  "long_parameter text value p s argv =
     (if opt_has_arg p = no_argument then
        (if value \<noteq> None then Some (False, print_error (NO_PARAMETER_ALLOWED text) s)
         else Some (True, s\<lparr>optarg := None\<rparr>))
      else if opt_has_arg p = required_argument then
        (case value of Some v \<Rightarrow> Some (True, s\<lparr>optarg := Some v\<rparr>)
         | None \<Rightarrow> do {
             parameter \<leftarrow> argv_at argv (optind s);
             case parameter of
               Some v \<Rightarrow> (if int (optind s) \<ge> g_exchange s \<or> (v \<noteq> [] \<and> hd v = 0x2D) then Some (False, print_error (PARAMETER_REQUIRED text) s)
                 else Some (True, s\<lparr>optarg := Some v, optind := optind s + 1\<rparr>))
             | None \<Rightarrow> Some (False, print_error (PARAMETER_REQUIRED text) s) })
      else if opt_has_arg p = optional_argument then
        (case value of Some v \<Rightarrow> Some (True, s\<lparr>optarg := Some v\<rparr>)
         | None \<Rightarrow> do {
             parameter \<leftarrow> argv_at argv (optind s);
             case parameter of
               Some v \<Rightarrow> (if int (optind s) < g_exchange s \<and> \<not> (v \<noteq> [] \<and> hd v = 0x2D)
                 then Some (True, s\<lparr>optarg := Some v, optind := optind s + 1\<rparr>)
                 else Some (True, s\<lparr>optarg := None\<rparr>))
             | None \<Rightarrow> Some (True, s\<lparr>optarg := None\<rparr>) })
      else Some (True, s))"

text \<open>An argument \<open>--name\<close> or \<open>--name=value\<close>. A NULL table of long options is \<open>None\<close>; \<open>want_index\<close> says that
  \<open>longindex\<close> is not NULL.\<close>

definition getopt_long_option ::
  "option_t list option \<Rightarrow> bool \<Rightarrow> byte list \<Rightarrow> getopt_state \<Rightarrow> byte list list \<Rightarrow> getopt_result" where
  "getopt_long_option longopts want_index argument s argv = (case longopts of
     None \<Rightarrow> Some (g_error_return s, s\<lparr>g_index := 0, optind := optind s + 1\<rparr>, argv)
   | Some ps \<Rightarrow>
       (let text = drop (g_index s) argument; name = takeWhile (\<lambda>x. x \<noteq> 0x3D) text;
            value = (if 0x3D \<in> set text then Some (drop (Suc (length name)) text) else None) in
        case find_long name 0 ps of
          None \<Rightarrow> Some (- 1, print_error (LONG_UNRECOGNIZED text) s, argv)
        | Some (j, p) \<Rightarrow> do {
            let s1 = (if want_index then s\<lparr>g_longindex := Some j\<rparr> else s);
            (ok, s2) \<leftarrow> long_parameter text value p (s1\<lparr>g_index := 0, optind := optind s1 + 1\<rparr>) argv;
            if \<not> ok then Some (g_error_return s2, s2, argv)
            else (case opt_flag p of
                None \<Rightarrow> Some (opt_val p, s2, argv)
              | Some q \<Rightarrow> Some (0, s2\<lparr>g_flags := (g_flags s2)(q := opt_val p)\<rparr>, argv)) }))"

text \<open>\<open>strchr\<close>: the string from the first occurrence on.\<close>

definition str_chr :: "byte list \<Rightarrow> byte \<Rightarrow> byte list option" where
  "str_chr str c = (if c \<in> set str then Some (dropWhile (\<lambda>x. x \<noteq> c) str) else None)"

text \<open>The parameter of a short option: the rest of the argument, or the next argument.\<close>

definition short_parameter :: "byte list \<Rightarrow> getopt_state \<Rightarrow> byte list list \<Rightarrow> getopt_state ub" where
  "short_parameter argument s argv =
     (if g_index s \<noteq> 0 then Some (s\<lparr>optarg := Some (drop (g_index s) argument), optind := optind s + 1, g_index := 0\<rparr>)
      else do {
        next \<leftarrow> argv_at argv (optind s);
        case next of
          Some v \<Rightarrow> (if int (optind s) < g_exchange s then Some (s\<lparr>optarg := Some v, optind := optind s + 1\<rparr>)
            else Some (s\<lparr>optarg := None\<rparr>))
        | None \<Rightarrow> Some (s\<lparr>optarg := None\<rparr>) })"

definition getopt_short_option :: "byte list \<Rightarrow> byte list \<Rightarrow> getopt_state \<Rightarrow> byte list list \<Rightarrow> getopt_result" where
  "getopt_short_option optstring argument s argv =
     (if optstring = [] then Some (- 1, s, argv)
      else do {
        opt \<leftarrow> str_at argument (g_index s);
        let found = str_chr (if g_skip s then tl optstring else optstring) opt;
        nxt \<leftarrow> str_at argument (g_index s + 1);
        let s1 = (if nxt = 0 then s\<lparr>optind := optind s + 1, g_index := 0\<rparr> else s\<lparr>g_index := g_index s + 1\<rparr>);
        case found of
          None \<Rightarrow> Some (g_error_return s1, (print_error (SHORT_UNRECOGNIZED opt) s1)\<lparr>optarg := None, optopt := sint opt\<rparr>, argv)
        | Some f \<Rightarrow>
            if take 1 (drop 1 f) = [0x3A] then do {
              s2 \<leftarrow> short_parameter argument s1 argv;
              if take 1 (drop 2 f) \<noteq> [0x3A] \<and> optarg s2 = None
              then Some (g_error_return s2, print_error (ARGUMENT_REQUIRED opt) s2, argv)
              else Some (sint opt, s2, argv) }
            else Some (sint opt, s1\<lparr>optarg := None\<rparr>, argv) })"

section \<open>The loop over the arguments\<close>

text \<open>An argument that is no option is moved to the end as long as an option follows it.\<close>

definition move_to_end :: "nat \<Rightarrow> byte list list \<Rightarrow> byte list list" where
  "move_to_end i argv = take i argv @ drop (Suc i) argv @ [argv ! i]"

partial_function (option) getopt_loop ::
  "byte list \<Rightarrow> option_t list option \<Rightarrow> bool \<Rightarrow> nat \<Rightarrow> getopt_state \<Rightarrow> byte list list \<Rightarrow> getopt_result" where
  "getopt_loop optstring longopts want_index i s argv =
     (if i < length argv then
        (case getopt_classify (argv ! i) s of
           None \<Rightarrow> Some (- 1, s\<lparr>g_long := False, g_short := False, optind := optind s + 1\<rparr>, argv)
         | Some s1 \<Rightarrow>
             if \<not> (g_long s1 \<or> g_short s1) then
               (if g_stop s1 then Some (- 1, s1, argv)
                else if g_assign s1 then Some (1, s1\<lparr>optind := optind s1 + 1, optarg := Some (argv ! i)\<rparr>, argv)
                else if list_ex is_option (drop (Suc i) argv) then
                  getopt_loop optstring longopts want_index i (s1\<lparr>g_exchange := g_exchange s1 - 1\<rparr>) (move_to_end i argv)
                else getopt_loop optstring longopts want_index (Suc i) s1 argv)
             else if g_long s1 then getopt_long_option longopts want_index (argv ! i) s1 argv
             else getopt_short_option optstring (argv ! i) s1 argv)
      else Some (- 1, s, argv))"

declare getopt_loop.simps [code]

definition wlibc_common_getopt ::
  "bool \<Rightarrow> byte list list \<Rightarrow> byte list option \<Rightarrow> option_t list option \<Rightarrow> bool \<Rightarrow> getopt_state \<Rightarrow> (int res \<times> getopt_state \<times> byte list list) ub" where
  "wlibc_common_getopt posix argv optstring longopts want_index s = (case optstring of
     None \<Rightarrow> Some (fail_with EINVAL, s, argv)
   | Some str \<Rightarrow>
       (let s1 = getopt_init posix (length argv) str (getopt_reset s) in
        if optind s1 = length argv then Some (Inr (- 1), s1\<lparr>g_index := 0\<rparr>, argv)
        else map_option (\<lambda>(r, s2, argv2). (Inr r, s2, argv2)) (getopt_loop str longopts want_index (optind s1) s1 argv)))"

definition getopt :: "bool \<Rightarrow> byte list list \<Rightarrow> byte list option \<Rightarrow> getopt_state \<Rightarrow> (int res \<times> getopt_state \<times> byte list list) ub" where
  "getopt posix argv optstring s = wlibc_common_getopt posix argv optstring None False s"

definition getopt_long ::
  "bool \<Rightarrow> byte list list \<Rightarrow> byte list option \<Rightarrow> option_t list option \<Rightarrow> bool \<Rightarrow> getopt_state \<Rightarrow> (int res \<times> getopt_state \<times> byte list list) ub" where
  "getopt_long posix argv optstring longopts want_index s = wlibc_common_getopt posix argv optstring longopts want_index s"

end
