(* ===== verification/GetOptProps.thy ===== *)
theory GetOptProps
  imports GetOpt
begin

text \<open>
  Correctness of option parsing. A command line is a list of items: clusters of short options, the
  last of which may take a parameter, long options and operands. Calling getopt until it returns -1
  delivers the options and parameters of the items in order and leaves the operands behind them.
\<close>

section \<open>Command lines\<close>

text \<open>A parameter is attached to its option or given as the next argument.\<close>

datatype item = Cluster "byte list" "(byte \<times> byte list \<times> bool) option" | Long nat "(byte list \<times> bool) option" | Operand "byte list"

fun item_args :: "option_t list \<Rightarrow> item \<Rightarrow> byte list list" where
  "item_args ps (Cluster fs None) = [0x2D # fs]"
| "item_args ps (Cluster fs (Some (c, v, attached))) = (if attached then [0x2D # fs @ c # v] else [0x2D # fs @ [c], v])"
| "item_args ps (Long j None) = [0x2D # 0x2D # opt_name (ps ! j)]"
| "item_args ps (Long j (Some (v, attached))) =
     (if attached then [0x2D # 0x2D # opt_name (ps ! j) @ 0x3D # v] else [0x2D # 0x2D # opt_name (ps ! j), v])"
| "item_args ps (Operand a) = [a]"

abbreviation line_args :: "option_t list \<Rightarrow> item list \<Rightarrow> byte list list" where
  "line_args ps is \<equiv> concat (map (item_args ps) is)"

text \<open>What the option string says of a character; the character 0xFF is returned as -1.\<close>

definition plain_option :: "byte list \<Rightarrow> byte \<Rightarrow> bool" where
  "plain_option str c \<longleftrightarrow> c \<in> set str \<and> c \<noteq> 0 \<and> c \<noteq> 0xFF \<and> take 1 (drop 1 (dropWhile (\<lambda>x. x \<noteq> c) str)) \<noteq> [0x3A]"

definition param_option :: "byte list \<Rightarrow> byte \<Rightarrow> bool" where
  "param_option str c \<longleftrightarrow> c \<in> set str \<and> c \<noteq> 0 \<and> c \<noteq> 0xFF \<and> take 1 (drop 1 (dropWhile (\<lambda>x. x \<noteq> c) str)) = [0x3A]"

text \<open>What getopt returns for a long option.\<close>

definition long_ret :: "option_t \<Rightarrow> int" where
  "long_ret p = (if opt_flag p = None then opt_val p else 0)"

fun item_ok :: "byte list \<Rightarrow> option_t list \<Rightarrow> item \<Rightarrow> bool" where
  "item_ok str ps (Cluster fs p) = ((\<forall>f \<in> set fs. plain_option str f) \<and> (fs = [] \<longrightarrow> p \<noteq> None)
     \<and> (case p of None \<Rightarrow> True | Some (c, v, attached) \<Rightarrow> param_option str c \<and> (attached \<longrightarrow> v \<noteq> [] \<and> hd v \<noteq> 0))
     \<and> (hd (fs @ (case p of None \<Rightarrow> [] | Some (c, v, a) \<Rightarrow> [c])) \<noteq> 0x2D))"
| "item_ok str ps (Long j p) = (j < length ps \<and> long_ret (ps ! j) \<noteq> - 1 \<and> opt_name (ps ! j) \<noteq> [] \<and> 0x3D \<notin> set (opt_name (ps ! j))
     \<and> (\<forall>k < j. opt_name (ps ! k) \<noteq> opt_name (ps ! j))
     \<and> (case p of None \<Rightarrow> opt_has_arg (ps ! j) = no_argument
        | Some (v, attached) \<Rightarrow> opt_has_arg (ps ! j) \<in> {required_argument, optional_argument} \<and> (\<not> attached \<and> v \<noteq> [] \<longrightarrow> hd v \<noteq> 0x2D)))"
| "item_ok str ps (Operand a) = (\<not> is_option a)"

text \<open>The results of getopt with the parameter.\<close>

fun item_events :: "option_t list \<Rightarrow> item \<Rightarrow> (int \<times> byte list option) list" where
  "item_events ps (Cluster fs p) = map (\<lambda>f. (sint f, None)) fs @ (case p of None \<Rightarrow> [] | Some (c, v, a) \<Rightarrow> [(sint c, Some v)])"
| "item_events ps (Long j p) = [(long_ret (ps ! j), map_option fst p)]"
| "item_events ps (Operand a) = []"

fun operands :: "item list \<Rightarrow> byte list list" where
  "operands [] = []"
| "operands (Operand a # is) = a # operands is"
| "operands (i # is) = operands is"

text \<open>Calling getopt until it returns -1, at most \<open>n\<close> times.\<close>

fun getopt_all ::
  "nat \<Rightarrow> byte list \<Rightarrow> option_t list option \<Rightarrow> getopt_state \<Rightarrow> byte list list \<Rightarrow> ((int \<times> byte list option) list \<times> getopt_state \<times> byte list list) option" where
  "getopt_all 0 str lo s argv = None"
| "getopt_all (Suc n) str lo s argv = do {
     (r, s1, argv1) \<leftarrow> wlibc_common_getopt False argv (Some str) lo False s;
     case r of
       Inl e \<Rightarrow> None
     | Inr x \<Rightarrow>
         if x = - 1 then Some ([], s1, argv1)
         else do {
           (es, s2, argv2) \<leftarrow> getopt_all n str lo s1 argv1;
           Some ((x, optarg s1) # es, s2, argv2) } }"

section \<open>The state between calls\<close>

text \<open>\<open>moved\<close> are the operands at the end that were passed over.\<close>

definition ready :: "byte list \<Rightarrow> getopt_state \<Rightarrow> byte list list \<Rightarrow> byte list list \<Rightarrow> bool" where
  "ready str s argv mvd \<longleftrightarrow> g_initialized s \<and> g_stop s = False \<and> g_assign s = False \<and> g_skip s = False \<and> optind s \<noteq> 0
     \<and> g_exchange s = int (length argv) - int (length mvd) \<and> (\<forall>a \<in> set mvd. \<not> is_option a)"

lemma ready_call:
  assumes "ready str s argv mvd" "optind s < length argv"
  shows "wlibc_common_getopt posix argv (Some str) lo w s
    = map_option (\<lambda>(r, s2, argv2). (Inr r, s2, argv2)) (getopt_loop str lo w (optind s) s argv)"
  using assms by (simp add: wlibc_common_getopt_def ready_def getopt_reset_def getopt_init_def Let_def)

text \<open>Operands before an option are moved behind everything else.\<close>

lemma loop_moves_operands:
  assumes "ready str s (dn @ ops @ opts @ mvd) mvd" "g_index s = 0" "optind s = length dn"
    and "\<forall>a \<in> set ops. \<not> is_option a" "opts \<noteq> []" "is_option (hd opts)"
  shows "\<exists>s'. getopt_loop str lo w (optind s) s (dn @ ops @ opts @ mvd) = getopt_loop str lo w (optind s') s' (dn @ opts @ mvd @ ops)
    \<and> ready str s' (dn @ opts @ mvd @ ops) (mvd @ ops) \<and> g_index s' = 0 \<and> optind s' = length dn
    \<and> (ops = [] \<longrightarrow> s' = s) \<and> g_flags s' = g_flags s"
  using assms
proof (induction ops arbitrary: s mvd)
  case (Cons a ops)
  let ?s = "s\<lparr>g_long := False, g_short := False, g_exchange := g_exchange s - 1\<rparr>"
  have ex: "list_ex is_option (ops @ opts @ mvd)" using Cons.prems(5,6) by (cases opts) auto
  have "getopt_loop str lo w (optind s) s (dn @ (a # ops) @ opts @ mvd) = getopt_loop str lo w (optind s) ?s (dn @ ops @ opts @ mvd @ [a])"
    using Cons.prems(1-4) ex by (subst getopt_loop.simps) (simp add: getopt_classify_def move_to_end_def ready_def)
  moreover have "ready str ?s (dn @ ops @ opts @ mvd @ [a]) (mvd @ [a])"
    using Cons.prems(1,4) by (auto simp: ready_def)
  ultimately show ?case using Cons.IH [of ?s "mvd @ [a]"] Cons.prems(2-) by auto
qed auto

lemma loop_ends:
  assumes "ready str s argv mvd" "g_index s = 0" "\<forall>a \<in> set (drop i argv). \<not> is_option a"
  shows "\<exists>s'. getopt_loop str lo w i s argv = Some (- 1, s', argv) \<and> optind s' = optind s \<and> g_flags s' = g_flags s"
  using assms
proof (induction "length argv - i" arbitrary: i s)
  case 0
  then show ?case by (subst getopt_loop.simps) simp
next
  case (Suc n)
  then have lt: "i < length argv" by simp
  let ?s = "s\<lparr>g_long := False, g_short := False\<rparr>"
  have dr: "drop i argv = argv ! i # drop (Suc i) argv" using lt by (simp add: Cons_nth_drop_Suc)
  have no: "\<not> is_option (argv ! i)" "\<not> list_ex is_option (drop (Suc i) argv)" using Suc.prems(3) dr by (auto simp: list_ex_iff)
  have "getopt_loop str lo w i s argv = getopt_loop str lo w (Suc i) ?s argv"
    using lt Suc.prems(1,2) no by (subst getopt_loop.simps) (simp add: getopt_classify_def ready_def)
  moreover have "ready str ?s argv mvd" using Suc.prems(1) by (simp add: ready_def)
  ultimately show ?case using Suc.hyps(1) [of "Suc i" ?s] Suc.hyps(2) Suc.prems(2,3) dr by auto
qed

section \<open>Short options\<close>

definition emit :: "'e list \<Rightarrow> ('e list \<times> 's \<times> 'a) option \<Rightarrow> ('e list \<times> 's \<times> 'a) option" where
  "emit es r = map_option (\<lambda>(es2, s, a). (es @ es2, s, a)) r"

lemma emit_simps [simp]: "emit [] r = r" "emit es (emit es' r) = emit (es @ es') r"
  by (cases r; auto simp: emit_def)+

text \<open>The next character of the argument to be taken as an option is the \<open>k\<close>-th.\<close>

definition in_cluster :: "getopt_state \<Rightarrow> byte list \<Rightarrow> nat \<Rightarrow> bool" where
  "in_cluster s a k \<longleftrightarrow> (g_index s = 0 \<and> k = 1 \<and> is_option a \<and> a ! 1 \<noteq> 0x2D) \<or> (0 < k \<and> g_index s = k \<and> g_short s \<and> \<not> g_long s)"

lemma classify_cluster: "in_cluster s a k \<Longrightarrow> getopt_classify a s = Some (s\<lparr>g_index := k, g_long := False, g_short := True\<rparr>)"
  by (auto simp: in_cluster_def getopt_classify_def Let_def)

lemma getopt_all_step:
  assumes "ready str s argv mvd" "optind s < length argv" "getopt_loop str lo False (optind s) s argv = Some (r, s', argv')" "r \<noteq> - 1"
  shows "getopt_all (Suc n) str lo s argv = emit [(r, optarg s')] (getopt_all n str lo s' argv')"
  using assms(3,4) ready_call [OF assms(1,2), of False lo False]
  by (cases "getopt_all n str lo s' argv'") (auto simp: emit_def)

lemma sint_not_m1: "(c :: byte) \<noteq> 0xFF \<Longrightarrow> sint c \<noteq> - 1"
proof
  assume "c \<noteq> 0xFF" "sint c = - 1"
  then have "c = - 1" by (metis sint_n1 signed_word_eqI)
  then show False using \<open>c \<noteq> 0xFF\<close> by simp
qed

lemma short_loop:
  assumes "ready str s argv mvd" "optind s < length argv" "in_cluster s (argv ! optind s) k"
  shows "getopt_loop str lo w (optind s) s argv
    = getopt_short_option str (argv ! optind s) (s\<lparr>g_index := k, g_long := False, g_short := True\<rparr>) argv"
  using assms by (subst getopt_loop.simps) (simp add: classify_cluster)

lemma str_at_drop: "drop k a = x # xs \<Longrightarrow> str_at a k = Some x \<and> str_at a (Suc k) = Some (if xs = [] then 0 else hd xs) \<and> drop (Suc k) a = xs"
proof -
  assume d: "drop k a = x # xs"
  then have k: "k < length a" by (metis drop_eq_Nil list.distinct(1) not_le)
  have 1: "a ! k = x" "drop (Suc k) a = xs" using d k by (simp_all add: Cons_nth_drop_Suc [symmetric])
  have "Suc k < length a \<Longrightarrow> a ! Suc k = hd xs" using 1(2) by (metis hd_drop_conv_nth)
  moreover have "xs = [] \<longleftrightarrow> length a = Suc k" using 1(2) k by auto
  ultimately show ?thesis using 1 k by (auto simp: str_at_def)
qed

lemma cluster_run:
  assumes "ready str s argv mvd" "optind s < length argv" "in_cluster s (argv ! optind s) k" "drop k (argv ! optind s) = fs @ rst"
    "\<forall>f \<in> set fs. plain_option str f" "rst \<noteq> [] \<longrightarrow> hd rst \<noteq> 0" "fs = [] \<longrightarrow> rst \<noteq> []"
  shows "\<exists>s'. getopt_all (length fs + n) str lo s argv = emit (map (\<lambda>f. (sint f, None)) fs) (getopt_all n str lo s' argv)
    \<and> ready str s' argv mvd \<and> (if rst = [] then g_index s' = 0 \<and> optind s' = optind s + 1
        else optind s' = optind s \<and> in_cluster s' (argv ! optind s) (k + length fs))"
  using assms
proof (induction fs arbitrary: s k)
  case (Cons f fs)
  let ?a = "argv ! optind s"
  define s1 where "s1 = (if fs @ rst = [] then s\<lparr>g_index := 0, g_long := False, g_short := True, optind := optind s + 1, optarg := None\<rparr>
    else s\<lparr>g_index := Suc k, g_long := False, g_short := True, optarg := None\<rparr>)"
  have f: "f \<in> set str" "f \<noteq> 0xFF" "take 1 (drop 1 (dropWhile (\<lambda>x. x \<noteq> f) str)) \<noteq> [0x3A]" "str \<noteq> []"
    using Cons.prems(5) by (auto simp: plain_option_def)
  have nz: "fs @ rst \<noteq> [] \<longrightarrow> hd (fs @ rst) \<noteq> 0" using Cons.prems(5,6) by (cases fs) (auto simp: plain_option_def)
  have d: "str_at ?a k = Some f" "str_at ?a (Suc k) = Some (if fs @ rst = [] then 0 else hd (fs @ rst))" "drop (Suc k) ?a = fs @ rst"
    using str_at_drop [of k ?a f "fs @ rst"] Cons.prems(4) by auto
  have "getopt_loop str lo False (optind s) s argv = Some (sint f, s1, argv)"
    unfolding short_loop [OF Cons.prems(1-3)]
    using d(1,2) f nz Cons.prems(1) by (auto simp: getopt_short_option_def str_chr_def s1_def ready_def)
  then have step: "getopt_all (Suc (length fs + n)) str lo s argv = emit [(sint f, None)] (getopt_all (length fs + n) str lo s1 argv)"
    using getopt_all_step [OF Cons.prems(1,2) _ sint_not_m1 [OF f(2)]] by (simp add: s1_def)
  have r1: "ready str s1 argv mvd" using Cons.prems(1) by (simp add: ready_def s1_def)
  show ?case
  proof (cases "fs @ rst = []")
    case True
    then show ?thesis using step r1 by (auto simp: s1_def)
  next
    case False
    have o1: "optind s1 = optind s" "in_cluster s1 ?a (Suc k)" unfolding s1_def if_not_P [OF False] by (simp_all add: in_cluster_def)
    have p1: "optind s1 < length argv" "in_cluster s1 (argv ! optind s1) (Suc k)" "drop (Suc k) (argv ! optind s1) = fs @ rst"
      "\<forall>f \<in> set fs. plain_option str f" "fs = [] \<longrightarrow> rst \<noteq> []"
      using o1 Cons.prems(2,5) d(3) False by auto
    from Cons.IH [OF r1 p1(1-4) Cons.prems(6) p1(5)] obtain s' where "getopt_all (length fs + n) str lo s1 argv
        = emit (map (\<lambda>f. (sint f, None)) fs) (getopt_all n str lo s' argv)"
        "ready str s' argv mvd" "if rst = [] then g_index s' = 0 \<and> optind s' = optind s + 1
        else optind s' = optind s \<and> in_cluster s' (argv ! optind s) (Suc k + length fs)"
      unfolding o1(1) by blast
    then show ?thesis using step by auto
  qed
qed auto

text \<open>The option of a cluster that takes a parameter.\<close>

lemma param_run:
  assumes "ready str s argv mvd" "optind s < length argv" "in_cluster s (argv ! optind s) k" "param_option str c"
    and "drop k (argv ! optind s) = c # v \<and> v \<noteq> [] \<and> hd v \<noteq> 0 \<and> m = 1
      \<or> drop k (argv ! optind s) = [c] \<and> m = 2 \<and> argv ! (optind s + 1) = v \<and> optind s + 1 + length mvd < length argv"
  shows "\<exists>s'. getopt_all (Suc n) str lo s argv = emit [(sint c, Some v)] (getopt_all n str lo s' argv)
    \<and> ready str s' argv mvd \<and> g_index s' = 0 \<and> optind s' = optind s + m"
proof -
  let ?a = "argv ! optind s"
  define s1 where "s1 = s\<lparr>g_index := 0, g_long := False, g_short := True, optind := optind s + m, optarg := Some v\<rparr>"
  have c: "c \<in> set str" "c \<noteq> 0xFF" "take 1 (drop 1 (dropWhile (\<lambda>x. x \<noteq> c) str)) = [0x3A]" "str \<noteq> []"
    using assms(4) by (auto simp: param_option_def)
  have "getopt_loop str lo False (optind s) s argv = Some (sint c, s1, argv)"
    unfolding short_loop [OF assms(1-3)]
    using assms(5)
  proof
    assume a: "drop k ?a = c # v \<and> v \<noteq> [] \<and> hd v \<noteq> 0 \<and> m = 1"
    then have "str_at ?a k = Some c" "str_at ?a (Suc k) = Some (hd v)" "drop (Suc k) ?a = v" using str_at_drop [of k ?a c v] by auto
    then show "getopt_short_option str ?a (s\<lparr>g_index := k, g_long := False, g_short := True\<rparr>) argv = Some (sint c, s1, argv)"
      using a c assms(1) by (simp add: getopt_short_option_def str_chr_def s1_def ready_def short_parameter_def)
  next
    assume a: "drop k ?a = [c] \<and> m = 2 \<and> argv ! (optind s + 1) = v \<and> optind s + 1 + length mvd < length argv"
    then have "str_at ?a k = Some c" "str_at ?a (Suc k) = Some 0" using str_at_drop [of k ?a c "[]"] by auto
    moreover have "argv_at argv (Suc (optind s)) = Some (Some v)" "int (optind s) + 1 < int (length argv) - int (length mvd)"
      using a by (auto simp: argv_at_def)
    ultimately show "getopt_short_option str ?a (s\<lparr>g_index := k, g_long := False, g_short := True\<rparr>) argv = Some (sint c, s1, argv)"
      using a c assms(1) by (simp add: getopt_short_option_def str_chr_def s1_def ready_def short_parameter_def)
  qed
  from getopt_all_step [OF assms(1,2) this sint_not_m1 [OF c(2)]]
  have "getopt_all (Suc n) str lo s argv = emit [(sint c, Some v)] (getopt_all n str lo s1 argv)" by (simp add: s1_def)
  moreover have "ready str s1 argv mvd" using assms(1,5) by (auto simp: ready_def s1_def)
  ultimately show ?thesis by (auto simp: s1_def)
qed

section \<open>Long options\<close>

lemma find_long_nth:
  "j < length ps \<Longrightarrow> \<forall>k < j. opt_name (ps ! k) \<noteq> opt_name (ps ! j) \<Longrightarrow> find_long (opt_name (ps ! j)) i ps = Some (i + j, ps ! j)"
proof (induction ps arbitrary: i j)
  case (Cons p ps)
  show ?case
  proof (cases j)
    case (Suc j')
    have "opt_name p \<noteq> opt_name (ps ! j')" using Cons.prems(2) Suc by (auto dest: spec [of _ 0])
    moreover have "\<forall>k < j'. opt_name (ps ! k) \<noteq> opt_name (ps ! j')" using Cons.prems(2) Suc by (auto dest: spec [of _ "Suc _"])
    ultimately show ?thesis using Cons.IH [of j' "Suc i"] Cons.prems(1) Suc by auto
  qed simp
qed simp

lemma long_loop:
  assumes "ready str s argv mvd" "optind s < length argv" "g_index s = 0" "argv ! optind s = 0x2D # 0x2D # txt" "txt \<noteq> []"
  shows "getopt_loop str lo w (optind s) s argv
    = getopt_long_option lo w (argv ! optind s) (s\<lparr>g_short := False, g_index := 2, g_long := True\<rparr>) argv"
  using assms by (subst getopt_loop.simps) (simp add: getopt_classify_def is_option_def)

lemma long_run:
  assumes "ready str s argv mvd" "optind s < length argv" "g_index s = 0" "item_ok str ps (Long j p)"
    and "argv ! optind s = hd (item_args ps (Long j p))"
    and "case p of Some (v, False) \<Rightarrow> argv ! (optind s + 1) = v \<and> optind s + 1 + length mvd < length argv | _ \<Rightarrow> True"
  shows "\<exists>s'. getopt_all (Suc n) str (Some ps) s argv = emit [(long_ret (ps ! j), map_option fst p)] (getopt_all n str (Some ps) s' argv)
    \<and> ready str s' argv mvd \<and> g_index s' = 0 \<and> optind s' = optind s + length (item_args ps (Long j p))"
proof -
  let ?p = "ps ! j" and ?nm = "opt_name (ps ! j)"
  have ok: "j < length ps" "long_ret ?p \<noteq> - 1" "?nm \<noteq> []" "0x3D \<notin> set ?nm" "\<forall>k < j. opt_name (ps ! k) \<noteq> ?nm" using assms(4) by auto
  let ?good = "\<lambda>s1. optarg s1 = map_option fst p \<and> g_index s1 = 0 \<and> optind s1 = optind s + length (item_args ps (Long j p)) \<and> ready str s1 argv mvd"
  have tw: "takeWhile (\<lambda>x. x \<noteq> 0x3D) ?nm = ?nm" "takeWhile (\<lambda>x. x \<noteq> 0x3D) (?nm @ 0x3D # v) = ?nm" for v
    using ok(4) by (auto simp: takeWhile_eq_all_conv takeWhile_append)
  have fl: "find_long ?nm 0 ps = Some (j, ?p)" using find_long_nth [OF ok(1,5), of 0] by simp
  have "\<exists>s1. getopt_loop str (Some ps) False (optind s) s argv = Some (long_ret ?p, s1, argv) \<and> ?good s1"
  proof (cases p)
    case None
    then have a: "argv ! optind s = 0x2D # 0x2D # ?nm" "opt_has_arg ?p = no_argument" using assms(4,5) by auto
    show ?thesis unfolding long_loop [OF assms(1-3) a(1) ok(3)]
      using a ok(4) fl None assms(1)
      by (cases "opt_flag ?p") (simp_all add: tw getopt_long_option_def Let_def long_parameter_def long_ret_def ready_def)
  next
    case (Some q)
    obtain v att where q: "q = (v, att)" by force
    have h: "opt_has_arg ?p = required_argument \<or> opt_has_arg ?p = optional_argument" using assms(4) Some q by auto
    show ?thesis
    proof (cases att)
      case True
      then have a: "argv ! optind s = 0x2D # 0x2D # (?nm @ 0x3D # v)" using assms(5) Some q by simp
      have ne: "?nm @ 0x3D # v \<noteq> []" by simp
      show ?thesis unfolding long_loop [OF assms(1-3) a ne]
        using a h fl Some q True assms(1)
        by (cases "opt_flag ?p") (auto simp: tw getopt_long_option_def Let_def long_parameter_def long_ret_def ready_def no_argument_def
            required_argument_def optional_argument_def)
    next
      case False
      then have a: "argv ! optind s = 0x2D # 0x2D # ?nm" "v \<noteq> [] \<longrightarrow> hd v \<noteq> 0x2D" using assms(4,5) Some q by auto
      have v: "argv_at argv (Suc (optind s)) = Some (Some v)" "int (optind s) + 1 < g_exchange s"
        using assms(1,6) Some q False by (auto simp: argv_at_def ready_def)
      show ?thesis unfolding long_loop [OF assms(1-3) a(1) ok(3)]
        using a h fl Some q False v ok(4) assms(1)
        by (cases "opt_flag ?p") (auto simp: tw getopt_long_option_def Let_def long_parameter_def long_ret_def ready_def no_argument_def
            required_argument_def optional_argument_def)
    qed
  qed
  then obtain s1 where loop: "getopt_loop str (Some ps) False (optind s) s argv = Some (long_ret ?p, s1, argv)" and f: "?good s1" by blast
  from getopt_all_step [OF assms(1,2) loop ok(2), of n] show ?thesis using f by auto
qed

section \<open>Whole command lines\<close>

lemma item_run:
  assumes "ready str s (dn @ item_args ps i @ rst @ mvd) mvd" "g_index s = 0" "optind s = length dn" "item_ok str ps i" "\<forall>a. i \<noteq> Operand a"
  shows "\<exists>s'. getopt_all (length (item_events ps i) + n) str (Some ps) s (dn @ item_args ps i @ rst @ mvd)
      = emit (item_events ps i) (getopt_all n str (Some ps) s' (dn @ item_args ps i @ rst @ mvd))
    \<and> ready str s' (dn @ item_args ps i @ rst @ mvd) mvd \<and> g_index s' = 0 \<and> optind s' = length (dn @ item_args ps i)"
proof (cases i)
  case (Cluster fs p)
  let ?argv = "dn @ item_args ps i @ rst @ mvd"
  define tail where "tail = (case p of None \<Rightarrow> [] | Some (c, v, att) \<Rightarrow> c # (if att then v else []))"
  have a: "?argv ! optind s = 0x2D # fs @ tail" using assms(3) Cluster by (auto simp: tail_def nth_append split: option.splits)
  have lt: "optind s < length ?argv" using assms(3) Cluster by (cases p) (auto split: if_splits)
  have ok: "\<forall>f \<in> set fs. plain_option str f" "fs = [] \<longrightarrow> tail \<noteq> []" "tail \<noteq> [] \<longrightarrow> hd tail \<noteq> 0" "hd (fs @ tail) \<noteq> 0x2D" "fs @ tail \<noteq> []"
    using assms(4) Cluster by (auto simp: tail_def param_option_def hd_append split: option.splits if_splits)
  have cl: "in_cluster s (?argv ! optind s) 1" unfolding a using assms(2) ok(4,5) by (cases "fs @ tail") (auto simp: in_cluster_def is_option_def)
  have d1: "drop 1 (?argv ! optind s) = fs @ tail" unfolding a by simp
  define m :: nat where "m = (case p of None \<Rightarrow> 0 | Some _ \<Rightarrow> 1)"
  obtain s' where s': "getopt_all (length fs + (m + n)) str (Some ps) s ?argv
        = emit (map (\<lambda>f. (sint f, None)) fs) (getopt_all (m + n) str (Some ps) s' ?argv)" "ready str s' ?argv mvd"
      "if tail = [] then g_index s' = 0 \<and> optind s' = optind s + 1 else optind s' = optind s \<and> in_cluster s' (?argv ! optind s) (1 + length fs)"
    using cluster_run [OF assms(1) lt cl d1 ok(1,3,2), of "m + n" "Some ps"] by blast
  show ?thesis
  proof (cases p)
    case None
    then show ?thesis using s' Cluster assms(3) by (auto simp: tail_def m_def)
  next
    case (Some q)
    obtain c v att where q: "q = (c, v, att)" by (cases q) auto
    let ?m = "if att then 1 else 2 :: nat"
    have st: "optind s' = optind s" "in_cluster s' (?argv ! optind s') (1 + length fs)" using s'(3) Some q by (auto simp: tail_def)
    have dr: "drop (1 + length fs) (?argv ! optind s') = tail" unfolding st(1) a by simp
    have pc: "drop (1 + length fs) (?argv ! optind s') = c # v \<and> v \<noteq> [] \<and> hd v \<noteq> 0 \<and> ?m = 1
      \<or> drop (1 + length fs) (?argv ! optind s') = [c] \<and> ?m = 2 \<and> ?argv ! (optind s' + 1) = v \<and> optind s' + 1 + length mvd < length ?argv"
      unfolding dr using Some q assms(3,4) Cluster st(1) by (auto simp: tail_def nth_append)
    have po: "param_option str c" using assms(4) Cluster Some q by simp
    have lt': "optind s' < length ?argv" using lt st(1) by simp
    obtain s2 where "getopt_all (Suc n) str (Some ps) s' ?argv = emit [(sint c, Some v)] (getopt_all n str (Some ps) s2 ?argv)"
        "ready str s2 ?argv mvd" "g_index s2 = 0" "optind s2 = optind s' + ?m"
      using param_run [OF s'(2) lt' st(2) po pc, of n "Some ps"] by blast
    then show ?thesis using s'(1) Some q Cluster st(1) assms(3) by (auto simp: m_def)
  qed
next
  case (Long j p)
  let ?argv = "dn @ item_args ps i @ rst @ mvd"
  have ne: "item_args ps (Long j p) \<noteq> []" by (cases p) (auto split: if_splits)
  have a: "?argv ! optind s = hd (item_args ps (Long j p))" "optind s < length ?argv"
    using assms(3) Long ne by (auto simp: nth_append hd_conv_nth)
  have v: "case p of Some (v, False) \<Rightarrow> ?argv ! (optind s + 1) = v \<and> optind s + 1 + length mvd < length ?argv | _ \<Rightarrow> True"
    using assms(3) Long by (auto simp: nth_append split: option.splits bool.splits)
  show ?thesis using long_run [OF assms(1) a(2) assms(2) _ a(1) v, of n] assms(3,4) Long by auto
qed (use assms(5) in auto)

text \<open>The operands after the last option and those before it.\<close>

definition is_operand :: "item \<Rightarrow> bool" where
  "is_operand i \<longleftrightarrow> (\<exists>a. i = Operand a)"

definition trailing :: "item list \<Rightarrow> item list" where
  "trailing is = rev (takeWhile is_operand (rev is))"

definition leading :: "item list \<Rightarrow> item list" where
  "leading is = rev (dropWhile is_operand (rev is))"

text \<open>The same, computed along the way: operands seen since the last option, and operands passed over.\<close>

fun left_over :: "byte list list \<Rightarrow> byte list list \<Rightarrow> item list \<Rightarrow> byte list list" where
  "left_over ops mvd [] = ops @ mvd"
| "left_over ops mvd (Operand a # is) = left_over (ops @ [a]) mvd is"
| "left_over ops mvd (i # is) = left_over [] (mvd @ ops) is"

lemma operands_append [simp]: "operands (is @ js) = operands is @ operands js"
  by (induction "is" rule: operands.induct) auto

lemma is_operand_simps [simp]: "is_operand (Operand a)" "\<not> is_operand (Cluster fs p)" "\<not> is_operand (Long j q)"
  by (simp_all add: is_operand_def)

lemma trailing_Cons: "trailing (i # is) = (if list_all is_operand is then if is_operand i then i # is else is else trailing is)"
  by (auto simp: trailing_def list_all_iff takeWhile_append)

lemma leading_Cons: "leading (i # is) = (if list_all is_operand is then if is_operand i then [] else [i] else i # leading is)"
  by (auto simp: leading_def list_all_iff dropWhile_append dropWhile_eq_Nil_conv)

lemma left_over_split:
  "left_over ops mvd is = (if list_all is_operand is then ops @ operands is @ mvd else operands (trailing is) @ mvd @ ops @ operands (leading is))"
  by (induction ops mvd "is" rule: left_over.induct) (auto simp: trailing_Cons leading_Cons)

lemma all_operands: "list_all is_operand is \<Longrightarrow> trailing is = is \<and> leading is = []"
  by (induction "is") (auto simp: trailing_Cons leading_Cons trailing_def leading_def)

abbreviation line_events :: "option_t list \<Rightarrow> item list \<Rightarrow> (int \<times> byte list option) list" where
  "line_events ps is \<equiv> concat (map (item_events ps) is)"

lemma item_events_nonempty: "item_ok str ps i \<Longrightarrow> \<forall>a. i \<noteq> Operand a \<Longrightarrow> item_events ps i \<noteq> []"
  by (cases i) (auto split: option.splits)

lemma item_args_option:
  assumes "item_ok str ps i" "\<forall>a. i \<noteq> Operand a"
  shows "item_args ps i \<noteq> []" "is_option (hd (item_args ps i))"
proof -
  have "item_args ps i \<noteq> [] \<and> is_option (hd (item_args ps i))"
    using assms by (cases "(ps, i)" rule: item_args.cases) (auto simp: is_option_def split: if_splits)
  then show "item_args ps i \<noteq> []" "is_option (hd (item_args ps i))" by simp_all
qed

lemma getopt_all_moves:
  assumes "ready str s (dn @ ops @ opts @ mvd) mvd" "g_index s = 0" "optind s = length dn"
    and "\<forall>a \<in> set ops. \<not> is_option a" "opts \<noteq> []" "is_option (hd opts)"
  shows "\<exists>s'. getopt_all (Suc n) str lo s (dn @ ops @ opts @ mvd) = getopt_all (Suc n) str lo s' (dn @ opts @ mvd @ ops)
    \<and> ready str s' (dn @ opts @ mvd @ ops) (mvd @ ops) \<and> g_index s' = 0 \<and> optind s' = length dn"
proof -
  obtain s' where s': "getopt_loop str lo False (optind s) s (dn @ ops @ opts @ mvd) = getopt_loop str lo False (optind s') s' (dn @ opts @ mvd @ ops)"
      "ready str s' (dn @ opts @ mvd @ ops) (mvd @ ops)" "g_index s' = 0" "optind s' = length dn"
    using loop_moves_operands [OF assms, of lo False] by blast
  have "optind s < length (dn @ ops @ opts @ mvd)" "optind s' < length (dn @ opts @ mvd @ ops)" using assms(3,5) s'(4) by auto
  then have "getopt_all (Suc n) str lo s (dn @ ops @ opts @ mvd) = getopt_all (Suc n) str lo s' (dn @ opts @ mvd @ ops)"
    using ready_call [OF assms(1), of False lo False] ready_call [OF s'(2), of False lo False] s'(1) by (simp only: getopt_all.simps)
  then show ?thesis using s'(2-) by blast
qed

lemma getopt_all_ends:
  assumes "ready str s (dn @ ops @ mvd) mvd" "g_index s = 0" "optind s = length dn" "\<forall>a \<in> set ops. \<not> is_option a"
  shows "\<exists>s'. getopt_all (Suc n) str lo s (dn @ ops @ mvd) = Some ([], s', dn @ ops @ mvd) \<and> optind s' = length dn"
proof (cases "ops @ mvd = []")
  case True
  then show ?thesis using assms by (simp add: wlibc_common_getopt_def ready_def getopt_reset_def getopt_init_def Let_def)
next
  case False
  then have lt: "optind s < length (dn @ ops @ mvd)" using assms(3) by auto
  have no: "\<forall>a \<in> set (drop (optind s) (dn @ ops @ mvd)). \<not> is_option a" using assms(1,3,4) by (auto simp: ready_def)
  obtain s' where "getopt_loop str lo False (optind s) s (dn @ ops @ mvd) = Some (- 1, s', dn @ ops @ mvd)" "optind s' = optind s"
    using loop_ends [OF assms(1,2) no, of lo False] by blast
  then show ?thesis using ready_call [OF assms(1) lt, of False lo False] assms(3) by auto
qed

lemma getopt_line:
  assumes "ready str s (dn @ ops @ line_args ps is @ mvd) mvd" "g_index s = 0" "optind s = length dn" "\<forall>a \<in> set ops. \<not> is_option a"
    "\<forall>i \<in> set is. item_ok str ps i"
  shows "\<exists>s' argv'. getopt_all (length (line_events ps is) + Suc n) str (Some ps) s (dn @ ops @ line_args ps is @ mvd)
      = Some (line_events ps is, s', argv') \<and> drop (optind s') argv' = left_over ops mvd is"
  using assms
proof (induction "is" arbitrary: s dn ops mvd)
  case Nil
  then show ?case using getopt_all_ends [of str s dn ops mvd n "Some ps"] by auto
next
  case (Cons i "is")
  show ?case
  proof (cases "\<exists>a. i = Operand a")
    case True
    then obtain a where a: "i = Operand a" by blast
    have "\<not> is_option a" using Cons.prems(5) a by simp
    then show ?thesis using Cons.IH [of s dn "ops @ [a]" mvd] Cons.prems a by simp
  next
    case False
    then have i: "item_ok str ps i" "\<forall>a. i \<noteq> Operand a" using Cons.prems(5) by auto
    let ?rest = "line_args ps is"
    have opts: "item_args ps i @ ?rest \<noteq> []" "is_option (hd (item_args ps i @ ?rest))" using item_args_option [OF i] by auto
    have r0: "ready str s (dn @ ops @ (item_args ps i @ ?rest) @ mvd) mvd" using Cons.prems(1) by simp
    obtain m where m: "length (item_events ps i) = Suc m" using item_events_nonempty [OF i] by (cases "item_events ps i") auto
    let ?n = "length (line_events ps is) + Suc n"
    obtain s1 where s1: "getopt_all (Suc (m + ?n)) str (Some ps) s (dn @ ops @ (item_args ps i @ ?rest) @ mvd)
          = getopt_all (Suc (m + ?n)) str (Some ps) s1 (dn @ (item_args ps i @ ?rest) @ mvd @ ops)"
        "ready str s1 (dn @ item_args ps i @ ?rest @ mvd @ ops) (mvd @ ops)" "g_index s1 = 0" "optind s1 = length dn"
      using getopt_all_moves [OF r0 Cons.prems(2-4) opts, of "m + ?n" "Some ps"] by auto
    obtain s2 where s2: "getopt_all (length (item_events ps i) + ?n) str (Some ps) s1 (dn @ item_args ps i @ ?rest @ mvd @ ops)
          = emit (item_events ps i) (getopt_all ?n str (Some ps) s2 (dn @ item_args ps i @ ?rest @ mvd @ ops))"
        "ready str s2 (dn @ item_args ps i @ ?rest @ mvd @ ops) (mvd @ ops)" "g_index s2 = 0" "optind s2 = length (dn @ item_args ps i)"
      using item_run [OF s1(2-4) i, of ?n] by blast
    have r2: "ready str s2 ((dn @ item_args ps i) @ [] @ ?rest @ mvd @ ops) (mvd @ ops)" using s2(2) by simp
    obtain s' argv' where e: "getopt_all ?n str (Some ps) s2 (dn @ item_args ps i @ ?rest @ mvd @ ops) = Some (line_events ps is, s', argv')"
        "drop (optind s') argv' = left_over [] (mvd @ ops) is"
      using Cons.IH [OF r2 s2(3,4)] Cons.prems(5) by auto
    have "left_over ops mvd (i # is) = left_over [] (mvd @ ops) is" using i(2) by (cases i) auto
    moreover have "getopt_all (Suc (m + ?n)) str (Some ps) s (dn @ ops @ (item_args ps i @ ?rest) @ mvd)
        = Some (item_events ps i @ line_events ps is, s', argv')"
      using s1(1) s2(1) e(1) m by (simp add: emit_def del: getopt_all.simps)
    moreover have "length (line_events ps (i # is)) + Suc n = Suc (m + ?n)" using m by simp
    ultimately show ?thesis using e(2) by (simp add: add.assoc del: getopt_all.simps)
  qed
qed

section \<open>Properties\<close>

text \<open>C6: calling getopt until it returns -1 on a command line of well-formed options and operands, in any
  order, delivers exactly the options and parameters of the command line in order, and leaves the
  operands, all of them, from optind on: those after the last option first, then the earlier ones.\<close>

theorem getopt_parses_line:
  assumes "\<forall>i \<in> set is. item_ok str ps i" "str \<noteq> []" "hd str \<notin> {0x2B, 0x2D, 0x3A}"
  shows "\<exists>s' argv'. getopt_all (length (line_events ps is) + 1) str (Some ps) getopt_start (prog # line_args ps is)
      = Some (line_events ps is, s', argv')
    \<and> drop (optind s') argv' = operands (trailing is) @ operands (leading is)"
proof -
  let ?argv = "prog # line_args ps is"
  define s where "s = getopt_start\<lparr>g_error_return := 0x3F, g_exchange := int (length ?argv), g_initialized := True\<rparr>"
  have "wlibc_common_getopt False ?argv (Some str) lo False getopt_start = wlibc_common_getopt False ?argv (Some str) lo False s" for lo
    using assms(2,3) by (simp add: wlibc_common_getopt_def getopt_start_def s_def getopt_reset_def getopt_init_def Let_def)
  then have eq: "getopt_all (Suc n) str lo getopt_start ?argv = getopt_all (Suc n) str lo s ?argv" for n lo by simp
  have "ready str s ([prog] @ [] @ line_args ps is @ []) []" "g_index s = 0" "optind s = length [prog]"
    by (simp_all add: ready_def s_def getopt_start_def)
  from getopt_line [OF this _ assms(1), of 0] obtain s' argv' where
    "getopt_all (Suc (length (line_events ps is))) str (Some ps) s ?argv = Some (line_events ps is, s', argv')"
    "drop (optind s') argv' = left_over [] [] is" by auto
  moreover have "left_over [] [] is = operands (trailing is) @ operands (leading is)"
    unfolding left_over_split using all_operands [of "is"] by auto
  ultimately show ?thesis using eq by auto
qed

text \<open>\<open>cp in -vo out --mode=fast extra\<close>.\<close>

definition sample_options :: "option_t list" where
  "sample_options = [\<lparr>opt_name = [0x6D, 0x6F, 0x64, 0x65], opt_has_arg = 1, opt_flag = None, opt_val = 500\<rparr>]"

definition sample_items :: "item list" where
  "sample_items = [Operand [0x69, 0x6E], Cluster [0x76] (Some (0x6F, [0x6F, 0x75, 0x74], False)), Long 0 (Some ([0x66, 0x61, 0x73, 0x74], True)),
     Operand [0x65, 0x78]]"

theorem getopt_parses_line_witness:
  "\<exists>s' argv'. getopt_all 4 [0x76, 0x6F, 0x3A] (Some sample_options) getopt_start
       [[0x63, 0x70], [0x69, 0x6E], [0x2D, 0x76, 0x6F], [0x6F, 0x75, 0x74],
        [0x2D, 0x2D, 0x6D, 0x6F, 0x64, 0x65, 0x3D, 0x66, 0x61, 0x73, 0x74], [0x65, 0x78]]
     = Some ([(0x76, None), (0x6F, Some [0x6F, 0x75, 0x74]), (500, Some [0x66, 0x61, 0x73, 0x74])], s', argv')
   \<and> drop (optind s') argv' = [[0x65, 0x78], [0x69, 0x6E]]"
proof -
  have "\<forall>i \<in> set sample_items. item_ok [0x76, 0x6F, 0x3A] sample_options i"
    by (simp add: sample_items_def sample_options_def plain_option_def param_option_def is_option_def long_ret_def required_argument_def)
  moreover have "[0x76, 0x6F, 0x3A] \<noteq> ([] :: byte list)" "hd [0x76, 0x6F, 0x3A] \<notin> {0x2B, 0x2D, 0x3A :: byte}" by simp_all
  ultimately have "\<exists>s' argv'. getopt_all (length (line_events sample_options sample_items) + 1) [0x76, 0x6F, 0x3A] (Some sample_options) getopt_start
        ([0x63, 0x70] # line_args sample_options sample_items) = Some (line_events sample_options sample_items, s', argv')
      \<and> drop (optind s') argv' = operands (trailing sample_items) @ operands (leading sample_items)"
    by (rule getopt_parses_line)
  moreover have "line_events sample_options sample_items = [(0x76, None), (0x6F, Some [0x6F, 0x75, 0x74]), (500, Some [0x66, 0x61, 0x73, 0x74])]"
    by (simp add: sample_items_def sample_options_def long_ret_def)
  moreover have "line_args sample_options sample_items = [[0x69, 0x6E], [0x2D, 0x76, 0x6F], [0x6F, 0x75, 0x74],
        [0x2D, 0x2D, 0x6D, 0x6F, 0x64, 0x65, 0x3D, 0x66, 0x61, 0x73, 0x74], [0x65, 0x78]]"
    by (simp add: sample_items_def sample_options_def)
  moreover have "operands (trailing sample_items) @ operands (leading sample_items) = [[0x65, 0x78], [0x69, 0x6E]]"
    by (simp add: sample_items_def trailing_Cons leading_Cons)
  moreover have "length [(0x76, None), (0x6F, Some [0x6F, 0x75, 0x74]), (500 :: int, Some [0x66, 0x61, 0x73, 0x74 :: byte])] + 1 = 4" by simp
  ultimately show ?thesis by (simp only:)
qed

text \<open>Operands change their order: with \<open>prog a -x b\<close> the operands are b and a.\<close>

theorem getopt_reorders_operands:
  "map_option (\<lambda>(es, s, argv). (es, drop (optind s) argv)) (getopt_all 2 [0x78] None getopt_start [[0x70], [0x61], [0x2D, 0x78], [0x62]])
    = Some ([(0x78, None)], [[0x62], [0x61]])"
  by code_simp

text \<open>An operand before \<open>--\<close> is moved behind those after it: with \<open>prog a -- b\<close> the operands are b and a.\<close>

theorem getopt_double_dash_reorders:
  "map_option (\<lambda>(es, s, argv). (es, drop (optind s) argv)) (getopt_all 1 [0x78] None getopt_start [[0x70], [0x61], [0x2D, 0x2D], [0x62]])
    = Some ([], [[0x62], [0x61]])"
  by code_simp

text \<open>An unknown long option ends the parsing with -1, like the end of the options, and every later call
  returns -1 too.\<close>

theorem unknown_long_option_ends:
  "map_option (\<lambda>(es, s, argv). (es, optind s, g_index s)) (getopt_all 1 [0x78] (Some []) getopt_start [[0x70], [0x2D, 0x2D, 0x7A], [0x2D, 0x78]])
    = Some ([], 1, 2)"
  by code_simp

end
