(* ===== verification/Path.thy ===== *)
theory Path
  imports FdOps
begin

unbundle bit_operations_syntax

text \<open>
  Translation of POSIX paths to kernel paths and back (src/internal/path.c, the path macros of
  include/internal/fcntl.h). A path argument is the list of its bytes before the terminator, a wide
  string a list of UTF-16 units. The memory behind the \<open>Buffer\<close> of a \<open>UNICODE_STRING\<close> is either its own
  or the block of an entry of the descriptor path cache, which is named by an address: the copy
  that \<open>get_fd_ntpath\<close> makes keeps pointing into the cache. A block of \<open>n\<close> bytes holds \<open>n div 2\<close> units
  that are \<open>wjunk\<close> at first, an access outside a block is \<open>None\<close>.
  The kernel, the heap, the current directory, the directory for temporary files and the descriptor
  table are the record \<open>path_env\<close>; \<open>path_state\<close> holds the static variables.
\<close>

section \<open>Data\<close>

type_synonym wchar = "16 word"

datatype wbuf = Chars "wchar list" | Points nat

record UNICODE_STRING =
  us_Length :: "16 word"
  us_MaximumLength :: "16 word"
  us_Buffer :: wbuf

record path_component =
  pc_start :: nat
  pc_length :: nat

record nt_device =
  nd_length :: "16 word"
  nd_name :: "wchar list"

record dos_device =
  dd_number :: "32 word"
  dd_label :: byte

record fd_path =
  fp_fd :: int
  fp_sequence :: "32 word"
  fp_path :: "nat option"

definition FD_PATH_CACHE_SLOTS :: nat where "FD_PATH_CACHE_SLOTS = 128"

record path_state =
  path_components_size :: nat
  devices :: "nt_device list"
  fd_path_cache :: "fd_path list"
  cached_paths :: "nat \<Rightarrow> UNICODE_STRING option"
  next_address :: nat
  dos_device_cache0 :: dos_device
  dos_device_cache1 :: dos_device

definition path_start :: path_state where
  "path_start = \<lparr>path_components_size = 16, devices = replicate 32 \<lparr>nd_length = 0, nd_name = replicate 26 0\<rparr>,
     fd_path_cache = \<lparr>fp_fd = - 1, fp_sequence = 0, fp_path = None\<rparr> # replicate 127 \<lparr>fp_fd = 0, fp_sequence = 0, fp_path = None\<rparr>,
     cached_paths = \<lambda>_. None, next_address = 0,
     dos_device_cache0 = \<lparr>dd_number = - 1, dd_label = 0\<rparr>, dos_device_cache1 = \<lparr>dd_number = - 1, dd_label = 0\<rparr>\<rparr>"

record path_env =
  p_heap :: "nat \<Rightarrow> bool"
  wjunk :: wchar
  cjunk :: path_component
  RtlUTF8StringToUnicodeString :: "byte list \<Rightarrow> ntstatus \<times> wchar list"
  RtlInitUTF8String :: "byte list \<Rightarrow> 16 word"
  NtOpenSymbolicLinkObject :: "wchar list \<Rightarrow> ntstatus"
  NtQuerySymbolicLinkObject :: "wchar list \<Rightarrow> ntstatus \<times> wchar list"
  mountmgr_query :: "wchar list \<Rightarrow> ntstatus \<times> wchar"
  NtQueryObject :: "HANDLE \<Rightarrow> nat \<Rightarrow> ntstatus \<times> wchar list \<times> nat"
  current_directory :: "wchar list"
  wlibc_tmpdir :: "byte list option"
  p_fds :: fd_state
  p_info :: fdinfo

section \<open>Strings and memory\<close>

lemma ucast_back: "ucast (ucast (v :: byte) :: wchar) = v"
  by (rule bit_word_eqI) (auto simp: bit_simps)

definition bytes_of :: "string \<Rightarrow> byte list" where "bytes_of s = map of_char s"
definition wide :: "string \<Rightarrow> wchar list" where "wide s = map of_char s"

text \<open>A kernel name from its parts: \<open>\Device\Null\<close> from \<open>Device\<close> and \<open>Null\<close>.\<close>

definition nt_name :: "string list \<Rightarrow> wchar list" where
  "nt_name parts = concat (map (\<lambda>p. 0x5C # wide p) parts)"

definition to_lower :: "byte \<Rightarrow> byte" where "to_lower c = (if 0x41 \<le> c \<and> c \<le> 0x5A then c + 0x20 else c)"
definition to_upper :: "byte \<Rightarrow> byte" where "to_upper c = (if 0x61 \<le> c \<and> c \<le> 0x7A then c - 0x20 else c)"
definition is_alpha :: "byte \<Rightarrow> bool" where "is_alpha c \<longleftrightarrow> 0x41 \<le> c \<and> c \<le> 0x5A \<or> 0x61 \<le> c \<and> c \<le> 0x7A"

text \<open>\<open>path[i]\<close> at a position up to the terminator.\<close>

definition ch :: "byte list \<Rightarrow> nat \<Rightarrow> byte" where "ch p i = (if i < length p then p ! i else 0)"

definition stricmp_eq :: "byte list \<Rightarrow> byte list \<Rightarrow> bool" where
  "stricmp_eq a b \<longleftrightarrow> map to_lower a = map to_lower b"

definition IS_ABSOLUTE_PATH :: "byte list \<Rightarrow> bool" where
  "IS_ABSOLUTE_PATH p \<longleftrightarrow> is_alpha (ch p 0) \<and> ch p 1 = 0x3A \<or> ch p 0 = 0x2F"

definition IS_ROOT_PATH :: "byte list \<Rightarrow> bool" where
  "IS_ROOT_PATH p \<longleftrightarrow> ch p 1 = 0 \<and> (ch p 0 = 0x2F \<or> ch p 0 = 0x5C)"

text \<open>\<open>memcpy\<close> of units into a block and out of one.\<close>

definition blit :: "nat \<Rightarrow> wchar list \<Rightarrow> wchar list \<Rightarrow> wchar list ub" where
  "blit off src buf = (if off + length src \<le> length buf then Some (take off buf @ src @ drop (off + length src) buf) else None)"

definition slice :: "nat \<Rightarrow> nat \<Rightarrow> wchar list \<Rightarrow> wchar list ub" where
  "slice off n buf = (if off + n \<le> length buf then Some (take n (drop off buf)) else None)"

text \<open>\<open>memcmp\<close> with a constant, which stops at the first difference.\<close>

fun memcmp_eq :: "wchar list \<Rightarrow> wchar list \<Rightarrow> bool ub" where
  "memcmp_eq [] buf = Some True"
| "memcmp_eq (c # cs) [] = None"
| "memcmp_eq (c # cs) (x # xs) = (if c = x then memcmp_eq cs xs else Some False)"

definition block :: "path_env \<Rightarrow> nat \<Rightarrow> wchar list" where
  "block e n = replicate (n div 2) (wjunk e)"

definition buffer_of :: "path_state \<Rightarrow> UNICODE_STRING \<Rightarrow> wchar list ub" where
  "buffer_of s u = (case us_Buffer u of Chars cs \<Rightarrow> Some cs
   | Points a \<Rightarrow> (case cached_paths s a of None \<Rightarrow> None
       | Some v \<Rightarrow> (case us_Buffer v of Chars cs \<Rightarrow> Some cs | Points _ \<Rightarrow> None)))"

definition text_of :: "path_state \<Rightarrow> UNICODE_STRING \<Rightarrow> wchar list ub" where
  "text_of s u = do { cs \<leftarrow> buffer_of s u; slice 0 (unat (us_Length u) div 2) cs }"

section \<open>Volumes\<close>

definition dos_device_to_nt_device :: "path_env \<Rightarrow> byte \<Rightarrow> path_state \<Rightarrow> (nt_device option \<times> path_state) ub" where
  "dos_device_to_nt_device e volume s =
     (if volume < 0x41 \<or> volume > 0x5A then Some (None, s)
      else do {
        let i = unat volume - 0x41;
        d \<leftarrow> load (devices s) i;
        let gone = (\<lambda>d. s\<lparr>devices := (devices s)[i := d\<lparr>nd_length := - 1\<rparr>]\<rparr>);
        if nd_length d \<noteq> - 1 then
          (if nd_length d \<noteq> 0 then Some (Some d, s)
           else (let name = 0x5C # wide ''GLOBAL??'' @ [0x5C, ucast volume, 0x3A] in
             if NtOpenSymbolicLinkObject e name \<noteq> STATUS_SUCCESS then Some (None, gone d)
             else (let (status, target) = NtQuerySymbolicLinkObject e name in
               if status \<noteq> STATUS_SUCCESS then Some (None, gone d)
               else do {
                 n \<leftarrow> blit 0 target (nd_name d);
                 let d1 = \<lparr>nd_length = of_nat (2 * length target), nd_name = n\<rparr>;
                 Some (Some d1, s\<lparr>devices := (devices s)[i := d1]\<rparr>) })))
        else Some (None, s) })"

text \<open>The units of the device name that \<open>memcpy\<close> takes.\<close>

definition device_text :: "nt_device \<Rightarrow> wchar list ub" where
  "device_text d = slice 0 (unat (nd_length d) div 2) (nd_name d)"

text \<open>The name goes into a local buffer of 64 bytes behind a length of two bytes.\<close>

definition nt_device_to_dos_device :: "path_env \<Rightarrow> wchar list \<Rightarrow> byte ub" where
  "nt_device_to_dos_device e device =
     (if 2 * length device > 62 then None
      else let (status, c) = mountmgr_query e device; label = ucast c in
        Some (if status = STATUS_SUCCESS \<and> 0x41 \<le> label \<and> label \<le> (0x5A :: byte) then label else 0))"

section \<open>Paths of descriptors\<close>

definition check_fd_path_cache :: "int \<Rightarrow> 32 word \<Rightarrow> path_state \<Rightarrow> nat option ub" where
  "check_fd_path_cache fd sq s = do {
     c \<leftarrow> load (fd_path_cache s) (unat (sq AND (of_nat FD_PATH_CACHE_SLOTS - 1)));
     Some (if sq = fp_sequence c \<and> fd = fp_fd c then fp_path c else None) }"

definition update_fd_path_cache :: "int \<Rightarrow> 32 word \<Rightarrow> nat \<Rightarrow> path_state \<Rightarrow> path_state ub" where
  "update_fd_path_cache fd sq a s = do {
     let i = unat (sq AND (of_nat FD_PATH_CACHE_SLOTS - 1));
     c \<leftarrow> load (fd_path_cache s) i;
     cache \<leftarrow> store i \<lparr>fp_fd = fd, fp_sequence = sq, fp_path = Some a\<rparr> (fd_path_cache s);
     Some (s\<lparr>fd_path_cache := cache,
       cached_paths := (case fp_path c of None \<Rightarrow> cached_paths s | Some old \<Rightarrow> (cached_paths s)(old := None))\<rparr>) }"

text \<open>The block that the kernel fills holds the structure and the name behind it.\<close>

definition get_handle_ntpath :: "path_env \<Rightarrow> HANDLE \<Rightarrow> UNICODE_STRING res" where
  "get_handle_ntpath e h =
     (if \<not> p_heap e 1024 then fail_with ENOMEM
      else let (status, name, len) = NtQueryObject e h 1024;
        result = (\<lambda>status name. if status \<noteq> STATUS_SUCCESS then Inl (map_ntstatus_to_errno status)
          else Inr \<lparr>us_Length = of_nat (2 * length name), us_MaximumLength = of_nat (2 * length name + 2), us_Buffer = Chars (name @ [0])\<rparr>) in
      if status = STATUS_BUFFER_OVERFLOW then
        (if \<not> p_heap e len then fail_with ENOMEM
         else let (status2, name2, _) = NtQueryObject e h len in result status2 name2)
      else result status name)"

definition get_fd_ntpath_internal :: "path_env \<Rightarrow> int \<Rightarrow> path_state \<Rightarrow> (nat res \<times> path_state) ub" where
  "get_fd_ntpath_internal e fd s = do {
     info \<leftarrow> get_fdinfo fd (p_info e) (p_fds e);
     if htype info = INVALID_HANDLE then Some (fail_silent, s)
     else do {
       hit \<leftarrow> check_fd_path_cache fd (sequence info) s;
       case hit of
         Some a \<Rightarrow> Some (Inr a, s)
       | None \<Rightarrow> (case get_handle_ntpath e (handle info) of
           Inl err \<Rightarrow> Some (Inl err, s)
         | Inr u \<Rightarrow> do {
             let a = next_address s;
             s1 \<leftarrow> update_fd_path_cache fd (sequence info) a (s\<lparr>cached_paths := (cached_paths s)(a \<mapsto> u), next_address := Suc a\<rparr>);
             Some (Inr a, s1) }) } }"

text \<open>The copy is byte by byte: its \<open>Buffer\<close> is the pointer into the cached block.\<close>

definition get_fd_ntpath :: "path_env \<Rightarrow> int \<Rightarrow> path_state \<Rightarrow> (UNICODE_STRING res \<times> path_state) ub" where
  "get_fd_ntpath e fd s = do {
     (r, s1) \<leftarrow> get_fd_ntpath_internal e fd s;
     case r of
       Inl _ \<Rightarrow> None
     | Inr a \<Rightarrow> do {
         u \<leftarrow> cached_paths s1 a;
         if \<not> p_heap e (16 + unat (us_MaximumLength u)) then Some (fail_with ENOMEM, s1)
         else Some (Inr (u\<lparr>us_Buffer := Points a\<rparr>), s1) } }"

section \<open>Names of devices\<close>

type_synonym path_result = "(UNICODE_STRING res \<times> handle_t \<times> path_state) ub"

definition static_path :: "path_env \<Rightarrow> string list \<Rightarrow> UNICODE_STRING res" where
  "static_path e parts = (let name = nt_name parts in
     if \<not> p_heap e 16 then fail_with ENOMEM
     else Inr \<lparr>us_Length = of_nat (2 * length name), us_MaximumLength = of_nat (2 * length name), us_Buffer = Chars (name @ [0])\<rparr>)"

definition posix_device :: "byte list \<Rightarrow> (string list \<times> handle_t) option" where
  "posix_device path =
     (if take 5 path \<noteq> bytes_of ''/dev/'' then None
      else let n = drop 5 path in
        if n = bytes_of ''null'' then Some ([''Device'', ''Null''], NULL_HANDLE)
        else if n = bytes_of ''tty'' then Some ([''Device'', ''ConDrv'', ''Console''], CONSOLE_HANDLE)
        else if n = bytes_of ''zero'' then Some ([''Device'', ''Zero''], NULL_HANDLE)
        else if n = bytes_of ''full'' then Some ([''Device'', ''Full''], NULL_HANDLE)
        else if n = bytes_of ''random'' \<or> n = bytes_of ''urandom'' then Some ([''Device'', ''Random''], NULL_HANDLE)
        else None)"

definition dos_name :: "byte list \<Rightarrow> (string list \<times> handle_t) option" where
  "dos_name path =
     (if stricmp_eq path (bytes_of ''NUL'') then Some ([''Device'', ''Null''], NULL_HANDLE)
      else if stricmp_eq path (bytes_of ''CON'') then Some ([''Device'', ''ConDrv'', ''Console''], CONSOLE_HANDLE)
      else if stricmp_eq path (bytes_of ''CONIN$'') then Some ([''Device'', ''ConDrv'', ''CurrentIn''], CONSOLE_HANDLE)
      else if stricmp_eq path (bytes_of ''CONOUT$'') then Some ([''Device'', ''ConDrv'', ''CurrentOut''], CONSOLE_HANDLE)
      else None)"

text \<open>\<open>atoi\<close>: a value that an int cannot hold is undefined.\<close>

definition atoi :: "byte list \<Rightarrow> int ub" where
  "atoi p = (let q = dropWhile (\<lambda>c. c = 0x20 \<or> 9 \<le> c \<and> c \<le> 13) p;
       neg = (ch q 0 = 0x2D); r = (if neg \<or> ch q 0 = 0x2B then tl q else q);
       n = foldl (\<lambda>a c. 10 * a + (uint c - 0x30)) 0 (takeWhile (\<lambda>c. 0x30 \<le> c \<and> c \<le> 0x39) r);
       v = (if neg then - n else n) in
     if - (2 ^ 31) \<le> v \<and> v < 2 ^ 31 then Some v else None)"

text \<open>The descriptor of \<open>/dev/stdin\<close>, \<open>/dev/fd/3\<close> and the like.\<close>

definition dev_fd :: "byte list \<Rightarrow> int option ub" where
  "dev_fd path =
     (if path = bytes_of ''/dev/stdin'' then Some (Some 0)
      else if path = bytes_of ''/dev/stdout'' then Some (Some 1)
      else if path = bytes_of ''/dev/stderr'' then Some (Some 2)
      else if take 8 path = bytes_of ''/dev/fd/'' then map_option Some (atoi (drop 8 path))
      else Some None)"

definition fd_device :: "path_env \<Rightarrow> int \<Rightarrow> handle_t \<Rightarrow> path_state \<Rightarrow> path_result" where
  "fd_device e fd ty s =
     (if fd < 0 then Some (fail_with ENOENT, ty, s)
      else do {
        info \<leftarrow> get_fdinfo fd (p_info e) (p_fds e);
        if htype info = INVALID_HANDLE then Some (fail_with ENOENT, ty, s)
        else do {
          (r, s1) \<leftarrow> get_fd_ntpath e fd s;
          case r of Inl _ \<Rightarrow> Some (fail_with ENOMEM, ty, s1) | Inr u \<Rightarrow> Some (Inr u, htype info, s1) } })"

text \<open>The root is the root of the current drive. A missing device is a NULL pointer that is followed.\<close>

definition root_path :: "path_env \<Rightarrow> path_state \<Rightarrow> (UNICODE_STRING res \<times> path_state) ub" where
  "root_path e s = do {
     c \<leftarrow> load (current_directory e) 0;
     (d, s1) \<leftarrow> dos_device_to_nt_device e (ucast c) s;
     device \<leftarrow> d;
     if \<not> p_heap e (16 + unat (nd_length device) + 4) then Some (fail_with ENOMEM, s1)
     else do {
       name \<leftarrow> device_text device;
       Some (Inr \<lparr>us_Length = nd_length device + 2, us_MaximumLength = nd_length device + 4, us_Buffer = Chars (name @ [0x5C, 0])\<rparr>, s1) } }"

definition pipe_prefix :: "byte list" where
  "pipe_prefix = [0x5C, 0x5C, 0x2E, 0x5C] @ bytes_of ''pipe'' @ [0x5C]"

text \<open>The name is converted at the start of the block, moved behind the directory and terminated. A
  failed conversion returns NULL without an errno.\<close>

definition pipe_path :: "path_env \<Rightarrow> byte list \<Rightarrow> UNICODE_STRING res ub" where
  "pipe_path e path = (let len = of_nat (length path) - 9 :: 16 word; required = 36 + (len * 2 + 2) in
     if \<not> p_heap e (16 + unat required) then Some (fail_with ENOMEM)
     else let (status, w) = RtlUTF8StringToUnicodeString e (take (unat len) (drop 9 path)) in
       if status \<noteq> STATUS_SUCCESS \<or> 2 * length w + 2 > unat required then Some fail_silent
       else do {
         b1 \<leftarrow> blit 0 (w @ [0]) (block e (unat required));
         b2 \<leftarrow> blit 18 w b1;
         b3 \<leftarrow> blit 0 (nt_name [''Device'', ''NamedPipe''] @ [0x5C]) b2;
         let n = (of_nat (2 * length w) + 36 :: 16 word);
         b4 \<leftarrow> store (unat n div 2) 0 b3;
         Some (Inr \<lparr>us_Length = n, us_MaximumLength = n + 2, us_Buffer = Chars b4\<rparr>) })"

section \<open>The full path before its components are resolved\<close>

fun backslashes :: "wchar list \<Rightarrow> wchar list" where
  "backslashes [] = []"
| "backslashes (c # cs) = (if c = 0 then c # cs else (if c = 0x2F then 0x5C else c) # backslashes cs)"

definition mup_prefix :: "wchar list" where "mup_prefix = nt_name [''Device'', ''Mup''] @ [0x5C]"

text \<open>A network share: the buffer and its size in bytes.\<close>

definition share_buffer :: "path_env \<Rightarrow> byte list \<Rightarrow> (wchar list \<times> 16 word) res ub" where
  "share_buffer e path = (let (status, w) = RtlUTF8StringToUnicodeString e path in
     if status \<noteq> STATUS_SUCCESS then Some (Inl (map_ntstatus_to_errno status))
     else let required = (RtlInitUTF8String e path + 11) * 2 in
       if \<not> p_heap e (unat required) then Some (fail_with ENOMEM)
       else if w = [] then None
       else do {
         b1 \<leftarrow> blit 0 mup_prefix (block e (unat required));
         b2 \<leftarrow> blit 12 (drop 2 (backslashes w @ [0])) b1;
         Some (Inr (b2, required)) })"

text \<open>\<open>/tmp\<close> is replaced by the directory for temporary files. The size of the new string is cut to 16
  bits.\<close>

definition expand_tmp :: "path_env \<Rightarrow> byte list \<Rightarrow> byte list res ub" where
  "expand_tmp e path =
     (if \<not> stricmp_eq (take 4 path) (bytes_of ''/tmp'') then Some (Inr path)
      else case wlibc_tmpdir e of
        None \<Rightarrow> Some (fail_with ENOENT)
      | Some tmp \<Rightarrow>
          (let n = length tmp + length path - 3; required = unat (of_nat n :: 16 word) in
           if \<not> p_heap e required then Some (fail_with ENOMEM)
           else if n > required then None
           else Some (Inr (tmp @ drop 4 path))))"

text \<open>The directory a relative path starts at, and whether it ends in a backslash.\<close>

definition root_directory :: "path_env \<Rightarrow> int \<Rightarrow> path_state \<Rightarrow> ((wchar list \<times> bool) res \<times> path_state) ub" where
  "root_directory e dirfd s =
     (if dirfd = AT_FDCWD then
        (if \<not> p_heap e 1024 then Some (fail_with ENOMEM, s)
         else do {
           c \<leftarrow> load (current_directory e) 0;
           (d, s1) \<leftarrow> dos_device_to_nt_device e (ucast c) s;
           device \<leftarrow> d;
           name \<leftarrow> device_text device;
           if length (current_directory e) < 2 \<or> 2 * (length name + (length (current_directory e) - 2)) > 1024 then None
           else Some (Inr (name @ drop 2 (current_directory e), True), s1) })
      else do {
        (r, s1) \<leftarrow> get_fd_ntpath_internal e dirfd s;
        case r of
          Inl _ \<Rightarrow> Some (fail_with EBADF, s1)
        | Inr a \<Rightarrow> do {
            u \<leftarrow> cached_paths s1 a;
            root \<leftarrow> text_of s1 u;
            if root = [] then None else Some (Inr (root, last root = 0x5C), s1) } })"

definition relative_buffer :: "path_env \<Rightarrow> wchar list \<Rightarrow> bool \<Rightarrow> wchar list \<Rightarrow> (wchar list \<times> 16 word) res ub" where
  "relative_buffer e root slash w = (let required = of_nat (2 * (length w + 1)) + (of_nat (2 * length root) + 2) :: 16 word in
     if \<not> p_heap e (unat required) then Some (fail_with ENOMEM)
     else do {
       b1 \<leftarrow> blit 0 root (block e (unat required));
       b2 \<leftarrow> (if slash then Some b1 else store (length root) 0x5C b1);
       b3 \<leftarrow> blit (if slash then length root else length root + 1) (w @ [0]) b2;
       Some (Inr (b3, required)) })"

definition absolute_buffer :: "path_env \<Rightarrow> byte \<Rightarrow> wchar list \<Rightarrow> path_state \<Rightarrow> ((wchar list \<times> 16 word) res \<times> path_state) ub" where
  "absolute_buffer e volume w s = (let required = of_nat (2 * (length w + 1)) + 54 :: 16 word in
     if \<not> p_heap e (unat required) then Some (fail_with ENOMEM, s)
     else do {
       (d, s1) \<leftarrow> dos_device_to_nt_device e volume s;
       case d of
         None \<Rightarrow> Some (fail_with ENOENT, s1)
       | Some device \<Rightarrow> do {
           name \<leftarrow> device_text device;
           b1 \<leftarrow> blit 0 name (block e (unat required));
           if w = [] then None
           else do {
             b2 \<leftarrow> blit (length name) (drop 2 (w @ [0])) b1;
             Some (Inr (b2, required), s1) } } })"

definition full_path :: "path_env \<Rightarrow> int \<Rightarrow> byte list \<Rightarrow> path_state \<Rightarrow> ((wchar list \<times> 16 word) res \<times> path_state) ub" where
  "full_path e dirfd path s =
     (if IS_ABSOLUTE_PATH path then
        (if ch path 0 = 0x2F \<and> \<not> (is_alpha (ch path 1) \<and> (ch path 2 = 0x2F \<or> ch path 2 = 0)) then Some (fail_with ENOENT, s)
         else let (status, w) = RtlUTF8StringToUnicodeString e path in
           if status \<noteq> STATUS_SUCCESS then Some (Inl (map_ntstatus_to_errno status), s)
           else absolute_buffer e (to_upper (if ch path 0 = 0x2F then ch path 1 else ch path 0)) (backslashes w) s)
      else do {
        (r, s1) \<leftarrow> root_directory e dirfd s;
        case r of
          Inl err \<Rightarrow> Some (Inl err, s1)
        | Inr (root, slash) \<Rightarrow>
            (let (status, w) = RtlUTF8StringToUnicodeString e path in
             if status \<noteq> STATUS_SUCCESS then Some (Inl (map_ntstatus_to_errno status), s1)
             else do { b \<leftarrow> relative_buffer e root slash (backslashes w); Some (b, s1) }) })"

section \<open>Resolving the components\<close>

definition add_component ::
  "path_env \<Rightarrow> path_component list option \<Rightarrow> nat \<Rightarrow> nat \<Rightarrow> nat \<Rightarrow> path_state \<Rightarrow> ((path_component list \<times> nat) res \<times> path_state) ub" where
  "add_component e components index st len s =
     (case (case components of
         Some cs \<Rightarrow> Some cs
       | None \<Rightarrow> if p_heap e (path_components_size s * 8) then Some (replicate (path_components_size s) (cjunk e)) else None) of
       None \<Rightarrow> Some (fail_with ENOMEM, s)
     | Some cs \<Rightarrow>
         if index = path_components_size s \<and> \<not> p_heap e (path_components_size s * 2 * 8) then Some (fail_with ENOMEM, s)
         else do {
           let grown = (index = path_components_size s);
           cs1 \<leftarrow> store index \<lparr>pc_start = st, pc_length = len\<rparr> (if grown then cs @ replicate (path_components_size s) (cjunk e) else cs);
           Some (Inr (cs1, index + 1), if grown then s\<lparr>path_components_size := path_components_size s * 2\<rparr> else s) })"

function coalesce_loop ::
  "path_env \<Rightarrow> wchar list \<Rightarrow> nat \<Rightarrow> nat \<Rightarrow> path_component list option \<Rightarrow> nat \<Rightarrow> path_state
     \<Rightarrow> ((path_component list option \<times> nat) res \<times> path_state) ub" where
  "coalesce_loop e buf i st components index s =
     (if i < length buf then
        (if buf ! i = 0x5C \<or> buf ! i = 0 then do {
           (r, s1) \<leftarrow>
             (if i - st = 2 \<and> take 2 (drop st buf) = [0x2E, 0x2E] then Some (Inr (components, if index < 2 then 1 else index - 1), s)
              else if i - st = 1 \<and> buf ! st = 0x2E then Some (Inr (components, index), s)
              else do {
                (r, s1) \<leftarrow> add_component e components index st ((i - st) * 2) s;
                Some (map_sum id (\<lambda>(cs, k). (Some cs, k)) r, s1) });
           case r of
             Inl err \<Rightarrow> Some (Inl err, s1)
           | Inr (cs, k) \<Rightarrow>
               if buf ! i = 0 then Some (Inr (cs, k), s1)
               else coalesce_loop e buf (i + 1) (i + 1) cs k s1 }
         else coalesce_loop e buf (i + 1) st components index s)
      else None)"
  by pat_completeness auto
termination
  by (relation "measure (\<lambda>(_, buf, i, _). length buf - i)") auto

declare coalesce_loop.simps [simp del]

text \<open>The remaining components are copied one after another; \<open>n\<close> is the length in bytes, 16 bits wide.\<close>

fun join_components :: "wchar list \<Rightarrow> path_component list \<Rightarrow> nat \<Rightarrow> nat \<Rightarrow> 16 word \<Rightarrow> wchar list \<Rightarrow> (wchar list \<times> 16 word) ub" where
  "join_components buf cs i 0 n out = Some (out, n)"
| "join_components buf cs i (Suc k) n out = do {
     c \<leftarrow> load cs i;
     part \<leftarrow> slice (pc_start c) (pc_length c div 2) buf;
     out1 \<leftarrow> blit (unat n div 2) part out;
     let n1 = n + of_nat (pc_length c);
     if k > 0 then do {
       out2 \<leftarrow> store (unat n1 div 2) 0x5C out1;
       join_components buf cs (Suc i) k (n1 + 2) out2 }
     else join_components buf cs (Suc i) k n1 out1 }"

definition path_coalesce :: "path_env \<Rightarrow> wchar list \<Rightarrow> 16 word \<Rightarrow> path_state \<Rightarrow> (UNICODE_STRING res \<times> path_state) ub" where
  "path_coalesce e buf required s = do {
     (r, s1) \<leftarrow> coalesce_loop e buf 8 0 None 0 s;
     case r of
       Inl err \<Rightarrow> Some (Inl err, s1)
     | Inr (components, index) \<Rightarrow>
         if \<not> p_heap e (unat required + 16) then Some (fail_with ENOMEM, s1)
         else do {
           cs \<leftarrow> components;
           (out, n) \<leftarrow> join_components buf cs 0 index 0 (block e (unat required));
           out1 \<leftarrow> (if index = 1 then store (unat n div 2) 0x5C out else Some out);
           let n1 = (if index = 1 then n + 2 else n);
           out2 \<leftarrow> store (unat n1 div 2) 0 out1;
           Some (Inr \<lparr>us_Length = n1, us_MaximumLength = required, us_Buffer = Chars out2\<rparr>, s1) } }"

section \<open>The translation\<close>

text \<open>Callers reject NULL and the empty path; on the empty path \<open>IS_ROOT_PATH\<close> reads past the
  terminator. \<open>ty\<close> is the value the caller's variable has before.\<close>

definition coalesce_result :: "path_env \<Rightarrow> handle_t \<Rightarrow> (wchar list \<times> 16 word) res \<Rightarrow> path_state \<Rightarrow> path_result" where
  "coalesce_result e ty r s = (case r of
     Inl err \<Rightarrow> Some (Inl err, ty, s)
   | Inr (buf, required) \<Rightarrow> do { (u, s1) \<leftarrow> path_coalesce e buf required s; Some (u, ty, s1) })"

definition get_absolute_ntpath2 :: "path_env \<Rightarrow> int \<Rightarrow> byte list \<Rightarrow> handle_t \<Rightarrow> path_state \<Rightarrow> path_result" where
  "get_absolute_ntpath2 e dirfd path ty s =
     (if path = [] then None
      else if IS_ROOT_PATH path then do { (r, s1) \<leftarrow> root_path e s; Some (r, ty, s1) }
      else case posix_device path of
        Some (parts, t) \<Rightarrow> (let r = static_path e parts in Some (r, if isl r then ty else t, s))
      | None \<Rightarrow> do {
          devfd \<leftarrow> dev_fd path;
          case devfd of
            Some fd \<Rightarrow> fd_device e fd ty s
          | None \<Rightarrow> (case dos_name path of
              Some (parts, t) \<Rightarrow> (let r = static_path e parts in Some (r, if isl r then ty else t, s))
            | None \<Rightarrow>
                if stricmp_eq (take 9 path) pipe_prefix then do {
                  r \<leftarrow> pipe_path e path; Some (r, if isl r then ty else PIPE_HANDLE, s) }
                else if (ch path 0 = 0x5C \<and> ch path 1 = 0x5C) \<or> (ch path 0 = 0x2F \<and> ch path 1 = 0x2F) then do {
                  r \<leftarrow> share_buffer e path; coalesce_result e FILE_HANDLE r s }
                else do {
                  p \<leftarrow> expand_tmp e path;
                  case p of
                    Inl err \<Rightarrow> Some (Inl err, FILE_HANDLE, s)
                  | Inr path1 \<Rightarrow> do {
                      (r, s1) \<leftarrow> full_path e dirfd path1 s; coalesce_result e FILE_HANDLE r s1 } }) })"

definition get_absolute_ntpath :: "path_env \<Rightarrow> int \<Rightarrow> byte list \<Rightarrow> path_state \<Rightarrow> (UNICODE_STRING res \<times> path_state) ub" where
  "get_absolute_ntpath e dirfd path s = map_option (\<lambda>(r, _, s1). (r, s1)) (get_absolute_ntpath2 e dirfd path INVALID_HANDLE s)"

section \<open>Back to DOS paths\<close>

text \<open>The number of the volume and the position of the slash behind it, from position \<open>i\<close> on.\<close>

function volume_number :: "wchar list \<Rightarrow> nat \<Rightarrow> 32 word \<Rightarrow> (32 word \<times> nat option) ub" where
  "volume_number buf i n =
     (if i < length buf then
        (if buf ! i = 0 then Some (n, None)
         else if buf ! i = 0x5C then Some (n, Some i)
         else volume_number buf (i + 1) (n * 10 + (ucast (buf ! i) - 0x30)))
      else None)"
  by pat_completeness auto
termination
  by (relation "measure (\<lambda>(buf, i, _). length buf - i)") auto

declare volume_number.simps [simp del]

text \<open>The device is the first \<open>k\<close> units of the path.\<close>

definition drive_label :: "path_env \<Rightarrow> 32 word \<Rightarrow> nat \<Rightarrow> wchar list \<Rightarrow> path_state \<Rightarrow> (byte \<times> path_state) ub" where
  "drive_label e n k buf s =
     (if dd_number (dos_device_cache0 s) = n then Some (dd_label (dos_device_cache0 s), s)
      else if dd_number (dos_device_cache1 s) = n then
        Some (dd_label (dos_device_cache1 s), s\<lparr>dos_device_cache0 := dos_device_cache1 s, dos_device_cache1 := dos_device_cache0 s\<rparr>)
      else do {
        device \<leftarrow> slice 0 k buf;
        label \<leftarrow> nt_device_to_dos_device e device;
        Some (label,
          if label = 0 then s
          else if dd_number (dos_device_cache0 s) = - 1 then s\<lparr>dos_device_cache0 := \<lparr>dd_number = n, dd_label = label\<rparr>\<rparr>
          else s\<lparr>dos_device_cache1 := \<lparr>dd_number = n, dd_label = label\<rparr>\<rparr>) })"

definition dos_static :: "path_env \<Rightarrow> string \<Rightarrow> UNICODE_STRING res" where
  "dos_static e name = (if \<not> p_heap e 16 then fail_with ENOMEM
     else Inr \<lparr>us_Length = 6, us_MaximumLength = 6, us_Buffer = Chars (wide name @ [0])\<rparr>)"

text \<open>A new block of \<open>size\<close> bytes: \<open>front\<close>, then \<open>n\<close> units of the kernel path from \<open>off\<close> on.\<close>

definition dos_block :: "path_env \<Rightarrow> nat \<Rightarrow> wchar list \<Rightarrow> nat \<Rightarrow> nat \<Rightarrow> wchar list \<Rightarrow> wchar list ub" where
  "dos_block e room front off n buf = do {
     b1 \<leftarrow> blit 0 front (block e room);
     part \<leftarrow> slice off n buf;
     blit (length front) part b1 }"

text \<open>The paths of pipes and shares: the prefix of \<open>skip\<close> units is replaced by \<open>front\<close>; the terminator is copied too.\<close>

definition dos_replace :: "path_env \<Rightarrow> wchar list \<Rightarrow> nat \<Rightarrow> nat \<Rightarrow> 16 word \<Rightarrow> wchar list \<Rightarrow> UNICODE_STRING res ub" where
  "dos_replace e front skip fewer len buf =
     (if unat len < 2 * (skip - 1) then None
      else if \<not> p_heap e (16 + unat len - 2 * fewer) then Some (fail_with ENOMEM)
      else do {
        b \<leftarrow> dos_block e (unat len - 2 * fewer) front skip (unat len div 2 - (skip - 1)) buf;
        let n = (of_nat (2 * length front) + (len - of_nat (2 * skip)) :: 16 word);
        Some (Inr \<lparr>us_Length = n, us_MaximumLength = n + 2, us_Buffer = Chars b\<rparr>) })"

text \<open>The path of a file on a drive; \<open>pos\<close> is the slash behind the volume.\<close>

definition dos_drive :: "path_env \<Rightarrow> byte \<Rightarrow> nat option \<Rightarrow> 16 word \<Rightarrow> wchar list \<Rightarrow> UNICODE_STRING res ub" where
  "dos_drive e label pos len buf =
     (if \<not> p_heap e (unat (ucast len - 16 :: 64 word)) then Some (fail_with ENOMEM)
      else case pos of
        Some p \<Rightarrow> if unat len < 2 * p then None else do {
          b \<leftarrow> dos_block e (unat len - 32) [ucast label, 0x3A] p (unat len div 2 - p) buf;
          let n = (len - (of_nat (2 * p) - 4) :: 16 word);
          b1 \<leftarrow> store (unat n div 2) 0 b;
          Some (Inr \<lparr>us_Length = n, us_MaximumLength = n + 2, us_Buffer = Chars b1\<rparr>) }
      | None \<Rightarrow> do {
          b \<leftarrow> blit 0 [ucast label, 0x3A, 0] (block e (unat len - 32));
          Some (Inr \<lparr>us_Length = 4, us_MaximumLength = 6, us_Buffer = Chars b\<rparr>) })"

text \<open>An unknown device gives NULL without an errno.\<close>

definition ntpath_to_dospath :: "path_env \<Rightarrow> UNICODE_STRING \<Rightarrow> path_state \<Rightarrow> (UNICODE_STRING res \<times> path_state) ub" where
  "ntpath_to_dospath e u s = do {
     buf \<leftarrow> buffer_of s u;
     null \<leftarrow> memcmp_eq (nt_name [''Device'', ''Null''] @ [0]) buf;
     if null then Some (dos_static e ''NUL'', s)
     else do {
       con \<leftarrow> memcmp_eq (nt_name [''Device'', ''ConDrv'']) buf;
       if con then Some (dos_static e ''CON'', s)
       else do {
         pipe \<leftarrow> memcmp_eq (nt_name [''Device'', ''NamedPipe'']) buf;
         if pipe then do {
           r \<leftarrow> dos_replace e ([0x5C, 0x5C, 0x2E, 0x5C] @ wide ''pipe'') 17 8 (us_Length u) buf; Some (r, s) }
         else do {
           mup \<leftarrow> memcmp_eq (nt_name [''Device'', ''Mup'']) buf;
           if mup then do { r \<leftarrow> dos_replace e [0x5C] 11 9 (us_Length u) buf; Some (r, s) }
           else do {
             (n, pos) \<leftarrow> volume_number buf 22 0;
             (label, s1) \<leftarrow> drive_label e n (case pos of Some p \<Rightarrow> p | None \<Rightarrow> unat (us_Length u) div 2) buf s;
             if label = 0 then Some (fail_silent, s1)
             else do { r \<leftarrow> dos_drive e label pos (us_Length u) buf; Some (r, s1) } } } } } }"

text \<open>The whole of the DOS path up to \<open>MaximumLength\<close> is copied.\<close>

definition dospath_to_ntpath :: "path_env \<Rightarrow> UNICODE_STRING \<Rightarrow> path_state \<Rightarrow> (UNICODE_STRING res \<times> path_state) ub" where
  "dospath_to_ntpath e u s = do {
     buf \<leftarrow> buffer_of s u;
     c \<leftarrow> load buf 0;
     (d, s1) \<leftarrow> dos_device_to_nt_device e (ucast c) s;
     case d of
       None \<Rightarrow> Some (fail_silent, s1)
     | Some device \<Rightarrow>
         if unat (us_MaximumLength u) < 4 then None
         else if \<not> p_heap e (16 + unat (nd_length device) + unat (us_MaximumLength u) - 4) then Some (fail_with ENOMEM, s1)
         else do {
           name \<leftarrow> device_text device;
           rest \<leftarrow> slice 2 (unat (us_MaximumLength u) div 2 - 2) buf;
           let n = nd_length device + us_Length u - 4;
           Some (Inr \<lparr>us_Length = n, us_MaximumLength = n + 2, us_Buffer = Chars (name @ rest)\<rparr>, s1) } }"

definition get_absolute_dospath :: "path_env \<Rightarrow> int \<Rightarrow> byte list \<Rightarrow> path_state \<Rightarrow> (UNICODE_STRING res \<times> path_state) ub" where
  "get_absolute_dospath e dirfd path s = do {
     (r, s1) \<leftarrow> get_absolute_ntpath e dirfd path s;
     case r of Inl err \<Rightarrow> Some (Inl err, s1) | Inr u \<Rightarrow> ntpath_to_dospath e u s1 }"

definition get_fd_dospath :: "path_env \<Rightarrow> int \<Rightarrow> path_state \<Rightarrow> (UNICODE_STRING res \<times> path_state) ub" where
  "get_fd_dospath e fd s = do {
     (r, s1) \<leftarrow> get_fd_ntpath_internal e fd s;
     case r of
       Inl err \<Rightarrow> Some (Inl err, s1)
     | Inr a \<Rightarrow> do { u \<leftarrow> cached_paths s1 a; ntpath_to_dospath e u s1 } }"

end
