(* ===== verification/CmdLine.thy ===== *)
theory CmdLine
  imports Path
begin

text \<open>
  Command lines and environments for a new process (src/spawn/spawn.c): the quoting of arguments, the
  command line and the environment block built from them, and the command line of a script. Strings
  are the bytes before their terminator, blocks are lists as long as they are allocated, and an access
  outside a block is \<open>None\<close>. The heap and the conversion to UTF-16 come from \<open>path_env\<close>.
\<close>

section \<open>Quoting an argument\<close>

record arg_scan =
  has_whitespaces :: bool
  number_of_double_quotes :: nat
  number_of_backslashes_before_quote :: nat
  number_of_backslashes_at_the_end :: nat
  arg_size :: nat

text \<open>The first loop counts. A run of backslashes is taken as a whole, with the quote that may follow.\<close>

function count_arg :: "byte list \<Rightarrow> arg_scan \<Rightarrow> arg_scan" where
  "count_arg [] s = s"
| "count_arg (c # cs) s =
     (if c = 0x5C then
        let count = Suc (length (takeWhile (\<lambda>x. x = 0x5C) cs)); rest = dropWhile (\<lambda>x. x = 0x5C) cs;
            s1 = s\<lparr>arg_size := arg_size s + count\<rparr> in
        (case rest of
           [] \<Rightarrow> s1\<lparr>number_of_backslashes_at_the_end := count\<rparr>
         | d # ds \<Rightarrow>
             if d = 0x22 then count_arg ds (s1\<lparr>number_of_backslashes_before_quote := number_of_backslashes_before_quote s1 + count,
               number_of_double_quotes := number_of_double_quotes s1 + 1, arg_size := arg_size s1 + 1\<rparr>)
             else count_arg rest s1)
      else count_arg cs (s\<lparr>has_whitespaces := has_whitespaces s \<or> c = 0x20 \<or> c = 0x09,
        number_of_double_quotes := number_of_double_quotes s + (if c = 0x22 then 1 else 0), arg_size := arg_size s + 1\<rparr>))"
  by pat_completeness auto
termination
proof (relation "measure (length \<circ> fst)", goal_cases)
  case (2 c cs s count rest s1 d ds)
  then have "length (d # ds) \<le> length cs" using length_dropWhile_le [of "\<lambda>x. x = 0x5C" cs] by simp
  then show ?case by simp
next
  case (3 c cs s count rest s1 d ds)
  then show ?case by (simp add: less_Suc_eq_le length_dropWhile_le)
qed simp_all

declare count_arg.simps(2) [simp del]

text \<open>The second loop writes at an index of the new block.\<close>

type_synonym arg_out = "nat \<times> byte list"

definition put :: "byte \<Rightarrow> arg_out \<Rightarrow> arg_out ub" where
  "put c out = do { b \<leftarrow> store (fst out) c (snd out); Some (fst out + 1, b) }"

fun put_many :: "nat \<Rightarrow> byte \<Rightarrow> arg_out \<Rightarrow> arg_out ub" where
  "put_many 0 c out = Some out"
| "put_many (Suc n) c out = do { out1 \<leftarrow> put c out; put_many n c out1 }"

function fill_arg :: "byte list \<Rightarrow> arg_out \<Rightarrow> arg_out ub" where
  "fill_arg [] out = Some out"
| "fill_arg (c # cs) out =
     (if c = 0x22 then do { out1 \<leftarrow> put_many 1 0x5C out; out2 \<leftarrow> put 0x22 out1; fill_arg cs out2 }
      else if c = 0x5C then
        let count = Suc (length (takeWhile (\<lambda>x. x = 0x5C) cs)); rest = dropWhile (\<lambda>x. x = 0x5C) cs in
        do {
          out1 \<leftarrow> put_many count 0x5C out;
          case rest of
            [] \<Rightarrow> Some out1
          | d # ds \<Rightarrow>
              if d = 0x22 then do { out2 \<leftarrow> put_many (count + 1) 0x5C out1; out3 \<leftarrow> put 0x22 out2; fill_arg ds out3 }
              else fill_arg rest out1 }
      else do { out1 \<leftarrow> put c out; fill_arg cs out1 })"
  by pat_completeness auto
termination
proof (relation "measure (length \<circ> fst)", goal_cases)
  case (3 c cs out count rest out1 d ds out2 out3)
  then have "length (d # ds) \<le> length cs" using length_dropWhile_le [of "\<lambda>x. x = 0x5C" cs] by simp
  then show ?case by simp
next
  case (4 c cs out count rest out1 d ds)
  then show ?case by (simp add: less_Suc_eq_le length_dropWhile_le)
qed simp_all

declare fill_arg.simps(2) [simp del]

text \<open>The result: the block, or \<open>None\<close> when the argument is used as it is, and the size stored at \<open>size\<close>.\<close>

definition convert_argv_to_windows_cmd :: "path_env \<Rightarrow> byte list \<Rightarrow> (byte list option res \<times> nat) ub" where
  "convert_argv_to_windows_cmd e arg = (
     let s = count_arg arg \<lparr>has_whitespaces = False, number_of_double_quotes = 0, number_of_backslashes_before_quote = 0,
           number_of_backslashes_at_the_end = 0, arg_size = 0\<rparr> in
     if \<not> (has_whitespaces s \<or> number_of_double_quotes s > 0) then Some (Inr None, arg_size s)
     else let n = arg_size s + 2 + number_of_double_quotes s + number_of_backslashes_before_quote s + number_of_backslashes_at_the_end s in
       if \<not> p_heap e (n + 1) then Some (fail_with ENOMEM, n)
       else do {
         out1 \<leftarrow> put 0x22 (0, replicate (n + 1) (ucast (wjunk e)));
         out2 \<leftarrow> fill_arg arg out1;
         out3 \<leftarrow> put_many (number_of_backslashes_at_the_end s) 0x5C out2;
         out4 \<leftarrow> put 0x22 out3;
         out5 \<leftarrow> put 0 out4;
         Some (Inr (Some (snd out5)), n) })"

section \<open>Command lines\<close>

text \<open>\<open>RtlUTF8StringToUnicodeString\<close> into a part of a block: \<open>room\<close> bytes from unit \<open>off\<close> on. The text and its
  terminator have to fit.\<close>

definition convert_into :: "path_env \<Rightarrow> byte list \<Rightarrow> 16 word \<Rightarrow> nat \<Rightarrow> wchar list \<Rightarrow> (nat res \<times> wchar list) ub" where
  "convert_into e src room off buf = (let (status, w) = RtlUTF8StringToUnicodeString e src in
     if status \<noteq> STATUS_SUCCESS then Some (Inl (map_ntstatus_to_errno status), buf)
     else if 2 * length w + 2 > unat room then Some (Inl (map_ntstatus_to_errno STATUS_BUFFER_OVERFLOW), buf)
     else do { b \<leftarrow> blit off (w @ [0]) buf; Some (Inr (length w), b) })"

text \<open>The arguments as \<open>UTF8_STRING\<close>s: the bytes behind \<open>Buffer\<close> and the \<open>Length\<close>, 16 bits wide.\<close>

fun normalize_args :: "path_env \<Rightarrow> byte list list \<Rightarrow> (byte list \<times> 16 word) list res ub" where
  "normalize_args e [] = Some (Inr [])"
| "normalize_args e (a # as) = do {
     (r, n) \<leftarrow> convert_argv_to_windows_cmd e a;
     case r of
       Inl err \<Rightarrow> Some (Inl err)
     | Inr new_arg \<Rightarrow> do {
         rest \<leftarrow> normalize_args e as;
         Some (map_sum id (\<lambda>us. (case new_arg of None \<Rightarrow> a @ [0] | Some b \<Rightarrow> b, of_nat n) # us) rest) } }"

definition max_lengths :: "(byte list \<times> 16 word) list \<Rightarrow> nat" where
  "max_lengths us = sum_list (map (\<lambda>(_, n). unat (n + 1)) us)"

definition u8_text :: "byte list \<times> 16 word \<Rightarrow> byte list ub" where
  "u8_text u = (if unat (snd u) \<le> length (fst u) then Some (take (unat (snd u)) (fst u)) else None)"

text \<open>Every argument is followed by a space, which the last one gives up for the terminator. \<open>used\<close>
  counts units.\<close>

fun fill_wargv :: "path_env \<Rightarrow> nat \<Rightarrow> (byte list \<times> 16 word) list \<Rightarrow> nat \<Rightarrow> wchar list \<Rightarrow> (nat res \<times> wchar list) ub" where
  "fill_wargv e room [] used buf = Some (Inr used, buf)"
| "fill_wargv e room (u # us) used buf = do {
     src \<leftarrow> u8_text u;
     (r, b1) \<leftarrow> convert_into e src (of_nat (room - 2 * used)) used buf;
     case r of
       Inl err \<Rightarrow> Some (Inl err, b1)
     | Inr n \<Rightarrow> do {
         b2 \<leftarrow> store (used + n) 0x20 b1;
         fill_wargv e room us (used + n + 1) b2 } }"

text \<open>The block and its size in bytes; \<open>None\<close> for NULL, which stands for no arguments.\<close>

definition convert_argv_to_wargv :: "path_env \<Rightarrow> byte list list \<Rightarrow> (wchar list \<times> nat) option res ub" where
  "convert_argv_to_wargv e argv = (let argc = length argv in
     if argc = 0 then Some (Inr None)
     else if \<not> p_heap e (16 * argc) \<or> \<not> p_heap e (8 * argc) then Some (fail_with ENOMEM)
     else do {
       r \<leftarrow> normalize_args e argv;
       case r of
         Inl err \<Rightarrow> Some (Inl err)
       | Inr us \<Rightarrow> (let room = 2 * max_lengths us in
           if \<not> p_heap e room then Some (fail_with ENOMEM)
           else do {
             (r2, b) \<leftarrow> fill_wargv e room us 0 (block e room);
             case r2 of
               Inl err \<Rightarrow> Some (Inl err)
             | Inr used \<Rightarrow> do { b2 \<leftarrow> store (used - 1) 0 b; Some (Inr (Some (b2, room))) } }) })"

section \<open>Environments\<close>

fun fill_wenv :: "path_env \<Rightarrow> nat \<Rightarrow> (byte list \<times> 16 word) list \<Rightarrow> nat \<Rightarrow> wchar list \<Rightarrow> (nat res \<times> wchar list) ub" where
  "fill_wenv e room [] used buf = Some (Inr used, buf)"
| "fill_wenv e room (u # us) used buf = do {
     src \<leftarrow> u8_text u;
     (r, b1) \<leftarrow> convert_into e src (of_nat (room - 2 * used)) used buf;
     case r of
       Inl err \<Rightarrow> Some (Inl err, b1)
     | Inr n \<Rightarrow> fill_wenv e room us (used + n + 1) b1 }"

definition convert_env_to_wenv :: "path_env \<Rightarrow> byte list list \<Rightarrow> (wchar list \<times> nat) res ub" where
  "convert_env_to_wenv e env =
     (if \<not> p_heap e (16 * length env) then Some (fail_with ENOMEM)
      else let us = map (\<lambda>x. (x @ [0], RtlInitUTF8String e x)) env; room = 2 * (max_lengths us + 1) in
        if \<not> p_heap e room then Some (fail_with ENOMEM)
        else do {
          (r, b) \<leftarrow> fill_wenv e room us 0 (block e room);
          case r of
            Inl err \<Rightarrow> Some (Inl err)
          | Inr used \<Rightarrow> do { b2 \<leftarrow> store used 0 b; Some (Inr (b2, room)) } })"

section \<open>The command line of a script\<close>

text \<open>The string at unit \<open>i\<close> of a block.\<close>

definition wstr_at :: "wchar list \<Rightarrow> nat \<Rightarrow> wchar list ub" where
  "wstr_at buf i = (let t = takeWhile (\<lambda>c. c \<noteq> 0) (drop i buf) in if i + length t < length buf then Some t else None)"

text \<open>Where the argument after the first starts, 0 when there is none.\<close>

function find_arg1 :: "wchar list \<Rightarrow> bool \<Rightarrow> nat \<Rightarrow> nat ub" where
  "find_arg1 old quoted i =
     (if i < length old then
        (if old ! i = 0 then Some 0
         else if i = 0 then find_arg1 old (old ! i = 0x22) 1
         else if quoted then
           (if old ! i = 0x22 then Some (i + 2)
            else if old ! i = 0x5C then do {
              next \<leftarrow> load old (i + 1);
              if next = 0x22 then find_arg1 old quoted (i + 2) else find_arg1 old quoted (i + 1) }
            else find_arg1 old quoted (i + 1))
         else if old ! i = 0x20 then Some (i + 1)
         else find_arg1 old quoted (i + 1))
      else None)"
  by pat_completeness auto
termination
  by (relation "measure (\<lambda>(old, _, i). length old - i)") auto

declare find_arg1.simps [simp del]

text \<open>The pieces are copied one behind the other.\<close>

fun blit_all :: "nat \<Rightarrow> wchar list list \<Rightarrow> wchar list \<Rightarrow> (nat \<times> wchar list) ub" where
  "blit_all off [] buf = Some (off, buf)"
| "blit_all off (p # ps) buf = do { b \<leftarrow> blit off p buf; blit_all (off + length p) ps b }"

text \<open>The executable, its argument and the file are separated by terminators. \<open>quote_filename\<close> is never
  set: a space in the name of the file sets \<open>quote_executable\<close>.\<close>

definition prepend_shebang_to_wargv :: "path_env \<Rightarrow> wchar list option \<Rightarrow> nat \<Rightarrow> wchar list \<Rightarrow> nat \<Rightarrow> (wchar list \<times> nat) res ub" where
  "prepend_shebang_to_wargv e old_argv old_size shebang_argv shebang_size = do {
     exe \<leftarrow> wstr_at shebang_argv 0;
     arg \<leftarrow> wstr_at shebang_argv (length exe + 1);
     file \<leftarrow> wstr_at shebang_argv (length exe + 1 + length arg + 1);
     let quote_executable = (0x20 \<in> set exe \<or> 0x20 \<in> set file);
     let room = shebang_size + (if quote_executable then 4 else 0);
     if \<not> p_heap e room then Some (fail_with ENOMEM)
     else do {
       let q = (if quote_executable then [0x22] else []);
       (used, new_argv) \<leftarrow> blit_all 0 ([q, exe, q, [0x20]] @ (if arg \<noteq> [] then [arg, [0x20]] else []) @ [file, [0x20]]) (block e room);
       start1 \<leftarrow> (case old_argv of None \<Rightarrow> Some 0 | Some old \<Rightarrow> find_arg1 old False 0);
       let start_of_arg1 = (if 2 * start1 > old_size then 0 else start1);
       let needed = (if old_size > 0 then (if start_of_arg1 = 0 then 0 else old_size - 2 * start_of_arg1) else old_size);
       if \<not> p_heap e (2 * used + needed + 2) then Some (fail_with ENOMEM)
       else do {
         part \<leftarrow> slice 0 used new_argv;
         b1 \<leftarrow> blit 0 part (block e (2 * used + needed + 2));
         b2 \<leftarrow> (if needed > 0 then do { old \<leftarrow> old_argv; tail \<leftarrow> slice start_of_arg1 (needed div 2) old; blit used tail b1 }
               else store used 0 b1);
         Some (Inr (b2, 2 * used + needed)) } } }"

end
