(* ===== verification/Utf8Text.thy ===== *)
theory Utf8Text
  imports Path
begin

text \<open>
  UTF-8 and UTF-16 as the Unicode standard defines them: which byte sequences are well-formed and
  which code units they stand for. What the library relies on of the kernel's conversion is that it
  gives these units for well-formed text. Malformed bytes stand for the replacement character.
\<close>

definition follows :: "byte \<Rightarrow> bool" where "follows b \<longleftrightarrow> 0x80 \<le> b \<and> b < 0xC0"

text \<open>The length and the code point of the sequence at the start, by the table of well-formed sequences.\<close>

definition utf8_head :: "byte list \<Rightarrow> (nat \<times> nat) option" where
  "utf8_head xs = (case xs of
     [] \<Rightarrow> None
   | b # bs \<Rightarrow>
       if b < 0x80 then Some (1, unat b)
       else if 0xC2 \<le> b \<and> b < 0xE0 then (case bs of
           c # _ \<Rightarrow> if follows c then Some (2, (unat b - 0xC0) * 64 + (unat c - 0x80)) else None
         | _ \<Rightarrow> None)
       else if 0xE0 \<le> b \<and> b < 0xF0 then (case bs of
           c # d # _ \<Rightarrow> if follows c \<and> follows d \<and> (b = 0xE0 \<longrightarrow> 0xA0 \<le> c) \<and> (b = 0xED \<longrightarrow> c < 0xA0)
             then Some (3, (unat b - 0xE0) * 4096 + (unat c - 0x80) * 64 + (unat d - 0x80)) else None
         | _ \<Rightarrow> None)
       else if 0xF0 \<le> b \<and> b < 0xF5 then (case bs of
           c # d # f # _ \<Rightarrow> if follows c \<and> follows d \<and> follows f \<and> (b = 0xF0 \<longrightarrow> 0x90 \<le> c) \<and> (b = 0xF4 \<longrightarrow> c < 0x90)
             then Some (4, (unat b - 0xF0) * 262144 + (unat c - 0x80) * 4096 + (unat d - 0x80) * 64 + (unat f - 0x80)) else None
         | _ \<Rightarrow> None)
       else None)"

definition utf16_units :: "nat \<Rightarrow> wchar list" where
  "utf16_units cp = (if cp < 0x10000 then [of_nat cp]
     else [of_nat (0xD800 + (cp - 0x10000) div 0x400), of_nat (0xDC00 + (cp - 0x10000) mod 0x400)])"

fun utf16_of :: "byte list \<Rightarrow> wchar list" where
  "utf16_of [] = []"
| "utf16_of (b # bs) = (case utf8_head (b # bs) of
       None \<Rightarrow> 0xFFFD # utf16_of bs
     | Some (n, cp) \<Rightarrow> utf16_units cp @ utf16_of (drop (n - 1) bs))"

fun utf8_ok :: "byte list \<Rightarrow> bool" where
  "utf8_ok [] = True"
| "utf8_ok (b # bs) = (case utf8_head (b # bs) of None \<Rightarrow> False | Some (n, cp) \<Rightarrow> utf8_ok (drop (n - 1) bs))"

declare utf16_of.simps [simp del] utf8_ok.simps [simp del]

lemma utf16_simps [simp]:
  "utf16_of [] = []"
  "utf8_head (b # bs) = None \<Longrightarrow> utf16_of (b # bs) = 0xFFFD # utf16_of bs"
  "utf8_head (b # bs) = Some (n, cp) \<Longrightarrow> utf16_of (b # bs) = utf16_units cp @ utf16_of (drop (n - 1) bs)"
  by (subst utf16_of.simps; simp)+

lemma utf8_ok_simps [simp]:
  "utf8_ok []" "utf8_head (b # bs) = None \<Longrightarrow> \<not> utf8_ok (b # bs)"
  "utf8_head (b # bs) = Some (n, cp) \<Longrightarrow> utf8_ok (b # bs) \<longleftrightarrow> utf8_ok (drop (n - 1) bs)"
  by (subst utf8_ok.simps; simp)+

section \<open>One sequence\<close>

lemma head_ascii [simp]: "b < 0x80 \<Longrightarrow> utf8_head (b # bs) = Some (1, unat b)"
  by (simp add: utf8_head_def)

lemma head_bounds:
  assumes "utf8_head xs = Some (n, cp)"
  shows "0 < n" "n \<le> length xs" "n = 4 \<or> cp < 0x10000" "n = 4 \<longrightarrow> 0x10000 \<le> cp \<and> cp < 0x200000" "0x80 \<le> hd xs \<longrightarrow> 0x80 \<le> cp"
  using assms unfolding utf8_head_def follows_def
  by (auto simp: word_le_nat_alt word_less_nat_alt word_unat_eq_iff split: list.splits if_splits)

lemma head_append:
  assumes "c < 0x80" "xs \<noteq> []"
  shows "utf8_head (xs @ c # ys) = utf8_head xs"
proof -
  have "\<not> follows c" using assms(1) by (auto simp: follows_def)
  then show ?thesis using assms(2) unfolding utf8_head_def by (auto split: list.splits)
qed

section \<open>Whole texts\<close>

lemma text_induct [case_names Nil Bad Good]:
  assumes "P []" "\<And>b bs. utf8_head (b # bs) = None \<Longrightarrow> P bs \<Longrightarrow> P (b # bs)"
    "\<And>b bs n cp. utf8_head (b # bs) = Some (n, cp) \<Longrightarrow> P (drop (n - 1) bs) \<Longrightarrow> P (b # bs)"
  shows "P xs"
proof (induction xs rule: length_induct)
  case (1 xs)
  show ?case
  proof (cases xs)
    case (Cons b bs)
    then show ?thesis
      using assms(2,3) [of b bs] 1 by (cases "utf8_head (b # bs)") auto
  qed (use assms(1) in simp)
qed

lemma units_ascii: "c < 0x80 \<Longrightarrow> utf16_units (unat (c :: byte)) = [ucast c]"
proof -
  assume "c < 0x80"
  then have "unat c < 0x80" by (simp add: word_less_nat_alt)
  then show ?thesis by (simp add: utf16_units_def of_nat_unat)
qed

lemma utf16_ascii [simp]: "c < 0x80 \<Longrightarrow> utf16_of (c # ys) = ucast c # utf16_of ys"
  by (simp add: units_ascii)

lemma utf16_append: "c < 0x80 \<Longrightarrow> utf16_of (xs @ c # ys) = utf16_of xs @ ucast c # utf16_of ys"
proof (induction xs rule: text_induct)
  case (Bad b bs)
  then have "utf8_head (b # bs @ c # ys) = None" using head_append [OF Bad(3), of "b # bs" ys] by simp
  then show ?case using Bad by simp
next
  case (Good b bs n cp)
  then have "utf8_head (b # bs @ c # ys) = Some (n, cp)" using head_append [OF Good(3), of "b # bs" ys] by simp
  moreover have "n - 1 \<le> length bs" using head_bounds(2) [OF Good(1)] by simp
  ultimately show ?case using Good by simp
qed (simp add: units_ascii)

lemma ok_append: "c < 0x80 \<Longrightarrow> utf8_ok (xs @ c # ys) \<longleftrightarrow> utf8_ok xs \<and> utf8_ok ys"
proof (induction xs rule: text_induct)
  case (Bad b bs)
  then have "utf8_head (b # bs @ c # ys) = None" using head_append [OF Bad(3), of "b # bs" ys] by simp
  then show ?case using Bad by simp
next
  case (Good b bs n cp)
  then have "utf8_head (b # bs @ c # ys) = Some (n, cp)" using head_append [OF Good(3), of "b # bs" ys] by simp
  moreover have "n - 1 \<le> length bs" using head_bounds(2) [OF Good(1)] by simp
  ultimately show ?case using Good by simp
qed simp

lemma ok_ascii [simp]: "c < 0x80 \<Longrightarrow> utf8_ok (c # ys) \<longleftrightarrow> utf8_ok ys"
  using ok_append [of c "[]" ys] by simp

lemma utf16_shorter: "length (utf16_of xs) \<le> length xs"
proof (induction xs rule: text_induct)
  case (Good b bs n cp)
  have "n = 4 \<or> cp < 0x10000" "0 < n" "n \<le> length (b # bs)" using head_bounds [OF Good(1)] by simp_all
  then show ?case using Good by (auto simp: utf16_units_def)
qed simp_all

lemma utf16_not_empty: "utf16_of xs = [] \<Longrightarrow> xs = []"
proof (cases xs)
  case (Cons b bs)
  assume "utf16_of xs = []"
  then show ?thesis using Cons by (cases "utf8_head (b # bs)") (auto simp: utf16_units_def split: if_splits)
qed

lemma unit_high: "0x80 \<le> n \<Longrightarrow> n < 0x10000 \<Longrightarrow> 0x80 \<le> (of_nat n :: wchar)"
  by (simp add: word_le_nat_alt unat_of_nat)

lemma utf16_high: "\<forall>c \<in> set xs. 0x80 \<le> c \<Longrightarrow> \<forall>u \<in> set (utf16_of xs). 0x80 \<le> u"
proof (induction xs rule: text_induct)
  case (Good b bs n cp)
  have cp: "0x80 \<le> cp" "cp < 0x10000 \<or> cp < 0x200000" using head_bounds(3-5) [OF Good(1)] Good(3) by auto
  have "(cp - 0x10000) mod 0x400 < 0x400" "cp < 0x200000 \<Longrightarrow> (cp - 0x10000) div 0x400 < 0x800" by auto
  then have "\<forall>u \<in> set (utf16_units cp). 0x80 \<le> u"
    using cp by (auto simp del: of_nat_add simp: utf16_units_def intro!: unit_high)
  moreover have "\<forall>c \<in> set (drop (n - 1) bs). 0x80 \<le> c" using Good(3) by (auto dest: in_set_dropD)
  ultimately show ?case using Good by auto
qed auto

end
