(* ===== verification/CmdLineProps.thy ===== *)
theory CmdLineProps
  imports CmdLine Utf8Text
begin

text \<open>
  The command line of a new process read by the documented rules: every argument comes back, whatever
  blanks, quotes and backslashes it contains, as long as it is not empty. The quoting writes exactly
  the block it allocates.
\<close>

section \<open>What quoting writes\<close>

text \<open>The escaped text of an argument, with \<open>n\<close> backslashes pending.\<close>

fun escape :: "nat \<Rightarrow> 'a::len word list \<Rightarrow> 'a word list" where
  "escape n [] = replicate (2 * n) 0x5C"
| "escape n (c # cs) = (if c = 0x5C then escape (Suc n) cs
     else if c = 0x22 then replicate (2 * n + 1) 0x5C @ 0x22 # escape 0 cs
     else replicate n 0x5C @ c # escape 0 cs)"

definition quoted :: "'a::len word list \<Rightarrow> 'a word list" where
  "quoted a = 0x22 # escape 0 a @ [0x22]"

definition needs_quotes :: "'a::len word list \<Rightarrow> bool" where
  "needs_quotes a \<longleftrightarrow> 0x20 \<in> set a \<or> 0x09 \<in> set a \<or> 0x22 \<in> set a"

text \<open>The part that the loop writes, and the backslashes at the end, which are written again.\<close>

fun escape_body :: "nat \<Rightarrow> byte list \<Rightarrow> byte list" where
  "escape_body n [] = replicate n 0x5C"
| "escape_body n (c # cs) = (if c = 0x5C then escape_body (Suc n) cs
     else if c = 0x22 then replicate (2 * n + 1) 0x5C @ 0x22 # escape_body 0 cs
     else replicate n 0x5C @ c # escape_body 0 cs)"

fun trailing_backslashes :: "nat \<Rightarrow> byte list \<Rightarrow> nat" where
  "trailing_backslashes n [] = n"
| "trailing_backslashes n (c # cs) = trailing_backslashes (if c = 0x5C then Suc n else 0) cs"

lemma escape_split: "escape n a = escape_body n a @ replicate (trailing_backslashes n a) 0x5C"
  by (induction a arbitrary: n) (auto simp: mult_2 replicate_add)

lemma escape_run:
  "escape m (replicate n 0x5C @ cs) = escape (m + n) cs" "escape_body m (replicate n 0x5C @ bs) = escape_body (m + n) bs"
  "trailing_backslashes m (replicate n 0x5C @ bs) = trailing_backslashes (m + n) bs"
  by (induction n arbitrary: m) auto

lemma backslash_run: "0x5C # cs = replicate (Suc (length (takeWhile (\<lambda>x. x = 0x5C) cs))) (0x5C :: byte) @ dropWhile (\<lambda>x. x = 0x5C) cs"
  by (induction cs) auto

lemma run_end: "dropWhile (\<lambda>x. x = 0x5C) cs = d # ds \<Longrightarrow> d \<noteq> (0x5C :: byte)"
  using hd_dropWhile [of "\<lambda>x. x = 0x5C" cs] by auto

section \<open>The counts\<close>

definition counted :: "byte list \<Rightarrow> arg_scan \<Rightarrow> arg_scan \<Rightarrow> bool" where
  "counted a s r \<longleftrightarrow> (has_whitespaces r \<longleftrightarrow> has_whitespaces s \<or> 0x20 \<in> set a \<or> 0x09 \<in> set a)
     \<and> number_of_double_quotes r = number_of_double_quotes s + count_list a 0x22 \<and> arg_size r = arg_size s + length a
     \<and> number_of_backslashes_at_the_end r = trailing_backslashes 0 a
     \<and> arg_size r + number_of_double_quotes r + number_of_backslashes_before_quote r + number_of_backslashes_at_the_end r
       = arg_size s + number_of_double_quotes s + number_of_backslashes_before_quote s + length (escape 0 a)"

lemma count_list_replicate: "count_list (replicate n x) y = (if x = y then n else 0)"
  by (induction n) auto

lemma count_arg_counts: "number_of_backslashes_at_the_end s = 0 \<Longrightarrow> counted a s (count_arg a s)"
proof (induction a s rule: count_arg.induct)
  case (1 s)
  then show ?case by (simp add: counted_def)
next
  case (2 c cs s)
  show ?case
  proof (cases "c = 0x5C")
    case False
    define s1 where "s1 = s\<lparr>has_whitespaces := has_whitespaces s \<or> c = 0x20 \<or> c = 0x09,
        number_of_double_quotes := number_of_double_quotes s + (if c = 0x22 then 1 else 0), arg_size := arg_size s + 1\<rparr>"
    define r where "r = count_arg cs s1"
    have "count_arg (c # cs) s = r" using False by (simp add: count_arg.simps(2) s1_def r_def)
    moreover have "counted cs s1 r" using "2.IH"(3) [OF False] "2.prems" unfolding r_def s1_def by simp
    ultimately show ?thesis using False by (cases "c = 0x22") (auto simp: counted_def s1_def)
  next
    case True
    define k where "k = Suc (length (takeWhile (\<lambda>x. x = 0x5C) cs))"
    define rest where "rest = dropWhile (\<lambda>x. x = 0x5C) cs"
    have a: "c # cs = replicate k 0x5C @ rest" unfolding True k_def rest_def by (rule backslash_run)
    show ?thesis
    proof (cases rest)
      case Nil
      have "count_arg (c # cs) s = s\<lparr>arg_size := arg_size s + k, number_of_backslashes_at_the_end := k\<rparr>"
        unfolding count_arg.simps(2) if_P [OF True] Let_def k_def [symmetric] rest_def [symmetric] using Nil by simp
      then show ?thesis unfolding a Nil using escape_run(1) [of 0 k "[] :: byte list"] escape_run(3) [of 0 k "[]"]
        by (simp add: counted_def count_list_replicate)
    next
      case (Cons d ds)
      then have d: "d \<noteq> 0x5C" using run_end rest_def by metis
      show ?thesis
      proof (cases "d = 0x22")
        case True2: True
        let ?s = "s\<lparr>number_of_backslashes_before_quote := number_of_backslashes_before_quote s + k,
            number_of_double_quotes := number_of_double_quotes s + 1, arg_size := arg_size s + k + 1\<rparr>"
        have "count_arg (c # cs) s = count_arg ds ?s"
          unfolding count_arg.simps(2) if_P [OF True] Let_def k_def [symmetric] rest_def [symmetric] using True2 Cons by simp
        moreover have "counted ds ?s (count_arg ds ?s)"
          using "2.IH"(1) [OF True refl refl refl _ True2] "2.prems" True Cons by (simp add: k_def rest_def)
        ultimately show ?thesis unfolding a Cons using True2
          by (simp add: counted_def escape_run count_list_replicate)
      next
        case False
        let ?s = "s\<lparr>arg_size := arg_size s + k\<rparr>"
        have "count_arg (c # cs) s = count_arg rest ?s"
          unfolding count_arg.simps(2) if_P [OF True] Let_def k_def [symmetric] rest_def [symmetric] using False Cons by simp
        moreover have "counted rest ?s (count_arg rest ?s)"
          using "2.IH"(2) [OF True refl refl refl _ False] "2.prems" True Cons by (simp add: k_def rest_def)
        moreover have "escape (0 + k) rest = replicate k 0x5C @ escape 0 rest" using Cons d False by simp
        ultimately show ?thesis unfolding a using Cons d False
          by (auto simp: counted_def escape_run count_list_replicate)
      qed
    qed
  qed
qed

section \<open>The block\<close>

abbreviation out_at :: "byte list \<Rightarrow> byte list \<Rightarrow> arg_out" where
  "out_at done junk \<equiv> (length done, done @ junk)"

lemma put_out: "1 \<le> length junk \<Longrightarrow> put c (out_at done junk) = Some (out_at (done @ [c]) (drop 1 junk))"
  by (cases junk) (auto simp: put_def store_def list_update_append)

lemma put_many_out: "n \<le> length junk \<Longrightarrow> put_many n c (out_at done junk) = Some (out_at (done @ replicate n c) (drop n junk))"
proof (induction n arbitrary: "done" junk)
  case (Suc n)
  then have "put c (out_at done junk) = Some (out_at (done @ [c]) (drop 1 junk))" by (intro put_out) simp
  then show ?case using Suc.IH [of "drop 1 junk" "done @ [c]"] Suc.prems by simp
qed simp

lemma fill_arg_out:
  "length (escape_body 0 a) \<le> length junk \<Longrightarrow>
     fill_arg a (out_at done junk) = Some (out_at (done @ escape_body 0 a) (drop (length (escape_body 0 a)) junk))"
proof (induction "length a" arbitrary: a "done" junk rule: less_induct)
  case less
  show ?case
  proof (cases a)
    case Nil
    then show ?thesis by simp
  next
    case (Cons c cs)
    consider (quote) "c = 0x22" | (slash) "c = 0x5C" | (other) "c \<noteq> 0x22" "c \<noteq> 0x5C" by blast
    then show ?thesis
    proof cases
      case quote
      have "put_many 1 0x5C (out_at done junk) = Some (out_at (done @ [0x5C]) (drop 1 junk))"
        using put_many_out [of 1 junk "0x5C" "done"] less.prems quote Cons by simp
      moreover have "put 0x22 (out_at (done @ [0x5C]) (drop 1 junk)) = Some (out_at (done @ [0x5C, 0x22]) (drop (Suc (Suc 0)) junk))"
        using put_out [of "drop 1 junk" "0x22" "done @ [0x5C]"] less.prems quote Cons by simp
      ultimately show ?thesis using less.hyps [of cs "drop (Suc (Suc 0)) junk" "done @ [0x5C, 0x22]"] less.prems quote Cons
        by (simp add: fill_arg.simps(2) del: put_many.simps)
    next
      case other
      then have "put c (out_at done junk) = Some (out_at (done @ [c]) (drop 1 junk))" using less.prems Cons by (intro put_out) simp
      then show ?thesis using less.hyps [of cs "drop 1 junk" "done @ [c]"] less.prems other Cons by (simp add: fill_arg.simps(2))
    next
      case slash
      define k where "k = Suc (length (takeWhile (\<lambda>x. x = 0x5C) cs))"
      define rest where "rest = dropWhile (\<lambda>x. x = 0x5C) cs"
      have a: "a = replicate k 0x5C @ rest" unfolding Cons slash k_def rest_def by (rule backslash_run)
      have body: "escape_body 0 a = escape_body k rest" unfolding a by (simp add: escape_run)
      have ne: "c \<noteq> 0x22" using slash by simp
      note unfold = Cons fill_arg.simps(2) if_not_P [OF ne] if_P [OF slash] Let_def k_def [symmetric] rest_def [symmetric]
      show ?thesis
      proof (cases rest)
        case Nil
        then have "fill_arg a (out_at done junk) = put_many k 0x5C (out_at done junk)" unfolding unfold by (simp del: put_many.simps)
        then show ?thesis using put_many_out [of k junk "0x5C" "done"] less.prems body Nil by simp
      next
        case (Cons d ds)
        then have d: "d \<noteq> 0x5C" using run_end rest_def by metis
        show ?thesis
        proof (cases "d = 0x22")
          case True
          have e: "escape_body 0 a = replicate k 0x5C @ replicate (k + 1) 0x5C @ 0x22 # escape_body 0 ds"
            using body Cons True by (simp add: mult_2 replicate_add replicate_app_Cons_same)
          have "put_many k 0x5C (out_at done junk) = Some (out_at (done @ replicate k 0x5C) (drop k junk))"
            using less.prems e by (intro put_many_out) simp
          moreover have "put_many (k + 1) 0x5C (out_at (done @ replicate k 0x5C) (drop k junk))
              = Some (out_at ((done @ replicate k 0x5C) @ replicate (k + 1) 0x5C) (drop (k + 1) (drop k junk)))"
            using less.prems e by (intro put_many_out) simp
          moreover have "put 0x22 (out_at ((done @ replicate k 0x5C) @ replicate (k + 1) 0x5C) (drop (k + 1) (drop k junk)))
              = Some (out_at (((done @ replicate k 0x5C) @ replicate (k + 1) 0x5C) @ [0x22]) (drop 1 (drop (k + 1) (drop k junk))))"
            using less.prems e by (intro put_out) simp
          moreover have "length ds < length a" using a Cons by simp
          ultimately have "fill_arg a (out_at done junk) = fill_arg ds (out_at (((done @ replicate k 0x5C) @ replicate (k + 1) 0x5C) @ [0x22])
              (drop 1 (drop (k + 1) (drop k junk))))"
            unfolding unfold using \<open>rest = d # ds\<close> True by (simp del: put_many.simps)
          also have "\<dots> = Some (out_at ((((done @ replicate k 0x5C) @ replicate (k + 1) 0x5C) @ [0x22]) @ escape_body 0 ds)
              (drop (length (escape_body 0 ds)) (drop 1 (drop (k + 1) (drop k junk)))))"
            using less.prems e \<open>length ds < length a\<close> by (intro less.hyps) auto
          finally show ?thesis using e by (simp add: ac_simps)
        next
          case False
          have e: "escape_body 0 a = replicate k 0x5C @ escape_body 0 rest" using body Cons d False by simp
          have "put_many k 0x5C (out_at done junk) = Some (out_at (done @ replicate k 0x5C) (drop k junk))"
            using less.prems e by (intro put_many_out) simp
          then have "fill_arg a (out_at done junk) = fill_arg rest (out_at (done @ replicate k 0x5C) (drop k junk))"
            unfolding unfold using \<open>rest = d # ds\<close> False by (simp del: put_many.simps)
          also have "\<dots> = Some (out_at ((done @ replicate k 0x5C) @ escape_body 0 rest) (drop (length (escape_body 0 rest)) (drop k junk)))"
            using less.prems e a by (intro less.hyps) (auto simp: k_def)
          finally show ?thesis using e by (simp add: ac_simps)
        qed
      qed
    qed
  qed
qed

lemma convert_argv_spec:
  assumes "\<forall>n. p_heap e n"
  shows "convert_argv_to_windows_cmd e a = Some (if needs_quotes a then (Inr (Some (quoted a @ [0])), length (quoted a)) else (Inr None, length a))"
proof -
  define s0 where "s0 = \<lparr>has_whitespaces = False, number_of_double_quotes = 0, number_of_backslashes_before_quote = 0,
    number_of_backslashes_at_the_end = 0, arg_size = 0\<rparr>"
  define s where "s = count_arg a s0"
  have c: "counted a s0 s" unfolding s_def by (rule count_arg_counts) (simp add: s0_def)
  have q: "has_whitespaces s \<or> number_of_double_quotes s > 0 \<longleftrightarrow> needs_quotes a"
    using c by (auto simp: counted_def s0_def needs_quotes_def count_list_0_iff)
  define n where "n = arg_size s + 2 + number_of_double_quotes s + number_of_backslashes_before_quote s + number_of_backslashes_at_the_end s"
  have n: "n = length (quoted a)" using c by (simp add: n_def counted_def s0_def quoted_def)
  show ?thesis
  proof (cases "needs_quotes a")
    case False
    then show ?thesis unfolding convert_argv_to_windows_cmd_def Let_def s0_def [symmetric] s_def [symmetric]
      using q c by (simp add: counted_def s0_def)
  next
    case True
    let ?t = "replicate (trailing_backslashes 0 a) (0x5C :: byte)" and ?b = "escape_body 0 a"
    define junk where "junk = replicate (n + 1) (ucast (wjunk e) :: byte)"
    have len: "length junk = 3 + length ?b + length ?t" using n by (simp add: junk_def quoted_def escape_split)
    have steps: "put 0x22 (0, junk) = Some (out_at [0x22] (drop 1 junk))"
        "fill_arg a (out_at [0x22] (drop 1 junk)) = Some (out_at ([0x22] @ ?b) (drop (length ?b) (drop 1 junk)))"
        "put_many (trailing_backslashes 0 a) 0x5C (out_at ([0x22] @ ?b) (drop (length ?b) (drop 1 junk)))
          = Some (out_at (([0x22] @ ?b) @ ?t) (drop (length ?t) (drop (length ?b) (drop 1 junk))))"
        "put 0x22 (out_at (([0x22] @ ?b) @ ?t) (drop (length ?t) (drop (length ?b) (drop 1 junk))))
          = Some (out_at ((([0x22] @ ?b) @ ?t) @ [0x22]) (drop 1 (drop (length ?t) (drop (length ?b) (drop 1 junk)))))"
        "put 0 (out_at ((([0x22] @ ?b) @ ?t) @ [0x22]) (drop 1 (drop (length ?t) (drop (length ?b) (drop 1 junk)))))
          = Some (out_at (((([0x22] @ ?b) @ ?t) @ [0x22]) @ [0]) (drop 1 (drop 1 (drop (length ?t) (drop (length ?b) (drop 1 junk))))))"
      using put_out [of junk "0x22" "[]"] fill_arg_out [of a "drop 1 junk" "[0x22]"]
        put_many_out [of "trailing_backslashes 0 a" "drop (length ?b) (drop 1 junk)" "0x5C" "[0x22] @ ?b"]
        put_out [of "drop (length ?t) (drop (length ?b) (drop 1 junk))" "0x22" "([0x22] @ ?b) @ ?t"]
        put_out [of "drop 1 (drop (length ?t) (drop (length ?b) (drop 1 junk)))" 0 "(([0x22] @ ?b) @ ?t) @ [0x22]"] len
      by (simp_all del: put_many.simps)
    have "number_of_backslashes_at_the_end s = trailing_backslashes 0 a" using c by (simp add: counted_def)
    moreover have "drop 1 (drop 1 (drop (length ?t) (drop (length ?b) (drop 1 junk)))) = []" using len by simp
    ultimately show ?thesis
      unfolding convert_argv_to_windows_cmd_def Let_def s0_def [symmetric] s_def [symmetric] n_def [symmetric] junk_def [symmetric]
      using steps q True assms n by (simp add: quoted_def escape_split del: put_many.simps)
  qed
qed

section \<open>The documented rules\<close>

text \<open>One argument: \<open>q\<close> says that a quote is open, \<open>n\<close> backslashes are pending. Backslashes are literal unless a
  quote follows; then each pair stands for one backslash, and an odd one makes the quote literal. A
  blank outside quotes ends the argument. The result is the argument and what follows it.\<close>

fun read_arg :: "bool \<Rightarrow> nat \<Rightarrow> wchar list \<Rightarrow> wchar list \<times> wchar list" where
  "read_arg q n [] = (replicate n 0x5C, [])"
| "read_arg q n (c # cs) =
     (if c = 0x5C then read_arg q (Suc n) cs
      else if c = 0x22 then
        (if even n then apfst ((@) (replicate (n div 2) 0x5C)) (read_arg (\<not> q) 0 cs)
         else apfst ((@) (replicate (n div 2) 0x5C @ [0x22])) (read_arg q 0 cs))
      else if \<not> q \<and> (c = 0x20 \<or> c = 0x09) then (replicate n 0x5C, c # cs)
      else apfst ((@) (replicate n 0x5C @ [c])) (read_arg q 0 cs))"

definition blank :: "wchar \<Rightarrow> bool" where "blank c \<longleftrightarrow> c = 0x20 \<or> c = 0x09"

lemma read_arg_shorter: "length (snd (read_arg q n cs)) \<le> length cs"
  by (induction q n cs rule: read_arg.induct) auto

lemma read_arg_consumes: "\<not> blank c \<Longrightarrow> length (snd (read_arg False 0 (c # cs))) < length (c # cs)"
  using read_arg_shorter by (auto simp: blank_def less_Suc_eq_le)

function read_args :: "wchar list \<Rightarrow> wchar list list" where
  "read_args [] = []"
| "read_args (c # cs) = (if blank c then read_args cs
     else fst (read_arg False 0 (c # cs)) # read_args (snd (read_arg False 0 (c # cs))))"
  by pat_completeness auto
termination
  by (relation "measure length") (use read_arg_consumes in auto)

declare read_args.simps(2) [simp del] read_arg.simps(2) [simp del]

text \<open>What ends an argument.\<close>

definition ends :: "wchar list \<Rightarrow> bool" where "ends t \<longleftrightarrow> t = [] \<or> blank (hd t)"

lemma read_arg_end: "ends t \<Longrightarrow> read_arg False n t = (replicate n 0x5C, t)"
  by (cases t) (auto simp: ends_def blank_def read_arg.simps(2))

lemma read_arg_backslashes: "read_arg q m (replicate n 0x5C @ cs) = read_arg q (m + n) cs"
  by (induction n arbitrary: m) (auto simp: read_arg.simps(2))

lemma read_escaped: "ends t \<Longrightarrow> read_arg True 0 (escape n a @ 0x22 # t) = (replicate n 0x5C @ a, t)"
proof (induction a arbitrary: n)
  case Nil
  then show ?case using read_arg_backslashes [of True 0 "2 * n" "0x22 # t"] read_arg_end [of t 0] by (simp add: read_arg.simps(2))
next
  case (Cons c a)
  consider (slash) "c = 0x5C" | (quote) "c = 0x22" | (other) "c \<noteq> 0x5C" "c \<noteq> 0x22" by blast
  then show ?case
  proof cases
    case slash
    then show ?thesis using Cons.IH [of "Suc n"] Cons.prems by (simp add: replicate_app_Cons_same)
  next
    case quote
    then have "escape n (c # a) @ 0x22 # t = replicate (2 * n + 1) 0x5C @ 0x22 # escape 0 a @ 0x22 # t" by simp
    then show ?thesis unfolding read_arg_backslashes using Cons.IH [of 0] Cons.prems quote
      by (simp add: read_arg.simps(2) read_arg_backslashes del: replicate.simps)
  next
    case other
    then have "escape n (c # a) @ 0x22 # t = replicate n 0x5C @ c # escape 0 a @ 0x22 # t" by simp
    then show ?thesis using Cons.IH [of 0] Cons.prems other by (simp add: read_arg.simps(2) read_arg_backslashes)
  qed
qed

lemma read_quoted: "ends t \<Longrightarrow> read_arg False 0 (quoted a @ t) = (a, t)"
  using read_escaped [of t 0 a] by (simp add: quoted_def read_arg.simps(2))

lemma read_bare: "\<not> needs_quotes a \<Longrightarrow> ends t \<Longrightarrow> read_arg False n (a @ t) = (replicate n 0x5C @ a, t)"
proof (induction a arbitrary: n)
  case Nil
  then show ?case by (simp add: read_arg_end)
next
  case (Cons c a)
  have "\<not> needs_quotes a" "c \<noteq> 0x20" "c \<noteq> 0x09" "c \<noteq> 0x22" using Cons.prems(1) by (auto simp: needs_quotes_def)
  then show ?case using Cons.IH [of "Suc n"] Cons.IH [of 0] Cons.prems(2)
    by (simp add: read_arg.simps(2) replicate_app_Cons_same)
qed

text \<open>An argument as it stands on the command line.\<close>

definition shown :: "'a::len word list \<Rightarrow> 'a word list" where
  "shown a = (if needs_quotes a then quoted a else a)"

lemma read_shown: "ends t \<Longrightarrow> read_arg False 0 (shown a @ t) = (a, t)"
  using read_quoted read_bare [of a t 0] by (auto simp: shown_def)

text \<open>The arguments, each with the blank before it.\<close>

lemma read_args_shown: "[] \<notin> set as \<Longrightarrow> read_args (concat (map (\<lambda>a. 0x20 # shown a) as)) = as"
proof (induction as)
  case Nil
  then show ?case by simp
next
  case (Cons a as)
  let ?t = "concat (map (\<lambda>a. 0x20 # shown a) as)"
  have t: "ends ?t" by (cases as) (auto simp: ends_def blank_def)
  obtain c cs where c: "shown a = c # cs" "\<not> blank c"
  proof (cases "needs_quotes a")
    case True
    then show ?thesis using that by (simp add: shown_def quoted_def blank_def)
  next
    case False
    then show ?thesis using that Cons.prems by (cases a) (auto simp: shown_def needs_quotes_def blank_def)
  qed
  then show ?case using Cons read_shown [OF t, of a] by (simp add: read_args.simps(2) blank_def)
qed

section \<open>Conversion to UTF-16\<close>

text \<open>What is used of UTF-8: the ASCII characters are single bytes that stand for themselves and separate
  the text, the other bytes give no ASCII characters, nothing becomes longer and nothing vanishes.\<close>

definition keeps_ascii :: "(byte list \<Rightarrow> wchar list) \<Rightarrow> bool" where
  "keeps_ascii w \<longleftrightarrow> (\<forall>a. length (w a) \<le> length a \<and> (w a = [] \<longrightarrow> a = []))
     \<and> (\<forall>a c b. c < 0x80 \<longrightarrow> w (a @ c # b) = w a @ ucast c # w b)
     \<and> (\<forall>a. (\<forall>c \<in> set a. 0x80 \<le> c) \<longrightarrow> (\<forall>x \<in> set (w a). 0x80 \<le> x))"

lemma keeps_ascii_utf16: "keeps_ascii utf16_of"
  using utf16_shorter utf16_not_empty utf16_append utf16_high by (auto simp: keeps_ascii_def)

lemma keeps_ascii_simps:
  assumes "keeps_ascii w"
  shows "w [] = []" "c < 0x80 \<Longrightarrow> w (c # b) = ucast c # w b" "c < 0x80 \<Longrightarrow> w (replicate n c @ b) = replicate n (ucast c) @ w b"
    "y = [] \<or> hd y < 0x80 \<Longrightarrow> w (x @ y) = w x @ w y"
proof -
  have len: "length (w a) \<le> length a" for a using assms by (simp add: keeps_ascii_def)
  have mid: "c < 0x80 \<Longrightarrow> w (a @ c # b) = w a @ ucast c # w b" for a b c using assms by (simp add: keeps_ascii_def)
  show nil: "w [] = []" using len [of "[]"] by simp
  show one: "c < 0x80 \<Longrightarrow> w (c # b) = ucast c # w b" for c b using mid [of c "[]" b] nil by simp
  show "c < 0x80 \<Longrightarrow> w (replicate n c @ b) = replicate n (ucast c) @ w b" by (induction n) (simp_all add: one)
  show "y = [] \<or> hd y < 0x80 \<Longrightarrow> w (x @ y) = w x @ w y" using mid one nil by (cases y) auto
qed

lemma ascii_induct [case_names Nil Ascii Run]:
  assumes "P []" "\<And>c cs. c < 0x80 \<Longrightarrow> P cs \<Longrightarrow> P (c # cs)"
    "\<And>run rest. run \<noteq> [] \<Longrightarrow> (\<forall>c \<in> set run. 0x80 \<le> c) \<Longrightarrow> rest = [] \<or> hd rest < 0x80 \<Longrightarrow> P rest \<Longrightarrow> P (run @ rest)"
  shows "P (a :: byte list)"
proof (induction "length a" arbitrary: a rule: less_induct)
  case less
  let ?run = "takeWhile (\<lambda>c. 0x80 \<le> c) a" and ?rest = "dropWhile (\<lambda>c. 0x80 \<le> c) a"
  show ?case
  proof (cases "?run = []")
    case True
    then show ?thesis using assms(1,2) less.hyps by (cases a) (auto simp: not_le split: if_splits)
  next
    case False
    have "length ?run + length ?rest = length a" by (metis length_append takeWhile_dropWhile_id)
    then have "P ?rest" using False by (intro less.hyps) (metis add_gr_0 length_greater_0_conv less_add_same_cancel2)
    moreover have "?rest = [] \<or> hd ?rest < 0x80" using hd_dropWhile [of "\<lambda>c. 0x80 \<le> c" a] by (metis (no_types, lifting) not_le)
    ultimately have "P (?run @ ?rest)" using False by (intro assms(3)) (auto dest: set_takeWhileD)
    then show ?thesis by simp
  qed
qed

lemma uint_ucast_small: "uint (ucast (c :: byte) :: wchar) = uint c"
  by (simp add: unsigned_ucast_eq take_bit_int_eq_self_iff) (use uint_lt2p [of c] in simp)

lemma ucast_ascii_eq: "c < 0x80 \<Longrightarrow> d < 0x80 \<Longrightarrow> (ucast (c :: byte) :: wchar) = ucast d \<longleftrightarrow> c = d"
  by (metis ucast_back)

lemma ascii_member:
  assumes "keeps_ascii w" "d < 0x80"
  shows "ucast d \<in> set (w a) \<longleftrightarrow> d \<in> set a"
proof (induction a rule: ascii_induct)
  case Nil
  then show ?case using keeps_ascii_simps(1) [OF assms(1)] by simp
next
  case (Ascii c cs)
  then show ?case using keeps_ascii_simps(2) [OF assms(1)] ucast_ascii_eq assms(2) by auto
next
  case (Run run rest)
  have d: "(ucast d :: wchar) < 0x80" using assms(2) using uint_ucast_small by (simp add: word_less_alt)
  have "\<forall>x \<in> set (w run). 0x80 \<le> x" using assms(1) Run(2) unfolding keeps_ascii_def by blast
  then have "ucast d \<notin> set (w run)" using d by auto
  moreover have "d \<notin> set run" using Run(2) assms(2) by auto
  ultimately show ?case using Run(4) keeps_ascii_simps(4) [OF assms(1) Run(3), of run] by simp
qed

lemma escape_pending: "0 < n \<Longrightarrow> \<exists>xs. escape n a = 0x5C # xs"
proof (induction a arbitrary: n)
  case Nil
  then show ?case by (cases n) auto
next
  case (Cons c a)
  then show ?case by (cases n) auto
qed

lemma escape_starts_ascii:
  assumes "rest = [] \<or> hd rest < 0x80"
  shows "escape 0 rest = [] \<or> hd (escape 0 (rest :: byte list)) < 0x80"
proof (cases rest)
  case (Cons c cs)
  obtain xs where "escape (Suc 0) cs = 0x5C # xs" using escape_pending [of "Suc 0" cs] by auto
  then show ?thesis using assms Cons by auto
qed simp

lemma escape_plain: "run \<noteq> [] \<Longrightarrow> 0x5C \<notin> set run \<Longrightarrow> 0x22 \<notin> set run \<Longrightarrow> escape n (run @ rest) = replicate n 0x5C @ run @ escape 0 rest"
proof (induction run arbitrary: n)
  case (Cons c run)
  then show ?case by (cases "run = []") auto
qed simp

lemma escape_converts:
  assumes "keeps_ascii w"
  shows "w (escape n a) = escape n (w a)"
proof (induction a arbitrary: n rule: ascii_induct)
  case Nil
  then show ?case using keeps_ascii_simps(3) [OF assms, of "0x5C" "2 * n" "[]"] keeps_ascii_simps(1) [OF assms] by simp
next
  case (Ascii c cs)
  have c: "(ucast c :: wchar) = 0x5C \<longleftrightarrow> c = 0x5C" "(ucast c :: wchar) = 0x22 \<longleftrightarrow> c = 0x22"
    using ucast_ascii_eq [OF Ascii(1), of "0x5C"] ucast_ascii_eq [OF Ascii(1), of "0x22"] by simp_all
  note simps = keeps_ascii_simps(2,3) [OF assms]
  have "w (replicate m 0x5C @ b) = replicate m 0x5C @ w b" for m b using simps(2) [of "0x5C" m b] by simp
  then show ?case using simps(1) [of c] simps(1) [of "0x22"] Ascii c by (auto simp del: replicate.simps)
next
  case (Run run rest)
  have no: "0x5C \<notin> set run" "0x22 \<notin> set run" "run \<noteq> []" using Run(1,2) by auto
  have wno: "0x5C \<notin> set (w run)" "0x22 \<notin> set (w run)" "w run \<noteq> []"
    using no ascii_member [OF assms, of "0x5C" run] ascii_member [OF assms, of "0x22" run] assms by (auto simp: keeps_ascii_def)
  have "w (escape n (run @ rest)) = replicate n 0x5C @ w (run @ escape 0 rest)"
    using keeps_ascii_simps(3) [OF assms, of "0x5C" n "run @ escape 0 rest"] escape_plain [OF no(3,1,2)] by simp
  also have "\<dots> = replicate n 0x5C @ w run @ escape 0 (w rest)"
    using keeps_ascii_simps(4) [OF assms escape_starts_ascii [OF Run(3)], of run] Run(4) by simp
  also have "\<dots> = escape n (w (run @ rest))"
    using escape_plain [OF wno(3,1,2)] keeps_ascii_simps(4) [OF assms Run(3), of run] by simp
  finally show ?case .
qed

lemma shown_converts:
  assumes "keeps_ascii w"
  shows "w (shown a) = shown (w a)"
proof -
  have "needs_quotes (w a) \<longleftrightarrow> needs_quotes a"
    using ascii_member [OF assms, of "0x20" a] ascii_member [OF assms, of "0x09" a] ascii_member [OF assms, of "0x22" a]
    by (simp add: needs_quotes_def)
  moreover have "w (quoted a) = quoted (w a)"
    using keeps_ascii_simps(2) [OF assms, of "0x22"] keeps_ascii_simps(4) [OF assms, of "[0x22]" "escape 0 a"] keeps_ascii_simps(1) [OF assms]
    by (simp add: quoted_def escape_converts [OF assms])
  ultimately show ?thesis by (simp add: shown_def)
qed

text \<open>Quoting keeps text well-formed.\<close>

lemma ok_backslashes: "utf8_ok (replicate n 0x5C @ a) \<longleftrightarrow> utf8_ok a"
  by (induction n) simp_all

lemma ok_run: "ys = [] \<or> hd ys < 0x80 \<Longrightarrow> utf8_ok (xs @ ys) \<longleftrightarrow> utf8_ok xs \<and> utf8_ok ys"
  by (cases ys) (auto simp: ok_append)

lemma ok_escape: "utf8_ok (escape n a) \<longleftrightarrow> utf8_ok a"
proof (induction a arbitrary: n rule: ascii_induct)
  case Nil
  then show ?case using ok_backslashes [of "2 * n" "[]"] by simp
next
  case (Ascii c cs)
  then show ?case by (simp add: ok_backslashes del: replicate.simps)
next
  case (Run run rest)
  have "0x5C \<notin> set run" "0x22 \<notin> set run" using Run(2) by auto
  then have "escape n (run @ rest) = replicate n 0x5C @ run @ escape 0 rest" using Run(1) by (rule escape_plain [rotated])
  then show ?case using Run(4) by (simp add: ok_backslashes ok_run [OF Run(3)] ok_run [OF escape_starts_ascii [OF Run(3)]])
qed

lemma ok_shown: "utf8_ok a \<Longrightarrow> utf8_ok (shown a)"
  using ok_append [of "0x22" "escape 0 a" "[]"] by (simp add: shown_def quoted_def ok_escape)

section \<open>The whole command line\<close>

definition utf8_arg :: "byte list \<Rightarrow> byte list \<times> 16 word" where
  "utf8_arg a = (shown a @ [0], of_nat (length (shown a)))"

definition line_units :: "byte list list \<Rightarrow> nat" where
  "line_units as = sum_list (map (\<lambda>a. length (shown a) + 1) as)"

lemma normalize_args_spec: "\<forall>n. p_heap e n \<Longrightarrow> normalize_args e as = Some (Inr (map utf8_arg as))"
  by (induction as) (auto simp: convert_argv_spec utf8_arg_def shown_def)

lemma unat_short: "n < 65536 \<Longrightarrow> unat (of_nat n :: 16 word) = n"
  by (simp add: unat_of_nat)

lemma line_units_member: "a \<in> set as \<Longrightarrow> length (shown a) + 1 \<le> line_units as"
  unfolding line_units_def by (rule member_le_sum_list) auto

lemma max_lengths_args: "line_units as < 32768 \<Longrightarrow> max_lengths (map utf8_arg as) = line_units as"
proof (induction as)
  case (Cons a as)
  then have "length (shown a) + 1 < 65536" by (simp add: line_units_def)
  then have "unat (of_nat (length (shown a)) + 1 :: 16 word) = length (shown a) + 1" using unat_short by (metis of_nat_1 of_nat_add)
  then show ?case using Cons by (simp add: max_lengths_def line_units_def utf8_arg_def)
qed (simp add: max_lengths_def line_units_def)

lemma utf8_arg_text: "length (shown a) < 65536 \<Longrightarrow> u8_text (utf8_arg a) = Some (shown a)"
  by (simp add: u8_text_def utf8_arg_def unat_short)

lemma fill_wargv_text:
  assumes "\<forall>a \<in> set as. RtlUTF8StringToUnicodeString e (shown a) = (STATUS_SUCCESS, w (shown a))" "\<forall>a. length (w a) \<le> length a"
    "length done + line_units as \<le> length (done @ junk)" "length (done @ junk) < 32768"
  shows "\<exists>junk'. fill_wargv e (2 * length (done @ junk)) (map utf8_arg as) (length done) (done @ junk)
      = Some (Inr (length (done @ concat (map (\<lambda>a. w (shown a) @ [0x20]) as))), done @ concat (map (\<lambda>a. w (shown a) @ [0x20]) as) @ junk')
    \<and> length (done @ junk) = length (done @ concat (map (\<lambda>a. w (shown a) @ [0x20]) as) @ junk')"
  using assms(1,3,4)
proof (induction as arbitrary: "done" junk)
  case Nil
  then show ?case by simp
next
  case (Cons a as)
  let ?x = "w (shown a)" and ?all = "length (done @ junk)"
  have short: "length ?x \<le> length (shown a)" using assms(2) by simp
  have units: "length done + (length (shown a) + 1) + line_units as \<le> ?all" "length (shown a) < 65536"
    using Cons.prems(2,3) by (simp_all add: line_units_def)
  have room: "unat (of_nat (2 * ?all - 2 * length done) :: 16 word) = 2 * ?all - 2 * length done" using Cons.prems(3) by (intro unat_short) simp
  define j1 where "j1 = drop (length ?x + 1) junk"
  have blit1: "blit (length done) (?x @ [0]) (done @ junk) = Some (done @ (?x @ [0]) @ j1)"
    using units short by (simp add: blit_def j1_def)
  then have conv: "convert_into e (shown a) (of_nat (2 * ?all - 2 * length done)) (length done) (done @ junk) = Some (Inr (length ?x), done @ (?x @ [0]) @ j1)"
    using Cons.prems(1) units short unfolding convert_into_def room by simp
  have st: "store (length done + length ?x) 0x20 (done @ (?x @ [0]) @ j1) = Some ((done @ ?x @ [0x20]) @ j1)"
    by (simp add: store_def list_update_append)
  have all: "length ((done @ ?x @ [0x20]) @ j1) = ?all" using units short by (simp add: j1_def)
  have "fill_wargv e (2 * ?all) (map utf8_arg (a # as)) (length done) (done @ junk)
      = fill_wargv e (2 * ?all) (map utf8_arg as) (length (done @ ?x @ [0x20])) ((done @ ?x @ [0x20]) @ j1)"
    using conv st utf8_arg_text [OF units(2)] by simp
  then show ?case
    using Cons.IH [of "done @ ?x @ [0x20]" j1] Cons.prems units short unfolding all by auto
qed

lemma spaces_between: "concat (map (\<lambda>a. x a @ [c]) (a # as)) = x a @ concat (map (\<lambda>a. c # x a) as) @ [c]"
  by (induction as arbitrary: a) auto


text \<open>\<open>p\<close>, \<open>a b"\<close> and \<open>c\\<close> \<open>d\<close> with a blank and a backslash at the end.\<close>

definition utf8_env :: path_env where
  "utf8_env = \<lparr>p_heap = \<lambda>_. True, wjunk = 0xAAAA, cjunk = \<lparr>pc_start = 0, pc_length = 0\<rparr>,
     RtlUTF8StringToUnicodeString = \<lambda>p. (if utf8_ok p then STATUS_SUCCESS else STATUS_OTHER 0x107, utf16_of p), RtlInitUTF8String = \<lambda>p. of_nat (length p),
     NtOpenSymbolicLinkObject = \<lambda>_. STATUS_SUCCESS, NtQuerySymbolicLinkObject = \<lambda>_. (STATUS_SUCCESS, []),
     mountmgr_query = \<lambda>_. (STATUS_SUCCESS, 0), NtQueryObject = \<lambda>h n. (STATUS_SUCCESS, [], 0), current_directory = [], wlibc_tmpdir = None,
     p_fds = \<lparr>fd_table = [], fd_table_size = 0, fd_sequence = 0, std_handle = \<lambda>_. 0\<rparr>,
     p_info = \<lparr>handle = 0, htype = INVALID_HANDLE, flags = 0, sequence = 0\<rparr>\<rparr>"


section \<open>Deviations\<close>

text \<open>A kernel that converts ASCII, for arguments of ASCII characters.\<close>

definition ascii_env :: path_env where
  "ascii_env = utf8_env\<lparr>RtlUTF8StringToUnicodeString := \<lambda>p. (STATUS_SUCCESS, map ucast p)\<rparr>"

text \<open>An empty argument vanishes: the child of \<open>p "" x\<close> gets the one argument \<open>x\<close>.\<close>

theorem empty_argument_vanishes:
  "\<exists>blk n zs. convert_argv_to_wargv ascii_env [[0x70], [], [0x78]] = Some (Inr (Some (blk, n)))
    \<and> blk = [0x70] @ [0x20, 0x20, 0x78] @ 0 # zs \<and> read_args [0x20, 0x20, 0x78] = [[0x78]]"
proof -
  have "convert_argv_to_wargv ascii_env [[0x70], [], [0x78]] = Some (Inr (Some ([0x70, 0x20, 0x20, 0x78, 0], 10)))" by code_simp
  moreover have "read_args [0x20, 0x20, 0x78] = [[0x78]]" by (simp add: read_args.simps(2) blank_def read_arg.simps)
  ultimately show ?thesis by auto
qed

text \<open>The length of an argument is kept in 16 bits: of one of 65536 to 131070 plain bytes only the part above
  65536 is passed on, and the limit of the command line is not noticed.\<close>

theorem long_argument_is_cut:
  assumes "\<forall>n. p_heap e n" "\<not> needs_quotes a" "length a = 65536 + k" "k < 65535"
  shows "\<exists>u. normalize_args e [a] = Some (Inr [u]) \<and> u8_text u = Some (take k a) \<and> max_lengths [u] = k + 1"
proof -
  have "(of_nat (length a) :: 16 word) = of_nat k" using assms(3) by (simp add: word_of_nat_eq_iff take_bit_eq_mod)
  then have "normalize_args e [a] = Some (Inr [(a @ [0], of_nat k)])" using assms(1,2) by (simp add: convert_argv_spec)
  moreover have k: "unat (of_nat k :: 16 word) = k" "unat (of_nat k + 1 :: 16 word) = k + 1"
    using assms(4) unat_short [of k] unat_short [of "k + 1"] by (simp_all add: add.commute)
  moreover have "u8_text (a @ [0], of_nat k) = Some (take k a)" using k(1) assms(3) by (simp add: u8_text_def)
  moreover have "max_lengths [(a @ [0], of_nat k)] = k + 1" using k(2) by (simp add: max_lengths_def)
  ultimately show ?thesis by blast
qed

text \<open>A blank in the name of a script puts quotes around its interpreter, not around the name: the interpreter
  \<open>i\<close> of the script \<open>a b\<close> gets the arguments \<open>a\<close> and \<open>b\<close>.\<close>

theorem script_name_is_not_quoted:
  "map_option (map_sum id (take 8 \<circ> fst)) (prepend_shebang_to_wargv ascii_env None 0 [0x69, 0, 0, 0x61, 0x20, 0x62, 0] 14)
    = Some (Inr [0x22, 0x69, 0x22, 0x20, 0x61, 0x20, 0x62, 0x20])"
  by code_simp

end
