(* ===== verification/Open.thy ===== *)
theory Open
  imports Path
begin

unbundle bit_operations_syntax

text \<open>
  Opening files (src/fcntl/open.c): the translation of the open flags to what \<open>NtCreateFile\<close> takes, and
  \<open>open\<close> from the path to the descriptor. The kernel is the record \<open>nt_open\<close> of calls on an abstract
  state, which extends the calls of the descriptor functions; the arguments of \<open>NtCreateFile\<close> are a record.
\<close>

section \<open>Constants\<close>

definition O_TRUNC :: "32 word" where "O_TRUNC = 0x0200"
definition O_CREAT :: "32 word" where "O_CREAT = 0x0100"
definition O_EXCL :: "32 word" where "O_EXCL = 0x0400"
definition O_NOFOLLOW :: "32 word" where "O_NOFOLLOW = 0x2000000"
definition O_DIRECTORY :: "32 word" where "O_DIRECTORY = 0x2000"
definition O_NOTDIR :: "32 word" where "O_NOTDIR = 0x20000"
definition O_SYNC :: "32 word" where "O_SYNC = 0x800000"
definition O_NOINHERIT :: "32 word" where "O_NOINHERIT = 0x0080"
definition O_PATH :: "32 word" where "O_PATH = 0x80000"
definition O_SEQUENTIAL :: "32 word" where "O_SEQUENTIAL = 0x0020"
definition O_RANDOM :: "32 word" where "O_RANDOM = 0x0010"
definition O_TMPFILE :: "32 word" where "O_TMPFILE = 0x0040"
definition O_SHORT_LIVED :: "32 word" where "O_SHORT_LIVED = 0x1000"
definition O_READONLY :: "32 word" where "O_READONLY = 0x10000"
definition O_ARCHIVE :: "32 word" where "O_ARCHIVE = 0x0004"
definition O_HIDDEN :: "32 word" where "O_HIDDEN = 0x10000000"
definition O_ENCRYPTED :: "32 word" where "O_ENCRYPTED = 0x20000000"
definition O_SYSTEM :: "32 word" where "O_SYSTEM = 0x40000000"

text \<open>Access rights and attributes, as the Windows headers define them.\<close>

definition FILE_READ_EA :: "32 word" where "FILE_READ_EA = 0x8"
definition FILE_WRITE_EA :: "32 word" where "FILE_WRITE_EA = 0x10"
definition FILE_EXECUTE :: "32 word" where "FILE_EXECUTE = 0x20"
definition FILE_TRAVERSE :: "32 word" where "FILE_TRAVERSE = 0x20"
definition FILE_READ_ATTRIBUTES :: "32 word" where "FILE_READ_ATTRIBUTES = 0x80"
definition FILE_WRITE_ATTRIBUTES :: "32 word" where "FILE_WRITE_ATTRIBUTES = 0x100"
definition DELETE :: "32 word" where "DELETE = 0x10000"
definition READ_CONTROL :: "32 word" where "READ_CONTROL = 0x20000"
definition SYNCHRONIZE :: "32 word" where "SYNCHRONIZE = 0x100000"
definition FILE_GENERIC_READ :: "32 word" where
  "FILE_GENERIC_READ = READ_CONTROL OR FILE_READ_DATA OR FILE_READ_ATTRIBUTES OR FILE_READ_EA OR SYNCHRONIZE"
definition FILE_GENERIC_WRITE :: "32 word" where
  "FILE_GENERIC_WRITE = READ_CONTROL OR FILE_WRITE_DATA OR FILE_WRITE_ATTRIBUTES OR FILE_WRITE_EA OR FILE_APPEND_DATA OR SYNCHRONIZE"

definition FILE_ATTRIBUTE_READONLY :: "32 word" where "FILE_ATTRIBUTE_READONLY = 0x1"
definition FILE_ATTRIBUTE_HIDDEN :: "32 word" where "FILE_ATTRIBUTE_HIDDEN = 0x2"
definition FILE_ATTRIBUTE_SYSTEM :: "32 word" where "FILE_ATTRIBUTE_SYSTEM = 0x4"
definition FILE_ATTRIBUTE_ARCHIVE :: "32 word" where "FILE_ATTRIBUTE_ARCHIVE = 0x20"
definition FILE_ATTRIBUTE_TEMPORARY :: "32 word" where "FILE_ATTRIBUTE_TEMPORARY = 0x100"
definition FILE_ATTRIBUTE_REPARSE_POINT :: "32 word" where "FILE_ATTRIBUTE_REPARSE_POINT = 0x400"
definition FILE_ATTRIBUTE_ENCRYPTED :: "32 word" where "FILE_ATTRIBUTE_ENCRYPTED = 0x4000"

datatype disposition = FILE_OPEN | FILE_CREATE | FILE_OPEN_IF | FILE_OVERWRITE | FILE_OVERWRITE_IF

definition FILE_DIRECTORY_FILE :: "32 word" where "FILE_DIRECTORY_FILE = 0x1"
definition FILE_WRITE_THROUGH :: "32 word" where "FILE_WRITE_THROUGH = 0x2"
definition FILE_SEQUENTIAL_ONLY :: "32 word" where "FILE_SEQUENTIAL_ONLY = 0x4"
definition FILE_NO_INTERMEDIATE_BUFFERING :: "32 word" where "FILE_NO_INTERMEDIATE_BUFFERING = 0x8"
definition FILE_SYNCHRONOUS_IO_NONALERT :: "32 word" where "FILE_SYNCHRONOUS_IO_NONALERT = 0x20"
definition FILE_NON_DIRECTORY_FILE :: "32 word" where "FILE_NON_DIRECTORY_FILE = 0x40"
definition FILE_RANDOM_ACCESS :: "32 word" where "FILE_RANDOM_ACCESS = 0x800"
definition FILE_DELETE_ON_CLOSE :: "32 word" where "FILE_DELETE_ON_CLOSE = 0x1000"
definition FILE_OPEN_REPARSE_POINT :: "32 word" where "FILE_OPEN_REPARSE_POINT = 0x200000"

section \<open>Flags\<close>

definition has :: "32 word \<Rightarrow> 32 word \<Rightarrow> bool" where "has fl x \<longleftrightarrow> fl AND x \<noteq> 0"

definition add_if :: "bool \<Rightarrow> 32 word \<Rightarrow> 32 word \<Rightarrow> 32 word" where "add_if b x w = (if b then w OR x else w)"

definition determine_access_rights :: "32 word \<Rightarrow> 32 word" where
  "determine_access_rights oflags = (let
     a0 = SYNCHRONIZE OR FILE_READ_ATTRIBUTES OR FILE_READ_EA OR READ_CONTROL OR FILE_WRITE_ATTRIBUTES;
     a1 = (if has oflags O_WRONLY then a0 OR FILE_WRITE_DATA OR FILE_WRITE_EA
       else if has oflags O_RDWR then a0 OR FILE_READ_DATA OR FILE_WRITE_DATA OR FILE_WRITE_EA
       else a0 OR FILE_READ_DATA);
     a2 = add_if (has oflags O_APPEND) FILE_APPEND_DATA a1;
     a3 = add_if (has oflags O_DIRECTORY) FILE_TRAVERSE a2;
     a4 = add_if (has oflags O_TMPFILE \<or> has oflags O_SHORT_LIVED) DELETE a3 in
     if has oflags O_PATH then SYNCHRONIZE OR FILE_READ_ATTRIBUTES OR READ_CONTROL else a4)"

definition determine_create_dispostion :: "32 word \<Rightarrow> disposition" where
  "determine_create_dispostion oflags = (let main_flags = oflags AND (O_CREAT OR O_EXCL OR O_TRUNC) in
     if has oflags O_TMPFILE then FILE_CREATE
     else if main_flags = 0 \<or> main_flags = O_EXCL then FILE_OPEN
     else if main_flags = O_CREAT then FILE_OPEN_IF
     else if main_flags = O_TRUNC \<or> main_flags = O_TRUNC OR O_EXCL then FILE_OVERWRITE
     else if main_flags = O_CREAT OR O_TRUNC then FILE_OVERWRITE_IF
     else FILE_CREATE)"

definition determine_create_options :: "32 word \<Rightarrow> 32 word" where
  "determine_create_options oflags =
     add_if (has oflags O_NOTDIR) FILE_NON_DIRECTORY_FILE
     (add_if (has oflags O_DIRECTORY) FILE_DIRECTORY_FILE
     (add_if (has oflags O_NOFOLLOW) FILE_OPEN_REPARSE_POINT
     (add_if (has oflags O_SEQUENTIAL) FILE_SEQUENTIAL_ONLY
     (add_if (has oflags O_RANDOM) FILE_RANDOM_ACCESS
     (add_if (has oflags O_SYNC) FILE_WRITE_THROUGH
     (add_if (has oflags O_DIRECT) FILE_NO_INTERMEDIATE_BUFFERING
     (add_if (has oflags O_TMPFILE \<or> has oflags O_SHORT_LIVED) (FILE_DELETE_ON_CLOSE OR FILE_NON_DIRECTORY_FILE)
       FILE_SYNCHRONOUS_IO_NONALERT)))))))"

definition determine_file_attributes :: "32 word \<Rightarrow> 32 word" where
  "determine_file_attributes oflags =
     add_if (has oflags O_ENCRYPTED) FILE_ATTRIBUTE_ENCRYPTED
     (add_if (has oflags O_ARCHIVE) FILE_ATTRIBUTE_ARCHIVE
     (add_if (has oflags O_SYSTEM) FILE_ATTRIBUTE_SYSTEM
     (add_if (has oflags O_HIDDEN) FILE_ATTRIBUTE_HIDDEN
     (add_if (has oflags O_READONLY) FILE_ATTRIBUTE_READONLY
     (add_if (has oflags O_TMPFILE) FILE_ATTRIBUTE_TEMPORARY 0)))))"

definition validate_oflags :: "32 word \<Rightarrow> bool" where
  "validate_oflags oflags \<longleftrightarrow> \<not> (oflags AND (O_CREAT OR O_DIRECTORY) = O_CREAT OR O_DIRECTORY)
     \<and> \<not> (has oflags O_TMPFILE \<and> \<not> has oflags (O_WRONLY OR O_RDWR))"

section \<open>Kernel\<close>

text \<open>\<open>ca_name\<close> is the name of the object, \<open>ca_root\<close> the handle it is relative to, \<open>ca_inherit\<close> OBJ_INHERIT; the security
  descriptor is named by the permissions it is made from.\<close>

record create_args =
  ca_name :: "wchar list"
  ca_root :: HANDLE
  ca_inherit :: bool
  ca_security :: "32 word option"
  ca_access :: "32 word"
  ca_attributes :: "32 word"
  ca_disposition :: disposition
  ca_options :: "32 word"

record 'k nt_open = "'k nt_io" +
  NtCreateFile :: "'k \<Rightarrow> create_args \<Rightarrow> ntstatus \<times> HANDLE \<times> 'k"
  NtQueryTag :: "'k \<Rightarrow> HANDLE \<Rightarrow> ntstatus \<times> 32 word"
  NtQueryBasic :: "'k \<Rightarrow> HANDLE \<Rightarrow> ntstatus"
  NtSetLastAccess :: "'k \<Rightarrow> HANDLE \<Rightarrow> ntstatus \<times> 'k"
  rand_s :: "'k \<Rightarrow> 32 word \<times> 'k"

definition nt_close_handle :: "'k nt_open \<Rightarrow> HANDLE \<Rightarrow> 'k \<Rightarrow> 'k" where
  "nt_close_handle nt h k = snd (NtClose nt k h)"

section \<open>Opening\<close>

definition do_reopen :: "'k nt_open \<Rightarrow> HANDLE \<Rightarrow> 32 word \<Rightarrow> 32 word \<Rightarrow> disposition \<Rightarrow> 32 word \<Rightarrow> 'k \<Rightarrow> HANDLE res \<times> 'k" where
  "do_reopen nt old access attributes disp options k =
     (let (status, h, k1) = NtCreateFile nt k \<lparr>ca_name = [], ca_root = old, ca_inherit = False, ca_security = None, ca_access = access,
            ca_attributes = attributes, ca_disposition = disp, ca_options = options\<rparr> in
      (if status \<noteq> STATUS_SUCCESS then Inl (map_ntstatus_to_errno status) else Inr h, k1))"

definition just_reopen :: "'k nt_open \<Rightarrow> HANDLE \<Rightarrow> 32 word \<Rightarrow> 32 word \<Rightarrow> 'k \<Rightarrow> HANDLE res \<times> 'k" where
  "just_reopen nt h access options k = do_reopen nt h access 0 FILE_OPEN options k"

definition reopen_handle :: "'k nt_open \<Rightarrow> HANDLE \<Rightarrow> 32 word \<Rightarrow> 'k \<Rightarrow> HANDLE res \<times> 'k" where
  "reopen_handle nt h fl k = do_reopen nt h (determine_access_rights fl) (determine_file_attributes fl)
     (determine_create_dispostion fl) (determine_create_options fl) k"

text \<open>Why a name is invalid: a bad character, a backslash at the end. The search starts at unit 22.\<close>

definition bad_character :: "wchar \<Rightarrow> bool" where
  "bad_character c \<longleftrightarrow> c \<in> {0x3A, 0x3C, 0x3E, 0x2A, 0x7C, 0x3F, 0x22}"

function name_error :: "wchar list \<Rightarrow> nat \<Rightarrow> errno option ub" where
  "name_error buf i =
     (if i < length buf then
        (if buf ! i = 0 then do {
           c \<leftarrow> (if i = 0 then None else load buf (i - 1));
           Some (if c = 0x5C then Some EISDIR else None) }
         else if bad_character (buf ! i) then Some (Some EINVAL)
         else name_error buf (i + 1))
      else None)"
  by pat_completeness auto
termination
  by (relation "measure (\<lambda>(buf, i). length buf - i)") auto

declare name_error.simps [simp del]

definition really_do_open :: "'k nt_open \<Rightarrow> wchar list \<Rightarrow> create_args \<Rightarrow> 'k \<Rightarrow> (HANDLE res \<times> 'k) ub" where
  "really_do_open nt buf args k = (let (status, h, k1) = NtCreateFile nt k args in
     if status = STATUS_SUCCESS then Some (Inr h, k1)
     else if status = STATUS_OBJECT_NAME_INVALID then do {
       err \<leftarrow> name_error buf 22;
       Some (case err of Some x \<Rightarrow> fail_with x | None \<Rightarrow> Inl (map_ntstatus_to_errno status), k1) }
     else Some (Inl (map_ntstatus_to_errno status), k1))"

definition just_open2 :: "'k nt_open \<Rightarrow> path_state \<Rightarrow> UNICODE_STRING \<Rightarrow> 32 word \<Rightarrow> 32 word \<Rightarrow> 'k \<Rightarrow> (HANDLE res \<times> 'k) ub" where
  "just_open2 nt p u access options k = do {
     buf \<leftarrow> buffer_of p u;
     name \<leftarrow> text_of p u;
     really_do_open nt buf \<lparr>ca_name = name, ca_root = 0, ca_inherit = False, ca_security = None, ca_access = access,
       ca_attributes = 0, ca_disposition = FILE_OPEN, ca_options = options\<rparr> k }"

text \<open>\<open>ty\<close> is the value of the local variable \<open>type\<close> when the translation leaves it alone.\<close>

definition just_open ::
  "'k nt_open \<Rightarrow> path_env \<Rightarrow> handle_t \<Rightarrow> int \<Rightarrow> byte list \<Rightarrow> 32 word \<Rightarrow> 32 word \<Rightarrow> path_state \<Rightarrow> 'k \<Rightarrow> (HANDLE res \<times> path_state \<times> 'k) ub" where
  "just_open nt e ty dirfd path access options p k = do {
     (r, type, p1) \<leftarrow> get_absolute_ntpath2 e dirfd path ty p;
     case r of
       Inl err \<Rightarrow> Some (Inl err, p1, k)
     | Inr u \<Rightarrow> do {
         let writes = has access (FILE_WRITE_DATA OR FILE_APPEND_DATA OR FILE_WRITE_ATTRIBUTES OR FILE_WRITE_EA);
         (h, k1) \<leftarrow> just_open2 nt p1 u
           (if type = CONSOLE_HANDLE then (if writes then FILE_GENERIC_WRITE else FILE_GENERIC_READ) else access)
           (if type = CONSOLE_HANDLE then FILE_SYNCHRONOUS_IO_NONALERT else options) k;
         Some (h, p1, k1) } }"

section \<open>Temporary files\<close>

text \<open>\<open>_ultow_s\<close> with base 36: at most seven digits.\<close>

fun base36 :: "nat \<Rightarrow> nat \<Rightarrow> wchar list" where
  "base36 0 n = []"
| "base36 (Suc k) n = (if n = 0 then [] else base36 k (n div 36) @ [of_nat (if n mod 36 < 10 then n mod 36 + 0x30 else n mod 36 - 10 + 0x61)])"

definition random_digits :: "32 word \<Rightarrow> wchar list" where
  "random_digits rn = (let ds = (if rn = 0 then [0x30] else base36 7 (unat rn)) in ds @ replicate (8 - length ds) 0)"

text \<open>The block is resized to the name and seven units more, new ones cleared; a constant name has no block
  of its own and is lost.\<close>

definition temp_name :: "path_env \<Rightarrow> 32 word \<Rightarrow> path_state \<Rightarrow> UNICODE_STRING \<Rightarrow> UNICODE_STRING option ub" where
  "temp_name e rn p u =
     (if \<not> p_heap e (16 + unat (us_Length u) + 14) then Some None
      else do {
        name \<leftarrow> text_of p u;
        cs \<leftarrow> buffer_of p u;
        let old = (if us_MaximumLength u = us_Length u then [] else case us_Buffer u of Chars _ \<Rightarrow> cs | Points _ \<Rightarrow> take (unat (us_MaximumLength u) div 2) cs);
        let b0 = take (length name + 7) (old @ replicate (length name + 7) 0);
        let most = us_Length u + 14;
        c \<leftarrow> (if name = [] then None else load b0 (length name - 1));
        let n = (if c \<noteq> 0x5C then length name + 1 else length name);
        let b1 = (if c \<noteq> 0x5C then b0[length name := 0x5C] else b0);
        digits \<leftarrow> slice 0 (length b0 - n - 1) (random_digits rn);
        b2 \<leftarrow> blit n digits b1;
        let used = length (dropWhile (\<lambda>x. x = 0) (rev (butlast b2)));
        if used = 0 then None
        else Some (Some \<lparr>us_Length = of_nat (2 * used), us_MaximumLength = most, us_Buffer = Chars b2\<rparr>) })"

section \<open>open\<close>

text \<open>What is checked of a file on disk after it is opened; a handle that is given up is closed.\<close>

definition check_disk_file :: "'k nt_open \<Rightarrow> 32 word \<Rightarrow> 32 word \<Rightarrow> HANDLE \<Rightarrow> 'k \<Rightarrow> (HANDLE \<times> handle_t) res \<times> 'k" where
  "check_disk_file nt oflags access h k = (let (status, attrs) = NtQueryTag nt k h in
     if status \<noteq> STATUS_SUCCESS then (Inl (map_ntstatus_to_errno status), nt_close_handle nt h k)
     else if has attrs FILE_ATTRIBUTE_REPARSE_POINT \<and> has oflags O_NOFOLLOW \<and> \<not> has oflags O_PATH then (fail_with ELOOP, nt_close_handle nt h k)
     else if has access (FILE_WRITE_DATA OR FILE_APPEND_DATA) \<and> has attrs FILE_ATTRIBUTE_DIRECTORY then (fail_with EISDIR, nt_close_handle nt h k)
     else (Inr (h, if has attrs FILE_ATTRIBUTE_DIRECTORY then DIRECTORY_HANDLE else FILE_HANDLE),
       if has oflags O_NOATIME \<and> \<not> has oflags O_PATH \<and> NtQueryBasic nt k h = STATUS_SUCCESS then snd (NtSetLastAccess nt k h) else k))"

definition do_os_open ::
  "'k nt_open \<Rightarrow> path_env \<Rightarrow> int \<Rightarrow> byte list \<Rightarrow> 32 word \<Rightarrow> 32 word \<Rightarrow> handle_t \<Rightarrow> path_state \<Rightarrow> 'k
     \<Rightarrow> ((HANDLE \<times> handle_t) res \<times> path_state \<times> 'k) ub" where
  "do_os_open nt e dirfd name oflags perm ty p k = do {
     (r, type, p1) \<leftarrow> get_absolute_ntpath2 e dirfd name ty p;
     case r of
       Inl err \<Rightarrow> Some (Inl err, p1, k)
     | Inr u0 \<Rightarrow> do {
         let creates = has oflags (O_CREAT OR O_TMPFILE);
         let (rn, k0) = (if has oflags O_TMPFILE then rand_s nt k else (0, k));
         u' \<leftarrow> (if has oflags O_TMPFILE then temp_name e rn p1 u0 else Some (Some u0));
         case u' of
           None \<Rightarrow> Some (fail_silent, p1, k)
         | Some u \<Rightarrow>
             if type = CONSOLE_HANDLE \<and> has oflags O_RDWR then Some (fail_with EINVAL, p1, k0)
             else do {
               buf \<leftarrow> buffer_of p1 u;
               object_name \<leftarrow> text_of p1 u;
               let device = (type = NULL_HANDLE \<or> type = CONSOLE_HANDLE);
               let access = (if type = CONSOLE_HANDLE then (if has oflags O_WRONLY then FILE_GENERIC_WRITE else FILE_GENERIC_READ)
                 else determine_access_rights oflags);
               (h, k1) \<leftarrow> really_do_open nt buf \<lparr>ca_name = object_name, ca_root = 0, ca_inherit = \<not> has oflags O_NOINHERIT,
                 ca_security = (if creates then Some (perm AND 0x1FF) else None), ca_access = access,
                 ca_attributes = (if device \<or> \<not> creates then 0 else determine_file_attributes oflags),
                 ca_disposition = determine_create_dispostion oflags,
                 ca_options = (if device then FILE_SYNCHRONOUS_IO_NONALERT else determine_create_options oflags)\<rparr> k0;
               case h of
                 Inl err \<Rightarrow> Some (Inl err, p1, k1)
               | Inr opened \<Rightarrow>
                   if type = FILE_HANDLE then (let (res, k2) = check_disk_file nt oflags access opened k1 in Some (res, p1, k2))
                   else Some (Inr (opened, type), p1, k1) } } }"

definition do_open ::
  "'k nt_open \<Rightarrow> path_env \<Rightarrow> (nat \<Rightarrow> bool) \<Rightarrow> (nat \<Rightarrow> fdinfo) \<Rightarrow> int \<Rightarrow> byte list \<Rightarrow> 32 word \<Rightarrow> 32 word \<Rightarrow> path_state \<Rightarrow> fd_state \<Rightarrow> 'k
     \<Rightarrow> (int res \<times> path_state \<times> fd_state \<times> 'k) ub" where
  "do_open nt e heap junk dirfd name oflags perm p s k = do {
     (r, p1, k1) \<leftarrow> do_os_open nt (e\<lparr>p_fds := s\<rparr>) dirfd name oflags perm INVALID_HANDLE p k;
     case r of
       Inl err \<Rightarrow> Some (Inl err, p1, s, k1)
     | Inr (h, type) \<Rightarrow> do {
         (fd, s1) \<leftarrow> register_to_fd_table heap junk h type oflags s;
         Some (fd, p1, s1, k1) } }"

text \<open>\<open>VALIDATE_DIRFD\<close>\<close>

definition validate_dirfd :: "int \<Rightarrow> fd_state \<Rightarrow> unit res ub" where
  "validate_dirfd dirfd s = (if dirfd = AT_FDCWD then Some (Inr ())
     else do {
       type \<leftarrow> get_fd_type dirfd s;
       Some (if type = INVALID_HANDLE then fail_with EBADF else if type \<noteq> DIRECTORY_HANDLE then fail_with ENOTDIR else Inr ()) })"

text \<open>A NULL name is \<open>None\<close>; \<open>perm\<close> is the variadic argument, read for flags that create a file.\<close>

definition wlibc_common_open ::
  "'k nt_open \<Rightarrow> path_env \<Rightarrow> (nat \<Rightarrow> bool) \<Rightarrow> (nat \<Rightarrow> fdinfo) \<Rightarrow> int \<Rightarrow> byte list option \<Rightarrow> 32 word \<Rightarrow> 32 word \<Rightarrow> path_state \<Rightarrow> fd_state \<Rightarrow> 'k
     \<Rightarrow> (int res \<times> path_state \<times> fd_state \<times> 'k) ub" where
  "wlibc_common_open nt e heap junk dirfd name oflags perm p s k = (case name of
     None \<Rightarrow> Some (fail_with ENOENT, p, s, k)
   | Some path \<Rightarrow>
       if path = [] then Some (fail_with ENOENT, p, s, k)
       else do {
         v \<leftarrow> (if IS_ABSOLUTE_PATH path then Some (Inr ()) else validate_dirfd dirfd s);
         case v of
           Inl err \<Rightarrow> Some (Inl err, p, s, k)
         | Inr _ \<Rightarrow>
             if \<not> validate_oflags oflags then Some (fail_with EINVAL, p, s, k)
             else do_open nt e heap junk dirfd path oflags (if has oflags (O_CREAT OR O_TMPFILE) then perm else 0) p s k })"

end
