(* ===== verification/PathProps.thy ===== *)
theory PathProps
  imports Path
begin

text \<open>
  What the translation of paths computes: the components of a path are resolved one by one against a
  stack that never loses the device, whatever mixture of names, \<open>.\<close> and \<open>..\<close> the path has, and no access
  leaves the blocks the code allocates. DOS paths are normal forms that translate back.
\<close>

section \<open>Specification\<close>

definition flat :: "wchar list list \<Rightarrow> wchar list" where
  "flat cs = concat (map (\<lambda>c. 0x5C # c) cs)"

fun resolve :: "wchar list list \<Rightarrow> wchar list list \<Rightarrow> wchar list list" where
  "resolve st [] = st"
| "resolve st (c # cs) = resolve (if c = [0x2E, 0x2E] then butlast st else if c = [0x2E] then st else st @ [c]) cs"

definition clean :: "wchar list \<Rightarrow> bool" where
  "clean c \<longleftrightarrow> 0x5C \<notin> set c \<and> 0 \<notin> set c"

text \<open>The name of a device: one component below \<open>\Device\<close>.\<close>

definition device_name :: "wchar list \<Rightarrow> bool" where
  "device_name d \<longleftrightarrow> 8 \<le> length d \<and> length d \<le> 26 \<and> clean (drop 8 d)"

definition nt_text :: "wchar list \<Rightarrow> wchar list list \<Rightarrow> wchar list" where
  "nt_text d cs = d @ (if cs = [] then [0x5C] else flat cs)"

lemma flat_simps [simp]: "flat [] = []" "flat (c # cs) = 0x5C # c @ flat cs" "flat (as @ bs) = flat as @ flat bs"
  by (simp_all add: flat_def)

lemma length_flat_butlast: "length (flat (butlast st)) \<le> length (flat st)"
  by (cases st rule: rev_cases) simp_all

lemma length_flat_resolve: "length (flat (resolve st cs)) \<le> length (flat st) + length (flat cs)"
proof (induction cs arbitrary: st)
  case Nil
  then show ?case by simp
next
  case (Cons c cs)
  have "length (flat (butlast st)) \<le> length (flat st)" by (rule length_flat_butlast)
  then show ?case using Cons.IH [of "butlast st"] Cons.IH [of st] Cons.IH [of "st @ [c]"] by auto
qed

lemma resolve_append: "resolve st (as @ bs) = resolve (resolve st as) bs"
  by (induction as arbitrary: st) auto

text \<open>A resolved path has no \<open>.\<close> and no \<open>..\<close> in it, so resolving it again changes nothing.\<close>

lemma resolve_normal: "set (resolve st cs) \<subseteq> set st \<union> (set cs - {[0x2E], [0x2E, 0x2E]})"
proof (induction cs arbitrary: st)
  case Nil
  then show ?case by simp
next
  case (Cons c cs)
  then show ?case using Cons.IH [of "butlast st"] Cons.IH [of st] Cons.IH [of "st @ [c]"]
    by (auto dest: in_set_butlastD)
qed

section \<open>The stack of components\<close>

definition stacked :: "wchar list \<Rightarrow> path_component list \<Rightarrow> nat \<Rightarrow> wchar list list \<Rightarrow> bool" where
  "stacked buf arr k ws \<longleftrightarrow> k = length ws \<and> k \<le> length arr
     \<and> (\<forall>j < k. slice (pc_start (arr ! j)) (pc_length (arr ! j) div 2) buf = Some (ws ! j) \<and> even (pc_length (arr ! j)))"

lemma stacked_push:
  assumes "stacked buf arr k ws" "k < length arr" "slice st n buf = Some w"
  shows "stacked buf (arr[k := \<lparr>pc_start = st, pc_length = n * 2\<rparr>]) (Suc k) (ws @ [w])"
  using assms by (auto simp: stacked_def nth_append less_Suc_eq nth_list_update)

lemma stacked_pop: "stacked buf arr k (d # st) \<Longrightarrow> stacked buf arr (if k < 2 then 1 else k - 1) (d # butlast st)"
  by (cases st rule: rev_cases) (auto simp: stacked_def nth_append nth_Cons')

lemma stacked_grow: "stacked buf arr k ws \<Longrightarrow> stacked buf (arr @ zs) k ws"
  by (auto simp: stacked_def nth_append)

lemma add_component_push:
  assumes "\<forall>n. p_heap e n" "stacked buf arr k ws" "length arr = path_components_size s" "0 < path_components_size s"
    "slice st n buf = Some w"
  shows "\<exists>arr' m. add_component e (Some arr) k st (n * 2) s = Some (Inr (arr', k + 1), s\<lparr>path_components_size := m\<rparr>)
    \<and> stacked buf arr' (k + 1) (ws @ [w]) \<and> length arr' = m \<and> 0 < m"
proof (cases "k = path_components_size s")
  case True
  then show ?thesis
    using assms stacked_push [OF stacked_grow [OF assms(2)] _ assms(5), of "replicate (path_components_size s) (cjunk e)"]
    by (auto simp: add_component_def)
next
  case False
  then have "k < length arr" using assms(2,3) by (auto simp: stacked_def)
  then show ?thesis using False assms stacked_push [OF assms(2) _ assms(5)]
    by (auto simp: add_component_def intro!: exI [of _ "path_components_size s"])
qed

section \<open>The loop over the components\<close>

lemma component_at:
  assumes "drop i buf = w @ x # rest"
  shows "i + length w < length buf" "buf ! (i + length w) = x" "slice i (length w) buf = Some w"
    "\<And>j. j < length w \<Longrightarrow> buf ! (i + j) = w ! j"
proof -
  have "length (drop i buf) > 0" "length (drop i buf) = length w + Suc (length rest)" by (simp_all add: assms)
  then show len: "i + length w < length buf" by simp
  have nth: "j < length (drop i buf) \<Longrightarrow> buf ! (i + j) = (w @ x # rest) ! j" for j
    using nth_drop [of i buf j] len by (simp add: assms)
  show "buf ! (i + length w) = x" using nth [of "length w"] len by simp
  show "slice i (length w) buf = Some w" using len by (simp add: slice_def assms)
  show "buf ! (i + j) = w ! j" if "j < length w" for j using nth [of j] that len by (simp add: nth_append)
qed

lemma loop_scan:
  assumes "i \<le> i'" "i' \<le> length buf" "\<And>j. i \<le> j \<Longrightarrow> j < i' \<Longrightarrow> buf ! j \<noteq> 0x5C \<and> buf ! j \<noteq> 0"
  shows "coalesce_loop e buf i st components k s = coalesce_loop e buf i' st components k s"
  using assms
proof (induction "i' - i" arbitrary: i)
  case 0
  then show ?case by simp
next
  case (Suc n)
  then have "buf ! i \<noteq> 0x5C" "buf ! i \<noteq> 0" "i < length buf" using Suc.prems(3) [of i] by auto
  then have "coalesce_loop e buf i st components k s = coalesce_loop e buf (i + 1) st components k s"
    by (subst coalesce_loop.simps) simp
  also have "\<dots> = coalesce_loop e buf i' st components k s" by (rule Suc.hyps(1)) (use Suc in auto)
  finally show ?case .
qed

lemma clean_nth: "clean w \<Longrightarrow> j < length w \<Longrightarrow> w ! j \<noteq> 0x5C \<and> w ! j \<noteq> 0"
  unfolding clean_def by (metis nth_mem)

lemma loop_to_separator:
  assumes "drop i buf = w @ x # rest" "clean w"
  shows "coalesce_loop e buf i st components k s = coalesce_loop e buf (i + length w) st components k s"
proof (rule loop_scan)
  fix j assume j: "i \<le> j" "j < i + length w"
  then show "buf ! j \<noteq> 0x5C \<and> buf ! j \<noteq> 0"
    using component_at(4) [OF assms(1), of "j - i"] clean_nth [OF assms(2), of "j - i"] by auto
qed (use component_at(1) [OF assms(1)] in auto)

lemma loop_component:
  assumes "\<forall>n. p_heap e n" "stacked buf arr k (d # st)" "length arr = path_components_size s" "0 < path_components_size s"
    "drop i buf = w @ x # rest" "clean w" "x = 0x5C \<or> x = 0"
  shows "\<exists>arr' k' m. coalesce_loop e buf i i (Some arr) k s =
      (if x = 0 then Some (Inr (Some arr', k'), s\<lparr>path_components_size := m\<rparr>)
       else coalesce_loop e buf (i + length w + 1) (i + length w + 1) (Some arr') k' (s\<lparr>path_components_size := m\<rparr>))
    \<and> stacked buf arr' k' (d # resolve st [w]) \<and> length arr' = m \<and> 0 < m"
proof -
  note at = component_at [OF assms(5)]
  note scan = loop_to_separator [OF assms(5,6), of e i "Some arr" k s]
  have dots: "take 2 (drop i buf) = w" if "length w = 2" using assms(5) that by simp
  have dot: "w = [buf ! i]" if "length w = 1" using at(4) [of 0] that by (cases w) auto
  have same: "s\<lparr>path_components_size := path_components_size s\<rparr> = s" by simp
  consider (up) "w = [0x2E, 0x2E]" | (here) "w = [0x2E]" | (name) "w \<noteq> [0x2E, 0x2E]" "w \<noteq> [0x2E]" by blast
  then show ?thesis
  proof cases
    case up
    then have "coalesce_loop e buf (i + length w) i (Some arr) k s =
        (if x = 0 then Some (Inr (Some arr, if k < 2 then 1 else k - 1), s)
         else coalesce_loop e buf (i + length w + 1) (i + length w + 1) (Some arr) (if k < 2 then 1 else k - 1) s)"
      using at(1,2) dots assms(7) by (subst coalesce_loop.simps) auto
    then show ?thesis using scan stacked_pop [OF assms(2)] assms(3,4) up same by (intro exI [of _ arr]) (auto intro!: exI)
  next
    case here
    then have "coalesce_loop e buf (i + length w) i (Some arr) k s =
        (if x = 0 then Some (Inr (Some arr, k), s)
         else coalesce_loop e buf (i + length w + 1) (i + length w + 1) (Some arr) k s)"
      using at(1,2) dot assms(7) by (subst coalesce_loop.simps) auto
    then show ?thesis using scan assms(2-4) here same by (intro exI [of _ arr]) (auto intro!: exI)
  next
    case name
    obtain arr' m where push: "add_component e (Some arr) k i (length w * 2) s = Some (Inr (arr', k + 1), s\<lparr>path_components_size := m\<rparr>)"
        "stacked buf arr' (k + 1) ((d # st) @ [w])" "length arr' = m" "0 < m"
      using add_component_push [OF assms(1-4) at(3)] by blast
    have n2: "\<not> (length w = 2 \<and> take 2 (drop i buf) = [0x2E, 0x2E])" using name dots by auto
    have n1: "\<not> (length w = Suc 0 \<and> buf ! i = 0x2E)" using name dot by auto
    have "coalesce_loop e buf (i + length w) i (Some arr) k s =
        (if x = 0 then Some (Inr (Some arr', k + 1), s\<lparr>path_components_size := m\<rparr>)
         else coalesce_loop e buf (i + length w + 1) (i + length w + 1) (Some arr') (k + 1) (s\<lparr>path_components_size := m\<rparr>))"
      using at(1,2) n1 n2 assms(7) push(1) by (subst coalesce_loop.simps) auto
    then show ?thesis using scan push name by (intro exI [of _ arr']) auto
  qed
qed

lemma loop_components:
  assumes "\<forall>n. p_heap e n" "stacked buf arr k (d # st)" "length arr = path_components_size s" "0 < path_components_size s"
    "drop i buf = c @ flat cs @ 0 # rest" "\<forall>c \<in> set (c # cs). clean c"
  shows "\<exists>arr' m. coalesce_loop e buf i i (Some arr) k s
      = Some (Inr (Some arr', Suc (length (resolve st (c # cs)))), s\<lparr>path_components_size := m\<rparr>)
    \<and> stacked buf arr' (Suc (length (resolve st (c # cs)))) (d # resolve st (c # cs)) \<and> 0 < m"
  using assms
proof (induction cs arbitrary: arr k st s i c)
  case Nil
  have "drop i buf = c @ 0 # rest" "clean c" using Nil.prems by auto
  from loop_component [OF Nil.prems(1-4) this] show ?case by (auto simp: stacked_def)
next
  case (Cons c2 cs)
  have at: "drop i buf = c @ 0x5C # c2 @ flat cs @ 0 # rest" "clean c" using Cons.prems by auto
  from loop_component [OF Cons.prems(1-4) this] obtain arr1 k1 m1 where step:
    "coalesce_loop e buf i i (Some arr) k s = coalesce_loop e buf (i + length c + 1) (i + length c + 1) (Some arr1) k1 (s\<lparr>path_components_size := m1\<rparr>)"
    "stacked buf arr1 k1 (d # resolve st [c])" "length arr1 = m1" "0 < m1" by auto
  have "drop (i + length c + 1) buf = drop (length c + 1) (drop i buf)" by (simp add: add.commute add.left_commute)
  then have next_at: "drop (i + length c + 1) buf = c2 @ flat cs @ 0 # rest" by (simp add: at(1))
  have "resolve st (c # c2 # cs) = resolve (resolve st [c]) (c2 # cs)" by simp
  then show ?case
    using Cons.IH [OF Cons.prems(1) step(2) _ _ next_at, of "s\<lparr>path_components_size := m1\<rparr>"] step Cons.prems(6) by auto
qed

lemma add_component_first:
  "\<forall>n. p_heap e n \<Longrightarrow> add_component e None k st n s = add_component e (Some (replicate (path_components_size s) (cjunk e))) k st n s"
  by (simp add: add_component_def)

text \<open>The device is the first component, whatever its name.\<close>

lemma loop_all:
  assumes "\<forall>n. p_heap e n" "0 < path_components_size s" "buf = d @ flat cs @ 0 # rest" "device_name d" "\<forall>c \<in> set cs. clean c"
  shows "\<exists>arr m. coalesce_loop e buf 8 0 None 0 s = Some (Inr (Some arr, Suc (length (resolve [] cs))), s\<lparr>path_components_size := m\<rparr>)
    \<and> stacked buf arr (Suc (length (resolve [] cs))) (d # resolve [] cs) \<and> 0 < m"
proof -
  have d: "8 \<le> length d" "clean (drop 8 d)" using assms(4) by (auto simp: device_name_def)
  obtain x xs where x: "flat cs @ 0 # rest = x # xs" "x = (if cs = [] then 0 else 0x5C)" by (cases cs) auto
  have at: "drop 0 buf = d @ x # xs" using assms(3) x by simp
  have "coalesce_loop e buf 8 0 None 0 s = coalesce_loop e buf (length d) 0 None 0 s"
    using loop_to_separator [of 8 buf "drop 8 d" x xs] assms(3) x d by simp
  moreover have "stacked buf (replicate (path_components_size s) (cjunk e)) 0 []" by (simp add: stacked_def)
  from add_component_push [OF assms(1) this _ assms(2) component_at(3) [OF at]] obtain arr m where push:
    "add_component e None 0 0 (length d * 2) s = Some (Inr (arr, 1), s\<lparr>path_components_size := m\<rparr>)"
    "stacked buf arr 1 [d]" "length arr = m" "0 < m" by (auto simp: add_component_first [OF assms(1)])
  have "length d < length buf" "buf ! length d = x" using component_at(1,2) [OF at] by auto
  then have "coalesce_loop e buf (length d) 0 None 0 s =
      (if cs = [] then Some (Inr (Some arr, 1), s\<lparr>path_components_size := m\<rparr>)
       else coalesce_loop e buf (length d + 1) (length d + 1) (Some arr) 1 (s\<lparr>path_components_size := m\<rparr>))"
    using push(1) d(1) x(2) by (subst coalesce_loop.simps) auto
  ultimately have first: "coalesce_loop e buf 8 0 None 0 s =
      (if cs = [] then Some (Inr (Some arr, 1), s\<lparr>path_components_size := m\<rparr>)
       else coalesce_loop e buf (length d + 1) (length d + 1) (Some arr) 1 (s\<lparr>path_components_size := m\<rparr>))" by simp
  show ?thesis
  proof (cases cs)
    case Nil
    then show ?thesis using first push by auto
  next
    case (Cons c cs')
    have "drop (length d + 1) buf = c @ flat cs' @ 0 # rest" using assms(3) Cons by simp
    from loop_components [OF assms(1) push(2) _ _ this, of "s\<lparr>path_components_size := m\<rparr>"] push(3,4) assms(5) Cons first show ?thesis by auto
  qed
qed

section \<open>Joining the components\<close>

lemma slice_length: "slice off n buf = Some w \<Longrightarrow> length w = n"
  by (auto simp: slice_def split: if_splits)

lemma drop_Cons_upd: "n < length xs \<Longrightarrow> (drop n xs)[0 := v] = v # drop (Suc n) xs"
  by (simp add: Cons_nth_drop_Suc [symmetric])

lemma unat_double: "2 * m < 65536 \<Longrightarrow> unat (of_nat (2 * m) :: 16 word) div 2 = m"
  by (simp add: unat_of_nat del: of_nat_mult)

lemma unat_double_full: "2 * m < 65536 \<Longrightarrow> unat (of_nat (2 * m) :: 16 word) = 2 * m"
  by (simp add: unat_of_nat del: of_nat_mult)

lemma join_all:
  assumes "stacked buf arr K ws" "i + k = K" "0 < k" "m + length (tl (flat (drop i ws))) \<le> length out"
    "2 * (m + length (tl (flat (drop i ws)))) < 65536"
  shows "join_components buf arr i k (of_nat (2 * m)) out
    = Some (take m out @ tl (flat (drop i ws)) @ drop (m + length (tl (flat (drop i ws)))) out, of_nat (2 * (m + length (tl (flat (drop i ws))))))"
  using assms
proof (induction k arbitrary: i m out)
  case 0
  then show ?case by simp
next
  case (Suc k)
  let ?c = "arr ! i" and ?w = "ws ! i"
  have i: "i < K" "i < length ws" "i < length arr" using Suc.prems(1,2) by (auto simp: stacked_def)
  then have c: "slice (pc_start ?c) (pc_length ?c div 2) buf = Some ?w" "even (pc_length ?c)"
    using Suc.prems(1) by (auto simp: stacked_def)
  then have len: "pc_length ?c = 2 * length ?w" using slice_length by fastforce
  have split: "tl (flat (drop i ws)) = ?w @ flat (drop (Suc i) ws)" using i by (simp add: Cons_nth_drop_Suc [symmetric])
  have fits: "m + length ?w \<le> length out" "2 * m < 65536" using Suc.prems(4,5) split by auto
  let ?out1 = "take m out @ ?w @ drop (m + length ?w) out"
  have n1: "of_nat (2 * m) + of_nat (pc_length ?c) = (of_nat (2 * (m + length ?w)) :: 16 word)" by (simp add: len algebra_simps)
  have part: "blit (unat (of_nat (2 * m) :: 16 word) div 2) ?w out = Some ?out1" using fits by (simp add: blit_def unat_double del: of_nat_mult)
  show ?case
  proof (cases k)
    case 0
    then have "drop (Suc i) ws = []" using Suc.prems(1,2) by (auto simp: stacked_def)
    then show ?thesis using 0 c(1) i part n1 split by (simp del: of_nat_mult of_nat_add)
  next
    case (Suc k')
    have "drop (Suc i) ws \<noteq> []" using Suc.prems(1,2) \<open>k = Suc k'\<close> by (auto simp: stacked_def)
    then obtain r where ne: "flat (drop (Suc i) ws) = 0x5C # r" by (cases "drop (Suc i) ws") auto
    have room: "m + length ?w + 1 + length r \<le> length out" "2 * (m + length ?w + 1 + length r) < 65536"
      using Suc.prems(4,5) unfolding split ne by auto
    define m' where "m' = m + length ?w + 1"
    define out2 where "out2 = take m out @ ?w @ 0x5C # drop m' out"
    have "?out1[m + length ?w := 0x5C] = out2" using room by (simp add: out2_def m'_def list_update_append drop_Cons_upd)
    then have store2: "store (unat (of_nat (2 * (m + length ?w)) :: 16 word) div 2) 0x5C ?out1 = Some out2"
      using room by (subst unat_double) (auto simp: store_def)
    have n2: "of_nat (2 * (m + length ?w)) + 2 = (of_nat (2 * m') :: 16 word)" by (simp add: m'_def algebra_simps)
    have len2: "length out2 = length out" using room by (simp add: out2_def m'_def)
    have "join_components buf arr i (Suc k) (of_nat (2 * m)) out = join_components buf arr (Suc i) k (of_nat (2 * m')) out2"
      using c(1) i part n1 store2 n2 \<open>k = Suc k'\<close> by (simp del: of_nat_mult of_nat_add)
    also have "\<dots> = Some (take m' out2 @ r @ drop (m' + length r) out2, of_nat (2 * (m' + length r)))"
      using Suc.IH [OF Suc.prems(1), of "Suc i" m' out2] Suc.prems(2) room len2 \<open>k = Suc k'\<close> unfolding ne by (simp add: m'_def del: of_nat_mult of_nat_add join_components.simps)
    also have "take m' out2 = take m out @ ?w @ [0x5C]" using room by (simp add: out2_def m'_def)
    also have "drop (m' + length r) out2 = drop (m' + length r) out" using room by (simp add: out2_def m'_def ac_simps)
    finally show ?thesis unfolding split ne by (simp add: m'_def add.assoc del: of_nat_mult of_nat_add)
  qed
qed

lemma take_all_parts: "slice 0 (length a) (a @ b) = Some a"
  by (simp add: slice_def)

lemma store_next:
  assumes "length xs < length ys" "2 * length xs < 65536"
  shows "store (unat (of_nat (2 * length xs) :: 16 word) div 2) v (xs @ drop (length xs) ys) = Some ((xs @ [v]) @ drop (length (xs @ [v])) ys)"
  using assms by (subst unat_double) (auto simp: store_def list_update_append drop_Cons_upd)

lemma coalesce_resolves:
  assumes "\<forall>n. p_heap e n" "0 < path_components_size s" "buf = d @ flat cs @ 0 # rest" "device_name d" "\<forall>c \<in> set cs. clean c"
    "unat required div 2 = length buf" "length d + 2 \<le> length buf"
  shows "\<exists>u m. path_coalesce e buf required s = Some (Inr u, s\<lparr>path_components_size := m\<rparr>)
    \<and> (\<exists>zs. us_Buffer u = Chars (nt_text d (resolve [] cs) @ 0 # zs)) \<and> us_Length u = of_nat (2 * length (nt_text d (resolve [] cs)))
    \<and> 2 * length (nt_text d (resolve [] cs)) < 65536 \<and> 0 < m"
proof -
  let ?st = "resolve [] cs"
  obtain arr m where loop: "coalesce_loop e buf 8 0 None 0 s = Some (Inr (Some arr, Suc (length ?st)), s\<lparr>path_components_size := m\<rparr>)"
      "stacked buf arr (Suc (length ?st)) (d # ?st)" "0 < m"
    using loop_all [OF assms(1-5)] by blast
  have "length (flat ?st) \<le> length (flat cs)" using length_flat_resolve [of "[]" cs] by simp
  moreover have "unat required < 65536" using unsigned_less [of required] by simp
  ultimately have fits: "length (nt_text d ?st) + 1 \<le> length buf" "2 * length (nt_text d ?st) < 65536"
      "length (d @ flat ?st) \<le> length (nt_text d ?st)"
    using assms(3,6,7) by (auto simp: nt_text_def)
  have out: "length (block e (unat required)) = length buf" using assms(6) by (simp add: block_def)
  have "join_components buf arr 0 (Suc (length ?st)) (of_nat (2 * 0)) (block e (unat required))
      = Some (take 0 (block e (unat required)) @ tl (flat (drop 0 (d # ?st))) @ drop (0 + length (tl (flat (drop 0 (d # ?st))))) (block e (unat required)),
          of_nat (2 * (0 + length (tl (flat (drop 0 (d # ?st)))))))"
    using fits out by (intro join_all [OF loop(2)]) auto
  then have join: "join_components buf arr 0 (Suc (length ?st)) 0 (block e (unat required))
      = Some (d @ flat ?st @ drop (length (d @ flat ?st)) (block e (unat required)), of_nat (2 * length (d @ flat ?st)))"
    by (simp del: join_components.simps)
  let ?zs = "drop (Suc (length (nt_text d ?st))) (block e (unat required))"
  show ?thesis
  proof (cases "?st = []")
    case True
    have "store (unat (of_nat (2 * length d) :: 16 word) div 2) 0x5C (d @ drop (length d) (block e (unat required)))
        = Some ((d @ [0x5C]) @ drop (length (d @ [0x5C])) (block e (unat required)))"
      by (rule store_next) (use fits out True in \<open>auto simp: nt_text_def\<close>)
    moreover have "store (unat (of_nat (2 * length (d @ [0x5C])) :: 16 word) div 2) 0 ((d @ [0x5C]) @ drop (length (d @ [0x5C])) (block e (unat required)))
        = Some (((d @ [0x5C]) @ [0]) @ drop (length ((d @ [0x5C]) @ [0])) (block e (unat required)))"
      by (rule store_next) (use fits out True in \<open>auto simp: nt_text_def\<close>)
    moreover have "of_nat (2 * length d) + 2 = (of_nat (2 * length (d @ [0x5C])) :: 16 word)" by simp
    ultimately show ?thesis using loop join fits True assms(1)
      by (auto simp: path_coalesce_def nt_text_def Let_def add.commute simp del: join_components.simps of_nat_mult intro!: exI [of _ m])
  next
    case False
    have "store (unat (of_nat (2 * length (d @ flat ?st)) :: 16 word) div 2) 0 ((d @ flat ?st) @ drop (length (d @ flat ?st)) (block e (unat required)))
        = Some (((d @ flat ?st) @ [0]) @ drop (length ((d @ flat ?st) @ [0])) (block e (unat required)))"
      by (rule store_next) (use fits out False in \<open>auto simp: nt_text_def\<close>)
    then show ?thesis using loop join fits False assms(1)
      by (auto simp: path_coalesce_def nt_text_def Let_def simp del: join_components.simps of_nat_mult of_nat_add intro!: exI [of _ m])
  qed
qed

section \<open>Building the full path\<close>

text \<open>What the path of a file on a drive looks like, \<open>C:\dots\<close> or \<open>/c/\<dots>\<close>, and which volume it names.\<close>

definition drive_form :: "byte list \<Rightarrow> byte \<Rightarrow> bool" where
  "drive_form path v \<longleftrightarrow> (\<exists>a p. is_alpha a \<and> v = to_upper a \<and> (path = a # 0x3A # p \<or> path = [0x2F, a] \<or> path = 0x2F # a # 0x2F # p))"

text \<open>A relative path that is not the name of a device.\<close>

definition plain_form :: "byte list \<Rightarrow> bool" where
  "plain_form path \<longleftrightarrow> path \<noteq> [] \<and> \<not> IS_ABSOLUTE_PATH path \<and> ch path 0 \<noteq> 0x5C \<and> dos_name path = None"

lemma alpha_neq: "is_alpha a \<Longrightarrow> a \<noteq> 0x2F \<and> a \<noteq> 0x5C \<and> a \<noteq> 0 \<and> a \<noteq> 0x3A"
  by (auto simp: is_alpha_def)

lemma drive_form_route:
  assumes "drive_form path v"
  shows "get_absolute_ntpath2 e dirfd path ty s = do { (r, s1) \<leftarrow> full_path e dirfd path s; coalesce_result e FILE_HANDLE r s1 }"
    "full_path e dirfd path s = (let (status, w) = RtlUTF8StringToUnicodeString e path in
       if status \<noteq> STATUS_SUCCESS then Some (Inl (map_ntstatus_to_errno status), s) else absolute_buffer e v (backslashes w) s)"
proof -
  obtain a p where a: "is_alpha a" "v = to_upper a" "path = a # 0x3A # p \<or> path = [0x2F, a] \<or> path = 0x2F # a # 0x2F # p"
    using assms by (auto simp: drive_form_def)
  have special: "path \<noteq> []" "\<not> IS_ROOT_PATH path" "posix_device path = None" "dev_fd path = Some None" "dos_name path = None"
      "\<not> stricmp_eq (take 9 path) pipe_prefix" "\<not> stricmp_eq (take 4 path) (bytes_of ''/tmp'')" "IS_ABSOLUTE_PATH path"
      "\<not> ((ch path 0 = 0x5C \<and> ch path 1 = 0x5C) \<or> (ch path 0 = 0x2F \<and> ch path 1 = 0x2F))"
    using a(3) alpha_neq [OF a(1)] a(1)
    by (auto simp: IS_ROOT_PATH_def ch_def posix_device_def dev_fd_def dos_name_def bytes_of_def stricmp_eq_def pipe_prefix_def
        to_lower_def IS_ABSOLUTE_PATH_def)
  have vol: "to_upper (if ch path 0 = 0x2F then ch path 1 else ch path 0) = v"
      and bad: "\<not> (ch path 0 = 0x2F \<and> \<not> (is_alpha (ch path 1) \<and> (ch path 2 = 0x2F \<or> ch path 2 = 0)))"
    using a alpha_neq [OF a(1)] by (auto simp: ch_def)
  show "get_absolute_ntpath2 e dirfd path ty s = do { (r, s1) \<leftarrow> full_path e dirfd path s; coalesce_result e FILE_HANDLE r s1 }"
    using special by (auto simp: get_absolute_ntpath2_def expand_tmp_def)
  show "full_path e dirfd path s = (let (status, w) = RtlUTF8StringToUnicodeString e path in
       if status \<noteq> STATUS_SUCCESS then Some (Inl (map_ntstatus_to_errno status), s) else absolute_buffer e v (backslashes w) s)"
    unfolding full_path_def vol if_P [OF special(8)] if_not_P [OF bad] ..
qed

lemma plain_form_route:
  assumes "plain_form path"
  shows "get_absolute_ntpath2 e dirfd path ty s = do { (r, s1) \<leftarrow> full_path e dirfd path s; coalesce_result e FILE_HANDLE r s1 }"
proof -
  obtain a p where a: "path = a # p" "a \<noteq> 0x2F" "a \<noteq> 0x5C"
    using assms by (cases path) (auto simp: plain_form_def IS_ABSOLUTE_PATH_def ch_def)
  then have "\<not> IS_ROOT_PATH path" "posix_device path = None" "dev_fd path = Some None"
      "\<not> stricmp_eq (take 9 path) pipe_prefix" "\<not> stricmp_eq (take 4 path) (bytes_of ''/tmp'')"
      "\<not> ((ch path 0 = 0x5C \<and> ch path 1 = 0x5C) \<or> (ch path 0 = 0x2F \<and> ch path 1 = 0x2F))"
    by (auto simp: IS_ROOT_PATH_def ch_def posix_device_def dev_fd_def bytes_of_def stricmp_eq_def pipe_prefix_def to_lower_def split: if_splits)
  then show ?thesis using assms a by (auto simp: plain_form_def get_absolute_ntpath2_def expand_tmp_def ch_def)
qed

lemma blit_two:
  assumes "length a + length b \<le> length buf"
  shows "blit 0 a buf = Some (a @ drop (length a) buf)"
    "blit (length a) b (a @ drop (length a) buf) = Some (a @ b @ drop (length a + length b) buf)"
  using assms by (auto simp: blit_def add.commute)

lemma absolute_buffer_text:
  assumes "\<forall>n. p_heap e n" "dos_device_to_nt_device e v s = Some (Some dv, s1)" "device_text dv = Some d" "device_name d"
    "w = x # y # tail" "length w < 32740"
  shows "\<exists>rest required. absolute_buffer e v w s = Some (Inr (d @ tail @ 0 # rest, required), s1)
    \<and> unat required div 2 = length (d @ tail @ 0 # rest) \<and> length d + 2 \<le> length (d @ tail @ 0 # rest)"
proof -
  define required where "required = (of_nat (2 * (length w + 1)) + 54 :: 16 word)"
  have "required = of_nat (2 * (length w + 28))" by (simp add: required_def algebra_simps)
  then have sz: "unat required div 2 = length w + 28" using assms(6) unat_double [of "length w + 28"] by simp
  have fits: "length d + length (tail @ [0]) \<le> length (block e (unat required))" "length d \<le> 26"
    using assms(4,5) sz by (auto simp: block_def device_name_def)
  let ?rest = "drop (length d + length (tail @ [0])) (block e (unat required))"
  have "w \<noteq> []" "drop 2 (w @ [0]) = tail @ [0]" using assms(5) by auto
  then have "absolute_buffer e v w s = Some (Inr (d @ (tail @ [0]) @ ?rest, required), s1)"
    unfolding absolute_buffer_def Let_def required_def [symmetric] using assms(1-3) blit_two [OF fits(1)] by simp
  moreover have "length (d @ (tail @ [0]) @ ?rest) = length w + 28" using fits sz by (simp add: block_def)
  ultimately show ?thesis using assms(5) fits sz by (intro exI [of _ ?rest] exI [of _ required]) (auto simp: block_def)
qed

lemma relative_buffer_text:
  assumes "\<forall>n. p_heap e n" "length w + length root < 32760"
  shows "\<exists>rest required. relative_buffer e root slash w = Some (Inr (root @ (if slash then [] else [0x5C]) @ w @ 0 # rest, required))
    \<and> unat required div 2 = length (root @ (if slash then [] else [0x5C]) @ w @ 0 # rest)
    \<and> length (root @ w) + 2 \<le> length (root @ (if slash then [] else [0x5C]) @ w @ 0 # rest)"
proof -
  define required where "required = (of_nat (2 * (length w + 1)) + (of_nat (2 * length root) + 2) :: 16 word)"
  have "required = of_nat (2 * (length w + length root + 2))" by (simp add: required_def algebra_simps)
  then have sz: "unat required div 2 = length w + length root + 2" using assms(2) unat_double [of "length w + length root + 2"] by simp
  let ?buf = "block e (unat required)" and ?head = "root @ (if slash then [] else [0x5C])"
  have len: "length ?buf = length w + length root + 2" using sz by (simp add: block_def)
  have "blit 0 root ?buf = Some (root @ drop (length root) ?buf)" using len by (intro blit_two(1) [of _ "[]"]) simp
  moreover have "(if slash then Some (root @ drop (length root) ?buf) else store (length root) 0x5C (root @ drop (length root) ?buf))
      = Some (?head @ drop (length ?head) ?buf)" using len by (auto simp: store_def list_update_append drop_Cons_upd)
  moreover have "blit (length ?head) (w @ [0]) (?head @ drop (length ?head) ?buf) = Some (?head @ (w @ [0]) @ drop (length ?head + length (w @ [0])) ?buf)"
    using len by (intro blit_two(2)) auto
  moreover have "(if slash then length root else length root + 1) = length ?head" by simp
  ultimately have "relative_buffer e root slash w = Some (Inr (?head @ w @ 0 # drop (length ?head + length (w @ [0])) ?buf, required))"
    unfolding relative_buffer_def Let_def required_def [symmetric] using assms(1) by simp
  then show ?thesis using len sz by auto
qed

section \<open>Whole paths\<close>

lemma length_backslashes [simp]: "length (backslashes w) = length w"
  by (induction w) auto

lemma device_keeps_size: "dos_device_to_nt_device e v s = Some (d, s1) \<Longrightarrow> path_components_size s1 = path_components_size s"
  by (auto simp: dos_device_to_nt_device_def Let_def split: if_splits prod.splits Option.bind_split_asm)

lemma drive_path:
  assumes "\<forall>n. p_heap e n" "0 < path_components_size s" "drive_form path v"
    "RtlUTF8StringToUnicodeString e path = (STATUS_SUCCESS, w)" "backslashes w = x # y # flat cs" "\<forall>c \<in> set cs. clean c" "length w < 32740"
    "dos_device_to_nt_device e v s = Some (Some dv, s1)" "device_text dv = Some d" "device_name d"
  shows "\<exists>u m zs. get_absolute_ntpath2 e dirfd path ty s = Some (Inr u, FILE_HANDLE, s1\<lparr>path_components_size := m\<rparr>)
    \<and> us_Buffer u = Chars (nt_text d (resolve [] cs) @ 0 # zs) \<and> us_Length u = of_nat (2 * length (nt_text d (resolve [] cs)))
    \<and> 2 * length (nt_text d (resolve [] cs)) < 65536 \<and> 0 < m"
proof -
  obtain rest required where b: "absolute_buffer e v (backslashes w) s = Some (Inr (d @ flat cs @ 0 # rest, required), s1)"
      "unat required div 2 = length (d @ flat cs @ 0 # rest)" "length d + 2 \<le> length (d @ flat cs @ 0 # rest)"
    using absolute_buffer_text [OF assms(1,8-10,5)] assms(7) by auto
  have "0 < path_components_size s1" using device_keeps_size [OF assms(8)] assms(2) by simp
  from coalesce_resolves [OF assms(1) this refl assms(10,6) b(2,3)] show ?thesis
    using b(1) assms(4) unfolding drive_form_route [OF assms(3)] by (auto simp: coalesce_result_def)
qed

lemma relative_path:
  assumes "\<forall>n. p_heap e n" "plain_form path" "root_directory e dirfd s = Some (Inr (root, slash), s1)" "0 < path_components_size s1"
    "root = d @ flat rs @ (if slash then [0x5C] else [])" "device_name d"
    "RtlUTF8StringToUnicodeString e path = (STATUS_SUCCESS, w)" "0x5C # backslashes w = flat cs" "\<forall>c \<in> set (rs @ cs). clean c"
    "length w + length root < 32760"
  shows "\<exists>u m zs. get_absolute_ntpath2 e dirfd path ty s = Some (Inr u, FILE_HANDLE, s1\<lparr>path_components_size := m\<rparr>)
    \<and> us_Buffer u = Chars (nt_text d (resolve [] (rs @ cs)) @ 0 # zs) \<and> us_Length u = of_nat (2 * length (nt_text d (resolve [] (rs @ cs))))
    \<and> 2 * length (nt_text d (resolve [] (rs @ cs))) < 65536 \<and> 0 < m"
proof -
  obtain rest required where b: "relative_buffer e root slash (backslashes w) = Some (Inr (root @ (if slash then [] else [0x5C]) @ backslashes w @ 0 # rest, required))"
      "unat required div 2 = length (root @ (if slash then [] else [0x5C]) @ backslashes w @ 0 # rest)"
      "length (root @ backslashes w) + 2 \<le> length (root @ (if slash then [] else [0x5C]) @ backslashes w @ 0 # rest)"
    using relative_buffer_text [OF assms(1), of "backslashes w" root slash] assms(10) by auto
  have eq: "root @ (if slash then [] else [0x5C]) @ backslashes w @ 0 # rest = d @ flat (rs @ cs) @ 0 # rest"
    using assms(8) unfolding assms(5) by (cases slash) (simp_all flip: assms(8))
  have "length d + 2 \<le> length (d @ flat (rs @ cs) @ 0 # rest)" using b(3) unfolding eq using assms(5) by auto
  from coalesce_resolves [OF assms(1,4) refl assms(6,9) b(2) [unfolded eq] this] show ?thesis
    using b(1) assms(2,3,7) unfolding plain_form_route [OF assms(2)] eq
    by (auto simp: coalesce_result_def full_path_def plain_form_def)
qed

section \<open>The cache of volumes\<close>

definition link_name :: "byte \<Rightarrow> wchar list" where
  "link_name v = 0x5C # wide ''GLOBAL??'' @ [0x5C, ucast v, 0x3A]"

text \<open>The kernel's symbolic link for the volume \<open>v\<close> leads to the device \<open>d\<close>.\<close>

definition kernel_volume :: "path_env \<Rightarrow> byte \<Rightarrow> wchar list \<Rightarrow> bool" where
  "kernel_volume e v d \<longleftrightarrow> NtOpenSymbolicLinkObject e (link_name v) = STATUS_SUCCESS \<and> NtQuerySymbolicLinkObject e (link_name v) = (STATUS_SUCCESS, d)"

text \<open>An entry is empty, marks a volume that does not exist, or holds what the kernel says.\<close>

definition device_ok :: "path_env \<Rightarrow> byte \<Rightarrow> nt_device \<Rightarrow> bool" where
  "device_ok e v dv \<longleftrightarrow> length (nd_name dv) = 26 \<and> (nd_length dv = 0 \<or> (nd_length dv = - 1 \<and> (\<forall>d. \<not> kernel_volume e v d))
     \<or> (\<exists>d. kernel_volume e v d \<and> length d \<le> 26 \<and> nd_length dv = of_nat (2 * length d) \<and> take (length d) (nd_name dv) = d))"

definition devices_ok :: "path_env \<Rightarrow> path_state \<Rightarrow> bool" where
  "devices_ok e s \<longleftrightarrow> length (devices s) = 32 \<and> (\<forall>i < 26. device_ok e (of_nat (i + 0x41)) (devices s ! i))"

lemma devices_ok_start: "devices_ok e path_start"
  by (auto simp: devices_ok_def path_start_def device_ok_def)

lemma devices_ok_size [simp]: "devices_ok e (s\<lparr>path_components_size := m\<rparr>) = devices_ok e s"
  by (simp add: devices_ok_def)

lemma letter_index:
  assumes "0x41 \<le> v" "v \<le> (0x5A :: byte)"
  shows "unat v - 0x41 < 26" "of_nat (unat v - 0x41 + 0x41) = v"
proof -
  have "0x41 \<le> unat v" "unat v \<le> 0x5A" using assms by (simp_all add: word_le_nat_alt)
  then show "unat v - 0x41 < 26" "of_nat (unat v - 0x41 + 0x41) = v" by simp_all
qed

lemma unat_small: "m \<le> 26 \<Longrightarrow> unat (of_nat (2 * m) :: 16 word) = 2 * m"
  by (simp add: unat_of_nat del: of_nat_mult)

lemma small_length: "m \<le> 26 \<Longrightarrow> (of_nat (2 * m) :: 16 word) = 0 \<longleftrightarrow> m = 0" "m \<le> 26 \<Longrightarrow> (of_nat (2 * m) :: 16 word) \<noteq> - 1"
proof -
  assume m: "m \<le> 26"
  show "(of_nat (2 * m) :: 16 word) = 0 \<longleftrightarrow> m = 0" using unat_small [OF m] by (metis mult_eq_0_iff unat_0 unat_eq_zero zero_neq_numeral)
  have "unat (- 1 :: 16 word) = 65535" by (simp add: unsigned_minus_1_eq_mask mask_eq_exp_minus_1)
  then show "(of_nat (2 * m) :: 16 word) \<noteq> - 1" using unat_small [OF m] m by (auto dest: arg_cong [of _ _ unat])
qed

lemma device_found:
  assumes "devices_ok e s" "kernel_volume e v d" "0x41 \<le> v" "v \<le> 0x5A" "d \<noteq> []" "length d \<le> 26"
  shows "\<exists>dv ds. dos_device_to_nt_device e v s = Some (Some dv, s\<lparr>devices := ds\<rparr>) \<and> device_text dv = Some d
    \<and> nd_length dv = of_nat (2 * length d) \<and> devices_ok e (s\<lparr>devices := ds\<rparr>)"
proof -
  define i where "i = unat v - 0x41"
  define dv where "dv = devices s ! i"
  have i: "i < 26" "of_nat (i + 0x41) = v" using letter_index [OF assms(3,4)] by (simp_all add: i_def)
  then have ok: "device_ok e v dv" "i < length (devices s)" using assms(1) by (auto simp: devices_ok_def dv_def)
  have range: "\<not> (v < 0x41 \<or> v > 0x5A)" using assms(3,4) by auto
  show ?thesis
  proof (cases "nd_length dv = 0")
    case True
    define d1 where "d1 = \<lparr>nd_length = of_nat (2 * length d), nd_name = d @ drop (length d) (nd_name dv)\<rparr>"
    have "blit 0 d (nd_name dv) = Some (d @ drop (length d) (nd_name dv))" using ok(1) assms(6) by (simp add: blit_def device_ok_def)
    then have "dos_device_to_nt_device e v s = Some (Some d1, s\<lparr>devices := (devices s)[i := d1]\<rparr>)"
      using range True ok(2) assms(2) unfolding dos_device_to_nt_device_def i_def [symmetric] link_name_def [symmetric]
      by (simp add: dv_def d1_def kernel_volume_def Let_def)
    moreover have "device_text d1 = Some d" unfolding device_text_def d1_def using unat_small [OF assms(6)] by (simp add: slice_def)
    moreover have d1: "device_ok e v d1" using ok(1) assms(2,6) by (auto simp: device_ok_def d1_def)
    have "devices_ok e (s\<lparr>devices := (devices s)[i := d1]\<rparr>)"
      using assms(1) d1 i by (auto simp: devices_ok_def nth_list_update)
    ultimately show ?thesis using assms(1) by (auto simp: d1_def)
  next
    case False
    have "\<exists>d. kernel_volume e v d" using assms(2) by blast
    then obtain d' where d': "kernel_volume e v d'" "length d' \<le> 26" "nd_length dv = of_nat (2 * length d')" "take (length d') (nd_name dv) = d'"
        "length (nd_name dv) = 26"
      using ok(1) False by (auto simp: device_ok_def)
    have "d' = d" using d'(1) assms(2) by (simp add: kernel_volume_def)
    then have "dos_device_to_nt_device e v s = Some (Some dv, s\<lparr>devices := devices s\<rparr>)"
      using range False ok(2) d' small_length(2) [OF d'(2)] unfolding dos_device_to_nt_device_def i_def [symmetric]
      by (simp add: dv_def del: of_nat_mult)
    moreover have "device_text dv = Some d" using d' \<open>d' = d\<close> unat_small [OF d'(2)] by (simp add: device_text_def slice_def del: of_nat_mult)
    ultimately show ?thesis using d'(3) \<open>d' = d\<close> assms(1) by (intro exI [of _ dv] exI [of _ "devices s"]) simp
  qed
qed

lemma to_upper_letter: "is_alpha a \<Longrightarrow> 0x41 \<le> to_upper a \<and> to_upper a \<le> 0x5A"
  by (auto simp: is_alpha_def to_upper_def word_le_nat_alt unat_sub)

lemma drive_form_letter: "drive_form path v \<Longrightarrow> 0x41 \<le> v \<and> v \<le> 0x5A"
  using to_upper_letter by (auto simp: drive_form_def)

lemma text_of_chars: "us_Buffer u = Chars (t @ zs) \<Longrightarrow> us_Length u = of_nat (2 * length t) \<Longrightarrow> 2 * length t < 65536 \<Longrightarrow> text_of s u = Some t"
  by (simp add: text_of_def buffer_of_def slice_def unat_double del: of_nat_mult)

text \<open>What the kernel and the heap have to do for the path of a file on a drive.\<close>

definition drive_request :: "path_env \<Rightarrow> byte list \<Rightarrow> byte \<Rightarrow> wchar list \<Rightarrow> wchar list list \<Rightarrow> bool" where
  "drive_request e path v d cs \<longleftrightarrow> (\<forall>n. p_heap e n) \<and> drive_form path v \<and> kernel_volume e v d \<and> device_name d \<and> (\<forall>c \<in> set cs. clean c)
     \<and> (\<exists>w x y. RtlUTF8StringToUnicodeString e path = (STATUS_SUCCESS, w) \<and> backslashes w = x # y # flat cs \<and> length w < 32740)"

lemma drive_request_runs:
  assumes "drive_request e path v d cs" "devices_ok e s" "0 < path_components_size s"
  shows "\<exists>u ds m zs. get_absolute_ntpath2 e dirfd path ty s = Some (Inr u, FILE_HANDLE, s\<lparr>devices := ds, path_components_size := m\<rparr>)
    \<and> us_Buffer u = Chars (nt_text d (resolve [] cs) @ 0 # zs) \<and> us_Length u = of_nat (2 * length (nt_text d (resolve [] cs)))
    \<and> 2 * length (nt_text d (resolve [] cs)) < 65536 \<and> devices_ok e (s\<lparr>devices := ds, path_components_size := m\<rparr>) \<and> 0 < m"
proof -
  obtain w x y where r: "\<forall>n. p_heap e n" "drive_form path v" "kernel_volume e v d" "device_name d" "\<forall>c \<in> set cs. clean c"
      "RtlUTF8StringToUnicodeString e path = (STATUS_SUCCESS, w)" "backslashes w = x # y # flat cs" "length w < 32740"
    using assms(1) by (auto simp: drive_request_def)
  have "d \<noteq> []" "length d \<le> 26" using r(4) by (auto simp: device_name_def)
  then obtain dv ds where dv: "dos_device_to_nt_device e v s = Some (Some dv, s\<lparr>devices := ds\<rparr>)" "device_text dv = Some d" "devices_ok e (s\<lparr>devices := ds\<rparr>)"
    using device_found [OF assms(2) r(3)] drive_form_letter [OF r(2)] by auto
  from drive_path [OF r(1) assms(3) r(2,6,7,5,8) dv(1,2) r(4)] dv(3) show ?thesis by fastforce
qed

text \<open>C7: the absolute path of a file, \<open>C:\dots\<close> or \<open>/c/\<dots>\<close> with either slash, translates to the device of the
  volume followed by the components of the path, where \<open>.\<close> and \<open>..\<close> are resolved and \<open>..\<close> never leaves the
  volume; the call returns, stays inside its blocks and keeps the cache of volumes right.\<close>

theorem drive_path_resolves:
  assumes "drive_request e path v d cs" "devices_ok e s" "0 < path_components_size s"
  shows "\<exists>u s'. get_absolute_ntpath2 e dirfd path ty s = Some (Inr u, FILE_HANDLE, s')
    \<and> text_of s' u = Some (nt_text d (resolve [] cs)) \<and> devices_ok e s' \<and> 0 < path_components_size s'"
proof -
  obtain u ds m zs where r: "get_absolute_ntpath2 e dirfd path ty s = Some (Inr u, FILE_HANDLE, s\<lparr>devices := ds, path_components_size := m\<rparr>)"
      "us_Buffer u = Chars (nt_text d (resolve [] cs) @ 0 # zs)" "us_Length u = of_nat (2 * length (nt_text d (resolve [] cs)))"
      "2 * length (nt_text d (resolve [] cs)) < 65536" "devices_ok e (s\<lparr>devices := ds, path_components_size := m\<rparr>)" "0 < m"
    using drive_request_runs [OF assms] by blast
  then show ?thesis using text_of_chars [OF r(2-4)] by auto
qed

section \<open>DOS paths\<close>

definition disk_prefix :: "wchar list" where "disk_prefix = nt_name [''Device'', ''HarddiskVolume'']"

definition number_of :: "wchar list \<Rightarrow> 32 word" where
  "number_of ds = foldl (\<lambda>n c. n * 10 + (ucast c - 0x30)) 0 ds"

text \<open>The cache of labels does not contradict the mount manager on the volume.\<close>

definition labels_ok :: "32 word \<Rightarrow> byte \<Rightarrow> path_state \<Rightarrow> bool" where
  "labels_ok n v s \<longleftrightarrow> (\<forall>c \<in> {dos_device_cache0 s, dos_device_cache1 s}. dd_number c = n \<longrightarrow> dd_label c = v)"

definition dos_text :: "byte \<Rightarrow> wchar list list \<Rightarrow> wchar list" where
  "dos_text v cs = ucast v # 0x3A # (if cs = [] then [0x5C] else flat cs)"

lemma length_disk_prefix: "length disk_prefix = 22"
  by (simp add: disk_prefix_def nt_name_def wide_def)

lemma disk_no_device: "memcmp_eq (nt_name [''Device'', ''Null''] @ [0]) (disk_prefix @ xs) = Some False"
  "memcmp_eq (nt_name [''Device'', ''ConDrv'']) (disk_prefix @ xs) = Some False"
  "memcmp_eq (nt_name [''Device'', ''NamedPipe'']) (disk_prefix @ xs) = Some False"
  "memcmp_eq (nt_name [''Device'', ''Mup'']) (disk_prefix @ xs) = Some False"
  by (simp_all add: disk_prefix_def nt_name_def wide_def)

lemma volume_number_scan:
  assumes "drop i buf = ds @ 0x5C # rest" "clean ds"
  shows "volume_number buf i n = Some (foldl (\<lambda>n c. n * 10 + (ucast c - 0x30)) n ds, Some (i + length ds))"
  using assms
proof (induction ds arbitrary: i n)
  case Nil
  then show ?case using component_at(1,2) [of i buf "[]" "0x5C" rest] by (subst volume_number.simps) simp
next
  case (Cons c ds)
  have c: "c \<noteq> 0x5C" "c \<noteq> 0" "clean ds" using Cons.prems(2) by (auto simp: clean_def)
  have at: "i < length buf" "buf ! i = c" using component_at(1) [OF Cons.prems(1)] component_at(4) [OF Cons.prems(1), of 0] by auto
  have "drop (i + 1) buf = drop 1 (drop i buf)" by simp
  then have "drop (i + 1) buf = ds @ 0x5C # rest" by (simp add: Cons.prems(1))
  then show ?case using Cons.IH [OF _ c(3)] c at by (subst volume_number.simps) simp
qed

lemma label_found:
  assumes "labels_ok n v s" "mountmgr_query e d = (STATUS_SUCCESS, ucast v)" "0x41 \<le> v" "v \<le> 0x5A" "length d \<le> 26" "buf = d @ rest"
  shows "\<exists>s'. drive_label e n (length d) buf s = Some (v, s') \<and> labels_ok n v s' \<and> devices s' = devices s
    \<and> path_components_size s' = path_components_size s"
proof -
  have "nt_device_to_dos_device e d = Some v" using assms(2-5) by (simp add: nt_device_to_dos_device_def Let_def ucast_back)
  moreover have "v \<noteq> 0" using assms(3) by auto
  ultimately show ?thesis using assms(1,6) by (auto simp: drive_label_def labels_ok_def slice_def)
qed

lemma dos_drive_text:
  assumes "\<forall>n. p_heap e n" "22 \<le> length d" "length d \<le> 26" "2 * length (d @ tail) < 65536" "tail \<noteq> []"
  shows "\<exists>u zs'. dos_drive e v (Some (length d)) (of_nat (2 * length (d @ tail))) (d @ tail @ 0 # zs) = Some (Inr u)
    \<and> us_Buffer u = Chars ((ucast v # 0x3A # tail) @ 0 # zs') \<and> us_Length u = of_nat (2 * length (ucast v # (0x3A :: wchar) # tail))
    \<and> us_MaximumLength u = us_Length u + 2"
proof -
  define L where "L = length (d @ tail)"
  let ?len = "of_nat (2 * L) :: 16 word" and ?front = "[ucast v, 0x3A] :: wchar list"
  let ?buf = "block e (unat ?len - 32)"
  have len: "unat ?len = 2 * L" "L = length d + length tail"
    using unat_double_full [of L] assms(4) unfolding L_def [symmetric] by (simp_all add: L_def del: of_nat_mult)
  have room: "length ?buf = L - 16" by (simp add: block_def len(1) del: of_nat_mult)
  have fits: "length ?front + length tail \<le> length ?buf" using room len(2) assms(2) by simp
  define b where "b = (?front @ tail) @ drop (length (?front @ tail)) ?buf"
  have "dos_block e (unat ?len - 32) ?front (length d) (unat ?len div 2 - length d) (d @ tail @ 0 # zs) = Some b"
    unfolding dos_block_def len(1) using blit_two [OF fits] len by (simp add: slice_def b_def del: of_nat_mult)
  moreover define n where "n = ?len - (of_nat (2 * length d) - 4)"
  have n: "n = of_nat (2 * length (?front @ tail))" by (simp add: n_def len(2))
  have "store (unat (of_nat (2 * length (?front @ tail)) :: 16 word) div 2) 0 ((?front @ tail) @ drop (length (?front @ tail)) ?buf)
      = Some (((?front @ tail) @ [0]) @ drop (length ((?front @ tail) @ [0])) ?buf)"
    by (rule store_next) (use room len(2) assms in auto)
  then have "store (unat n div 2) 0 b = Some (((?front @ tail) @ [0]) @ drop (length ((?front @ tail) @ [0])) ?buf)" unfolding n b_def .
  ultimately have "dos_drive e v (Some (length d)) ?len (d @ tail @ 0 # zs)
      = Some (Inr \<lparr>us_Length = n, us_MaximumLength = n + 2, us_Buffer = Chars (((?front @ tail) @ [0]) @ drop (length ((?front @ tail) @ [0])) ?buf)\<rparr>)"
    unfolding dos_drive_def Let_def n_def [symmetric] option.case len(1) using assms(1) len(2) by (simp del: of_nat_mult)
  then show ?thesis using n unfolding L_def by auto
qed

definition tail_text :: "wchar list list \<Rightarrow> wchar list" where
  "tail_text cs = (if cs = [] then [0x5C] else flat cs)"

lemma tail_text_props: "tail_text cs \<noteq> []" "\<exists>r. tail_text cs = 0x5C # r" "nt_text d cs = d @ tail_text cs" "dos_text v cs = ucast v # 0x3A # tail_text cs"
  by (cases cs; simp add: tail_text_def nt_text_def dos_text_def)+

lemma to_dos:
  assumes "\<forall>n. p_heap e n" "us_Buffer u = Chars (nt_text d cs @ 0 # zs)" "us_Length u = of_nat (2 * length (nt_text d cs))"
    "2 * length (nt_text d cs) < 65536" "d = disk_prefix @ ds" "clean ds" "length d \<le> 26" "labels_ok (number_of ds) v s"
    "mountmgr_query e d = (STATUS_SUCCESS, ucast v)" "0x41 \<le> v" "v \<le> 0x5A"
  shows "\<exists>u' zs' s'. ntpath_to_dospath e u s = Some (Inr u', s') \<and> us_Buffer u' = Chars (dos_text v cs @ 0 # zs')
    \<and> us_Length u' = of_nat (2 * length (dos_text v cs)) \<and> us_MaximumLength u' = us_Length u' + 2
    \<and> labels_ok (number_of ds) v s' \<and> devices s' = devices s \<and> path_components_size s' = path_components_size s"
proof -
  obtain r where r: "tail_text cs = 0x5C # r" using tail_text_props(2) by blast
  let ?buf = "d @ tail_text cs @ 0 # zs"
  have buf: "buffer_of s u = Some ?buf" using assms(2) by (simp add: buffer_of_def tail_text_props(3))
  have "drop 22 ?buf = ds @ 0x5C # r @ 0 # zs" using assms(5) r by (simp add: length_disk_prefix)
  from volume_number_scan [OF this assms(6), of 0] have vol: "volume_number ?buf 22 0 = Some (number_of ds, Some (length d))"
    using assms(5) by (simp add: number_of_def length_disk_prefix)
  obtain s' where s': "drive_label e (number_of ds) (length d) ?buf s = Some (v, s')" "labels_ok (number_of ds) v s'" "devices s' = devices s"
      "path_components_size s' = path_components_size s"
    using label_found [OF assms(8,9,10,11,7) refl] by blast
  have "22 \<le> length d" using assms(5) length_disk_prefix by simp
  from dos_drive_text [OF assms(1) this assms(7), of "tail_text cs" v zs] obtain u' zs' where u':
    "dos_drive e v (Some (length d)) (us_Length u) ?buf = Some (Inr u')" "us_Buffer u' = Chars (dos_text v cs @ 0 # zs')"
    "us_Length u' = of_nat (2 * length (dos_text v cs))" "us_MaximumLength u' = us_Length u' + 2"
    using assms(3,4) tail_text_props by metis
  have no: "memcmp_eq (nt_name [''Device'', ''Null''] @ [0]) ?buf = Some False" "memcmp_eq (nt_name [''Device'', ''ConDrv'']) ?buf = Some False"
      "memcmp_eq (nt_name [''Device'', ''NamedPipe'']) ?buf = Some False" "memcmp_eq (nt_name [''Device'', ''Mup'']) ?buf = Some False"
    using assms(5) disk_no_device [of "ds @ tail_text cs @ 0 # zs"] by simp_all
  have "v \<noteq> 0" using assms(10) by auto
  then have "ntpath_to_dospath e u s = Some (Inr u', s')"
    unfolding ntpath_to_dospath_def buf using no vol s'(1) u'(1) by simp
  then show ?thesis using u' s' by blast
qed

lemma from_dos:
  assumes "\<forall>n. p_heap e n" "us_Buffer u = Chars (dos_text v cs @ 0 # zs)" "us_Length u = of_nat (2 * length (dos_text v cs))"
    "us_MaximumLength u = us_Length u + 2" "2 * length (nt_text d cs) < 65536" "22 \<le> length d" "length d \<le> 26" "kernel_volume e v d" "devices_ok e s"
    "0x41 \<le> v" "v \<le> 0x5A"
  shows "\<exists>u' s'. dospath_to_ntpath e u s = Some (Inr u', s') \<and> text_of s' u' = Some (nt_text d cs)"
proof -
  have "d \<noteq> []" using assms(6) by auto
  from device_found [OF assms(9,8,10,11) this assms(7)] obtain dv ds where dv:
    "dos_device_to_nt_device e v s = Some (Some dv, s\<lparr>devices := ds\<rparr>)" "device_text dv = Some d" "nd_length dv = of_nat (2 * length d)" by blast
  let ?t = "tail_text cs"
  have "us_MaximumLength u = of_nat (2 * (length ?t + 3))" using assms(3,4) by (simp add: tail_text_props(4))
  moreover have "2 * (length ?t + 3) < 65536" using assms(5,6) by (simp add: tail_text_props(3))
  ultimately have max: "unat (us_MaximumLength u) = 2 * (length ?t + 3)" using unat_double_full by metis
  have rest: "slice 2 (unat (us_MaximumLength u) div 2 - 2) (dos_text v cs @ 0 # zs) = Some (?t @ [0])"
    unfolding max by (simp add: slice_def tail_text_props(4))
  have n: "nd_length dv + us_Length u - 4 = of_nat (2 * length (nt_text d cs))"
    using assms(3) dv(3) by (simp add: tail_text_props(3,4))
  let ?u = "\<lparr>us_Length = nd_length dv + us_Length u - 4, us_MaximumLength = nd_length dv + us_Length u - 4 + 2, us_Buffer = Chars (d @ ?t @ [0])\<rparr>"
  have buf: "buffer_of s u = Some (dos_text v cs @ 0 # zs)" using assms(2) by (simp add: buffer_of_def)
  have first: "load (dos_text v cs @ 0 # zs) 0 = Some (ucast v)" by (simp add: tail_text_props(4))
  have "dospath_to_ntpath e u s = Some (Inr ?u, s\<lparr>devices := ds\<rparr>)"
    unfolding dospath_to_ntpath_def buf using assms(1) first dv(1,2) rest max by (simp add: ucast_back Let_def)
  moreover have "text_of (s\<lparr>devices := ds\<rparr>) ?u = Some (nt_text d cs)"
    by (rule text_of_chars [of _ _ "[0]"]) (use n assms(5) in \<open>simp_all add: tail_text_props(3) del: of_nat_mult\<close>)
  ultimately show ?thesis by blast
qed

text \<open>C9: the DOS path of a file is its normal form, the drive letter and the resolved components, and
  translating it gives the kernel path that the original path translates to.\<close>

theorem dos_path_round_trip:
  assumes "drive_request e path v (disk_prefix @ ds) cs" "devices_ok e s" "0 < path_components_size s"
    "labels_ok (number_of ds) v s" "mountmgr_query e (disk_prefix @ ds) = (STATUS_SUCCESS, ucast v)"
  shows "\<exists>u s' u' s''. get_absolute_dospath e dirfd path s = Some (Inr u, s') \<and> text_of s' u = Some (dos_text v (resolve [] cs))
    \<and> dospath_to_ntpath e u s' = Some (Inr u', s'') \<and> text_of s'' u' = Some (nt_text (disk_prefix @ ds) (resolve [] cs))"
proof -
  let ?d = "disk_prefix @ ds" and ?cs = "resolve [] cs"
  have r: "\<forall>n. p_heap e n" "drive_form path v" "kernel_volume e v ?d" "device_name ?d" using assms(1) by (auto simp: drive_request_def)
  then have d: "length ?d \<le> 26" "22 \<le> length ?d" "clean ds" by (auto simp: device_name_def clean_def length_disk_prefix dest: in_set_dropD)
  have v: "0x41 \<le> v" "v \<le> 0x5A" using drive_form_letter [OF r(2)] by auto
  obtain u ds' m zs where nt: "get_absolute_ntpath2 e dirfd path INVALID_HANDLE s = Some (Inr u, FILE_HANDLE, s\<lparr>devices := ds', path_components_size := m\<rparr>)"
      "us_Buffer u = Chars (nt_text ?d ?cs @ 0 # zs)" "us_Length u = of_nat (2 * length (nt_text ?d ?cs))"
      "2 * length (nt_text ?d ?cs) < 65536" "devices_ok e (s\<lparr>devices := ds', path_components_size := m\<rparr>)"
    using drive_request_runs [OF assms(1-3)] by blast
  have "labels_ok (number_of ds) v (s\<lparr>devices := ds', path_components_size := m\<rparr>)" using assms(4) by (simp add: labels_ok_def)
  from to_dos [OF r(1) nt(2-4) refl d(3,1) this assms(5) v] obtain u1 zs1 s1 where dos:
    "ntpath_to_dospath e u (s\<lparr>devices := ds', path_components_size := m\<rparr>) = Some (Inr u1, s1)" "us_Buffer u1 = Chars (dos_text v ?cs @ 0 # zs1)"
    "us_Length u1 = of_nat (2 * length (dos_text v ?cs))" "us_MaximumLength u1 = us_Length u1 + 2" "devices s1 = ds'" by auto
  have short: "2 * length (dos_text v ?cs) < 65536" using nt(4) d(2) by (simp add: tail_text_props(3,4))
  have "devices_ok e s1" using nt(5) dos(5) by (simp add: devices_ok_def)
  from from_dos [OF r(1) dos(2-4) nt(4) d(2,1) r(3) this v] obtain u2 s2 where
    "dospath_to_ntpath e u1 s1 = Some (Inr u2, s2)" "text_of s2 u2 = Some (nt_text ?d ?cs)" by blast
  moreover have "text_of s1 u1 = Some (dos_text v ?cs)" by (rule text_of_chars [OF dos(2,3) short])
  moreover have "get_absolute_dospath e dirfd path s = Some (Inr u1, s1)"
    using nt(1) dos(1) by (simp add: get_absolute_dospath_def get_absolute_ntpath_def)
  ultimately show ?thesis by blast
qed

text \<open>C8: a relative path is resolved against the current directory: the result is the device of the
  current drive and the components of the directory followed by those of the path, resolved.\<close>

theorem relative_path_resolves:
  assumes "\<forall>n. p_heap e n" "plain_form path" "RtlUTF8StringToUnicodeString e path = (STATUS_SUCCESS, w)" "0x5C # backslashes w = flat cs"
    "current_directory e = ucast v # 0x3A # flat rs @ [0x5C]" "\<forall>c \<in> set (rs @ cs). clean c" "kernel_volume e v d" "0x41 \<le> v" "v \<le> 0x5A"
    "device_name d" "length (d @ flat rs) < 512" "length w < 32000" "devices_ok e s" "0 < path_components_size s"
  shows "\<exists>u s'. get_absolute_ntpath2 e AT_FDCWD path ty s = Some (Inr u, FILE_HANDLE, s')
    \<and> text_of s' u = Some (nt_text d (resolve [] (rs @ cs))) \<and> devices_ok e s' \<and> 0 < path_components_size s'"
proof -
  have "d \<noteq> []" "length d \<le> 26" using assms(10) by (auto simp: device_name_def)
  from device_found [OF assms(13,7,8,9) this] obtain dv ds where dv:
    "dos_device_to_nt_device e v s = Some (Some dv, s\<lparr>devices := ds\<rparr>)" "device_text dv = Some d" "devices_ok e (s\<lparr>devices := ds\<rparr>)" by blast
  have root: "root_directory e AT_FDCWD s = Some (Inr (d @ flat rs @ [0x5C], True), s\<lparr>devices := ds\<rparr>)"
    using dv(1,2) assms(1,5,11) by (simp add: root_directory_def ucast_back)
  from relative_path [OF assms(1,2) root _ _ assms(10,3,4,6), where ty = ty] assms(11,12,14) dv(3) obtain u m zs where
    "get_absolute_ntpath2 e AT_FDCWD path ty s = Some (Inr u, FILE_HANDLE, s\<lparr>devices := ds\<rparr>\<lparr>path_components_size := m\<rparr>)"
    "us_Buffer u = Chars (nt_text d (resolve [] (rs @ cs)) @ 0 # zs)" "us_Length u = of_nat (2 * length (nt_text d (resolve [] (rs @ cs))))"
    "2 * length (nt_text d (resolve [] (rs @ cs))) < 65536" "0 < m" by auto
  then show ?thesis using text_of_chars dv(3) by fastforce
qed

section \<open>A sample system\<close>

definition sample_env :: path_env where
  "sample_env = \<lparr>p_heap = \<lambda>_. True, wjunk = 0xAAAA, cjunk = \<lparr>pc_start = 0, pc_length = 0\<rparr>,
     RtlUTF8StringToUnicodeString = \<lambda>p. (STATUS_SUCCESS, map ucast p), RtlInitUTF8String = \<lambda>p. of_nat (length p),
     NtOpenSymbolicLinkObject = \<lambda>_. STATUS_SUCCESS, NtQuerySymbolicLinkObject = \<lambda>_. (STATUS_SUCCESS, disk_prefix @ [0x33]),
     mountmgr_query = \<lambda>_. (STATUS_SUCCESS, 0x43), NtQueryObject = \<lambda>h n. (STATUS_SUCCESS, disk_prefix @ [0x33], 0),
     current_directory = [0x43, 0x3A, 0x5C, 0x61, 0x5C], wlibc_tmpdir = Some [0x43, 0x3A, 0x2F, 0x74],
     p_fds = \<lparr>fd_table = [], fd_table_size = 0, fd_sequence = 0, std_handle = \<lambda>_. 0\<rparr>,
     p_info = \<lparr>handle = 0, htype = INVALID_HANDLE, flags = 0, sequence = 0\<rparr>\<rparr>"

text \<open>\<open>C:/a/../b\<close>\<close>

definition sample_path :: "byte list" where
  "sample_path = [0x43, 0x3A, 0x2F, 0x61, 0x2F, 0x2E, 0x2E, 0x2F, 0x62]"

lemma sample_request: "drive_request sample_env sample_path 0x43 (disk_prefix @ [0x33]) [[0x61], [0x2E, 0x2E], [0x62]]"
proof -
  have "drive_form sample_path 0x43" by (auto simp: drive_form_def sample_path_def is_alpha_def to_upper_def)
  moreover have "device_name (disk_prefix @ [0x33])" by (simp add: device_name_def disk_prefix_def nt_name_def wide_def clean_def)
  moreover have "\<exists>w x y. RtlUTF8StringToUnicodeString sample_env sample_path = (STATUS_SUCCESS, w)
      \<and> backslashes w = x # y # flat [[0x61], [0x2E, 0x2E], [0x62]] \<and> length w < 32740"
    by (simp add: sample_env_def sample_path_def)
  ultimately show ?thesis by (simp add: drive_request_def sample_env_def kernel_volume_def clean_def)
qed

theorem drive_path_resolves_witness:
  "\<exists>u s'. get_absolute_ntpath2 sample_env 0 sample_path INVALID_HANDLE path_start = Some (Inr u, FILE_HANDLE, s')
    \<and> text_of s' u = Some (disk_prefix @ [0x33, 0x5C, 0x62]) \<and> devices_ok sample_env s' \<and> 0 < path_components_size s'"
  using drive_path_resolves [OF sample_request devices_ok_start, of 0 INVALID_HANDLE] by (simp add: path_start_def nt_text_def)

theorem dos_path_round_trip_witness:
  "\<exists>u s' u' s''. get_absolute_dospath sample_env 0 sample_path path_start = Some (Inr u, s') \<and> text_of s' u = Some [0x43, 0x3A, 0x5C, 0x62]
    \<and> dospath_to_ntpath sample_env u s' = Some (Inr u', s'') \<and> text_of s'' u' = Some (disk_prefix @ [0x33, 0x5C, 0x62])"
proof -
  have "labels_ok (number_of [0x33]) 0x43 path_start" "mountmgr_query sample_env (disk_prefix @ [0x33]) = (STATUS_SUCCESS, ucast (0x43 :: byte))"
    by (simp_all add: labels_ok_def number_of_def path_start_def sample_env_def)
  from dos_path_round_trip [OF sample_request devices_ok_start _ this, of 0] show ?thesis
    by (simp add: path_start_def nt_text_def dos_text_def)
qed

text \<open>\<open>../b\<close> in the directory \<open>C:\a\<close>\<close>

theorem relative_path_resolves_witness:
  "\<exists>u s'. get_absolute_ntpath2 sample_env AT_FDCWD [0x2E, 0x2E, 0x2F, 0x62] INVALID_HANDLE path_start = Some (Inr u, FILE_HANDLE, s')
    \<and> text_of s' u = Some (disk_prefix @ [0x33, 0x5C, 0x62]) \<and> devices_ok sample_env s' \<and> 0 < path_components_size s'"
proof -
  have "plain_form [0x2E, 0x2E, 0x2F, 0x62]"
    by (simp add: plain_form_def IS_ABSOLUTE_PATH_def ch_def is_alpha_def dos_name_def stricmp_eq_def bytes_of_def to_lower_def)
  moreover have "device_name (disk_prefix @ [0x33])" "length ((disk_prefix @ [0x33]) @ flat [[0x61]]) < 512"
    by (simp_all add: device_name_def disk_prefix_def nt_name_def wide_def clean_def)
  ultimately show ?thesis
    using relative_path_resolves [of sample_env "[0x2E, 0x2E, 0x2F, 0x62]" "[0x2E, 0x2E, 0x2F, 0x62]" "[[0x2E, 0x2E], [0x62]]" "0x43" "[[0x61]]"
      "disk_prefix @ [0x33]" path_start INVALID_HANDLE] devices_ok_start [of sample_env]
    by (simp add: sample_env_def clean_def kernel_volume_def nt_text_def path_start_def)
qed

section \<open>Deviations\<close>

definition sample_result :: "byte list \<Rightarrow> (errno option + wchar list option) option" where
  "sample_result path = map_option (\<lambda>(r, _, s). map_sum id (text_of s) r) (get_absolute_ntpath2 sample_env AT_FDCWD path INVALID_HANDLE path_start)"

text \<open>An empty component counts as a name: \<open>C:/a//..\<close> is \<open>C:\a\<close>, not the root of the drive.\<close>

theorem empty_component_shields:
  "sample_result [0x43, 0x3A, 0x2F, 0x61, 0x2F, 0x2F, 0x2E, 0x2E] = Some (Inr (Some (disk_prefix @ [0x33, 0x5C, 0x61])))"
  by code_simp

text \<open>A path relative to the directory of a drive becomes part of the name of the device: \<open>C:1\<close> on volume 3
  names volume 31.\<close>

theorem drive_relative_names_other_volume:
  "sample_result [0x43, 0x3A, 0x31] = Some (Inr (Some (disk_prefix @ [0x33, 0x31, 0x5C])))"
  by code_simp

text \<open>Every path that starts with \<open>/tmp\<close> goes to the directory for temporary files: \<open>/tmpx\<close> is the file \<open>tx\<close>
  beside the directory \<open>C:/t\<close>.\<close>

theorem tmp_prefix_is_replaced:
  "sample_result [0x2F, 0x74, 0x6D, 0x70, 0x78] = Some (Inr (Some (disk_prefix @ [0x33, 0x5C, 0x74, 0x78])))"
  by code_simp

text \<open>The size of the block for the full path is kept in 16 bits: it wraps around for a path of 32740 to
  32766 units, and the path is copied past the end of a block of at most 52 bytes.\<close>

theorem long_path_overruns:
  assumes "\<forall>n. p_heap e n" "drive_form path v" "RtlUTF8StringToUnicodeString e path = (STATUS_SUCCESS, w)"
    "32740 \<le> length w" "length w \<le> 32766" "dos_device_to_nt_device e v s = Some (Some dv, s1)"
  shows "get_absolute_ntpath2 e dirfd path ty s = None"
proof -
  define required where "required = (of_nat (2 * (length w + 1)) + 54 :: 16 word)"
  have "required = of_nat (2 * (length w - 32740) + 65536)" using assms(4) by (simp add: required_def algebra_simps of_nat_diff)
  also have "\<dots> = of_nat (2 * (length w - 32740))" by (simp add: word_of_nat_eq_iff take_bit_eq_mod)
  finally have sz: "unat required div 2 = length w - 32740" using unat_double [of "length w - 32740"] assms(5) by (simp del: of_nat_mult)
  have small: "blit (length d) (drop 2 (backslashes w @ [0])) b = None" if "length b = unat required div 2" for d b
    using that sz assms(4) by (simp add: blit_def)
  have len: "length b = length (block e (unat required))" if "blit 0 d (block e (unat required)) = Some b" for d b
    using that by (auto simp: blit_def split: if_splits)
  have "blit 0 d (block e (unat required)) = Some b \<Longrightarrow> blit (length d) (drop 2 (backslashes w @ [0])) b = None" for d b
    using len [of d b] small [of b d] by (simp add: block_def)
  then have "absolute_buffer e v (backslashes w) s = None"
    using assms(1,6) unfolding absolute_buffer_def Let_def length_backslashes required_def [symmetric]
    by (auto split: Option.bind_splits)
  then show ?thesis using assms(3) unfolding drive_form_route [OF assms(2)] by simp
qed

text \<open>The path that \<open>get_fd_ntpath\<close> returns points into the cache: once another descriptor takes the entry, the
  text is freed memory.\<close>

theorem fd_path_copy_dangles:
  assumes "get_fd_ntpath e fd s = Some (Inr u, s1)" "us_Buffer u = Points a"
    "load (fd_path_cache s1) (unat (sq AND (of_nat FD_PATH_CACHE_SLOTS - 1))) = Some c" "fp_path c = Some a"
    "update_fd_path_cache fd' sq a' s1 = Some s2"
  shows "text_of s2 u = None"
  using assms by (auto simp: update_fd_path_cache_def text_of_def buffer_of_def store_eq_Some_iff Let_def split: Option.bind_split_asm)

end
