(* ===== verification/OpenProps.thy ===== *)
theory OpenProps
  imports Open PathProps
begin

unbundle bit_operations_syntax

text \<open>
  What \<open>open\<close> promises: the flags choose the disposition that POSIX asks for, and a successful call puts the
  handle of the resolved path into the lowest free descriptor.
\<close>

section \<open>Flags\<close>

text \<open>What the dispositions of \<open>NtCreateFile\<close> do.\<close>

fun creates_missing :: "disposition \<Rightarrow> bool" where
  "creates_missing FILE_OPEN = False" | "creates_missing FILE_CREATE = True" | "creates_missing FILE_OPEN_IF = True"
| "creates_missing FILE_OVERWRITE = False" | "creates_missing FILE_OVERWRITE_IF = True"

fun accepts_existing :: "disposition \<Rightarrow> bool" where
  "accepts_existing FILE_OPEN = True" | "accepts_existing FILE_CREATE = False" | "accepts_existing FILE_OPEN_IF = True"
| "accepts_existing FILE_OVERWRITE = True" | "accepts_existing FILE_OVERWRITE_IF = True"

fun empties_existing :: "disposition \<Rightarrow> bool" where
  "empties_existing FILE_OPEN = False" | "empties_existing FILE_CREATE = False" | "empties_existing FILE_OPEN_IF = False"
| "empties_existing FILE_OVERWRITE = True" | "empties_existing FILE_OVERWRITE_IF = True"

lemma has_bit: "has fl (2 ^ n) \<longleftrightarrow> bit fl n"
  by (auto simp: has_def and_shifted_one_eq_0)

lemma flag_bits: "O_CREAT = 2 ^ 8" "O_TRUNC = 2 ^ 9" "O_EXCL = 2 ^ 10" "O_TMPFILE = 2 ^ 6"
  by (simp_all add: O_CREAT_def O_TRUNC_def O_EXCL_def O_TMPFILE_def)

lemma and_three:
  "fl AND (2 ^ a OR 2 ^ b OR 2 ^ c) = (if bit fl a then 2 ^ a else 0) OR (if bit fl b then 2 ^ b else 0) OR (if bit fl c then 2 ^ c else (0 :: 'a::len word))"
  by (rule bit_word_eqI) (auto simp: bit_and_iff bit_or_iff bit_shifted_one)

lemma main_flags:
  "fl AND (O_CREAT OR O_EXCL OR O_TRUNC) = (if has fl O_CREAT then O_CREAT else 0) OR (if has fl O_EXCL then O_EXCL else 0)
     OR (if has fl O_TRUNC then O_TRUNC else 0)"
  unfolding flag_bits has_bit by (rule and_three)

text \<open>C11: for every combination of flags other than a temporary file, a missing file is created exactly with
  O_CREAT, an existing one is refused exactly with O_CREAT and O_EXCL, and one that is accepted is
  emptied exactly with O_TRUNC.\<close>

theorem disposition_follows_flags:
  assumes "\<not> has oflags O_TMPFILE"
  shows "(creates_missing (determine_create_dispostion oflags) \<longleftrightarrow> has oflags O_CREAT)
    \<and> (accepts_existing (determine_create_dispostion oflags) \<longleftrightarrow> \<not> (has oflags O_CREAT \<and> has oflags O_EXCL))
    \<and> (empties_existing (determine_create_dispostion oflags) \<longleftrightarrow> has oflags O_TRUNC \<and> \<not> (has oflags O_CREAT \<and> has oflags O_EXCL))"
  using assms unfolding determine_create_dispostion_def main_flags Let_def
  by (cases "has oflags O_CREAT"; cases "has oflags O_EXCL"; cases "has oflags O_TRUNC"; simp add: O_CREAT_def O_EXCL_def O_TRUNC_def)

section \<open>Opening a file\<close>

text \<open>What \<open>NtCreateFile\<close> is asked for an object of a type.\<close>

definition open_access :: "handle_t \<Rightarrow> 32 word \<Rightarrow> 32 word" where
  "open_access type oflags = (if type = CONSOLE_HANDLE then (if has oflags O_WRONLY then FILE_GENERIC_WRITE else FILE_GENERIC_READ)
     else determine_access_rights oflags)"

definition open_args :: "handle_t \<Rightarrow> wchar list \<Rightarrow> 32 word \<Rightarrow> 32 word \<Rightarrow> create_args" where
  "open_args type name oflags perm = (let device = (type = NULL_HANDLE \<or> type = CONSOLE_HANDLE) in
     \<lparr>ca_name = name, ca_root = 0, ca_inherit = \<not> has oflags O_NOINHERIT,
      ca_security = (if has oflags O_CREAT then Some (perm AND 0x1FF) else None), ca_access = open_access type oflags,
      ca_attributes = (if has oflags O_CREAT \<and> \<not> device then determine_file_attributes oflags else 0),
      ca_disposition = determine_create_dispostion oflags,
      ca_options = (if device then FILE_SYNCHRONOUS_IO_NONALERT else determine_create_options oflags)\<rparr>)"

text \<open>The checks of a file on disk that has been opened: it can be queried, is no link that must not be
  followed and no directory that would be written.\<close>

definition acceptable :: "'k nt_open \<Rightarrow> 32 word \<Rightarrow> HANDLE \<Rightarrow> 'k \<Rightarrow> 32 word \<Rightarrow> bool" where
  "acceptable nt oflags h k attrs \<longleftrightarrow> NtQueryTag nt k h = (STATUS_SUCCESS, attrs)
     \<and> \<not> (has attrs FILE_ATTRIBUTE_REPARSE_POINT \<and> has oflags O_NOFOLLOW \<and> \<not> has oflags O_PATH)
     \<and> \<not> (has attrs FILE_ATTRIBUTE_DIRECTORY \<and> has (determine_access_rights oflags) (FILE_WRITE_DATA OR FILE_APPEND_DATA))"

definition opened_type :: "handle_t \<Rightarrow> 32 word \<Rightarrow> handle_t" where
  "opened_type type attrs = (if type = FILE_HANDLE \<and> has attrs FILE_ATTRIBUTE_DIRECTORY then DIRECTORY_HANDLE else type)"

lemma has_or: "has fl (a OR b) \<longleftrightarrow> has fl a \<or> has fl b"
  by (auto simp: has_def bit_eq_iff bit_and_iff bit_or_iff)

lemma path_ignores_table [simp]: "drive_request (e\<lparr>p_fds := t\<rparr>) = drive_request e" "devices_ok (e\<lparr>p_fds := t\<rparr>) = devices_ok e"
  by (auto simp: fun_eq_iff drive_request_def kernel_volume_def devices_ok_def device_ok_def)

lemma drive_absolute: "drive_form path v \<Longrightarrow> IS_ABSOLUTE_PATH path \<and> path \<noteq> []"
  by (auto simp: drive_form_def IS_ABSOLUTE_PATH_def ch_def)

lemma object_opens:
  assumes "get_absolute_ntpath2 e dirfd path ty p = Some (Inr u, type, p1)" "text_of p1 u = Some name"
    "\<not> has oflags O_TMPFILE" "\<not> (type = CONSOLE_HANDLE \<and> has oflags O_RDWR)"
    "NtCreateFile nt k (open_args type name oflags perm) = (STATUS_SUCCESS, h, k1)" "type = FILE_HANDLE \<longrightarrow> acceptable nt oflags h k1 attrs"
  shows "\<exists>k2. do_os_open nt e dirfd path oflags perm ty p k = Some (Inr (h, opened_type type attrs), p1, k2)"
proof -
  obtain buf where buf: "buffer_of p1 u = Some buf" using assms(2) by (auto simp: text_of_def split: bind_splits)
  have tmp: "has oflags (O_CREAT OR O_TMPFILE) \<longleftrightarrow> has oflags O_CREAT" using assms(3) by (simp add: has_or)
  have run: "do_os_open nt e dirfd path oflags perm ty p k
      = (if type = FILE_HANDLE then let (r, k2) = check_disk_file nt oflags (open_access type oflags) h k1 in Some (r, p1, k2)
         else Some (Inr (h, type), p1, k1))"
    using assms(1-5) buf tmp by (cases "has oflags O_CREAT"; cases "type = CONSOLE_HANDLE"; cases "type = NULL_HANDLE")
      (simp_all add: do_os_open_def really_do_open_def open_args_def open_access_def Let_def)
  show ?thesis
  proof (cases "type = FILE_HANDLE")
    case True
    then have "acceptable nt oflags h k1 attrs" using assms(6) by simp
    then show ?thesis unfolding run using True by (auto simp: acceptable_def check_disk_file_def opened_type_def open_access_def Let_def)
  qed (simp add: run opened_type_def)
qed

lemma open_registers:
  assumes "path \<noteq> []" "IS_ABSOLUTE_PATH path \<or> validate_dirfd dirfd s = Some (Inr ())"
    "do_os_open nt (e\<lparr>p_fds := s\<rparr>) dirfd path oflags (if has oflags O_CREAT then perm else 0) INVALID_HANDLE p k = Some (Inr (h, ty), p1, k1)"
    "h \<noteq> 0" "tbl_inv s" "validate_oflags oflags" "\<not> has oflags O_TMPFILE"
  shows "wlibc_common_open nt e (bounded_heap heap) junk dirfd (Some path) oflags perm p s k = Some (fail_with ENOMEM, p1, s, k1) \<and> needs_memory heap s
    \<or> (\<exists>fd s' q. wlibc_common_open nt e (bounded_heap heap) junk dirfd (Some path) oflags perm p s k = Some (Inr fd, p1, s', k1) \<and> tbl_inv s' \<and> 0 \<le> fd
      \<and> fd_lookup s fd = None \<and> (\<forall>i. 0 \<le> i \<longrightarrow> i < fd \<longrightarrow> fd_lookup s i \<noteq> None)
      \<and> fd_lookup s' = (fd_lookup s)(fd \<mapsto> \<lparr>handle = h, htype = ty, flags = oflags, sequence = q\<rparr>))"
proof -
  have "has oflags (O_CREAT OR O_TMPFILE) \<longleftrightarrow> has oflags O_CREAT" using assms(7) by (simp add: has_or)
  then have "wlibc_common_open nt e (bounded_heap heap) junk dirfd (Some path) oflags perm p s k
      = (do { (fd, s1) \<leftarrow> register_to_fd_table (bounded_heap heap) junk h ty oflags s; Some (fd, p1, s1, k1) })"
    using assms(1,2,3,6) by (auto simp: wlibc_common_open_def do_open_def)
  then show ?thesis using register_to_fd_table_spec [OF assms(5,4), of heap junk ty oflags] register_out_of_memory [OF assms(5,4), of heap junk ty oflags]
    by fastforce
qed

text \<open>C10: opening a path, absolute or relative to a valid directory descriptor, that translates to the name of
  an object which the kernel opens: the kernel is asked for that name with the disposition, rights and
  options of the flags, and the handle is put into the lowest free descriptor, with the type that the path
  or the kernel gives; only when every descriptor is in use and the table cannot grow, ENOMEM is
  returned and no descriptor changes. Not covered are O_TMPFILE, a console opened for both
  directions, and files that open rejects after the kernel opened them.\<close>

theorem open_fills_lowest_descriptor:
  assumes "path \<noteq> []" "IS_ABSOLUTE_PATH path \<or> validate_dirfd dirfd s = Some (Inr ())"
    "get_absolute_ntpath2 (e\<lparr>p_fds := s\<rparr>) dirfd path INVALID_HANDLE p = Some (Inr u, type, p1)" "text_of p1 u = Some name"
    "tbl_inv s" "validate_oflags oflags" "\<not> has oflags O_TMPFILE" "\<not> (type = CONSOLE_HANDLE \<and> has oflags O_RDWR)"
    "NtCreateFile nt k (open_args type name oflags (if has oflags O_CREAT then perm else 0)) = (STATUS_SUCCESS, h, k1)" "h \<noteq> 0"
    "type = FILE_HANDLE \<longrightarrow> acceptable nt oflags h k1 attrs"
  shows "\<exists>k2. wlibc_common_open nt e (bounded_heap heap) junk dirfd (Some path) oflags perm p s k = Some (fail_with ENOMEM, p1, s, k2) \<and> needs_memory heap s
    \<or> (\<exists>fd s' q. wlibc_common_open nt e (bounded_heap heap) junk dirfd (Some path) oflags perm p s k = Some (Inr fd, p1, s', k2) \<and> tbl_inv s' \<and> 0 \<le> fd
      \<and> fd_lookup s fd = None \<and> (\<forall>i. 0 \<le> i \<longrightarrow> i < fd \<longrightarrow> fd_lookup s i \<noteq> None)
      \<and> fd_lookup s' = (fd_lookup s)(fd \<mapsto> \<lparr>handle = h, htype = opened_type type attrs, flags = oflags, sequence = q\<rparr>))"
proof -
  obtain k2 where d: "do_os_open nt (e\<lparr>p_fds := s\<rparr>) dirfd path oflags (if has oflags O_CREAT then perm else 0) INVALID_HANDLE p k
      = Some (Inr (h, opened_type type attrs), p1, k2)"
    using object_opens [OF assms(3,4,7-9,11)] by blast
  show ?thesis by (rule exI [of _ k2]) (rule open_registers [OF assms(1,2) d assms(10,5-7)])
qed

text \<open>A file on a drive: the name is its device and its resolved components.\<close>

theorem open_drive_file:
  assumes "drive_request e path v d cs" "devices_ok e p" "0 < path_components_size p" "tbl_inv s" "validate_oflags oflags" "\<not> has oflags O_TMPFILE"
    "NtCreateFile nt k (open_args FILE_HANDLE (nt_text d (resolve [] cs)) oflags (if has oflags O_CREAT then perm else 0)) = (STATUS_SUCCESS, h, k1)" "h \<noteq> 0"
    "acceptable nt oflags h k1 attrs"
  shows "\<exists>p1 k2. wlibc_common_open nt e (bounded_heap heap) junk dirfd (Some path) oflags perm p s k = Some (fail_with ENOMEM, p1, s, k2) \<and> needs_memory heap s
    \<or> (\<exists>fd s' q. wlibc_common_open nt e (bounded_heap heap) junk dirfd (Some path) oflags perm p s k = Some (Inr fd, p1, s', k2) \<and> tbl_inv s' \<and> 0 \<le> fd
      \<and> fd_lookup s fd = None \<and> (\<forall>i. 0 \<le> i \<longrightarrow> i < fd \<longrightarrow> fd_lookup s i \<noteq> None)
      \<and> fd_lookup s' = (fd_lookup s)(fd \<mapsto> \<lparr>handle = h, htype = opened_type FILE_HANDLE attrs, flags = oflags, sequence = q\<rparr>))"
proof -
  let ?e = "e\<lparr>p_fds := s\<rparr>" and ?n = "nt_text d (resolve [] cs)"
  obtain u ds m zs where r: "get_absolute_ntpath2 ?e dirfd path INVALID_HANDLE p = Some (Inr u, FILE_HANDLE, p\<lparr>devices := ds, path_components_size := m\<rparr>)"
      "us_Buffer u = Chars (?n @ 0 # zs)" "us_Length u = of_nat (2 * length ?n)" "2 * length ?n < 65536"
    using drive_request_runs [of ?e path v d cs p dirfd INVALID_HANDLE] assms(1-3) by auto
  let ?p = "p\<lparr>devices := ds, path_components_size := m\<rparr>"
  have "text_of ?p u = Some ?n" by (rule text_of_chars [OF r(2-4)])
  then obtain k2 where d: "do_os_open nt ?e dirfd path oflags (if has oflags O_CREAT then perm else 0) INVALID_HANDLE p k
      = Some (Inr (h, opened_type FILE_HANDLE attrs), ?p, k2)"
    using object_opens [OF r(1) _ assms(6) _ assms(7), of attrs] assms(9) by auto
  have a: "path \<noteq> []" "IS_ABSOLUTE_PATH path \<or> validate_dirfd dirfd s = Some (Inr ())"
    using drive_absolute [of path v] assms(1) by (simp_all add: drive_request_def)
  show ?thesis by (rule exI [of _ ?p], rule exI [of _ k2]) (rule open_registers [OF a d assms(8,4-6)])
qed

text \<open>A kernel that grants every request and counts the handles in use.\<close>

definition granting :: "nat nt_open" where
  "granting = \<lparr>NtClose = \<lambda>k h. (STATUS_SUCCESS, k - 1), NtDuplicateObject = \<lambda>k h b. (STATUS_SUCCESS, h, k + 1), NtQueryPosition = \<lambda>k h. (STATUS_SUCCESS, 0),
     NtQueryEndOfFile = \<lambda>k h. (STATUS_SUCCESS, 0), NtSetPosition = \<lambda>k h n. (STATUS_SUCCESS, k), NtReadFile = \<lambda>k h n. (STATUS_SUCCESS, [], k),
     NtWriteFile = \<lambda>k h b d. (STATUS_SUCCESS, length d, k), NtCreateFile = \<lambda>k a. (STATUS_SUCCESS, 0x40, k + 1), NtQueryTag = \<lambda>k h. (STATUS_SUCCESS, 0),
     NtQueryBasic = \<lambda>k h. STATUS_SUCCESS, NtSetLastAccess = \<lambda>k h. (STATUS_SUCCESS, k), rand_s = \<lambda>k. (0, k)\<rparr>"

definition empty_table :: fd_state where
  "empty_table = \<lparr>fd_table = replicate 4 \<lparr>handle = 0, htype = INVALID_HANDLE, flags = 0, sequence = 0\<rparr>, fd_table_size = 4, fd_sequence = 0, std_handle = \<lambda>_. 0\<rparr>"

theorem disposition_follows_flags_witness:
  "creates_missing (determine_create_dispostion 0x101) \<and> accepts_existing (determine_create_dispostion 0x101)
    \<and> \<not> empties_existing (determine_create_dispostion 0x101)"
  using disposition_follows_flags [of "0x101"] by (simp add: has_def O_TMPFILE_def O_CREAT_def O_EXCL_def O_TRUNC_def)

text \<open>\<open>/dev/null\<close> for writing.\<close>

theorem open_fills_lowest_descriptor_witness:
  "\<exists>k2 fd s' q. wlibc_common_open granting sample_env (bounded_heap (\<lambda>_. True)) (\<lambda>_. p_info sample_env) AT_FDCWD (Some (bytes_of ''/dev/null'')) 0x1 0
        path_start empty_table 0
      = Some (Inr fd, path_start, s', k2) \<and> tbl_inv s' \<and> 0 \<le> fd \<and> fd_lookup empty_table fd = None \<and> (\<forall>i. 0 \<le> i \<longrightarrow> i < fd \<longrightarrow> fd_lookup empty_table i \<noteq> None)
      \<and> fd_lookup s' = (fd_lookup empty_table)(fd \<mapsto> \<lparr>handle = 0x40, htype = NULL_HANDLE, flags = 0x1, sequence = q\<rparr>)"
proof -
  have "tbl_inv empty_table" "validate_oflags 0x1" "\<not> has 0x1 O_TMPFILE"
    by (simp_all add: tbl_inv_def empty_table_def validate_oflags_def has_def O_CREAT_def O_DIRECTORY_def O_TMPFILE_def)
  moreover have "NtCreateFile granting 0 a = (STATUS_SUCCESS, 0x40, 1)" for a by (simp add: granting_def)
  moreover have "\<not> needs_memory (\<lambda>_. True) empty_table" by (simp add: needs_memory_def bounded_heap_def empty_table_def)
  moreover have "IS_ABSOLUTE_PATH (bytes_of ''/dev/null'')" "bytes_of ''/dev/null'' \<noteq> []" by code_simp+
  moreover have "get_absolute_ntpath2 (sample_env\<lparr>p_fds := empty_table\<rparr>) AT_FDCWD (bytes_of ''/dev/null'') INVALID_HANDLE path_start
      = Some (Inr \<lparr>us_Length = 24, us_MaximumLength = 24, us_Buffer = Chars (nt_name [''Device'', ''Null''] @ [0])\<rparr>, NULL_HANDLE, path_start)"
    by (simp add: get_absolute_ntpath2_def IS_ROOT_PATH_def ch_def posix_device_def bytes_of_def static_path_def sample_env_def nt_name_def wide_def Let_def)
  moreover have "text_of path_start \<lparr>us_Length = 24, us_MaximumLength = 24, us_Buffer = Chars (nt_name [''Device'', ''Null''] @ [0])\<rparr>
      = Some (nt_name [''Device'', ''Null''])" by code_simp
  ultimately show ?thesis
    using open_fills_lowest_descriptor [of "bytes_of ''/dev/null''" AT_FDCWD empty_table sample_env path_start _ NULL_HANDLE path_start
      "nt_name [''Device'', ''Null'']" 1 granting 0 0 "0x40" 1 0 "\<lambda>_. True" "\<lambda>_. p_info sample_env"] by (simp add: opened_type_def)
qed

section \<open>Deviations\<close>

text \<open>\<open>open("/")\<close> registers a descriptor of the type INVALID_HANDLE, which every later call rejects.\<close>

theorem open_root_is_unusable:
  "map_option (\<lambda>(r, _, s, _). (r, map_option htype (load_fd 0 s)))
      (wlibc_common_open granting sample_env (\<lambda>_. True) (\<lambda>_. p_info sample_env) 0 (Some [0x2F]) 0 0 path_start empty_table 0)
    = Some (Inr 0, Some INVALID_HANDLE)"
  by code_simp

text \<open>When the table cannot grow the opened handle is not closed: one handle stays in use.\<close>

theorem open_leaks_handle_without_memory:
  "map_option (\<lambda>(r, _, _, k). (r, k))
      (wlibc_common_open granting sample_env (\<lambda>_. False) (\<lambda>_. p_info sample_env) 0 (Some sample_path) 0 0 path_start
        (empty_table\<lparr>fd_table := [\<lparr>handle = 4, htype = FILE_HANDLE, flags = 0, sequence = 1\<rparr>], fd_table_size := 1\<rparr>) 0)
    = Some (fail_with ENOMEM, 1)"
  by code_simp

end
