(* ===== verification/Spec2Isabelle.thy ===== *)
theory Spec2Isabelle
  imports BitSets ErrorMap Inherit FdOps StreamKernel ConvertProps Unicode ThreadProps SignalProps CondVar RwLock ProcTable
    VarArgs PrintfIO ScanfProps GetOptProps CmdLineProps OpenProps
begin

text \<open>
  Verification of windows-libc, a POSIX C library on top of the native Windows kernel interface.

  \<^bold>\<open>The program.\<close> The library keeps its own state beside the kernel's: a table of file descriptors that
  maps small integers to kernel handles, buffered streams on top of descriptors, a table of child
  processes, per-thread structures with keys, cleanup routines and signal masks, mutexes, condition
  variables and read-write locks built from kernel objects, and a signal table. Text conversion
  (numbers, Unicode) is written from scratch. Kernel calls are parameters of the definitions that use
  them; what a theorem relies on of them is a hypothesis or an assumption of a locale, and every such
  theorem has a witness over a concrete kernel.

  \<^bold>\<open>Theories and sources.\<close> Below src/ of the repository:
  \<^item> \<open>Prelude\<close>: errno, results, undefined behaviour as \<open>None\<close>, array access, bit and byte lemmas.
  \<^item> \<open>BitSets\<close>: CPU sets (src/sched/cpuset.c), descriptor sets (src/poll/fdset.c), signal sets
    (src/signal/sigprocmask.c); each refines a set of numbers.
  \<^item> \<open>ErrorMap\<close>: src/internal/error.c.
  \<^item> \<open>FdTable\<close>, \<open>FdOps\<close>, \<open>Inherit\<close>: the descriptor table (src/fcntl/internal.c), the calls on it
    (src/unistd/close.c, dup.c, lseek.c, read.c, write.c, src/fcntl/fcntl.c) and the block that hands
    descriptors to a child (src/spawn/spawn.c). The table refines a partial map with lowest-free
    allocation; the block round-trips.
  \<^item> \<open>Stream\<close>, \<open>StreamProps\<close>, \<open>StreamKernel\<close>: \<open>FILE\<close> and src/stdio/fread.c, fwrite.c, fflush.c, fseek.c,
    ftell.c, ungetc.c, fgetc.c, fputc.c, fputs.c, fgets.c, getdelim.c. \<open>StreamProps\<close> states what a
    stream needs of its descriptor as the locales \<open>byte_sink\<close> and \<open>byte_source\<close>; \<open>StreamKernel\<close> shows
    that the library's own read and write meet them over a kernel that keeps its contract.
  \<^item> \<open>Buffer\<close>, \<open>VarArgs\<close>, \<open>Convert\<close>, \<open>ConvertProps\<close>, \<open>FloatText\<close>, \<open>FloatRead\<close>, \<open>Unicode\<close>, \<open>TimeSpec\<close>:
    byte buffers (include/internal/buffer.h, src/internal/buffer.c), the cache of variadic arguments
    (include/internal/varargs.h) and the conversions of src/internal/convert.c, with round trips.
  \<^item> \<open>Printf\<close>, \<open>PrintfField\<close>, \<open>PrintfParse\<close>, \<open>PrintfProps\<close>, \<open>PrintfIO\<close>: src/stdio/printf.c. \<open>PrintfProps\<close> gives the
    text that the C standard prescribes for a format and shows that the format loop writes it, to any
    buffer that takes it; \<open>PrintfIO\<close> composes the loop with streams and descriptors down to the file.
  \<^item> \<open>Scanf\<close>, \<open>ScanfProps\<close>: src/stdio/scanf.c; what printf prints, sscanf with the same format reads back.
  \<^item> \<open>GetOpt\<close>, \<open>GetOptProps\<close>: src/getopt/getopt.c; a command line of options and operands is delivered in order.
  \<^item> \<open>Path\<close>, \<open>PathProps\<close>: src/internal/path.c; a path is its device and its components resolved against a stack,
    and DOS paths are normal forms that translate back.
  \<^item> \<open>Open\<close>, \<open>OpenProps\<close>: src/fcntl/open.c; open composes path translation, the flags and the descriptor table.
  \<^item> \<open>CmdLine\<close>, \<open>CmdLineProps\<close>: the command line and environment block of src/spawn/spawn.c; a child that reads
    its command line by the documented rules gets the arguments back.
  \<^item> \<open>Threads\<close>, \<open>Sched\<close>, \<open>ThreadProps\<close>: src/thread/thread.c, key.c, internal.c and src/sched.
  \<^item> \<open>Signals\<close>, \<open>SignalProps\<close>: src/signal.
  \<^item> \<open>Mutex\<close>, \<open>MutexProps\<close>, \<open>CondVar\<close>, \<open>RwLock\<close>: src/thread/mutex.c, cond.c, rwlock.c; whole calls refine
    abstract locks, and interleavings of their atomic accesses are a step relation.
  \<^item> \<open>ProcTable\<close>: src/spawn/internal.c; the table refines a partial map from process ids to handles.

  \<^bold>\<open>Loops.\<close> A loop is a recursive function with a measure, or \<open>for_from\<close> with its number of rounds. The
  loops that need not end are \<open>partial_function (option)\<close>: \<open>grow\<close> (sizes wrap), \<open>fwrite_direct\<close>,
  \<open>execute_cleanup_loop\<close> and \<open>broadcast_loop\<close> (driven by callbacks and by the queue), \<open>getopt_loop\<close>,
  \<open>poll_lock\<close> (ends with the
  clock); the theorems about them state that they return. Signal handlers are scripts nested to any
  given depth.

  \<^bold>\<open>Not modelled.\<close> Functions that only translate arguments for one kernel call (file status, access
  control, users and groups, terminals, memory mapping), the allocator and the loader.
\<close>

end
